(* ===== verification/Prelude.thy ===== *)
theory Prelude
  imports Main "HOL-Library.Word"
begin

unbundle bit_operations_syntax

text \<open>
  Shared vocabulary of the development: the machine types of the C sources, C strings, buffer
  updates, and the interfaces (locales) that several components implement:
  \<^item> \<open>codec\<close>: a fixed-width field encoder with its decoder;
  \<^item> \<open>chunk_sink\<close>: a consumer that does not care how its input is split into chunks;
  \<^item> \<open>exact_reader\<close>: a reader that delivers exactly the number of elements asked for, in order;
  \<^item> \<open>guarded_machine\<close>: operations that either fail or keep an invariant.
\<close>

section \<open>Machine types\<close>

type_synonym byte = "8 word"
type_synonym u16 = "16 word"
type_synonym u32 = "32 word"
type_synonym u64 = "64 word"

named_theorems wire_simps \<open>equations that evaluate encoders and decoders of wire fields\<close>

text \<open>The bytes of a C string literal (without its terminator).\<close>

definition ascii :: "string \<Rightarrow> byte list" where
  "ascii s = map of_char s"

lemma length_ascii [simp]: "length (ascii s) = length s"
  by (simp add: ascii_def)

lemma ascii_append: "ascii (s @ t) = ascii s @ ascii t"
  by (simp add: ascii_def)

section \<open>32-bit values in 64-bit arithmetic\<close>

lemma unat_u64_u32 [simp]: "unat (ucast (w :: u32) :: u64) = unat w"
  by (simp add: unsigned_ucast_eq take_bit_nat_eq_self order_less_le_trans [OF unsigned_less])

lemma unat_u32_bound: "unat (w :: u32) < 4294967296"
  using unsigned_less [of w] by simp

lemma unat_minus: "unat b \<le> unat a \<Longrightarrow> unat (a - b :: u32) = unat a - unat b"
  by (simp add: unat_sub word_le_nat_alt)

lemma unat_plus: "unat a + unat b < 4294967296 \<Longrightarrow> unat (a + b :: u32) = unat a + unat b"
  by (simp add: unat_word_ariths(1))

lemma area64:
  assumes "unat (w :: u32) \<le> 32768" "unat (h :: u32) \<le> 32768"
  shows "unat ((ucast w :: u64) * ucast h * 4) = 4 * unat w * unat h"
    and "unat ((ucast w :: u64) * ucast h * 4 + 4) = 4 * unat w * unat h + 4"
proof -
  define m where "m = unat w * unat h"
  have m: "m \<le> 32768 * 32768" unfolding m_def using assms by (rule mult_le_mono)
  have e1: "unat ((ucast w :: u64) * ucast h) = m"
    using m by (simp add: unat_word_ariths(2) m_def [symmetric])
  have e2: "unat ((ucast w :: u64) * ucast h * 4) = 4 * m"
    using m by (simp add: unat_word_ariths(2) [of _ 4] e1)
  show "unat ((ucast w :: u64) * ucast h * 4) = 4 * unat w * unat h"
    using e2 by (simp add: m_def)
  show "unat ((ucast w :: u64) * ucast h * 4 + 4) = 4 * unat w * unat h + 4"
  proof -
    have "(4 * m + 4) mod 18446744073709551616 = 4 * m + 4" using m by simp
    then show ?thesis by (simp add: unat_word_ariths(1) e2) (simp add: m_def)
  qed
qed

lemma product17: "unat ((ucast (w :: u32) :: u64) * 17) = unat w * 17"
proof -
  have "unat w < 4294967296" using unsigned_less [of w] by simp
  then show ?thesis by (simp add: unat_word_ariths(2))
qed

lemma u64_eq_ucast: "(x :: u64) = ucast (a :: u32) \<longleftrightarrow> unat x = unat a"
  by (metis unat_u64_u32 word_unat_eq_iff)

lemma unat_gt_0_u32: "0 < unat (w :: u32) \<longleftrightarrow> w \<noteq> 0"
  by (simp add: unat_gt_0)

lemma sint_small: "unat (w :: u32) \<le> 32768 \<Longrightarrow> sint w = int (unat w)"
proof -
  assume "unat w \<le> 32768"
  then have "uint w \<le> 32768" unfolding uint_nat by linarith
  moreover have "- (2 ^ 31) \<le> uint w" by (rule order_trans [of _ 0]) simp_all
  ultimately have "signed_take_bit 31 (uint w) = uint w"
    by (intro signed_take_bit_int_eq_self) simp_all
  moreover have "sint w = signed_take_bit 31 (uint w)" by (simp only: sint_uint) simp
  ultimately show ?thesis by (simp only: uint_nat)
qed

lemma unat_plus_one: "w \<noteq> - 1 \<Longrightarrow> unat (w + 1 :: 'a :: len word) = unat w + 1"
  by (metis add.commute add.inverse_inverse add_eq_0_iff unatSuc Suc_eq_plus1)

section \<open>Buffers\<close>

text \<open>\<open>blit off bs buf\<close> is \<open>memcpy(buf + off, bs, |bs|)\<close> for a range inside the buffer.\<close>

definition blit :: "nat \<Rightarrow> 'a list \<Rightarrow> 'a list \<Rightarrow> 'a list" where
  "blit off bs buf = take off buf @ bs @ drop (off + length bs) buf"

lemma length_blit [simp]: "off + length bs \<le> length buf \<Longrightarrow> length (blit off bs buf) = length buf"
  by (simp add: blit_def)

lemma take_blit:
  "off + length bs \<le> length buf \<Longrightarrow> take (off + length bs) (blit off bs buf) = take off buf @ bs"
  by (simp add: blit_def)

lemma blit_append:
  "off + length (xs @ ys) \<le> length buf \<Longrightarrow>
   blit (off + length xs) ys (blit off xs buf) = blit off (xs @ ys) buf"
  by (simp add: blit_def ac_simps)

lemma blit_Nil [simp]: "off \<le> length buf \<Longrightarrow> blit off [] buf = buf"
  by (simp add: blit_def)

lemma take_drop_length: "take m xs @ drop (length (take m xs)) xs = xs"
  by (cases "m \<le> length xs") auto

section \<open>Interface: fixed-width fields\<close>

locale codec =
  fixes put :: "'a \<Rightarrow> byte list"
    and get :: "byte list \<Rightarrow> 'a"
    and width :: nat
  assumes put_length: "length (put x) = width"
    and get_put: "get (put x @ rest) = x"
begin

lemma get_put_alone: "get (put x) = x"
  using get_put [of x "[]"] by simp

lemma put_inject: "put x = put y \<longleftrightarrow> x = y"
  using get_put_alone by metis

lemma get_after: "length pre = n \<Longrightarrow> get (drop n (pre @ put x @ rest)) = x"
  by (simp add: get_put)

lemma concat_length: "length (concat (map put xs)) = length xs * width"
  by (induction xs) (simp_all add: put_length)

lemma get_nth: "k < length xs \<Longrightarrow> get (drop (k * width) (concat (map put xs) @ rest)) = xs ! k"
proof (induction xs arbitrary: k)
  case Nil
  then show ?case by simp
next
  case (Cons x xs)
  then show ?case by (cases k) (simp_all add: get_put put_length)
qed

end

section \<open>Interface: self-delimiting items\<close>

text \<open>Reading \<open>n\<close> items one after the other; None as soon as one is malformed.\<close>

fun get_many :: "('b list \<Rightarrow> ('a \<times> 'b list) option) \<Rightarrow> nat \<Rightarrow> 'b list \<Rightarrow> ('a list \<times> 'b list) option" where
  "get_many get 0 bs = Some ([], bs)"
| "get_many get (Suc n) bs =
     (case get bs of
        None \<Rightarrow> None
      | Some (x, rest) \<Rightarrow> map_option (\<lambda>(xs, r). (x # xs, r)) (get_many get n rest))"

locale item_codec =
  fixes put :: "'a \<Rightarrow> 'b list"
    and get :: "'b list \<Rightarrow> ('a \<times> 'b list) option"
    and valid :: "'a \<Rightarrow> bool"
  assumes item_get_put: "valid x \<Longrightarrow> get (put x @ rest) = Some (x, rest)"
    and item_put_get: "get bs = Some (x, rest) \<Longrightarrow> bs = put x @ rest \<and> valid x"
begin

lemma get_many_put:
  "\<forall>x\<in>set xs. valid x \<Longrightarrow> get_many get (length xs) (concat (map put xs) @ rest) = Some (xs, rest)"
  by (induction xs) (auto simp: item_get_put)

lemma get_many_sound:
  "get_many get n bs = Some (xs, rest) \<Longrightarrow>
   bs = concat (map put xs) @ rest \<and> length xs = n \<and> (\<forall>x\<in>set xs. valid x)"
  by (induction n arbitrary: bs xs) (auto split: option.splits dest!: item_put_get)

lemma unique_items:
  "\<forall>x\<in>set xs. valid x \<Longrightarrow> \<forall>y\<in>set ys. valid y \<Longrightarrow> length xs = length ys \<Longrightarrow>
   concat (map put xs) = concat (map put ys) \<Longrightarrow> xs = ys"
  using get_many_put [of xs "[]"] get_many_put [of ys "[]"] by auto

end

section \<open>Interface: consumers of chunked input\<close>

text \<open>Feeding the chunks of a stream one after the other, stopping at the first refusal.\<close>

fun feed_chunks :: "('s \<Rightarrow> 'b list \<Rightarrow> 's option) \<Rightarrow> 's \<Rightarrow> 'b list list \<Rightarrow> 's option" where
  "feed_chunks feed s [] = Some s"
| "feed_chunks feed s (c # cs) =
     (case feed s c of None \<Rightarrow> None | Some s' \<Rightarrow> feed_chunks feed s' cs)"

locale chunk_sink =
  fixes feed :: "'s \<Rightarrow> 'b list \<Rightarrow> 's option"
  assumes feed_Nil: "feed s [] = Some s"
    and feed_append:
      "feed s (xs @ ys) = (case feed s xs of None \<Rightarrow> None | Some s' \<Rightarrow> feed s' ys)"
begin

lemma feed_chunks_concat: "feed_chunks feed s cs = feed s (concat cs)"
  by (induction cs arbitrary: s) (auto simp: feed_Nil feed_append split: option.splits)

lemma chunking_irrelevant:
  "concat cs = concat ds \<Longrightarrow> feed_chunks feed s cs = feed_chunks feed s ds"
  by (simp add: feed_chunks_concat)

lemma feed_prefix: "feed s (xs @ ys) = Some s' \<Longrightarrow> \<exists>t. feed s xs = Some t \<and> feed t ys = Some s'"
  by (auto simp: feed_append split: option.splits)

end

section \<open>Interface: readers that return exactly what was asked for\<close>

locale exact_reader =
  fixes read :: "'w \<Rightarrow> nat \<Rightarrow> ('b list \<times> 'w) option"
    and pending :: "'w \<Rightarrow> 'b list"
  assumes read_exact: "read w n = Some (bs, w') \<Longrightarrow> length bs = n \<and> pending w = bs @ pending w'"
begin

lemma read_length: "read w n = Some (bs, w') \<Longrightarrow> length bs = n"
  by (simp add: read_exact)

lemma read_take: "read w n = Some (bs, w') \<Longrightarrow> bs = take n (pending w)"
  using read_exact by fastforce

lemma read_drop: "read w n = Some (bs, w') \<Longrightarrow> pending w' = drop n (pending w)"
  using read_exact by fastforce

lemma read_twice:
  "read w m = Some (bs, w1) \<Longrightarrow> read w1 n = Some (cs, w2) \<Longrightarrow>
   bs @ cs = take (m + n) (pending w) \<and> pending w2 = drop (m + n) (pending w)"
  using read_exact [of w m bs w1] read_exact [of w1 n cs w2] by auto

end

section \<open>Interface: guarded operations\<close>

text \<open>Performing a list of operations, each of which may fail with an error.\<close>

fun perform :: "('o \<Rightarrow> 's \<Rightarrow> 'e + 's) \<Rightarrow> 'o list \<Rightarrow> 's \<Rightarrow> 'e + 's" where
  "perform step [] s = Inr s"
| "perform step (x # xs) s =
     (case step x s of Inl e \<Rightarrow> Inl e | Inr s' \<Rightarrow> perform step xs s')"

lemma perform_append:
  "perform step (xs @ ys) s = 
     (case perform step xs s of Inl e \<Rightarrow> Inl e | Inr t \<Rightarrow> perform step ys t)"
  by (induction xs arbitrary: s) (auto split: sum.splits)

lemma perform_cong: "\<forall>x\<in>set xs. f x = g x \<Longrightarrow> perform f xs s = perform g xs s"
  by (induction xs arbitrary: s) (auto split: sum.splits)

locale guarded_machine =
  fixes step :: "'o \<Rightarrow> 's \<Rightarrow> 'e + 's"
    and inv :: "'s \<Rightarrow> bool"
  assumes step_inv: "inv s \<Longrightarrow> step x s = Inr s' \<Longrightarrow> inv s'"
begin

lemma perform_inv: "inv s \<Longrightarrow> perform step xs s = Inr s' \<Longrightarrow> inv s'"
proof (induction xs arbitrary: s)
  case Nil
  then show ?case by simp
next
  case (Cons x xs)
  then obtain s1 where "step x s = Inr s1" and rest: "perform step xs s1 = Inr s'"
    by (auto split: sum.splits)
  with Cons.prems have "inv s1" by (blast intro: step_inv)
  then show ?case using rest by (rule Cons.IH)
qed

text \<open>A run that stops does so in a state that still satisfied the invariant.\<close>

lemma perform_stop:
  "inv s \<Longrightarrow> perform step xs s = Inl e \<Longrightarrow> \<exists>x t. x \<in> set xs \<and> inv t \<and> step x t = Inl e"
proof (induction xs arbitrary: s)
  case Nil
  then show ?case by simp
next
  case (Cons x xs)
  show ?case
  proof (cases "step x s")
    case (Inl d)
    then show ?thesis using Cons.prems by (intro exI [of _ x] exI [of _ s]) simp
  next
    case (Inr s1)
    then have "inv s1" "perform step xs s1 = Inl e"
      using Cons.prems by (auto intro: step_inv)
    then show ?thesis using Cons.IH by fastforce
  qed
qed

end

end
