(* ===== verification/Wire.thy ===== *)
theory Wire
  imports Prelude
begin

text \<open>
  The wire integers of the decoder transport (\<open>app/decoder_ipc.h\<close>): four little-endian bytes per
  32-bit field, and the limits every decoder and its client share.
\<close>

section \<open>Limits\<close>

definition WN_IMAGE_INPUT_MAX :: u32 where "WN_IMAGE_INPUT_MAX = 128 * 1024 * 1024"
definition WN_IMAGE_OUTPUT_MAX :: u32 where "WN_IMAGE_OUTPUT_MAX = 256 * 1024 * 1024"
definition WN_IMAGE_DIM_MAX :: u32 where "WN_IMAGE_DIM_MAX = 32768"
definition WN_IMAGE_SECONDS :: nat where "WN_IMAGE_SECONDS = 10"
definition WN_IMAGE_HEADER :: nat where "WN_IMAGE_HEADER = 16"
definition WN_ARCHIVE_INPUT_MAX :: u32 where "WN_ARCHIVE_INPUT_MAX = WN_IMAGE_INPUT_MAX"
definition WN_ARCHIVE_ENTRY_MAX :: u32 where "WN_ARCHIVE_ENTRY_MAX = 64 * 1024 * 1024"
definition WN_ARCHIVE_LIST_MAX :: u32 where "WN_ARCHIVE_LIST_MAX = 8 * 1024 * 1024"
definition WN_ARCHIVE_COUNT_MAX :: u32 where "WN_ARCHIVE_COUNT_MAX = 2000"
definition WN_ARCHIVE_SCAN_MAX :: u32 where "WN_ARCHIVE_SCAN_MAX = 65536"
definition WN_ARCHIVE_NAME_MAX :: u32 where "WN_ARCHIVE_NAME_MAX = 4096"
definition WN_PDF_INPUT_MAX :: u32 where "WN_PDF_INPUT_MAX = WN_IMAGE_INPUT_MAX"
definition WN_PDF_OUTPUT_MAX :: u32 where "WN_PDF_OUTPUT_MAX = 64 * 1024 * 1024"
definition WN_PDF_DIM_MAX :: u32 where "WN_PDF_DIM_MAX = 32768"
definition WN_PDF_PAGES_MAX :: u32 where "WN_PDF_PAGES_MAX = 10000"
definition WN_MODEL_INPUT_MAX :: u32 where "WN_MODEL_INPUT_MAX = WN_IMAGE_INPUT_MAX"
definition WN_MODEL_OUTPUT_MAX :: u32 where "WN_MODEL_OUTPUT_MAX = 512 * 1024 * 1024"
definition WN_MATH_INPUT_MAX :: u32 where "WN_MATH_INPUT_MAX = 4096"
definition WN_MATH_DIM_MAX :: u32 where "WN_MATH_DIM_MAX = 4096"
definition WN_MATH_OUTPUT_MAX :: u32 where "WN_MATH_OUTPUT_MAX = 8 * 1024 * 1024"
definition WN_MATH_REQUEST_HEADER :: nat where "WN_MATH_REQUEST_HEADER = 24"

lemmas limit_defs =
  WN_IMAGE_INPUT_MAX_def WN_IMAGE_OUTPUT_MAX_def WN_IMAGE_DIM_MAX_def WN_IMAGE_SECONDS_def
  WN_IMAGE_HEADER_def WN_ARCHIVE_INPUT_MAX_def WN_ARCHIVE_ENTRY_MAX_def WN_ARCHIVE_LIST_MAX_def
  WN_ARCHIVE_COUNT_MAX_def WN_ARCHIVE_SCAN_MAX_def WN_ARCHIVE_NAME_MAX_def WN_PDF_INPUT_MAX_def
  WN_PDF_OUTPUT_MAX_def WN_PDF_DIM_MAX_def WN_PDF_PAGES_MAX_def WN_MODEL_INPUT_MAX_def
  WN_MODEL_OUTPUT_MAX_def WN_MATH_INPUT_MAX_def WN_MATH_DIM_MAX_def WN_MATH_OUTPUT_MAX_def
  WN_MATH_REQUEST_HEADER_def

section \<open>Little-endian fields\<close>

definition wn_image_u32 :: "byte list \<Rightarrow> u32" where
  "wn_image_u32 p =
     ucast (p ! 0) OR push_bit 8 (ucast (p ! 1)) OR push_bit 16 (ucast (p ! 2)) OR
     push_bit 24 (ucast (p ! 3))"

definition wn_image_put :: "u32 \<Rightarrow> byte list" where
  "wn_image_put n = [ucast n, ucast (drop_bit 8 n), ucast (drop_bit 16 n), ucast (drop_bit 24 n)]"

lemma length_wn_image_put [simp]: "length (wn_image_put n) = 4"
  by (simp add: wn_image_put_def)

lemma wn_image_u32_put: "wn_image_u32 (wn_image_put n @ rest) = n"
proof (rule bit_word_eqI)
  fix k assume "k < LENGTH(32)"
  then consider "k < 8" | "8 \<le> k" "k < 16" | "16 \<le> k" "k < 24" | "24 \<le> k" "k < 32"
    by fastforce
  then show "bit (wn_image_u32 (wn_image_put n @ rest)) k \<longleftrightarrow> bit n k"
    by cases (auto simp: wn_image_u32_def wn_image_put_def bit_simps nth_append)
qed

interpretation le32: codec wn_image_put wn_image_u32 4
  by unfold_locales (simp_all add: wn_image_u32_put)

declare wn_image_u32_put [wire_simps] le32.get_put_alone [wire_simps]

text \<open>Only the first four bytes of a field are read.\<close>

lemma wn_image_u32_take: "4 \<le> n \<Longrightarrow> wn_image_u32 (take n bs) = wn_image_u32 bs"
  by (simp add: wn_image_u32_def)

lemma wn_image_u32_append: "4 \<le> length xs \<Longrightarrow> wn_image_u32 (xs @ ys) = wn_image_u32 xs"
proof -
  assume "4 \<le> length xs"
  then have "(xs @ ys) ! k = xs ! k" if "k < 4" for k
    using that by (simp add: nth_append)
  then show ?thesis by (simp add: wn_image_u32_def)
qed

lemma wn_image_put_u32: "length p = 4 \<Longrightarrow> wn_image_put (wn_image_u32 p) = p"
proof -
  assume "length p = 4"
  then obtain a b c d where p: "p = [a, b, c, d]"
    by (auto simp: length_Suc_conv eval_nat_numeral)
  have "ucast (wn_image_u32 p) = a" "ucast (drop_bit 8 (wn_image_u32 p)) = b"
    "ucast (drop_bit 16 (wn_image_u32 p)) = c" "ucast (drop_bit 24 (wn_image_u32 p)) = d"
    unfolding p wn_image_u32_def by (rule bit_word_eqI; auto simp: bit_simps dest: bit_imp_le_length)+
  then show ?thesis by (simp add: wn_image_put_def p)
qed

end
