(* ===== verification/Decoder_Reply.thy ===== *)
theory Decoder_Reply
  imports Wire
begin

text \<open>
  The reply side of the decoder transport (\<open>app/decoder_ipc.c\<close>, lines 40-165): the state
  \<open>struct image_reply\<close>, where the next received bytes go (\<open>image_buffer\<close>), the validation of the
  16-byte header (\<open>decoder_header\<close>), the bookkeeping after each receive (\<open>image_received\<close>) and the
  completeness test (\<open>image_complete\<close>).

  \<open>malloc\<close> is a parameter \<open>nat \<Rightarrow> byte list option\<close>: None is a failed allocation and
  \<open>Some buf\<close> a fresh buffer with arbitrary contents. What the code relies on is \<open>malloc_ok\<close>: a
  successful allocation has the requested length.
\<close>

section \<open>State\<close>

datatype decoder_kind =
  DECODER_IMAGE | DECODER_ARCHIVE | DECODER_PDF | DECODER_MESH | DECODER_MODEL | DECODER_MATH

datatype archive_op = WN_ARCHIVE_LIST | WN_ARCHIVE_ENTRY

record image_reply =
  r_header :: "byte list"
  r_page_header :: "byte list"
  r_extra :: byte
  r_pixels :: "byte list option"
  r_received :: nat
  r_bytes :: u32
  r_width :: u32
  r_height :: u32
  r_dimension :: u32
  r_cap :: u32
  r_kind :: decoder_kind
  r_op :: archive_op
  r_index :: u32
  r_count :: u32
  r_target_height :: u32
  r_sequence :: u32
  r_borrowed :: bool

text \<open>\<open>struct image_reply reply = {0}\<close>: enum constants with value 0 come first.\<close>

definition zero_reply :: image_reply where
  "zero_reply =
     \<lparr>r_header = replicate 16 0, r_page_header = replicate 4 0, r_extra = 0, r_pixels = None,
      r_received = 0, r_bytes = 0, r_width = 0, r_height = 0, r_dimension = 0, r_cap = 0,
      r_kind = DECODER_IMAGE, r_op = WN_ARCHIVE_LIST, r_index = 0, r_count = 0,
      r_target_height = 0, r_sequence = 0, r_borrowed = False\<rparr>"

definition malloc_ok :: "(nat \<Rightarrow> byte list option) \<Rightarrow> bool" where
  "malloc_ok malloc \<longleftrightarrow> (\<forall>n buf. malloc n = Some buf \<longrightarrow> length buf = n)"

section \<open>Where received bytes go\<close>

text \<open>The pointer \<open>image_buffer\<close> returns: an object and an offset into it.\<close>

datatype slice = Header_Slice nat | Page_Slice nat | Pixel_Slice nat | Extra_Slice

definition image_buffer :: "image_reply \<Rightarrow> slice \<times> nat" where
  "image_buffer reply =
     (if r_received reply < WN_IMAGE_HEADER
      then (Header_Slice (r_received reply), WN_IMAGE_HEADER - r_received reply)
      else let offset = r_received reply - WN_IMAGE_HEADER in
        if r_kind reply = DECODER_PDF \<and> offset < 4 then (Page_Slice offset, 4 - offset)
        else
          let offset = (if r_kind reply = DECODER_PDF then offset - 4 else offset);
              bytes = unat (r_bytes reply - (if r_kind reply = DECODER_PDF then 4 else 0))
          in if offset < bytes
             then (Pixel_Slice offset,
                   if bytes - offset > 65536 then 65536 else bytes - offset)
             else (Extra_Slice, 1))"

text \<open>Receiving \<open>bs\<close> into that slice.\<close>

fun store :: "image_reply \<Rightarrow> slice \<Rightarrow> byte list \<Rightarrow> image_reply" where
  "store reply (Header_Slice off) bs = reply\<lparr>r_header := blit off bs (r_header reply)\<rparr>"
| "store reply (Page_Slice off) bs = reply\<lparr>r_page_header := blit off bs (r_page_header reply)\<rparr>"
| "store reply (Pixel_Slice off) bs =
     reply\<lparr>r_pixels := map_option (blit off bs) (r_pixels reply)\<rparr>"
| "store reply Extra_Slice bs = (case bs of [] \<Rightarrow> reply | b # _ \<Rightarrow> reply\<lparr>r_extra := b\<rparr>)"

section \<open>Header validation\<close>

text \<open>The tail of \<open>decoder_header\<close>: allocate unless the caller lent a buffer.\<close>

definition allocate_pixels :: "(nat \<Rightarrow> byte list option) \<Rightarrow> image_reply \<Rightarrow> bool \<times> image_reply" where
  "allocate_pixels malloc reply =
     (let reply = (if \<not> r_borrowed reply
                   then reply\<lparr>r_pixels := malloc (unat (if r_bytes reply \<noteq> 0 then r_bytes reply else 1))\<rparr>
                   else reply)
      in (r_pixels reply \<noteq> None, reply))"

text \<open>
  The refusals of \<open>decoder_header\<close>, one definition per family of reply; \<open>reply\<close> already has the
  fields the code reads from the header.
\<close>

definition mesh_refused :: "image_reply \<Rightarrow> bool" where
  "mesh_refused reply \<longleftrightarrow>
     (let header = r_header reply; mesh = (r_kind reply = DECODER_MESH) in
      take 4 header \<noteq> ascii (if mesh then ''MDO1'' else ''FBO1'') \<or>
      wn_image_u32 (drop 4 header) \<noteq> (if mesh then 1 else r_index reply) \<or>
      wn_image_u32 (drop 8 header) \<noteq> (if mesh then 0 else r_sequence reply) \<or>
      r_bytes reply > r_cap reply)"

definition archive_refused :: "image_reply \<Rightarrow> bool" where
  "archive_refused reply \<longleftrightarrow>
     (let header = r_header reply; index = wn_image_u32 (drop 8 header) in
      if take 4 header \<noteq> ascii ''ARO1'' \<or> r_bytes reply > r_cap reply then True
      else if r_op reply = WN_ARCHIVE_LIST then
        r_count reply > WN_ARCHIVE_COUNT_MAX \<or> index \<noteq> 0 \<or>
        (ucast (r_count reply) :: u64) * 17 > ucast (r_bytes reply) \<or>
        (r_count reply = 0 \<and> r_bytes reply \<noteq> 0)
      else r_count reply \<noteq> 0 \<or> index \<noteq> r_index reply)"

definition plane_refused :: "image_reply \<Rightarrow> bool" where
  "plane_refused reply \<longleftrightarrow>
     (let header = r_header reply;
          expected = (ucast (r_width reply) :: u64) * ucast (r_height reply) * 4;
          pdf = (r_kind reply = DECODER_PDF);
          magic = (if pdf then ''PDO1'' else if r_kind reply = DECODER_MATH then ''MAO1'' else ''WNO1'')
      in take 4 header \<noteq> ascii magic \<or> r_width reply = 0 \<or> r_height reply = 0 \<or>
         r_width reply > r_dimension reply \<or>
         r_height reply > (if pdf then WN_PDF_DIM_MAX else r_dimension reply) \<or>
         (pdf \<and> r_target_height reply \<noteq> 0 \<and> r_height reply > r_target_height reply) \<or>
         expected > ucast (r_cap reply) \<or>
         expected + (if pdf then 4 else 0) \<noteq> ucast (r_bytes reply))"

definition decoder_header :: "(nat \<Rightarrow> byte list option) \<Rightarrow> image_reply \<Rightarrow> bool \<times> image_reply" where
  "decoder_header malloc reply0 =
     (let header = r_header reply0;
          reply = reply0\<lparr>r_bytes := wn_image_u32 (drop 12 header)\<rparr>
      in
      if r_kind reply = DECODER_MESH \<or> r_kind reply = DECODER_MODEL then
        if mesh_refused reply then (False, reply) else allocate_pixels malloc reply
      else if r_kind reply = DECODER_ARCHIVE then
        let reply = reply\<lparr>r_count := wn_image_u32 (drop 4 header)\<rparr>
        in if archive_refused reply then (False, reply) else allocate_pixels malloc reply
      else
        let reply = reply\<lparr>r_width := wn_image_u32 (drop 4 header),
                          r_height := wn_image_u32 (drop 8 header)\<rparr>
        in if plane_refused reply then (False, reply)
           else if r_kind reply = DECODER_PDF then (True, reply)
           else allocate_pixels malloc reply)"

section \<open>Progress of a reply\<close>

definition image_received ::
  "(nat \<Rightarrow> byte list option) \<Rightarrow> image_reply \<Rightarrow> nat \<Rightarrow> bool \<times> image_reply" where
  "image_received malloc reply n =
     (if r_received reply \<ge> WN_IMAGE_HEADER + unat (r_bytes reply) \<and>
         r_received reply \<ge> WN_IMAGE_HEADER
      then (False, reply)
      else
        let reply = reply\<lparr>r_received := r_received reply + n\<rparr> in
        if r_received reply = WN_IMAGE_HEADER then decoder_header malloc reply
        else if r_kind reply = DECODER_PDF \<and> r_received reply = WN_IMAGE_HEADER + 4 then
          let reply = reply\<lparr>r_count := wn_image_u32 (r_page_header reply)\<rparr> in
          if r_count reply = 0 \<or> r_count reply > WN_PDF_PAGES_MAX \<or>
             r_index reply \<ge> r_count reply
          then (False, reply)
          else let reply = reply\<lparr>r_pixels := malloc (unat (r_bytes reply - 4))\<rparr>
               in (r_pixels reply \<noteq> None, reply)
        else (True, reply))"

definition image_complete :: "image_reply \<Rightarrow> bool" where
  "image_complete reply \<longleftrightarrow>
     r_pixels reply \<noteq> None \<and> r_received reply = WN_IMAGE_HEADER + unat (r_bytes reply)"

text \<open>
  One receive of the transfer loop: bytes go where \<open>image_buffer\<close> points, then
  \<open>image_received\<close> is told how many there were. The code passes the slice's size to \<open>recv\<close>, so at
  most that many bytes arrive.
\<close>

definition reply_recv ::
  "(nat \<Rightarrow> byte list option) \<Rightarrow> image_reply \<Rightarrow> byte list \<Rightarrow> bool \<times> image_reply" where
  "reply_recv malloc reply bs =
     (let (slice, capacity) = image_buffer reply
      in image_received malloc (store reply slice bs) (length bs))"

section \<open>What a header must satisfy\<close>

text \<open>
  The admissible headers, stated on natural numbers: no product can wrap.
\<close>

definition image_area :: "byte list \<Rightarrow> nat" where
  "image_area header = 4 * unat (wn_image_u32 (drop 4 header)) * unat (wn_image_u32 (drop 8 header))"

definition wire_size :: "byte list \<Rightarrow> nat" where
  "wire_size header = unat (wn_image_u32 (drop 12 header))"

definition plane_valid :: "string \<Rightarrow> nat \<Rightarrow> nat \<Rightarrow> nat \<Rightarrow> nat \<Rightarrow> byte list \<Rightarrow> bool" where
  "plane_valid magic max_w max_h cap prefix h \<longleftrightarrow>
     take 4 h = ascii magic \<and>
     0 < unat (wn_image_u32 (drop 4 h)) \<and> unat (wn_image_u32 (drop 4 h)) \<le> max_w \<and>
     0 < unat (wn_image_u32 (drop 8 h)) \<and> unat (wn_image_u32 (drop 8 h)) \<le> max_h \<and>
     image_area h \<le> cap \<and> wire_size h = image_area h + prefix"

fun header_valid :: "decoder_kind \<Rightarrow> image_reply \<Rightarrow> byte list \<Rightarrow> bool" where
  "header_valid DECODER_IMAGE r h =
     plane_valid ''WNO1'' (unat (r_dimension r)) (unat (r_dimension r)) (unat (r_cap r)) 0 h"
| "header_valid DECODER_MATH r h =
     plane_valid ''MAO1'' (unat (r_dimension r)) (unat (r_dimension r)) (unat (r_cap r)) 0 h"
| "header_valid DECODER_PDF r h =
     plane_valid ''PDO1'' (unat (r_dimension r))
       (if r_target_height r = 0 then 32768 else min 32768 (unat (r_target_height r)))
       (unat (r_cap r)) 4 h"
| "header_valid DECODER_ARCHIVE r h =
     (take 4 h = ascii ''ARO1'' \<and> wire_size h \<le> unat (r_cap r) \<and>
      (if r_op r = WN_ARCHIVE_LIST
       then unat (wn_image_u32 (drop 4 h)) \<le> 2000 \<and> wn_image_u32 (drop 8 h) = 0 \<and>
            unat (wn_image_u32 (drop 4 h)) * 17 \<le> wire_size h \<and>
            (wn_image_u32 (drop 4 h) = 0 \<longrightarrow> wire_size h = 0)
       else wn_image_u32 (drop 4 h) = 0 \<and> wn_image_u32 (drop 8 h) = r_index r))"
| "header_valid DECODER_MESH r h =
     (take 4 h = ascii ''MDO1'' \<and> wn_image_u32 (drop 4 h) = 1 \<and> wn_image_u32 (drop 8 h) = 0 \<and>
      wire_size h \<le> unat (r_cap r))"
| "header_valid DECODER_MODEL r h =
     (take 4 h = ascii ''FBO1'' \<and> wn_image_u32 (drop 4 h) = r_index r \<and>
      wn_image_u32 (drop 8 h) = r_sequence r \<and> wire_size h \<le> unat (r_cap r))"

definition allocated :: "(nat \<Rightarrow> byte list option) \<Rightarrow> image_reply \<Rightarrow> u32 \<Rightarrow> bool" where
  "allocated malloc r n \<longleftrightarrow> (if r_borrowed r then r_pixels r else malloc (unat (if n \<noteq> 0 then n else 1))) \<noteq> None"


lemma plane_check:
  fixes w hh dim maxh cap n :: u32
  assumes d: "unat dim \<le> 32768" and e: "e = 0 \<or> e = (4 :: u64)" and that: "unat maxh \<le> 32768"
  shows "\<not> (take 4 h \<noteq> ascii magic \<or> w = 0 \<or> hh = 0 \<or> w > dim \<or> hh > maxh \<or>
     (ucast w :: u64) * ucast hh * 4 > ucast cap \<or>
     (ucast w :: u64) * ucast hh * 4 + e \<noteq> ucast n) \<longleftrightarrow>
    take 4 h = ascii magic \<and> 0 < unat w \<and> unat w \<le> unat dim \<and> 0 < unat hh \<and> unat hh \<le> unat maxh \<and>
     4 * unat w * unat hh \<le> unat cap \<and> unat n = 4 * unat w * unat hh + unat e"
proof (cases "unat w \<le> unat dim \<and> unat hh \<le> unat maxh")
  case True
  with d that have b: "unat w \<le> 32768" "unat hh \<le> 32768" by simp_all
  show ?thesis using True e
    by (auto simp: word_less_nat_alt word_le_nat_alt u64_eq_ucast area64 [OF b] unat_gt_0_u32 not_less)
next
  case False
  then show ?thesis by (auto simp: word_less_nat_alt not_less)
qed

lemma plane_accepts:
  assumes d: "unat (r_dimension r) \<le> 32768" and k: "r_kind r \<in> {DECODER_IMAGE, DECODER_MATH, DECODER_PDF}"
    and w: "r_width r = wn_image_u32 (drop 4 (r_header r))" "r_height r = wn_image_u32 (drop 8 (r_header r))"
      "r_bytes r = wn_image_u32 (drop 12 (r_header r))"
  shows "\<not> plane_refused r \<longleftrightarrow> header_valid (r_kind r) r (r_header r)"
proof (cases "r_kind r = DECODER_PDF")
  case True
  have "unat WN_PDF_DIM_MAX \<le> 32768" by (simp add: limit_defs)
  note c = plane_check [OF d _ this, where e = 4 and magic = "''PDO1''" and h = "r_header r"
      and cap = "r_cap r" and w = "r_width r" and hh = "r_height r" and n = "r_bytes r"]
  have "\<not> plane_refused r \<longleftrightarrow>
    take 4 (r_header r) = ascii ''PDO1'' \<and> 0 < unat (r_width r) \<and> unat (r_width r) \<le> unat (r_dimension r) \<and>
    0 < unat (r_height r) \<and> unat (r_height r) \<le> unat WN_PDF_DIM_MAX \<and>
    4 * unat (r_width r) * unat (r_height r) \<le> unat (r_cap r) \<and>
    unat (r_bytes r) = 4 * unat (r_width r) * unat (r_height r) + 4 \<and>
    \<not> (r_target_height r \<noteq> 0 \<and> r_height r > r_target_height r)"
    using c True by (simp add: plane_refused_def Let_def) blast
  then show ?thesis
    using True
    by (auto simp: plane_valid_def image_area_def wire_size_def w [symmetric] limit_defs
        word_less_nat_alt unat_eq_0)
next
  case False
  define magic where "magic = (if r_kind r = DECODER_MATH then ''MAO1'' else ''WNO1'')"
  note c = plane_check [OF d _ d, where e = 0 and magic = magic and h = "r_header r"
      and cap = "r_cap r" and w = "r_width r" and hh = "r_height r" and n = "r_bytes r"]
  have "\<not> plane_refused r \<longleftrightarrow>
    take 4 (r_header r) = ascii magic \<and> 0 < unat (r_width r) \<and> unat (r_width r) \<le> unat (r_dimension r) \<and>
    0 < unat (r_height r) \<and> unat (r_height r) \<le> unat (r_dimension r) \<and>
    4 * unat (r_width r) * unat (r_height r) \<le> unat (r_cap r) \<and>
    unat (r_bytes r) = 4 * unat (r_width r) * unat (r_height r)"
    using c False by (simp add: plane_refused_def Let_def magic_def)
  then show ?thesis
    using False k
    by (auto simp: plane_valid_def image_area_def wire_size_def w [symmetric] magic_def)
qed

lemma archive_accepts:
  assumes "r_kind r = DECODER_ARCHIVE" "r_count r = wn_image_u32 (drop 4 (r_header r))"
    "r_bytes r = wn_image_u32 (drop 12 (r_header r))"
  shows "\<not> archive_refused r \<longleftrightarrow> header_valid (r_kind r) r (r_header r)"
  using assms
  by (auto simp: archive_refused_def Let_def wire_size_def limit_defs word_less_nat_alt product17
      not_less unat_eq_0 simp flip: assms(2,3))

lemma mesh_accepts:
  assumes "r_kind r = DECODER_MESH \<or> r_kind r = DECODER_MODEL"
    "r_bytes r = wn_image_u32 (drop 12 (r_header r))"
  shows "\<not> mesh_refused r \<longleftrightarrow> header_valid (r_kind r) r (r_header r)"
  using assms by (auto simp: mesh_refused_def Let_def wire_size_def word_less_nat_alt not_less)

lemma header_valid_update [simp]:
  "header_valid k (r\<lparr>r_bytes := b\<rparr>) h = header_valid k r h"
  "header_valid k (r\<lparr>r_count := b\<rparr>) h = header_valid k r h"
  "header_valid k (r\<lparr>r_width := b\<rparr>) h = header_valid k r h"
  "header_valid k (r\<lparr>r_height := b\<rparr>) h = header_valid k r h"
  by (cases k; simp)+

lemma decoder_header_accepts:
  assumes "unat (r_dimension r) \<le> 32768"
  shows "fst (decoder_header malloc r) \<longleftrightarrow>
    header_valid (r_kind r) r (r_header r) \<and>
    (r_kind r \<noteq> DECODER_PDF \<longrightarrow> allocated malloc r (wn_image_u32 (drop 12 (r_header r))))"
proof -
  let ?r = "r\<lparr>r_bytes := wn_image_u32 (drop 12 (r_header r))\<rparr>"
  let ?a = "?r\<lparr>r_count := wn_image_u32 (drop 4 (r_header r))\<rparr>"
  let ?p = "?r\<lparr>r_width := wn_image_u32 (drop 4 (r_header r)), r_height := wn_image_u32 (drop 8 (r_header r))\<rparr>"
  have alloc: "fst (allocate_pixels malloc x) \<longleftrightarrow> allocated malloc x (r_bytes x)" for x
    by (simp add: allocate_pixels_def allocated_def)
  have same: "allocated malloc ?r n = allocated malloc r n" "allocated malloc ?a n = allocated malloc r n"
    "allocated malloc ?p n = allocated malloc r n" for n
    by (simp_all add: allocated_def)
  consider "r_kind r = DECODER_MESH \<or> r_kind r = DECODER_MODEL" | "r_kind r = DECODER_ARCHIVE"
    | "r_kind r \<in> {DECODER_IMAGE, DECODER_MATH, DECODER_PDF}" by (cases "r_kind r") auto
  then show ?thesis
  proof cases
    case 1
    then show ?thesis
      using mesh_accepts [of ?r] by (auto simp: decoder_header_def alloc same simp del: header_valid.simps)
  next
    case 2
    then show ?thesis
      using archive_accepts [of ?a]
      by (auto simp: decoder_header_def Let_def alloc same simp del: header_valid.simps)
  next
    case 3
    then show ?thesis
      using plane_accepts [of ?p] assms
      by (auto simp: decoder_header_def Let_def alloc same simp del: header_valid.simps)
  qed
qed

section \<open>Receiving a reply\<close>

definition page_prefix :: "decoder_kind \<Rightarrow> nat" where
  "page_prefix kind = (if kind = DECODER_PDF then 4 else 0)"

definition page_valid :: "image_reply \<Rightarrow> byte list \<Rightarrow> bool" where
  "page_valid r page \<longleftrightarrow>
     0 < unat (wn_image_u32 page) \<and> unat (wn_image_u32 page) \<le> 10000 \<and>
     unat (r_index r) < unat (wn_image_u32 page)"

definition viable :: "image_reply \<Rightarrow> byte list \<Rightarrow> bool" where
  "viable r0 p \<longleftrightarrow>
     (16 \<le> length p \<longrightarrow> header_valid (r_kind r0) r0 (take 16 p) \<and> length p \<le> 16 + wire_size p) \<and>
     (r_kind r0 = DECODER_PDF \<and> 20 \<le> length p \<longrightarrow> page_valid r0 (drop 16 p))"

definition fresh :: "image_reply \<Rightarrow> bool" where
  "fresh r \<longleftrightarrow>
     r_received r = 0 \<and> r_bytes r = 0 \<and> length (r_header r) = 16 \<and> length (r_page_header r) = 4 \<and>
     unat (r_dimension r) \<le> 32768 \<and>
     (if r_borrowed r
      then r_kind r \<noteq> DECODER_PDF \<and> (\<exists>buf. r_pixels r = Some buf \<and> unat (r_cap r) \<le> length buf)
      else r_pixels r = None)"

definition same_request :: "image_reply \<Rightarrow> image_reply \<Rightarrow> bool" where
  "same_request r0 r \<longleftrightarrow>
     r_dimension r = r_dimension r0 \<and> r_cap r = r_cap r0 \<and> r_kind r = r_kind r0 \<and>
     r_op r = r_op r0 \<and> r_index r = r_index r0 \<and> r_target_height r = r_target_height r0 \<and>
     r_sequence r = r_sequence r0 \<and> r_borrowed r = r_borrowed r0"

definition pixels_hold :: "image_reply \<Rightarrow> byte list \<Rightarrow> image_reply \<Rightarrow> bool" where
  "pixels_hold r0 p r \<longleftrightarrow>
     (if length p < 16 + page_prefix (r_kind r0) then r_pixels r = r_pixels r0
      else \<exists>buf. r_pixels r = Some buf \<and> wire_size p - page_prefix (r_kind r0) \<le> length buf \<and>
             take (length p - (16 + page_prefix (r_kind r0))) buf =
             drop (16 + page_prefix (r_kind r0)) p)"

definition fields_hold :: "byte list \<Rightarrow> image_reply \<Rightarrow> bool" where
  "fields_hold p r \<longleftrightarrow>
     r_bytes r = (if length p < 16 then 0 else wn_image_u32 (drop 12 p)) \<and>
     (16 \<le> length p \<longrightarrow>
        (r_kind r = DECODER_ARCHIVE \<longrightarrow> r_count r = wn_image_u32 (drop 4 p)) \<and>
        (r_kind r \<in> {DECODER_IMAGE, DECODER_MATH, DECODER_PDF} \<longrightarrow>
           r_width r = wn_image_u32 (drop 4 p) \<and> r_height r = wn_image_u32 (drop 8 p))) \<and>
     (r_kind r = DECODER_PDF \<and> 20 \<le> length p \<longrightarrow> r_count r = wn_image_u32 (drop 16 p))"

definition reply_inv :: "image_reply \<Rightarrow> byte list \<Rightarrow> image_reply \<Rightarrow> bool" where
  "reply_inv r0 p r \<longleftrightarrow>
     same_request r0 r \<and> r_received r = length p \<and>
     length (r_header r) = 16 \<and> length (r_page_header r) = 4 \<and>
     take (length p) (r_header r) = take 16 p \<and>
     (r_kind r0 = DECODER_PDF \<longrightarrow> take (length p - 16) (r_page_header r) = take 4 (drop 16 p)) \<and>
     fields_hold p r \<and> pixels_hold r0 p r"

fun slice_fits :: "image_reply \<Rightarrow> slice \<times> nat \<Rightarrow> bool" where
  "slice_fits r (Header_Slice off, n) = (off + n \<le> length (r_header r))"
| "slice_fits r (Page_Slice off, n) = (off + n \<le> length (r_page_header r))"
| "slice_fits r (Pixel_Slice off, n) =
     (case r_pixels r of None \<Rightarrow> False | Some buf \<Rightarrow> off + n \<le> length buf)"
| "slice_fits r (Extra_Slice, n) = (n = 1)"

lemma header_valid_pdf_size:
  "header_valid DECODER_PDF r h \<Longrightarrow> 8 \<le> wire_size h"
  by (auto simp: plane_valid_def image_area_def)

lemma wire_size_take [simp]: "16 \<le> n \<Longrightarrow> wire_size (take n p) = wire_size p"
  by (simp add: wire_size_def drop_take wn_image_u32_take)

lemma image_area_take [simp]: "16 \<le> n \<Longrightarrow> image_area (take n p) = image_area p"
  by (simp add: image_area_def drop_take wn_image_u32_take)

lemma wire_size_append [simp]: "16 \<le> length p \<Longrightarrow> wire_size (p @ q) = wire_size p"
  by (simp add: wire_size_def wn_image_u32_append)

lemma reply_inv_fresh: "fresh r0 \<Longrightarrow> reply_inv r0 [] r0"
  by (simp add: fresh_def reply_inv_def same_request_def fields_hold_def pixels_hold_def page_prefix_def)

lemma viable_Nil [simp]: "viable r0 []"
  by (simp add: viable_def)

lemma image_buffer_positive: "snd (image_buffer r) > 0"
  by (auto simp: image_buffer_def Let_def)

lemma pdf_bytes: 
  assumes "8 \<le> wire_size p" "r_bytes r = wn_image_u32 (drop 12 p)"
  shows "unat (r_bytes r - 4) = wire_size p - 4"
  using assms by (simp add: wire_size_def unat_sub word_le_nat_alt)

lemma payload_bytes:
  assumes inv: "reply_inv r0 p r" and v: "viable r0 p" and len: "16 \<le> length p"
  shows "unat (r_bytes r - (if r_kind r = DECODER_PDF then 4 else 0)) = wire_size p - page_prefix (r_kind r0)"
    and "page_prefix (r_kind r0) \<le> wire_size p" 
proof -
  have b: "r_bytes r = wn_image_u32 (drop 12 p)" and k: "r_kind r = r_kind r0"
    using inv len by (auto simp: reply_inv_def fields_hold_def same_request_def)
  have s: "r_kind r0 = DECODER_PDF \<Longrightarrow> 8 \<le> wire_size p"
    using v len by (auto simp: viable_def dest: header_valid_pdf_size simp del: header_valid.simps)
  show "unat (r_bytes r - (if r_kind r = DECODER_PDF then 4 else 0)) = wire_size p - page_prefix (r_kind r0)"
    using s b k pdf_bytes [of p r] by (auto simp: page_prefix_def wire_size_def)
  show "page_prefix (r_kind r0) \<le> wire_size p" using s by (auto simp: page_prefix_def)
qed

lemma image_buffer_cases:
  assumes inv: "reply_inv r0 p r" and v: "viable r0 p"
  shows "image_buffer r =
    (if length p < 16 then (Header_Slice (length p), 16 - length p)
     else if length p < 16 + page_prefix (r_kind r0) then (Page_Slice (length p - 16), 20 - length p)
     else if length p < 16 + wire_size p
       then (Pixel_Slice (length p - (16 + page_prefix (r_kind r0))), min 65536 (16 + wire_size p - length p))
     else (Extra_Slice, 1))"
proof (cases "length p < 16")
  case True
  then show ?thesis using inv by (simp add: image_buffer_def reply_inv_def limit_defs)
next
  case False
  then have rcv: "r_received r = length p" and k: "r_kind r = r_kind r0"
    using inv by (auto simp: reply_inv_def same_request_def)
  show ?thesis
    using False payload_bytes [OF inv v]
    by (auto simp: image_buffer_def rcv k limit_defs Let_def page_prefix_def min_def)
qed

lemma slice_in_bounds:
  assumes inv: "reply_inv r0 p r" and v: "viable r0 p"
  shows "slice_fits r (image_buffer r)"
proof -
  have "slice_fits r (Pixel_Slice (length p - (16 + page_prefix (r_kind r0))), min 65536 (16 + wire_size p - length p))"
    if "\<not> length p < 16 + page_prefix (r_kind r0)" "length p < 16 + wire_size p"
    using inv that by (auto simp: reply_inv_def pixels_hold_def)
  then show ?thesis
    using inv by (auto simp: image_buffer_cases [OF inv v] reply_inv_def page_prefix_def)
qed

lemma take_blit_prefix:
  "take off buf = p \<Longrightarrow> length p = off \<Longrightarrow> off + length bs \<le> length buf \<Longrightarrow>
   take (off + length bs) (blit off bs buf) = p @ bs"
  by (simp add: blit_def)

lemma recv_header:
  assumes "r_received r = n" "n < 16"
  shows "reply_recv malloc r bs =
    (let r1 = r\<lparr>r_header := blit n bs (r_header r), r_received := n + length bs\<rparr>
     in if n + length bs = 16 then decoder_header malloc r1
        else if r_kind r = DECODER_PDF \<and> n + length bs = 20 then reply_recv malloc r bs else (True, r1))"
  using assms by (simp add: reply_recv_def image_buffer_def image_received_def limit_defs Let_def)

lemma decoder_header_result:
  assumes "decoder_header malloc r = (True, r')"
  shows "same_request r r'" "r_header r' = r_header r" "r_page_header r' = r_page_header r"
    "r_received r' = r_received r" "r_bytes r' = wn_image_u32 (drop 12 (r_header r))"
    "r_kind r = DECODER_ARCHIVE \<Longrightarrow> r_count r' = wn_image_u32 (drop 4 (r_header r))"
    "r_kind r \<in> {DECODER_IMAGE, DECODER_MATH, DECODER_PDF} \<Longrightarrow>
       r_width r' = wn_image_u32 (drop 4 (r_header r)) \<and> r_height r' = wn_image_u32 (drop 8 (r_header r))"
    "r_pixels r' = (if r_kind r = DECODER_PDF \<or> r_borrowed r then r_pixels r
       else malloc (let n = wn_image_u32 (drop 12 (r_header r)) in unat (if n \<noteq> 0 then n else 1)))"
    "r_kind r \<noteq> DECODER_PDF \<Longrightarrow> r_pixels r' \<noteq> None"
  using assms
  by (cases "r_kind r";
      force simp: decoder_header_def allocate_pixels_def same_request_def Let_def split: if_splits)+

lemma header_valid_cap:
  "header_valid (r_kind r) r h \<Longrightarrow> r_kind r \<noteq> DECODER_PDF \<Longrightarrow> wire_size h \<le> unat (r_cap r)"
  by (cases "r_kind r") (auto simp: plane_valid_def)

lemma same_request_header_valid: "same_request r0 r \<Longrightarrow> header_valid k r h = header_valid k r0 h"
  by (cases k) (auto simp: same_request_def)

lemma blit_fills:
  "take off buf = p \<Longrightarrow> length p = off \<Longrightarrow> off + length bs = length buf \<Longrightarrow> blit off bs buf = p @ bs"
  by (simp add: blit_def)

lemma recv_in_header:
  assumes "fresh r0" "reply_inv r0 p r" "length (p @ bs) < 16"
    and "reply_recv malloc r bs = (ok, r')"
  shows "ok \<and> viable r0 (p @ bs) \<and> reply_inv r0 (p @ bs) r'"
proof -
  have p: "r_received r = length p" "length p < 16" "take (length p) (r_header r) = p" "length (r_header r) = 16"
    using assms by (auto simp: reply_inv_def)
  have "ok" and r': "r' = r\<lparr>r_header := blit (length p) bs (r_header r), r_received := length p + length bs\<rparr>"
    using assms(3,4) by (auto simp: recv_header [OF p(1,2)] Let_def)
  moreover have "take (length (p @ bs)) (blit (length p) bs (r_header r)) = p @ bs"
    using p assms(3) take_blit_prefix [OF p(3), of bs] by simp
  ultimately show ?thesis
    using assms p by (auto simp: reply_inv_def viable_def same_request_def fields_hold_def pixels_hold_def page_prefix_def split: if_splits)
qed

lemma recv_header_end:
  assumes fr: "fresh r0" and inv: "reply_inv r0 p r" and len: "length (p @ bs) = 16" and ne: "bs \<noteq> []"
  shows "reply_recv malloc r bs = decoder_header malloc (r\<lparr>r_header := p @ bs, r_received := 16\<rparr>)"
    and "r_pixels r = r_pixels r0" "same_request r0 r"  "length (r_page_header r) = 4"
proof -
  have p: "r_received r = length p" "length p < 16" "take (length p) (r_header r) = p" "length (r_header r) = 16"
    using inv len ne by (cases bs; auto simp: reply_inv_def)+
  show "reply_recv malloc r bs = decoder_header malloc (r\<lparr>r_header := p @ bs, r_received := 16\<rparr>)"
    using len p blit_fills [OF p(3), of bs] by (simp add: recv_header [OF p(1,2)] Let_def)
  show "r_pixels r = r_pixels r0" "same_request r0 r"  "length (r_page_header r) = 4"
    using inv p by (auto simp: reply_inv_def pixels_hold_def page_prefix_def split: if_splits)
qed

lemma fresh_borrowed: "fresh r0 \<Longrightarrow> r_borrowed r0 \<Longrightarrow> r_kind r0 \<noteq> DECODER_PDF \<and>
   (\<exists>buf. r_pixels r0 = Some buf \<and> unat (r_cap r0) \<le> length buf)"
  by (simp add: fresh_def)

lemma malloc_length: "malloc_ok malloc \<Longrightarrow> malloc n = Some buf \<Longrightarrow> length buf = n"
  by (simp add: malloc_ok_def)

lemma recv_header_done:
  assumes fr: "fresh r0" and inv: "reply_inv r0 p r" and len: "length (p @ bs) = 16" and ne: "bs \<noteq> []"
    and ok: "malloc_ok malloc" "reply_recv malloc r bs = (True, r')"
  shows "viable r0 (p @ bs) \<and> reply_inv r0 (p @ bs) r'"
proof -
  let ?r = "r\<lparr>r_header := p @ bs, r_received := 16\<rparr>"
  note e = recv_header_end [OF fr inv len ne]
  have dh: "decoder_header malloc ?r = (True, r')" using ok e by simp
  note res = decoder_header_result [OF dh]
  have sr: "same_request r0 ?r" using e by (simp add: same_request_def)
  have k: "r_kind r = r_kind r0" "r_cap r = r_cap r0" "r_borrowed r = r_borrowed r0" using e by (simp_all add: same_request_def)
  have "unat (r_dimension ?r) \<le> 32768" using e fr by (simp add: same_request_def fresh_def)
  then have hv: "header_valid (r_kind r0) r0 (p @ bs)"
    using decoder_header_accepts [of ?r malloc] dh same_request_header_valid [OF sr] k by simp
  then have cap: "r_kind r0 \<noteq> DECODER_PDF \<Longrightarrow> wire_size (p @ bs) \<le> unat (r_cap r0)" 
    by (rule header_valid_cap)
  have px: "pixels_hold r0 (p @ bs) r'"
  proof (cases "r_kind r0 = DECODER_PDF")
    case True
    then show ?thesis using len res(8) k e by (simp add: pixels_hold_def page_prefix_def)
  next
    case False
    then obtain buf where buf: "r_pixels r' = Some buf" using res(9) k by auto
    have "wire_size (p @ bs) \<le> length buf"
    proof (cases "r_borrowed r0")
      case True
      then show ?thesis using fresh_borrowed [OF fr True] buf res(8) k e cap [OF False] by auto
    next
      case nb: False
      then have "malloc (unat (if wn_image_u32 (drop 12 (p @ bs)) \<noteq> 0 then wn_image_u32 (drop 12 (p @ bs)) else 1)) = Some buf"
        using False res(8) k buf by (simp add: Let_def)
      from malloc_length [OF ok(1) this] show ?thesis by (simp add: wire_size_def split: if_splits)
    qed
    then show ?thesis using buf len False by (simp add: pixels_hold_def page_prefix_def)
  qed
  have "fields_hold (p @ bs) r'"
    using res(1,5-7) len k by (auto simp: fields_hold_def same_request_def)
  moreover have "same_request r0 r'" using res(1) sr by (simp add: same_request_def)
  ultimately show ?thesis using hv px len e(4) res(1-4)
    by (simp add: viable_def reply_inv_def)
qed

lemma reply_inv_facts:
  assumes "reply_inv r0 p r"
  shows "same_request r0 r" "r_received r = length p" "length (r_header r) = 16"
    "length (r_page_header r) = 4" "take (length p) (r_header r) = take 16 p"
    "r_kind r = r_kind r0" "fields_hold p r" "pixels_hold r0 p r"
    "r_kind r0 = DECODER_PDF \<Longrightarrow> take (length p - 16) (r_page_header r) = take 4 (drop 16 p)"
  using assms by (auto simp: reply_inv_def same_request_def)

lemma viable_header:
  "viable r0 p \<Longrightarrow> 16 \<le> length p \<Longrightarrow> header_valid (r_kind r0) r0 (take 16 p) \<and> length p \<le> 16 + wire_size p"
  by (simp add: viable_def)

lemma recv_after_header:
  assumes inv: "reply_inv r0 p r" and v: "viable r0 p" and len: "16 \<le> length p" and ne: "bs \<noteq> []"
  shows "reply_recv malloc r bs =
    (if 16 + wire_size p \<le> length p then (False, store r (fst (image_buffer r)) bs)
     else let r1 = (store r (fst (image_buffer r)) bs)\<lparr>r_received := length (p @ bs)\<rparr> in
       if r_kind r0 = DECODER_PDF \<and> length (p @ bs) = 20 then
          let r2 = r1\<lparr>r_count := wn_image_u32 (r_page_header r1)\<rparr> in
           if page_valid r0 (r_page_header r1) then 
             let r3 = r2\<lparr>r_pixels := malloc (wire_size p - 4)\<rparr> in (r_pixels r3 \<noteq> None, r3)
           else (False, r2)
       else (True, r1))"
proof -
  note f = reply_inv_facts [OF inv]
  have b: "unat (r_bytes r) = wire_size p" using f(7) len by (simp add: fields_hold_def wire_size_def)
  have st: "r_received (store r s bs) = length p" "r_kind (store r s bs) = r_kind r0"
    "r_bytes (store r s bs) = r_bytes r" "r_index (store r s bs) = r_index r0" for s
    using f(1,2) by (cases s; cases bs; simp add: same_request_def)+
  have n: "length (p @ bs) \<noteq> 16" using len ne by (cases bs) auto
  have pb: "r_kind r0 = DECODER_PDF \<Longrightarrow> unat (r_bytes r - 4) = wire_size p - 4"
    using payload_bytes(1) [OF inv v len] f(6) by (simp add: page_prefix_def)
  show ?thesis
    using n pb len st b
    by (auto simp: reply_recv_def image_received_def case_prod_beta limit_defs Let_def page_valid_def
       word_less_nat_alt not_less word_le_nat_alt unat_eq_0 split: if_splits)
qed


lemma recv_in_page:
  assumes fr: "fresh r0" and inv: "reply_inv r0 p r" and v: "viable r0 p" and ne: "bs \<noteq> []"
    and len: "16 \<le> length p" "r_kind r0 = DECODER_PDF" "length (p @ bs) \<le> 20"
    and ok: "malloc_ok malloc" "reply_recv malloc r bs = (True, r')"
  shows "viable r0 (p @ bs) \<and> reply_inv r0 (p @ bs) r'"
proof -
  note f = reply_inv_facts [OF inv]
  have p20: "length p < 20" using len ne by (cases bs) auto
  have ws: "8 \<le> wire_size p"
    using viable_header [OF v len(1)] len(2) header_valid_pdf_size [of r0 "take 16 p"] by simp
  have slice: "fst (image_buffer r) = Page_Slice (length p - 16)"
    using len p20 by (simp add: image_buffer_cases [OF inv v] page_prefix_def)
  let ?page = "blit (length p - 16) bs (r_page_header r)"
  let ?r1 = "r\<lparr>r_page_header := ?page, r_received := length (p @ bs)\<rparr>"
  have page: "take (length (p @ bs) - 16) ?page = drop 16 (p @ bs)"
    using take_blit_prefix [OF f(9) [OF len(2)], of bs] p20 len f(4) by simp
  have recv: "reply_recv malloc r bs =
     (if length (p @ bs) = 20 then
        if page_valid r0 ?page then 
          (malloc (wire_size p - 4) \<noteq> None, ?r1\<lparr>r_count := wn_image_u32 ?page, r_pixels := malloc (wire_size p - 4)\<rparr>)
        else (False, ?r1\<lparr>r_count := wn_image_u32 ?page\<rparr>)
      else (True, ?r1))"
    using recv_after_header [OF inv v len(1) ne, of malloc] slice len p20 ws by (simp add: Let_def)
  show ?thesis
  proof (cases "length (p @ bs) = 20")
    case True
    then have pg: "?page = drop 16 (p @ bs)" using page f(4) len p20 by simp
    obtain buf where m: "malloc (wire_size p - 4) = Some buf" and pv: "page_valid r0 ?page"
      and r': "r' = ?r1\<lparr>r_count := wn_image_u32 ?page, r_pixels := Some buf\<rparr>"
      using ok(2) True unfolding recv by (auto split: if_splits)
    have "length buf = wire_size p - 4" by (rule malloc_length [OF ok(1) m])
    then have "pixels_hold r0 (p @ bs) r'"
      using True r' len by (simp add: pixels_hold_def page_prefix_def)
    moreover have "fields_hold (p @ bs) r'"
      using True r' len f(6,7) pg by (simp add: fields_hold_def wn_image_u32_append)
    ultimately show ?thesis
      using v len True r' ws f page pv pg 
      by (simp add: viable_def reply_inv_def same_request_def)
  next
    case False
    then have "pixels_hold r0 (p @ bs) ?r1" "fields_hold (p @ bs) ?r1"
      using f(6-8) len p20
      by (simp_all add: pixels_hold_def fields_hold_def page_prefix_def wn_image_u32_append)
    moreover have "r' = ?r1" using ok(2) False unfolding recv by simp
    ultimately show ?thesis
      using v len False ws f page by (simp add: viable_def reply_inv_def same_request_def)
  qed
qed

lemma recv_in_pixels:
  assumes fr: "fresh r0" and inv: "reply_inv r0 p r" and v: "viable r0 p" and ne: "bs \<noteq> []"
    and len: "16 + page_prefix (r_kind r0) \<le> length p" "length (p @ bs) \<le> 16 + wire_size p"
    and ok: "reply_recv malloc r bs = (ok, r')"
  shows "ok \<and> viable r0 (p @ bs) \<and> reply_inv r0 (p @ bs) r'"
proof -
  note f = reply_inv_facts [OF inv]
  have lt: "length p < 16 + wire_size p" using len ne by (cases bs) auto
  have l16: "16 \<le> length p" using len by simp
  let ?k = "16 + page_prefix (r_kind r0)"
  have slice: "fst (image_buffer r) = Pixel_Slice (length p - ?k)"
    using len lt by (simp add: image_buffer_cases [OF inv v])
  obtain buf where buf: "r_pixels r = Some buf" "wire_size p - page_prefix (r_kind r0) \<le> length buf"
    "take (length p - ?k) buf = drop ?k p"
    using f(8) len by (auto simp: pixels_hold_def)
  let ?r1 = "r\<lparr>r_pixels := Some (blit (length p - ?k) bs buf), r_received := length (p @ bs)\<rparr>"
  have "\<not> (r_kind r0 = DECODER_PDF \<and> length (p @ bs) = 20)" using len ne by (cases bs) (auto simp: page_prefix_def)
  then have r': "r' = ?r1" "ok"
    using recv_after_header [OF inv v l16 ne, of malloc] slice lt buf ok by (auto simp: Let_def)
  have "take (length (p @ bs) - ?k) (blit (length p - ?k) bs buf) = drop ?k (p @ bs)"
    using take_blit_prefix [OF buf(3), of bs] len buf(2) by simp
  then have "pixels_hold r0 (p @ bs) r'"
    using r' len buf(2) l16 by (simp add: pixels_hold_def)
  moreover have "fields_hold (p @ bs) r'"
    using f(6,7) r' len l16 by (auto simp: fields_hold_def page_prefix_def wn_image_u32_append)
  moreover have "page_valid r0 (drop 16 (p @ bs)) = page_valid r0 (drop 16 p)" if "20 \<le> length p"
    using that by (simp add: page_valid_def wn_image_u32_append)
  ultimately show ?thesis
    using v len l16 r' f by (auto simp: viable_def reply_inv_def same_request_def page_prefix_def split: if_splits)
qed


text \<open>Soundness of one receive.\<close>

lemma reply_recv_sound:
  assumes fr: "fresh r0" and inv: "reply_inv r0 p r" and v: "viable r0 p" and ne: "bs \<noteq> []"
    and cap: "length bs \<le> snd (image_buffer r)"
    and ok: "malloc_ok malloc" "reply_recv malloc r bs = (True, r')"
  shows "viable r0 (p @ bs) \<and> reply_inv r0 (p @ bs) r'"
proof -
  note c = cap [unfolded image_buffer_cases [OF inv v]]
  consider "length (p @ bs) < 16" | "length (p @ bs) = 16"
    | "16 \<le> length p" "r_kind r0 = DECODER_PDF" "length (p @ bs) \<le> 20"
    | "16 + page_prefix (r_kind r0) \<le> length p" "length (p @ bs) \<le> 16 + wire_size p"
    | "16 + wire_size p \<le> length p" "16 \<le> length p"
    using c by (fastforce simp: page_prefix_def split: if_splits)
  then show ?thesis
  proof cases
    case 1
    then show ?thesis using recv_in_header [OF fr inv _ ok(2)] by simp
  next
    case 2
    then show ?thesis using recv_header_done [OF fr inv _ ne ok] by simp
  next
    case 3
    then show ?thesis using recv_in_page [OF fr inv v ne _ _ _ ok] by simp
  next
    case 4
    then show ?thesis using recv_in_pixels [OF fr inv v ne _ _ ok(2)] by simp
  next
    case 5
    then show ?thesis using recv_after_header [OF inv v _ ne, of malloc] ok(2) by simp
  qed
qed

text \<open>Completeness: while allocations succeed, a viable extension is accepted.\<close>

definition always_allocates :: "(nat \<Rightarrow> byte list option) \<Rightarrow> bool" where
  "always_allocates malloc \<longleftrightarrow> (\<forall>n. malloc n \<noteq> None)"

lemma reply_recv_accepts:
  assumes fr: "fresh r0" and inv: "reply_inv r0 p r" and v: "viable r0 p" and ne: "bs \<noteq> []"
    and cap: "length bs \<le> snd (image_buffer r)"
    and m: "malloc_ok malloc" "always_allocates malloc" and v': "viable r0 (p @ bs)"
  shows "fst (reply_recv malloc r bs)"
proof (cases "length p < 16")
  case True
  show ?thesis
  proof (cases "length (p @ bs) < 16")
    case True
    then show ?thesis using recv_in_header [OF fr inv True] by (metis prod.collapse)
  next
    case False
    then have len: "length (p @ bs) = 16"
      using True cap by (simp add: image_buffer_cases [OF inv v])
    note e = recv_header_end [OF fr inv len ne]
    let ?r = "r\<lparr>r_header := p @ bs, r_received := 16\<rparr>"
    have k: "r_kind r = r_kind r0" "r_borrowed r = r_borrowed r0" "r_dimension r = r_dimension r0"
      using e(3) by (simp_all add: same_request_def)
    have d: "unat (r_dimension ?r) \<le> 32768" using fr k by (simp add: fresh_def)
    have "same_request r0 ?r" using e(3) by (simp add: same_request_def)
    then have "header_valid (r_kind ?r) ?r (r_header ?r)"
      using viable_header [OF v'] len k same_request_header_valid by simp
    moreover have "r_borrowed ?r \<Longrightarrow> r_pixels ?r \<noteq> None"
      using fresh_borrowed [OF fr] e(2) k by auto
    ultimately show ?thesis
      using m(2) unfolding e(1) decoder_header_accepts [OF d] by (auto simp: allocated_def always_allocates_def)
  qed
next
  case False
  then have len: "16 \<le> length p" by simp
  have "length (p @ bs) \<le> 16 + wire_size p" using viable_header [OF v'] len by simp
  then have lt: "\<not> 16 + wire_size p \<le> length p" using ne by (cases bs) auto
  have "page_valid r0 (r_page_header (store r (fst (image_buffer r)) bs))"
    if pdf: "r_kind r0 = DECODER_PDF" "length (p @ bs) = 20"
  proof -
    have p20: "length p < 20" using pdf ne by (cases bs) auto
    have "blit (length p - 16) bs (r_page_header r) = drop 16 (p @ bs)"
      using blit_fills [of "length p - 16" "r_page_header r" "drop 16 p" bs] reply_inv_facts(4,9) [OF inv] pdf p20 len
      by simp
    moreover have "page_valid r0 (drop 16 (p @ bs))" using v' pdf by (simp add: viable_def)
    ultimately show ?thesis
      using pdf p20 len by (simp add: image_buffer_cases [OF inv v] page_prefix_def)
  qed
  then show ?thesis
    using lt m(2) by (simp add: recv_after_header [OF inv v len ne] Let_def always_allocates_def)
qed

section \<open>A finished reply\<close>

definition whole_reply :: "image_reply \<Rightarrow> byte list \<Rightarrow> bool" where
  "whole_reply r0 p \<longleftrightarrow> 16 \<le> length p \<and> viable r0 p \<and> length p = 16 + wire_size p"

lemma complete_iff:
  assumes inv: "reply_inv r0 p r" and v: "viable r0 p"
  shows "image_complete r \<longleftrightarrow> whole_reply r0 p"
proof (cases "16 \<le> length p")
  case True
  have "unat (r_bytes r) = wire_size p"
    using reply_inv_facts(7) [OF inv] True by (simp add: fields_hold_def wire_size_def)
  moreover have "r_pixels r \<noteq> None" if "length p = 16 + wire_size p"
    using reply_inv_facts(8) [OF inv] payload_bytes(2) [OF inv v True] that
    by (auto simp: pixels_hold_def)
  ultimately show ?thesis
    using reply_inv_facts(2) [OF inv] v True
    by (auto simp: image_complete_def whole_reply_def limit_defs)
next
  case False
  then show ?thesis
    using reply_inv_facts(2) [OF inv] by (simp add: image_complete_def whole_reply_def limit_defs)
qed

lemma whole_reply_pixels:
  assumes inv: "reply_inv r0 p r" and w: "whole_reply r0 p"
  shows "\<exists>buf. r_pixels r = Some buf \<and>
    take (wire_size p - page_prefix (r_kind r0)) buf = drop (16 + page_prefix (r_kind r0)) p"
proof -
  have v: "viable r0 p" and l: "16 \<le> length p" and n: "length p = 16 + wire_size p"
    using w by (simp_all add: whole_reply_def)
  have "16 + page_prefix (r_kind r0) \<le> length p"
    using payload_bytes(2) [OF inv v l] n by simp
  then show ?thesis
    using reply_inv_facts(8) [OF inv] n by (auto simp: pixels_hold_def)
qed

end
