(* ===== verification/Decoder_Transfer.thy ===== *)
theory Decoder_Transfer
  imports Decoder_Reply
begin

text \<open>
  The transfer loop between the application and a decoder process
  (\<open>decoder_transfer\<close> of \<open>app/decoder_ipc.c\<close>, the POSIX variant).

  Every iteration of the loop asks the operating system a few questions (clock, peek, waitpid,
  poll, recv, send, shutdown); \<open>os_answers\<close> holds the answers of one iteration, and a run
  of the loop is driven by a list of them. The helper's reply is a fixed byte stream of which
  \<open>t_peer\<close> is what has not been delivered yet: \<open>recv\<close> delivers any positive number of pending bytes
  up to the capacity it is given, and 0 bytes (end of file) only when none are pending. The list of
  answers and the stream are arbitrary, so the helper and the scheduler are adversaries.
\<close>

section \<open>Answers of the operating system\<close>

text \<open>\<open>Peek_Data\<close> is a non-negative result: a byte that should not be there, or end of file.\<close>

datatype peek_answer = Peek_Data | Peek_Interrupted | Peek_Would_Block | Peek_Failed

datatype wait_answer =
  Wait_Exited int | Wait_Signaled | Wait_Pending | Wait_Interrupted | Wait_No_Child | Wait_Failed

text \<open>\<open>Poll_Ready nval readable writable\<close>: the bits of \<open>revents\<close>; \<open>Poll_Failed\<close> includes a timeout.\<close>

datatype poll_answer = Poll_Interrupted | Poll_Failed | Poll_Ready bool bool bool

datatype recv_answer = Recv_Ready nat | Recv_Retry | Recv_Failed

datatype send_answer = Send_Ready nat | Send_Retry | Send_Failed

record os_answers =
  a_now :: int
  a_peek :: peek_answer
  a_wait :: wait_answer
  a_poll :: poll_answer
  a_recv :: recv_answer
  a_send :: send_answer
  a_shutdown :: bool

section \<open>State and steps\<close>

record transfer =
  t_reply :: image_reply
  t_sent :: nat
  t_eof :: bool
  t_reaped :: bool
  t_peer :: "byte list"
  t_written :: "byte list"

text \<open>The receiving half of an iteration; False means that \<open>decoder_transfer\<close> returns 0.\<close>

definition transfer_read ::
  "(nat \<Rightarrow> byte list option) \<Rightarrow> bool \<Rightarrow> nat \<Rightarrow> os_answers \<Rightarrow> transfer \<Rightarrow> bool \<times> transfer" where
  "transfer_read malloc finish request ans s =
     (case a_recv ans of
        Recv_Ready n \<Rightarrow>
          let capacity = snd (image_buffer (t_reply s));
              count = min (max 1 n) capacity;
              bs = take count (t_peer s)
          in if bs \<noteq> []
             then let (ok, reply) = reply_recv malloc (t_reply s) bs
                  in (ok, s\<lparr>t_reply := reply, t_peer := drop count (t_peer s)\<rparr>)
             else (finish \<and> image_complete (t_reply s) \<and> t_sent s = request, s\<lparr>t_eof := True\<rparr>)
      | Recv_Retry \<Rightarrow> (True, s)
      | Recv_Failed \<Rightarrow> (False, s))"

text \<open>The bytes offered to \<open>send\<close>: the rest of the header, then the data in pieces of 64 KiB.\<close>

definition send_slice :: "byte list \<Rightarrow> byte list \<Rightarrow> nat \<Rightarrow> byte list" where
  "send_slice header data sent =
     (if sent < length header then drop sent header
      else take 65536 (drop (sent - length header) data))"

definition transfer_write ::
  "byte list \<Rightarrow> byte list \<Rightarrow> bool \<Rightarrow> os_answers \<Rightarrow> transfer \<Rightarrow> bool \<times> transfer" where
  "transfer_write header data finish ans s =
     (case a_send ans of
        Send_Ready n \<Rightarrow>
          let bs = take n (send_slice header data (t_sent s));
              sent = t_sent s + length bs
          in if bs \<noteq> []
             then (\<not> (finish \<and> sent = length header + length data \<and> \<not> a_shutdown ans),
                   s\<lparr>t_sent := sent, t_written := t_written s @ bs\<rparr>)
             else (False, s)
      | Send_Retry \<Rightarrow> (True, s)
      | Send_Failed \<Rightarrow> (False, s))"

text \<open>The body under \<open>poll\<close>: receive first, then send while the request is not out.\<close>

definition transfer_io ::
  "(nat \<Rightarrow> byte list option) \<Rightarrow> byte list \<Rightarrow> byte list \<Rightarrow> bool \<Rightarrow> bool \<Rightarrow> bool \<Rightarrow> os_answers \<Rightarrow>
   transfer \<Rightarrow> bool \<times> transfer" where
  "transfer_io malloc header data finish readable writable ans s =
     (let request = length header + length data;
          (ok, s1) = (if readable then transfer_read malloc finish request ans s else (True, s))
      in if ok \<and> writable \<and> t_sent s1 < request
         then transfer_write header data finish ans s1
         else (ok, s1))"

text \<open>One iteration: \<open>Inl (result, state)\<close> when the function returns, \<open>Inr state\<close> to go on.\<close>

definition transfer_step ::
  "(nat \<Rightarrow> byte list option) \<Rightarrow> byte list \<Rightarrow> byte list \<Rightarrow> bool \<Rightarrow> int \<Rightarrow> os_answers \<Rightarrow> transfer \<Rightarrow>
   (bool \<times> transfer) + transfer" where
  "transfer_step malloc header data finish deadline ans s =
     (let request = length header + length data in
      if a_now ans < 0 \<or> a_now ans \<ge> deadline then Inl (False, s)
      else if \<not> finish \<and> t_sent s = request \<and> image_complete (t_reply s) then
        (if a_peek ans = Peek_Interrupted then Inr s else Inl (a_peek ans = Peek_Would_Block, s))
      else if t_eof s then
        (case a_wait ans of
           Wait_Exited code \<Rightarrow>
             Inl (t_sent s = request \<and> image_complete (t_reply s) \<and> code = 0, s\<lparr>t_reaped := True\<rparr>)
         | Wait_Signaled \<Rightarrow> Inl (False, s\<lparr>t_reaped := True\<rparr>)
         | Wait_No_Child \<Rightarrow> Inl (False, s\<lparr>t_reaped := True\<rparr>)
         | Wait_Failed \<Rightarrow> Inl (False, s)
         | Wait_Pending \<Rightarrow> Inr s
         | Wait_Interrupted \<Rightarrow> Inr s)
      else
        (case a_poll ans of
           Poll_Interrupted \<Rightarrow> Inr s
         | Poll_Failed \<Rightarrow> Inl (False, s)
         | Poll_Ready nval readable writable \<Rightarrow>
             if nval then Inl (False, s)
             else let (ok, s') = transfer_io malloc header data finish readable writable ans s
                  in if ok then Inr s' else Inl (False, s')))"

text \<open>The loop over the answers. None: the answers ran out while it was still going.\<close>

definition transfer_loop ::
  "(nat \<Rightarrow> byte list option) \<Rightarrow> byte list \<Rightarrow> byte list \<Rightarrow> bool \<Rightarrow> int \<Rightarrow> os_answers list \<Rightarrow> transfer \<Rightarrow>
   (bool \<times> transfer) option" where
  "transfer_loop malloc header data finish deadline as s =
     (case perform (transfer_step malloc header data finish deadline) as s of
        Inl result \<Rightarrow> Some result
      | Inr s' \<Rightarrow> None)"

definition transfer_start :: "image_reply \<Rightarrow> byte list \<Rightarrow> transfer" where
  "transfer_start reply stream =
     \<lparr>t_reply = reply, t_sent = 0, t_eof = False, t_reaped = False, t_peer = stream, t_written = []\<rparr>"

text \<open>
  The whole function: the socket must be silent before the request is sent. \<open>stream\<close> is what the
  helper will write.
\<close>

definition decoder_transfer ::
  "(nat \<Rightarrow> byte list option) \<Rightarrow> byte list \<Rightarrow> byte list \<Rightarrow> image_reply \<Rightarrow> bool \<Rightarrow> int \<Rightarrow>
   peek_answer \<Rightarrow> os_answers list \<Rightarrow> byte list \<Rightarrow> (bool \<times> transfer) option" where
  "decoder_transfer malloc header data reply finish deadline first as stream =
     (let s = transfer_start reply stream
      in if first = Peek_Data \<or> first = Peek_Failed then Some (False, s)
         else transfer_loop malloc header data finish deadline as s)"

section \<open>Invariant\<close>

definition transfer_inv ::
  "image_reply \<Rightarrow> byte list \<Rightarrow> byte list \<Rightarrow> bool \<Rightarrow> byte list \<Rightarrow> transfer \<Rightarrow> bool" where
  "transfer_inv r0 header data finish stream s \<longleftrightarrow>
     t_sent s \<le> length (header @ data) \<and> t_written s = take (t_sent s) (header @ data) \<and>
     (\<exists>got. stream = got @ t_peer s \<and> viable r0 got \<and> reply_inv r0 got (t_reply s)) \<and>
     (t_eof s \<longrightarrow> t_peer s = [] \<and> finish \<and> t_sent s = length (header @ data) \<and> image_complete (t_reply s))"

lemma send_slice_window:
  "\<exists>k. send_slice header data sent = take k (drop sent (header @ data))"
proof (cases "sent < length header")
  case True
  then have "send_slice header data sent = take (length header - sent) (drop sent (header @ data))"
    by (simp add: send_slice_def)
  then show ?thesis ..
next
  case False
  then have "send_slice header data sent = take 65536 (drop sent (header @ data))"
    by (simp add: send_slice_def)
  then show ?thesis ..
qed

lemma take_window:
  "take s xs @ take m (drop s xs) = take (s + length (take m (drop s xs))) xs"
  by (simp add: take_add [symmetric] min_def)

lemma send_slice_take:
  "take sent (header @ data) @ take n (send_slice header data sent) =
   take (sent + length (take n (send_slice header data sent))) (header @ data)"
proof -
  obtain k where "send_slice header data sent = take k (drop sent (header @ data))"
    using send_slice_window by blast
  then show ?thesis using take_window [of sent "header @ data" "min n k"] by (simp only: take_take)
qed

lemma send_slice_bound:
  "sent \<le> length (header @ data) \<Longrightarrow>
   sent + length (take n (send_slice header data sent)) \<le> length (header @ data)"
  by (auto simp: send_slice_def)

lemma send_slice_nonempty:
  "sent < length header + length data \<Longrightarrow> send_slice header data sent \<noteq> []"
  by (auto simp: send_slice_def)

lemma transfer_read_inv:
  assumes fr: "fresh r0" and m: "malloc_ok malloc"
    and inv: "transfer_inv r0 header data finish stream s" and eof: "\<not> t_eof s"
    and step: "transfer_read malloc finish (length header + length data) ans s = (True, s')"
  shows "transfer_inv r0 header data finish stream s'"
proof (cases "a_recv ans")
  case (Recv_Ready n)
  define count where "count = min (max 1 n) (snd (image_buffer (t_reply s)))"
  have pos: "count > 0" using image_buffer_positive [of "t_reply s"] by (simp add: count_def)
  obtain got where got: "stream = got @ t_peer s" "viable r0 got" "reply_inv r0 got (t_reply s)"
    using inv by (auto simp: transfer_inv_def)
  show ?thesis
  proof (cases "t_peer s = []")
    case True
    then show ?thesis using inv step Recv_Ready
      by (auto simp: transfer_read_def transfer_inv_def Let_def)
  next
    case False
    let ?bs = "take count (t_peer s)"
    have ne: "?bs \<noteq> []" using pos False by simp
    obtain reply where rr: "reply_recv malloc (t_reply s) ?bs = (True, reply)"
      and s': "s' = s\<lparr>t_reply := reply, t_peer := drop count (t_peer s)\<rparr>"
      using step ne
      unfolding transfer_read_def Let_def Recv_Ready recv_answer.case count_def [symmetric]
      by (auto split: prod.splits)
    have "length ?bs \<le> snd (image_buffer (t_reply s))" by (simp add: count_def)
    from reply_recv_sound [OF fr got(3,2) ne this m rr]
    have "viable r0 (got @ ?bs)" "reply_inv r0 (got @ ?bs) reply" by auto
    then show ?thesis
      using inv eof got(1) s' by (auto simp: transfer_inv_def intro: exI [of _ "got @ ?bs"])
  qed
next
  case Recv_Retry
  then show ?thesis using inv step by (simp add: transfer_read_def)
next
  case Recv_Failed
  then show ?thesis using step by (simp add: transfer_read_def)
qed

lemma transfer_write_inv:
  assumes inv: "transfer_inv r0 header data finish stream s" and lt: "t_sent s < length header + length data"
    and step: "transfer_write header data finish ans s = (ok, s')"
  shows "transfer_inv r0 header data finish stream s'"
proof (cases "a_send ans")
  case (Send_Ready n)
  define bs where "bs = take n (send_slice header data (t_sent s))"
  have "s' = s \<or> s' = s\<lparr>t_sent := t_sent s + length bs, t_written := t_written s @ bs\<rparr>"
    using step unfolding transfer_write_def Send_Ready send_answer.case Let_def bs_def [symmetric]
    by (cases "bs = []") auto
  then show ?thesis
  proof
    assume s': "s' = s\<lparr>t_sent := t_sent s + length bs, t_written := t_written s @ bs\<rparr>"
    have "\<not> t_eof s" using inv lt by (auto simp: transfer_inv_def)
    moreover have "t_sent s + length bs \<le> length (header @ data)"
      unfolding bs_def by (rule send_slice_bound) (use lt in simp)
    moreover have "t_written s @ bs = take (t_sent s + length bs) (header @ data)"
      using inv send_slice_take by (simp only: transfer_inv_def bs_def)
    ultimately show ?thesis
      using inv unfolding transfer_inv_def s' by simp
  qed (use inv in simp)
qed (use inv step in \<open>auto simp: transfer_write_def\<close>)

lemma transfer_write_eof: "transfer_write header data finish ans s = (ok, s') \<Longrightarrow> t_eof s' = t_eof s"
  by (auto simp: transfer_write_def Let_def split: send_answer.splits if_splits)


lemma transfer_read_flags:
  "transfer_read malloc finish request ans s = (ok, s') \<Longrightarrow> t_sent s' = t_sent s \<and> t_written s' = t_written s"
  by (auto simp: transfer_read_def Let_def split: recv_answer.splits if_splits prod.splits)

text \<open>The loop as a guarded machine: the invariant holds as long as the loop goes on.\<close>

definition transfer_ok ::
  "(nat \<Rightarrow> byte list option) \<Rightarrow> image_reply \<Rightarrow> byte list \<Rightarrow> byte list \<Rightarrow> bool \<Rightarrow> byte list \<Rightarrow> transfer \<Rightarrow> bool" where
  "transfer_ok malloc r0 header data finish stream s \<longleftrightarrow>
     malloc_ok malloc \<and> fresh r0 \<and> transfer_inv r0 header data finish stream s"

lemma transfer_io_inv:
  assumes fr: "fresh r0" and m: "malloc_ok malloc"
    and inv: "transfer_inv r0 header data finish stream s" and eof: "\<not> t_eof s"
    and io: "transfer_io malloc header data finish readable writable ans s = (True, s')"
  shows "transfer_inv r0 header data finish stream s'"
proof -
  obtain ok s1 where r:
    "(if readable then transfer_read malloc finish (length header + length data) ans s else (True, s)) = (ok, s1)"
    by fastforce
  have w: "(if ok \<and> writable \<and> t_sent s1 < length header + length data
         then transfer_write header data finish ans s1 else (ok, s1)) = (True, s')"
    using io unfolding transfer_io_def Let_def r by simp
  have "ok" using w by (auto split: if_splits)
  then have "transfer_inv r0 header data finish stream s1"
    using r inv transfer_read_inv [OF fr m inv eof] by (auto split: if_splits)
  then show ?thesis using w transfer_write_inv by (auto split: if_splits)
qed

lemma transfer_step_inv:
  assumes ok: "transfer_ok malloc r0 header data finish stream s"
    and step: "transfer_step malloc header data finish deadline ans s = Inr s'"
  shows "transfer_ok malloc r0 header data finish stream s'"
proof (cases "t_eof s")
  case True
  then have "s' = s"
    using step by (auto simp: transfer_step_def Let_def split: if_splits wait_answer.splits)
  then show ?thesis using ok by simp
next
  case False
  then have "s' = s \<or> (\<exists>rd wr. transfer_io malloc header data finish rd wr ans s = (True, s'))"
    using step
    by (auto simp: transfer_step_def Let_def split: if_splits poll_answer.splits prod.splits)
  then show ?thesis
    using ok False transfer_io_inv by (auto simp: transfer_ok_def)
qed

interpretation transfer: guarded_machine "transfer_step malloc header data finish deadline"
    "transfer_ok malloc r0 header data finish stream"
  for malloc header data finish deadline r0 stream
  by unfold_locales (rule transfer_step_inv)

section \<open>What a run guarantees\<close>

lemma transfer_ok_start:
  "malloc_ok malloc \<Longrightarrow> fresh r0 \<Longrightarrow> transfer_ok malloc r0 header data finish stream (transfer_start r0 stream)"
  by (simp add: transfer_ok_def transfer_inv_def transfer_start_def reply_inv_fresh)

lemma transfer_step_success:
  assumes ok: "transfer_ok malloc r0 header data finish stream s"
    and step: "transfer_step malloc header data finish deadline ans s = Inl (True, s')"
  shows "t_written s' = header @ data \<and> (finish \<longrightarrow> t_peer s' = [] \<and> t_reaped s') \<and> 
     (\<exists>got. stream = got @ t_peer s' \<and> whole_reply r0 got \<and> reply_inv r0 got (t_reply s'))"
proof -
  have inv: "transfer_inv r0 header data finish stream s"
    using ok by (auto simp: transfer_ok_def)
  have "(\<not> finish \<and> s' = s \<or> t_eof s \<and> s' = s\<lparr>t_reaped := True\<rparr>) \<and> image_complete (t_reply s) \<and> t_sent s = length header + length data"
    using step by (auto simp: transfer_step_def Let_def split: if_splits poll_answer.splits prod.splits wait_answer.splits)
  then show ?thesis using inv complete_iff by (fastforce simp: transfer_inv_def)
qed

lemma transfer_loop_success:
  assumes "malloc_ok malloc" "fresh r0"
    and "transfer_loop malloc header data finish deadline as (transfer_start r0 stream) = Some (True, s)"
  shows "t_written s = header @ data \<and> (finish \<longrightarrow> t_peer s = [] \<and> t_reaped s) \<and> 
     (\<exists>got. stream = got @ t_peer s \<and> whole_reply r0 got \<and> reply_inv r0 got (t_reply s))"
proof -
  have "perform (transfer_step malloc header data finish deadline) as (transfer_start r0 stream) = Inl (True, s)"
    using assms(3) by (auto simp: transfer_loop_def split: sum.splits)
  from transfer.perform_stop [OF transfer_ok_start [OF assms(1,2)] this] transfer_step_success
  show ?thesis by blast
qed

lemma transfer_loop_exit:
  assumes "malloc_ok malloc" "fresh r0"
    and "transfer_loop malloc header data True deadline as (transfer_start r0 stream) = Some (True, s)"
  shows "\<exists>a\<in>set as. a_wait a = Wait_Exited 0"
proof -
  have "perform (transfer_step malloc header data True deadline) as (transfer_start r0 stream) = Inl (True, s)"
    using assms(3) by (auto simp: transfer_loop_def split: sum.splits)
  from transfer.perform_stop [OF transfer_ok_start [OF assms(1,2)] this]
  obtain a t where "a \<in> set as" "transfer_step malloc header data True deadline a t = Inl (True, s)" by blast
  moreover from this(2) have "a_wait a = Wait_Exited 0"
    by (auto simp: transfer_step_def Let_def split: if_splits poll_answer.splits prod.splits wait_answer.splits)
  ultimately show ?thesis by blast
qed

lemma transfer_loop_deadline:
  assumes "a \<in> set as" "a_now a < 0 \<or> deadline \<le> a_now a"
  shows "transfer_loop malloc header data finish deadline as s \<noteq> None"
  using assms(1)
proof (induction as arbitrary: s)
  case Nil
  then show ?case by simp
next
  case (Cons b bs)
  show ?case
  proof (cases "transfer_step malloc header data finish deadline b s")
    case (Inl r)
    then show ?thesis by (simp add: transfer_loop_def)
  next
    case (Inr s')
    then have "b \<noteq> a" using assms(2) by (auto simp: transfer_step_def Let_def)
    then show ?thesis using Cons Inr by (simp add: transfer_loop_def)
  qed
qed

text \<open>Cooperation.\<close>

definition write_answer :: "int \<Rightarrow> os_answers \<Rightarrow> bool" where
  "write_answer deadline a \<longleftrightarrow> 0 \<le> a_now a \<and> a_now a < deadline \<and> a_poll a = Poll_Ready False False True \<and> a_shutdown a \<and>
    (\<exists>n. a_send a = Send_Ready (Suc n))"

definition read_answer :: "int \<Rightarrow> os_answers \<Rightarrow> bool" where
  "read_answer deadline a \<longleftrightarrow> 0 \<le> a_now a \<and> a_now a < deadline \<and> (\<exists>writable. a_poll a = Poll_Ready False True writable) \<and>
    (\<exists>n. a_recv a = Recv_Ready n) \<and> a_wait a = Wait_Exited 0 \<and> a_peek a = Peek_Would_Block"

lemma transfer_loop_Cons:
  "transfer_loop malloc header data finish deadline (a # as) s =
     (case transfer_step malloc header data finish deadline a s of
        Inl result \<Rightarrow> Some result
      | Inr s' \<Rightarrow> transfer_loop malloc header data finish deadline as s')"
  by (simp add: transfer_loop_def split: sum.split)

lemma write_phase:
  assumes "\<forall>a\<in>set ws. write_answer deadline a" 
    "length header + length data \<le> length ws + t_sent s" "t_sent s \<le> length header + length data" "\<not> t_eof s" "finish"
  shows "\<exists>s'. perform (transfer_step malloc header data finish deadline) ws s = Inr s' \<and>
    t_sent s' = length header + length data \<and> \<not> t_eof s' \<and> t_reply s' = t_reply s \<and> t_peer s' = t_peer s"
  using assms(1-4)
proof (induction ws arbitrary: s)
  case Nil
  then show ?case by simp
next
  case (Cons a ws)
  then obtain n where a: "0 \<le> a_now a" "a_now a < deadline" "a_poll a = Poll_Ready False False True" "a_shutdown a"
     "a_send a = Send_Ready (Suc n)" by (auto simp: write_answer_def)
  show ?case
  proof (cases "t_sent s < length header + length data")
    case True
    define bs where "bs = take (Suc n) (send_slice header data (t_sent s))"
    have ne: "bs \<noteq> []" using send_slice_nonempty [OF True] by (simp add: bs_def)
    have le: "t_sent s + length bs \<le> length header + length data"
      using send_slice_bound [of "t_sent s" header data "Suc n"] Cons.prems by (simp add: bs_def)
    let ?s = "s\<lparr>t_sent := t_sent s + length bs, t_written := t_written s @ bs\<rparr>"
    have "transfer_write header data finish a s = (True, ?s)"
      using a ne by (simp add: transfer_write_def Let_def bs_def [symmetric])
    then have "transfer_step malloc header data finish deadline a s = Inr ?s"
      using a True Cons.prems assms(5) by (simp add: transfer_step_def transfer_io_def Let_def)
    moreover have "length header + length data \<le> length ws + (t_sent s + length bs)"
      using Cons.prems ne by (cases bs) auto
    ultimately show ?thesis
      using Cons.IH [of ?s] Cons.prems le by simp
  next
    case False
    then have "transfer_step malloc header data finish deadline a s = Inr s"
      using a Cons.prems assms(5) by (simp add: transfer_step_def transfer_io_def Let_def)
    then show ?thesis using Cons.IH [of s] Cons.prems False by simp
  qed
qed

lemma viable_prefix: "viable r0 (p @ q) \<Longrightarrow> viable r0 p"
proof -
  assume v: "viable r0 (p @ q)"
  have "16 \<le> length p \<Longrightarrow> take 16 (p @ q) = take 16 p" by simp
  moreover have "20 \<le> length p \<Longrightarrow> page_valid r0 (drop 16 (p @ q)) = page_valid r0 (drop 16 p)"
    by (simp add: page_valid_def wn_image_u32_append)
  ultimately show ?thesis using v by (auto simp: viable_def simp del: header_valid.simps)
qed

lemma read_phase:
  assumes fr: "fresh r0" and m: "malloc_ok malloc" "always_allocates malloc" and w: "whole_reply r0 stream"
    and "\<forall>a\<in>set rs. read_answer deadline a" "length (t_peer s) + 2 \<le> length rs"
    "t_sent s = length header + length data" "\<not> t_eof s" 
    "stream = got @ t_peer s" "reply_inv r0 got (t_reply s)"
  shows "\<exists>s'. transfer_loop malloc header data True deadline rs s = Some (True, s')"
  using assms(5-10)
proof (induction rs arbitrary: s got)
  case Nil
  then show ?case by simp
next
  case (Cons a rs)
  then obtain n wr where a: "0 \<le> a_now a" "a_now a < deadline" "a_poll a = Poll_Ready False True wr" 
     "a_recv a = Recv_Ready n" by (auto simp: read_answer_def)
  have v: "viable r0 got" using w Cons.prems(5) viable_prefix by (auto simp: whole_reply_def)
  define count where "count = min (max 1 n) (snd (image_buffer (t_reply s)))"
  have pos: "count > 0" using image_buffer_positive [of "t_reply s"] by (simp add: count_def)
  have step: "transfer_step malloc header data True deadline a s =
      (case transfer_read malloc True (length header + length data) a s of (ok, s') \<Rightarrow> if ok then Inr s' else Inl (False, s'))"
    using a Cons.prems by (auto simp: transfer_step_def transfer_io_def Let_def split: prod.splits dest: transfer_read_flags)
  show ?case
  proof (cases "t_peer s = []")
    case True
    then have "whole_reply r0 got" using w Cons.prems by simp
    then have c: "image_complete (t_reply s)" using complete_iff [OF Cons.prems(6) v] by simp
    then have "transfer_read malloc True (length header + length data) a s = (True, s\<lparr>t_eof := True\<rparr>)"
      using True Cons.prems a by (simp add: transfer_read_def Let_def)
    then have 1: "transfer_step malloc header data True deadline a s = Inr (s\<lparr>t_eof := True\<rparr>)"
      unfolding step by simp
    obtain b rs' where rs: "rs = b # rs'" using Cons.prems(2) True by (cases rs) auto
    have b: "0 \<le> a_now b" "a_now b < deadline" "a_wait b = Wait_Exited 0" 
      using Cons.prems(1) rs by (auto simp: read_answer_def)
    then have "transfer_step malloc header data True deadline b (s\<lparr>t_eof := True\<rparr>) = Inl (True, s\<lparr>t_eof := True, t_reaped := True\<rparr>)"
      using c Cons.prems by (simp add: transfer_step_def Let_def)
    then show ?thesis using 1 rs by (simp add: transfer_loop_Cons)
  next
    case False
    let ?bs = "take count (t_peer s)"
    have ne: "?bs \<noteq> []" using pos False by simp
    have cap: "length ?bs \<le> snd (image_buffer (t_reply s))" by (simp add: count_def)
    have "viable r0 (got @ ?bs)" 
      by (rule viable_prefix [where q = "drop count (t_peer s)"]) (use w Cons.prems in \<open>simp add: whole_reply_def\<close>)
    from reply_recv_accepts [OF fr Cons.prems(6) v ne cap m this]
    obtain reply where rr: "reply_recv malloc (t_reply s) ?bs = (True, reply)" by (metis prod.collapse)
    let ?s = "s\<lparr>t_reply := reply, t_peer := drop count (t_peer s)\<rparr>"
    have "transfer_read malloc True (length header + length data) a s = (True, ?s)"
      using ne rr unfolding transfer_read_def Let_def a recv_answer.case count_def [symmetric] by simp
    then have 1: "transfer_step malloc header data True deadline a s = Inr ?s" unfolding step by simp
    have "\<exists>s'. transfer_loop malloc header data True deadline rs ?s = Some (True, s')"
    proof (rule Cons.IH)
      show "stream = (got @ ?bs) @ t_peer ?s" using Cons.prems by simp
      show "reply_inv r0 (got @ ?bs) (t_reply ?s)"
        using reply_recv_sound [OF fr Cons.prems(6) v ne cap m(1) rr] by simp
      show "length (t_peer ?s) + 2 \<le> length rs" using Cons.prems(2) pos False by (cases "t_peer s") auto
    qed (use Cons.prems in auto)
    then show ?thesis using 1 by (simp add: transfer_loop_Cons)
  qed
qed

lemma transfer_cooperates:
  assumes "fresh r0" "malloc_ok malloc" "always_allocates malloc" "whole_reply r0 stream"
    and ws: "\<forall>a\<in>set ws. write_answer deadline a" "length header + length data \<le> length ws"
    and rs: "\<forall>a\<in>set rs. read_answer deadline a" "length stream + 2 \<le> length rs"
  shows "\<exists>s. transfer_loop malloc header data True deadline (ws @ rs) (transfer_start r0 stream) = Some (True, s)"
proof -
  obtain s1 where s1: "perform (transfer_step malloc header data True deadline) ws (transfer_start r0 stream) = Inr s1"
    "t_sent s1 = length header + length data" "\<not> t_eof s1" "t_reply s1 = r0" "t_peer s1 = stream"
    using write_phase [OF ws(1), of header data "transfer_start r0 stream" True malloc] ws(2) by (auto simp: transfer_start_def)
  have "\<exists>s. transfer_loop malloc header data True deadline rs s1 = Some (True, s)"
    by (rule read_phase [OF assms(1-4) rs(1), where got = "[]"]) (use s1 rs reply_inv_fresh assms in auto)
  then show ?thesis using s1(1) by (simp add: transfer_loop_def perform_append)
qed

section \<open>A concrete exchange\<close>

text \<open>A mesh reply with a two-byte payload, and an operating system that moves a byte at a time.\<close>

definition sample_malloc :: "nat \<Rightarrow> byte list option" where
  "sample_malloc n = Some (replicate n 0)"

definition sample_request :: image_reply where
  "sample_request = zero_reply\<lparr>r_kind := DECODER_MESH, r_cap := 100\<rparr>"

definition sample_stream :: "byte list" where
  "sample_stream = ascii ''MDO1'' @ wn_image_put 1 @ wn_image_put 0 @ wn_image_put 2 @ [7, 8]"

definition sample_answers :: os_answers where
  "sample_answers =
     \<lparr>a_now = 5, a_peek = Peek_Would_Block, a_wait = Wait_Exited 0,
      a_poll = Poll_Ready False False True, a_recv = Recv_Ready 1, a_send = Send_Ready 1,
      a_shutdown = True\<rparr>"

definition sample_script :: "os_answers list" where
  "sample_script =
     replicate 3 sample_answers @
     replicate 20 (sample_answers\<lparr>a_poll := Poll_Ready False True True\<rparr>)"

lemma sample_malloc_ok: "malloc_ok sample_malloc" "always_allocates sample_malloc"
  by (auto simp: malloc_ok_def always_allocates_def sample_malloc_def)

lemma sample_fresh: "fresh sample_request"
  by (simp add: fresh_def sample_request_def zero_reply_def)

lemma sample_whole: "whole_reply sample_request sample_stream"
  by (simp add: whole_reply_def viable_def sample_request_def sample_stream_def zero_reply_def
      wire_size_def wire_simps ascii_def)

lemma sample_succeeds:
  "\<exists>s. decoder_transfer sample_malloc [1, 2] [3] sample_request True 10 Peek_Would_Block sample_script
    sample_stream = Some (True, s)"
proof -
  have "\<exists>s. transfer_loop sample_malloc [1, 2] [3] True 10 sample_script
      (transfer_start sample_request sample_stream) = Some (True, s)"
    unfolding sample_script_def
    by (rule transfer_cooperates [OF sample_fresh sample_malloc_ok sample_whole])
       (auto simp: write_answer_def read_answer_def sample_answers_def sample_stream_def)
  then show ?thesis by (simp add: decoder_transfer_def)
qed

section \<open>Properties\<close>

text \<open>
  C1. Whatever the helper writes and however the operating system schedules the transfer: when a
  one-shot transfer succeeds, the whole request was written to the socket in order, the helper's
  output up to its end of file is exactly one valid reply (with no missing and no excess byte), the
  pixel buffer holds its payload, and the helper was reaped after exiting with status 0.
\<close>

theorem transfer_success:
  assumes "malloc_ok malloc" "fresh r0"
    and "decoder_transfer malloc header data r0 True deadline first as stream = Some (True, s)"
  shows "t_written s = header @ data \<and> whole_reply r0 stream \<and> t_reaped s \<and> (\<exists>a\<in>set as. a_wait a = Wait_Exited 0) \<and>
    (\<exists>buf. r_pixels (t_reply s) = Some buf \<and>
       take (wire_size stream - page_prefix (r_kind r0)) buf = drop (16 + page_prefix (r_kind r0)) stream)"
proof -
  have "transfer_loop malloc header data True deadline as (transfer_start r0 stream) = Some (True, s)"
    using assms(3) by (simp add: decoder_transfer_def Let_def split: if_splits)
  from transfer_loop_success [OF assms(1,2) this] transfer_loop_exit [OF assms(1,2) this] whole_reply_pixels
  show ?thesis by auto
qed

lemma transfer_success_witness:
  "\<exists>s :: transfer. t_written s = [1, 2, 3] \<and> t_reaped s \<and>
     (\<exists>buf. r_pixels (t_reply s) = Some buf \<and> take 2 buf = [7, 8])"
proof -
  obtain s where s: "decoder_transfer sample_malloc [1, 2] [3] sample_request True 10 Peek_Would_Block
      sample_script sample_stream = Some (True, s)"
    using sample_succeeds by blast
  from transfer_success [OF sample_malloc_ok(1) sample_fresh s]
  have "t_written s = [1, 2, 3] \<and> t_reaped s \<and>
     (\<exists>buf. r_pixels (t_reply s) = Some buf \<and> take 2 buf = [7, 8])"
    by (auto simp: sample_request_def sample_stream_def zero_reply_def wire_size_def page_prefix_def
        wire_simps)
  then show ?thesis by blast
qed

text \<open>
  C2. Memory safety of receiving: at the start of every iteration the loop reaches, for any stream
  and any answers, the buffer passed to \<open>recv\<close> lies inside its object, capacity included.
\<close>

theorem transfer_slices_in_bounds:
  assumes "malloc_ok malloc" "fresh r0"
    and "perform (transfer_step malloc header data finish deadline) as (transfer_start r0 stream) = Inr s"
  shows "slice_fits (t_reply s) (image_buffer (t_reply s))"
proof -
  from transfer.perform_inv [OF transfer_ok_start [OF assms(1,2)] assms(3)]
  show ?thesis using slice_in_bounds by (auto simp: transfer_ok_def transfer_inv_def)
qed

lemma transfer_slices_in_bounds_witness:
  "slice_fits sample_request (image_buffer sample_request)"
  using transfer_slices_in_bounds [OF sample_malloc_ok(1) sample_fresh,
      of "[1, 2]" "[3]" True 10 "[]" sample_stream "transfer_start sample_request sample_stream"]
  by (simp add: transfer_start_def)

text \<open>
  C3. The transfer returns: once the clock reaches the deadline (or fails), whatever the other
  answers are, the loop has returned.
\<close>

theorem transfer_returns_by_deadline:
  assumes "a \<in> set as" "a_now a < 0 \<or> deadline \<le> a_now a"
  shows "decoder_transfer malloc header data r0 finish deadline first as stream \<noteq> None"
  using transfer_loop_deadline [OF assms] by (auto simp: decoder_transfer_def Let_def)

lemma transfer_returns_by_deadline_witness:
  "decoder_transfer sample_malloc [1, 2] [3] sample_request True 5 Peek_Would_Block [sample_answers]
     sample_stream \<noteq> None"
  by (rule transfer_returns_by_deadline [of sample_answers]) (simp_all add: sample_answers_def)

text \<open>
  C4. No false refusal: a helper that reads the request, writes a valid reply and exits with status
  0 is served successfully, whatever the sizes of the individual sends and receives; as many
  iterations as there are bytes to move, plus two, are enough.
\<close>

theorem transfer_completes:
  assumes "fresh r0" "malloc_ok malloc" "always_allocates malloc" "whole_reply r0 stream"
    and "\<forall>a\<in>set ws. write_answer deadline a" "length header + length data \<le> length ws"
    and "\<forall>a\<in>set rs. read_answer deadline a" "length stream + 2 \<le> length rs"
  shows "\<exists>s. decoder_transfer malloc header data r0 True deadline Peek_Would_Block (ws @ rs) stream =
    Some (True, s)"
  using transfer_cooperates [OF assms] by (simp add: decoder_transfer_def)

lemma transfer_completes_witness:
  "\<exists>s. decoder_transfer sample_malloc [1, 2] [3] sample_request True 10 Peek_Would_Block
     (replicate 3 sample_answers @
      replicate 20 (sample_answers\<lparr>a_poll := Poll_Ready False True True\<rparr>)) sample_stream = Some (True, s)"
  by (rule transfer_completes [OF sample_fresh sample_malloc_ok sample_whole])
     (auto simp: write_answer_def read_answer_def sample_answers_def sample_stream_def)

end
