(* ===== verification/Decoder_Process.thy ===== *)
theory Decoder_Process
  imports Decoder_Transfer
begin

text \<open>
  The life of a decoder process on Linux (\<open>app/decoder_ipc.c\<close>): the descriptors of
  \<open>decoder_start\<close>, the descriptor table the helper is executed with (\<open>image_spawn\<close>), \<open>decoder_stop\<close>
  and the one-shot \<open>image_run\<close>. Operations return the list of descriptor and process events they
  perform; what the kernel answers is an argument.
\<close>

section \<open>Events\<close>

datatype event =
  Fd_Open int | Fd_Close int | Child_Spawned int | Group_Killed int | Child_Killed int |
  Child_Reaped int

text \<open>The set of open descriptors after a trace.\<close>

fun open_after :: "int set \<Rightarrow> event list \<Rightarrow> int set" where
  "open_after held [] = held"
| "open_after held (Fd_Open fd # es) = open_after (insert fd held) es"
| "open_after held (Fd_Close fd # es) = open_after (held - {fd}) es"
| "open_after held (e # es) = open_after held es"

text \<open>The kernel hands out only descriptors that are not open.\<close>

fun fresh_opens :: "int set \<Rightarrow> event list \<Rightarrow> bool" where
  "fresh_opens held [] = True"
| "fresh_opens held (Fd_Open fd # es) = (fd \<notin> held \<and> fresh_opens (insert fd held) es)"
| "fresh_opens held (Fd_Close fd # es) = fresh_opens (held - {fd}) es"
| "fresh_opens held (e # es) = fresh_opens held es"

text \<open>Only open descriptors are closed: no double close.\<close>

fun closes_held :: "int set \<Rightarrow> event list \<Rightarrow> bool" where
  "closes_held held [] = True"
| "closes_held held (Fd_Open fd # es) = closes_held (insert fd held) es"
| "closes_held held (Fd_Close fd # es) = (fd \<in> held \<and> closes_held (held - {fd}) es)"
| "closes_held held (e # es) = closes_held held es"

lemma open_after_append: "open_after held (xs @ ys) = open_after (open_after held xs) ys"
  by (induction held xs rule: open_after.induct) auto

lemma fresh_opens_append:
  "fresh_opens held (xs @ ys) \<longleftrightarrow> fresh_opens held xs \<and> fresh_opens (open_after held xs) ys"
  by (induction held xs rule: open_after.induct) auto

lemma closes_held_append:
  "closes_held held (xs @ ys) \<longleftrightarrow> closes_held held xs \<and> closes_held (open_after held xs) ys"
  by (induction held xs rule: open_after.induct) auto

text \<open>
  A child may be signalled or waited for only between its start and its reaping: after that its
  process id may belong to somebody else.
\<close>

datatype child_state = No_Child | Live_Child int | Gone_Child

fun child_step :: "child_state \<Rightarrow> event \<Rightarrow> child_state option" where
  "child_step No_Child (Child_Spawned pid) = Some (Live_Child pid)"
| "child_step (Live_Child pid) (Group_Killed p) = (if p = pid then Some (Live_Child pid) else None)"
| "child_step (Live_Child pid) (Child_Killed p) = (if p = pid then Some (Live_Child pid) else None)"
| "child_step (Live_Child pid) (Child_Reaped p) = (if p = pid then Some Gone_Child else None)"
| "child_step c (Fd_Open fd) = Some c"
| "child_step c (Fd_Close fd) = Some c"
| "child_step c e = None"

fun child_run :: "child_state \<Rightarrow> event list \<Rightarrow> child_state option" where
  "child_run c [] = Some c"
| "child_run c (e # es) = (case child_step c e of None \<Rightarrow> None | Some c' \<Rightarrow> child_run c' es)"

lemma child_run_append:
  "child_run c (xs @ ys) = (case child_run c xs of None \<Rightarrow> None | Some c' \<Rightarrow> child_run c' ys)"
  by (induction xs arbitrary: c) (auto split: option.splits)

section \<open>Starting\<close>

record decoder_process =
  p_child :: int
  p_socket :: int
  p_reaped :: bool

record start_answers =
  s_pair :: "(int \<times> int) option"
  s_dup0 :: int
  s_dup1 :: int
  s_null :: int
  s_dup2 :: int
  s_getfl :: int
  s_setfl :: bool
  s_fork :: int

text \<open>\<open>dup\<close> is the answer of \<open>fcntl(fd, F_DUPFD_CLOEXEC, 3)\<close>.\<close>

definition image_high_fd :: "int \<Rightarrow> int \<Rightarrow> int \<times> event list" where
  "image_high_fd dup fd =
     (if fd < 0 \<or> fd > 2 then (fd, [])
      else (dup, (if dup < 0 then [] else [Fd_Open dup]) @ [Fd_Close fd]))"

definition close_if_open :: "int \<Rightarrow> event list" where
  "close_if_open fd = (if fd \<ge> 0 then [Fd_Close fd] else [])"

text \<open>The two socket ends and \<open>/dev/null\<close>, all moved above the standard descriptors.\<close>

definition start_descriptors :: "start_answers \<Rightarrow> int \<Rightarrow> int \<Rightarrow> (int \<times> int \<times> int) \<times> event list" where
  "start_descriptors ans a b =
     (let (pair0, es0) = image_high_fd (s_dup0 ans) a;
          (pair1, es1) = image_high_fd (s_dup1 ans) b;
          (null, es2) = image_high_fd (s_dup2 ans) (s_null ans)
      in ((pair0, pair1, null),
          es0 @ es1 @ (if s_null ans < 0 then [] else [Fd_Open (s_null ans)]) @ es2))"

definition decoder_start :: "start_answers \<Rightarrow> bool \<times> decoder_process \<times> event list" where
  "decoder_start ans =
     (let process = \<lparr>p_child = -1, p_socket = -1, p_reaped = False\<rparr> in
      case s_pair ans of
        None \<Rightarrow> (False, process, [])
      | Some (a, b) \<Rightarrow>
          let ((pair0, pair1, null), es) = start_descriptors ans a b;
              es = [Fd_Open a, Fd_Open b] @ es;
              cleanup = close_if_open pair1 @ close_if_open null
          in if pair0 < 0 \<or> pair1 < 0 \<or> null < 0 \<or> s_getfl ans < 0 \<or> \<not> s_setfl ans
             then (False, process, es @ close_if_open pair0 @ cleanup)
             else
               let process = process\<lparr>p_child := s_fork ans\<rparr> in
               if p_child process < 0
               then (False, process, es @ close_if_open pair0 @ cleanup)
               else (True, process\<lparr>p_socket := pair0\<rparr>,
                     es @ [Child_Spawned (s_fork ans)] @ cleanup))"

text \<open>
  The child between \<open>fork\<close> and \<open>execve\<close>: the descriptor table it executes the helper with, or
  None for \<open>_exit(1)\<close>.
\<close>

definition dup2 :: "int \<Rightarrow> int \<Rightarrow> (int \<rightharpoonup> 'o) \<Rightarrow> (int \<rightharpoonup> 'o) option" where
  "dup2 fd target table =
     (case table fd of None \<Rightarrow> None | Some obj \<Rightarrow> Some (table(target \<mapsto> obj)))"

definition image_spawn ::
  "bool \<Rightarrow> bool \<Rightarrow> int \<Rightarrow> int \<Rightarrow> (int \<rightharpoonup> 'o) \<Rightarrow> (int \<rightharpoonup> 'o) option" where
  "image_spawn setpgid close_range socket null table =
     (if \<not> setpgid then None
      else case dup2 socket 0 table of None \<Rightarrow> None | Some table \<Rightarrow>
        (case dup2 socket 1 table of None \<Rightarrow> None | Some table \<Rightarrow>
          (case dup2 null 2 table of None \<Rightarrow> None | Some table \<Rightarrow>
             if close_range then Some (\<lambda>fd. if 2 < fd then None else table fd) else None)))"

section \<open>Stopping and running\<close>

definition decoder_stop :: "decoder_process \<Rightarrow> decoder_process \<times> event list" where
  "decoder_stop process =
     (let es = close_if_open (p_socket process);
          process = (if p_socket process \<ge> 0 then process\<lparr>p_socket := -1\<rparr> else process)
      in if p_child process > 0
         then (process\<lparr>p_child := -1\<rparr>,
               es @ (if p_reaped process then []
                     else [Group_Killed (p_child process), Child_Killed (p_child process),
                           Child_Reaped (p_child process)]))
         else (process, es))"

text \<open>The environment of one run: clock, start, first peek, loop answers, helper output.\<close>

record run_answers =
  e_start :: int
  e_spawn :: start_answers
  e_first :: peek_answer
  e_loop :: "os_answers list"
  e_stream :: "byte list"

text \<open>None: the loop answers ran out. Otherwise the result, the reply and the events.\<close>

definition image_run ::
  "(nat \<Rightarrow> byte list option) \<Rightarrow> run_answers \<Rightarrow> byte list \<Rightarrow> byte list \<Rightarrow> image_reply \<Rightarrow>
   (bool \<times> image_reply \<times> event list) option" where
  "image_run malloc env data header reply =
     (if e_start env < 0 then Some (False, reply, [])
      else
        let (started, process, es) = decoder_start (e_spawn env) in
        if \<not> started then Some (False, reply, es)
        else
          (case decoder_transfer malloc header data reply True
                  (e_start env + int WN_IMAGE_SECONDS * 1000) (e_first env) (e_loop env)
                  (e_stream env) of
             None \<Rightarrow> None
           | Some (ok, t) \<Rightarrow>
               let process = process\<lparr>p_reaped := t_reaped t\<rparr>;
                   reaped = (if t_reaped t then [Child_Reaped (p_child process)] else []);
                   (process, stopped) = decoder_stop process
               in Some (ok, t_reply t, es @ reaped @ stopped)))"

section \<open>Lemmas\<close>

lemma image_spawn_table:
  "socket > 2 \<Longrightarrow> null > 2 \<Longrightarrow> table socket = Some s \<Longrightarrow> table null = Some n \<Longrightarrow>
   image_spawn True True socket null table =
   Some (\<lambda>fd. if fd = 0 \<or> fd = 1 then Some s else if fd = 2 then Some n
              else if 2 < fd then None else table fd)"
  by (auto simp: image_spawn_def dup2_def fun_eq_iff)

text \<open>\<open>F_DUPFD_CLOEXEC\<close> with minimum 3 answers -1 or a descriptor above 2.\<close>

definition dup_answers_ok :: "start_answers \<Rightarrow> bool" where
  "dup_answers_ok ans \<longleftrightarrow> (\<forall>d\<in>{s_dup0 ans, s_dup1 ans, s_dup2 ans}. d < 0 \<or> d > 2) \<and>
     (\<forall>a b. s_pair ans = Some (a, b) \<longrightarrow> a \<ge> 0 \<and> b \<ge> 0)"

lemma image_high_fd_result:
  "image_high_fd dup fd = (r, es) \<Longrightarrow> dup < 0 \<or> dup > 2 \<Longrightarrow> r < 0 \<or> r > 2"
  by (auto simp: image_high_fd_def split: if_splits)

lemma image_high_fd_fds:
  assumes "image_high_fd dup fd = (r, es)" "fresh_opens held es" "fd < 0 \<or> fd \<in> held"
  shows "closes_held held es" "open_after held es = (if 0 \<le> fd then held - {fd} else held) \<union> {x. x = r \<and> 0 \<le> r}"
    "0 \<le> r \<Longrightarrow> 0 \<le> fd \<and> r \<notin> held - {fd}"
  using assms by (auto simp: image_high_fd_def split: if_splits)

definition held_fds :: "int list \<Rightarrow> int set" where
  "held_fds fds = {fd \<in> set fds. 0 \<le> fd}"

definition distinct_fds :: "int list \<Rightarrow> bool" where
  "distinct_fds fds \<longleftrightarrow> distinct (filter (\<lambda>fd. 0 \<le> fd) fds)"

lemma start_descriptors_fds:
  assumes sd: "start_descriptors ans a b = ((pair0, pair1, null), es)"
    and ab: "0 \<le> a" "0 \<le> b" "a \<noteq> b" and fr: "fresh_opens {a, b} es"
  shows "closes_held {a, b} es" "open_after {a, b} es = held_fds [pair0, pair1, null]"
    "distinct_fds [pair0, pair1, null]"
proof -
  obtain p0 es0 where h0: "image_high_fd (s_dup0 ans) a = (p0, es0)" by fastforce
  obtain p1 es1 where h1: "image_high_fd (s_dup1 ans) b = (p1, es1)" by fastforce
  obtain n es2 where h2: "image_high_fd (s_dup2 ans) (s_null ans) = (n, es2)" by fastforce
  define esn where "esn = (if s_null ans < 0 then [] else [Fd_Open (s_null ans)])"
  have eq: "p0 = pair0" "p1 = pair1" "n = null" "es = es0 @ es1 @ esn @ es2"
    using sd by (simp_all add: start_descriptors_def h0 h1 h2 esn_def)
  let ?H1 = "open_after {a, b} es0"
  let ?H2 = "open_after ?H1 es1"
  let ?H3 = "open_after ?H2 esn"
  have f: "fresh_opens {a, b} es0" "fresh_opens ?H1 es1" "fresh_opens ?H2 esn" "fresh_opens ?H3 es2"
    using fr by (simp_all add: eq fresh_opens_append)
  note r0 = image_high_fd_fds [OF h0 f(1)]
  have H1: "?H1 = {b} \<union> {x. x = p0 \<and> 0 \<le> p0}" using r0(2) ab by auto
  have p0: "0 \<le> p0 \<Longrightarrow> p0 \<noteq> b" using r0(3) ab by auto
  note r1 = image_high_fd_fds [OF h1 f(2)]
  have H2: "?H2 = held_fds [p0, p1]" using r1(2) ab p0 by (auto simp: H1 held_fds_def)
  have p1: "0 \<le> p1 \<Longrightarrow> 0 \<le> p0 \<Longrightarrow> p1 \<noteq> p0" using r1(3) ab p0 by (auto simp: H1)
  have sn: "0 \<le> s_null ans \<Longrightarrow> s_null ans \<notin> held_fds [p0, p1]"
    using f(3) by (simp add: esn_def H2)
  have H3: "?H3 = held_fds [p0, p1, s_null ans]" by (auto simp: H2 esn_def held_fds_def)
  note r2 = image_high_fd_fds [OF h2 f(4)]
  have nin: "s_null ans < 0 \<or> s_null ans \<in> ?H3" by (auto simp: H3 held_fds_def)
  show "open_after {a, b} es = held_fds [pair0, pair1, null]"
    using r2(2) [OF nin] sn r2(3) [OF nin] by (auto simp: open_after_append eq H3 held_fds_def)
  show "distinct_fds [pair0, pair1, null]"
    using p1 r2(3) [OF nin] sn by (auto simp: distinct_fds_def eq [symmetric] H3 held_fds_def)
  show "closes_held {a, b} es"
    using r0(1) r1(1) r2(1) [OF nin] ab
    by (auto simp: closes_held_append eq H1 esn_def)
qed

lemma close_if_open_fds:
  "0 \<le> fd \<Longrightarrow> fd \<in> held \<Longrightarrow> closes_held held (close_if_open fd)"
  "fd < 0 \<Longrightarrow> closes_held held (close_if_open fd)"
  "open_after held (close_if_open fd) = (if 0 \<le> fd then held - {fd} else held)"
  "fresh_opens held (close_if_open fd)"
  by (simp_all add: close_if_open_def)

lemma cleanup_fds:
  assumes "distinct_fds [x, y, z]"
  shows "closes_held (held_fds [x, y, z]) (close_if_open x @ close_if_open y @ close_if_open z)"
    "open_after (held_fds [x, y, z]) (close_if_open x @ close_if_open y @ close_if_open z) = {}"
    "0 \<le> x \<Longrightarrow> closes_held (held_fds [x, y, z]) (close_if_open y @ close_if_open z)"
    "0 \<le> x \<Longrightarrow> open_after (held_fds [x, y, z]) (close_if_open y @ close_if_open z) = {x}"
  using assms
  by (auto simp: distinct_fds_def held_fds_def closes_held_append open_after_append close_if_open_def
      split: if_splits)

lemma decoder_start_cases:
  assumes "s_pair ans = Some (a, b)" "start_descriptors ans a b = ((pair0, pair1, null), es0)"
  shows "decoder_start ans =
    (let process = \<lparr>p_child = -1, p_socket = -1, p_reaped = False\<rparr>; es = [Fd_Open a, Fd_Open b] @ es0 in
     if pair0 < 0 \<or> pair1 < 0 \<or> null < 0 \<or> s_getfl ans < 0 \<or> \<not> s_setfl ans
     then (False, process, es @ close_if_open pair0 @ close_if_open pair1 @ close_if_open null)
     else if s_fork ans < 0
     then (False, process\<lparr>p_child := s_fork ans\<rparr>, es @ close_if_open pair0 @ close_if_open pair1 @ close_if_open null)
     else (True, \<lparr>p_child = s_fork ans, p_socket = pair0, p_reaped = False\<rparr>,
           es @ [Child_Spawned (s_fork ans)] @ close_if_open pair1 @ close_if_open null))"
  using assms by (simp add: decoder_start_def Let_def)

text \<open>\<open>socketpair\<close> answers two non-negative descriptors; \<open>F_DUPFD_CLOEXEC\<close> from 3 upwards.\<close>

lemma decoder_start_fds:
  assumes st: "decoder_start ans = (ok, process, es)" and ans: "dup_answers_ok ans" and fr: "fresh_opens {} es"
  shows "closes_held {} es \<and> open_after {} es = (if ok then {p_socket process} else {})"
proof (cases "s_pair ans")
  case None
  then show ?thesis using st by (simp add: decoder_start_def)
next
  case (Some ab)
  obtain a b where ab: "ab = (a, b)" by fastforce
  have ge: "0 \<le> a" "0 \<le> b" using ans Some ab by (auto simp: dup_answers_ok_def)
  obtain pair0 pair1 null es0 where sd: "start_descriptors ans a b = ((pair0, pair1, null), es0)"
    by (metis prod.collapse)
  note c = decoder_start_cases [OF Some [unfolded ab] sd]
  have ne: "a \<noteq> b" and fr0: "fresh_opens {a, b} es0"
    using fr st by (auto simp: c Let_def fresh_opens_append insert_commute split: if_splits)
  note s = start_descriptors_fds [OF sd ge ne fr0]
  show ?thesis
    using st cleanup_fds [OF s(3)] s(1,2)
    by (auto simp: c Let_def closes_held_append [of _ es0] open_after_append [of _ es0] insert_commute split: if_splits)
qed

lemma decoder_start_success:
  assumes st: "decoder_start ans = (True, process, es)" and ans: "dup_answers_ok ans"
  shows "\<exists>a b pair1 null es0. s_pair ans = Some (a, b) \<and>
    start_descriptors ans a b = ((p_socket process, pair1, null), es0) \<and>
    p_socket process > 2 \<and> pair1 > 2 \<and> null > 2 \<and>
    p_child process = s_fork ans \<and> s_fork ans \<ge> 0 \<and> \<not> p_reaped process"
proof (cases "s_pair ans")
  case None
  then show ?thesis using st by (simp add: decoder_start_def)
next
  case (Some ab)
  obtain a b where ab: "ab = (a, b)" by fastforce
  obtain pair0 pair1 null es0 where sd: "start_descriptors ans a b = ((pair0, pair1, null), es0)"
    by (metis prod.collapse)
  note c = decoder_start_cases [OF Some [unfolded ab] sd]
  have hi: "pair0 < 0 \<or> pair0 > 2" "pair1 < 0 \<or> pair1 > 2" "null < 0 \<or> null > 2"
    using sd ans
    by (auto simp: start_descriptors_def dup_answers_ok_def dest: image_high_fd_result split: prod.splits)
  have "0 \<le> pair0" "0 \<le> pair1" "0 \<le> null" "0 \<le> s_fork ans"
    "process = \<lparr>p_child = s_fork ans, p_socket = pair0, p_reaped = False\<rparr>"
    using st by (auto simp: c Let_def split: if_splits)
  then show ?thesis using hi Some ab sd by auto
qed

text \<open>Descriptor events never touch the child.\<close>

lemma child_run_close_if_open [simp]: "child_run c (close_if_open fd) = Some c"
  by (cases c) (auto simp: close_if_open_def)

lemma child_run_high_fd: "image_high_fd dup fd = (r, es) \<Longrightarrow> child_run c es = Some c"
  by (cases c) (auto simp: image_high_fd_def split: if_splits)

lemma child_run_descriptors:
  "start_descriptors ans a b = (fds, es) \<Longrightarrow> child_run c es = Some c"
  by (cases c) (auto simp: start_descriptors_def child_run_append dest!: child_run_high_fd [where c = c]
      split: prod.splits)

lemma decoder_start_child:
  "decoder_start ans = (ok, process, es) \<Longrightarrow>
   child_run No_Child es = Some (if ok then Live_Child (p_child process) else No_Child)"
proof (cases "s_pair ans")
  case None
  then show "decoder_start ans = (ok, process, es) \<Longrightarrow> ?thesis" by (auto simp: decoder_start_def)
next
  case (Some ab)
  obtain a b where ab: "ab = (a, b)" by fastforce
  obtain pair0 pair1 null es0 where sd: "start_descriptors ans a b = ((pair0, pair1, null), es0)"
    by (metis prod.collapse)
  note c = decoder_start_cases [OF Some [unfolded ab] sd]
  show "decoder_start ans = (ok, process, es) \<Longrightarrow> ?thesis"
    using child_run_descriptors [OF sd] by (auto simp: c Let_def child_run_append split: if_splits)
qed

lemma decoder_stop_child:
  "decoder_stop process = (process', es) \<Longrightarrow> p_child process > 0 \<Longrightarrow>
   child_run (if p_reaped process then Gone_Child else Live_Child (p_child process)) es = Some Gone_Child"
  by (auto simp: decoder_stop_def Let_def child_run_append split: if_splits)

lemma decoder_stop_fds:
  "decoder_stop process = (process', es) \<Longrightarrow> p_socket process \<ge> 0 \<Longrightarrow>
   closes_held {p_socket process} es \<and> open_after {p_socket process} es = {} \<and> p_socket process' = -1 \<and>
   fresh_opens held es"
  by (auto simp: decoder_stop_def Let_def closes_held_append open_after_append close_if_open_def
      split: if_splits)

text \<open>A successful run: the helper's output is one whole reply and the reply state holds it.\<close>

lemma image_run_success:
  assumes m: "malloc_ok malloc" and fr: "fresh r0"
    and run: "image_run malloc env data header r0 = Some (True, r, es)"
  shows "whole_reply r0 (e_stream env)" "reply_inv r0 (e_stream env) r"
proof -
  obtain t where t: "decoder_transfer malloc header data r0 True
      (e_start env + int WN_IMAGE_SECONDS * 1000) (e_first env) (e_loop env) (e_stream env) =
      Some (True, t)" and r: "r = t_reply t"
    using run by (auto simp: image_run_def Let_def split: if_splits option.splits prod.splits)
  have "transfer_loop malloc header data True (e_start env + int WN_IMAGE_SECONDS * 1000) (e_loop env)
      (transfer_start r0 (e_stream env)) = Some (True, t)"
    using t by (simp add: decoder_transfer_def Let_def split: if_splits)
  from transfer_loop_success [OF m fr this]
  show "whole_reply r0 (e_stream env)" "reply_inv r0 (e_stream env) r" by (auto simp: r)
qed

text \<open>The parts of a run that started a child.\<close>

lemma image_run_parts:
  assumes "image_run malloc env data header r0 = Some (ok, r, es)"
  shows "es = [] \<or>
    (\<exists>process. decoder_start (e_spawn env) = (False, process, es)) \<or>
    (\<exists>process es0 reaped process' stopped.
       decoder_start (e_spawn env) = (True, process, es0) \<and>
       decoder_stop (process\<lparr>p_reaped := reaped\<rparr>) = (process', stopped) \<and>
       es = es0 @ (if reaped then [Child_Reaped (p_child process)] else []) @ stopped)"
  using assms
  by (auto simp: image_run_def Let_def split: if_splits option.splits prod.splits)

lemma image_run_fds:
  assumes "image_run malloc env data header r0 = Some (ok, r, es)"
    and ans: "dup_answers_ok (e_spawn env)" and fr: "fresh_opens {} es"
  shows "closes_held {} es \<and> open_after {} es = {}"
  using image_run_parts [OF assms(1)]
proof (elim disjE exE conjE)
  assume "es = []" then show ?thesis by simp
next
  fix process assume "decoder_start (e_spawn env) = (False, process, es)"
  from decoder_start_fds [OF this ans fr] show ?thesis by simp
next
  fix process es0 reaped process' stopped
  assume st: "decoder_start (e_spawn env) = (True, process, es0)"
    and sp: "decoder_stop (process\<lparr>p_reaped := reaped\<rparr>) = (process', stopped)"
    and es: "es = es0 @ (if reaped then [Child_Reaped (p_child process)] else []) @ stopped"
  have "fresh_opens {} es0" using fr by (simp add: es fresh_opens_append)
  note s = decoder_start_fds [OF st ans this]
  have "p_socket process \<ge> 0" using decoder_start_success [OF st ans] by auto
  then have "closes_held {p_socket process} stopped" "open_after {p_socket process} stopped = {}"
    using decoder_stop_fds [OF sp] by auto
  then show ?thesis using s by (simp add: es closes_held_append open_after_append)
qed

lemma image_run_child:
  assumes "image_run malloc env data header r0 = Some (ok, r, es)" and "s_fork (e_spawn env) \<noteq> 0"
    and ans: "dup_answers_ok (e_spawn env)"
  shows "child_run No_Child es = Some No_Child \<or> child_run No_Child es = Some Gone_Child"
  using image_run_parts [OF assms(1)]
proof (elim disjE exE conjE)
  assume "es = []" then show ?thesis by simp
next
  fix process assume "decoder_start (e_spawn env) = (False, process, es)"
  from decoder_start_child [OF this] show ?thesis by simp
next
  fix process es0 reaped process' stopped
  assume st: "decoder_start (e_spawn env) = (True, process, es0)"
    and sp: "decoder_stop (process\<lparr>p_reaped := reaped\<rparr>) = (process', stopped)"
    and es: "es = es0 @ (if reaped then [Child_Reaped (p_child process)] else []) @ stopped"
  have "p_child process > 0" using decoder_start_success [OF st ans] assms(2) by auto
  then have "child_run (if reaped then Gone_Child else Live_Child (p_child process)) stopped = Some Gone_Child"
    using decoder_stop_child [OF sp] by (simp split: if_splits)
  then show ?thesis
    using decoder_start_child [OF st] by (auto simp: es child_run_append)
qed

section \<open>Properties\<close>

text \<open>
  C5. Resources of a decoder run: whatever fails, every descriptor the run opened is closed exactly
  once when it returns, and a child that was started has been reaped, with signals sent only before
  that (so never to a recycled process id).
\<close>

theorem image_run_resources:
  assumes "image_run malloc env data header r0 = Some (ok, r, es)"
    and "dup_answers_ok (e_spawn env)" "s_fork (e_spawn env) \<noteq> 0" "fresh_opens {} es"
  shows "closes_held {} es \<and> open_after {} es = {} \<and>
    (child_run No_Child es = Some No_Child \<or> child_run No_Child es = Some Gone_Child)"
  using image_run_fds [OF assms(1,2,4)] image_run_child [OF assms(1,3,2)] by simp

definition sample_start :: start_answers where
  "sample_start = \<lparr>s_pair = Some (0, 3), s_dup0 = 4, s_dup1 = 9, s_null = 0, s_dup2 = 5,
     s_getfl = 2, s_setfl = True, s_fork = 77\<rparr>"

definition sample_run :: run_answers where
  "sample_run = \<lparr>e_start = 0, e_spawn = sample_start, e_first = Peek_Data, e_loop = [],
     e_stream = sample_stream\<rparr>"

lemmas sample_run_defs = sample_run_def sample_start_def image_run_def decoder_start_def Let_def
  start_descriptors_def image_high_fd_def close_if_open_def decoder_stop_def decoder_transfer_def
  transfer_start_def

lemma image_run_resources_witness:
  "\<exists>ok r es. image_run sample_malloc sample_run [3] [1, 2] sample_request = Some (ok, r, es) \<and>
     open_after {} es = {} \<and> child_run No_Child es = Some Gone_Child"
proof -
  let ?es = "[Fd_Open 0, Fd_Open 3, Fd_Open 4, Fd_Close 0, Fd_Open 0, Fd_Open 5, Fd_Close 0,
      Child_Spawned 77, Fd_Close 3, Fd_Close 5, Fd_Close 4, Group_Killed 77, Child_Killed 77,
      Child_Reaped 77]"
  have run: "image_run sample_malloc sample_run [3] [1, 2] sample_request =
      Some (False, sample_request, ?es)"
    by (simp add: sample_run_defs)
  have "dup_answers_ok (e_spawn sample_run)" "s_fork (e_spawn sample_run) \<noteq> 0" "fresh_opens {} ?es"
    by (simp_all add: sample_run_def sample_start_def dup_answers_ok_def)
  from image_run_resources [OF run this] run show ?thesis by auto
qed

text \<open>
  Isolation of the helper: whenever a start succeeds, all three descriptors given to the child
  lie above the standard ones, so its \<open>dup2\<close> calls cannot overwrite each other's source, and the
  helper is executed with exactly three descriptors: the socket as standard input and output and
  \<open>/dev/null\<close> as standard error, whatever else was open.
\<close>

theorem helper_descriptor_table:
  assumes "decoder_start ans = (True, process, es)" "dup_answers_ok ans" "s_pair ans = Some (a, b)"
    and "start_descriptors ans a b = ((pair0, pair1, null), evs)"
    and "table pair1 = Some socket" "table null = Some sink" "\<forall>fd. table fd \<noteq> None \<longrightarrow> 0 \<le> fd"
  shows "image_spawn True True pair1 null table = Some [0 \<mapsto> socket, 1 \<mapsto> socket, 2 \<mapsto> sink]"
proof -
  have "pair1 > 2" "null > 2" using decoder_start_success [OF assms(1,2)] assms(3,4) by auto
  from image_spawn_table [OF this assms(5,6)] assms(7) show ?thesis
    by (fastforce simp: fun_eq_iff)
qed

lemma helper_descriptor_table_witness:
  "image_spawn True True 3 5
     ((\<lambda>fd. if 0 \<le> fd then Some ''secret'' else None)(3 \<mapsto> ''socket'', 5 \<mapsto> ''null'')) =
   Some [0 \<mapsto> ''socket'', 1 \<mapsto> ''socket'', 2 \<mapsto> ''null'']"
proof -
  have "\<exists>process es. decoder_start sample_start = (True, process, es)"
    by (simp add: sample_run_defs)
  then obtain process es where st: "decoder_start sample_start = (True, process, es)" by blast
  have an: "dup_answers_ok sample_start" "s_pair sample_start = Some (0, 3)"
    by (simp_all add: dup_answers_ok_def sample_start_def)
  have sd: "start_descriptors sample_start 0 3 =
    ((4, 3, 5), [Fd_Open 4, Fd_Close 0, Fd_Open 0, Fd_Open 5, Fd_Close 0])"
    by (simp add: start_descriptors_def image_high_fd_def sample_start_def)
  show ?thesis by (rule helper_descriptor_table [OF st an sd]) auto
qed

end
