(* ===== verification/Decoder_Client.thy ===== *)
theory Decoder_Client
  imports Decoder_Process
begin

text \<open>
  The client calls of \<open>app/decoder_ipc.c\<close> (lines 751-1004): argument checks, request headers,
  the initial reply state, and what is handed back. A null pointer argument is None (or
  \<open>outs = False\<close> for a missing output parameter). The run environment is a parameter; the result
  None means that the run has not returned within the given answers.
\<close>

section \<open>Shared checks\<close>

definition helper_ok :: "string option \<Rightarrow> bool" where
  "helper_ok helper \<longleftrightarrow> (case helper of None \<Rightarrow> False | Some name \<Rightarrow> name \<noteq> '''')"

text \<open>The \<open>size\<close> bytes at \<open>data\<close>.\<close>

definition input_bytes :: "byte list option \<Rightarrow> int \<Rightarrow> byte list" where
  "input_bytes data n = (case data of None \<Rightarrow> [] | Some bs \<Rightarrow> take (nat n) bs)"

section \<open>Images\<close>

text \<open>The request header and the initial reply state of each call.\<close>

abbreviation image_header :: "int \<Rightarrow> int \<Rightarrow> u32 \<Rightarrow> byte list" where
  "image_header n max_dimension max_bytes \<equiv>
     ascii ''WNI1'' @ wn_image_put (word_of_int n) @ wn_image_put (word_of_int max_dimension) @
     wn_image_put max_bytes"

abbreviation image_state :: "int \<Rightarrow> u32 \<Rightarrow> image_reply" where
  "image_state max_dimension max_bytes \<equiv>
     zero_reply\<lparr>r_dimension := word_of_int max_dimension, r_cap := max_bytes\<rparr>"

definition wn_image_decode ::
  "(nat \<Rightarrow> byte list option) \<Rightarrow> run_answers \<Rightarrow> bool \<Rightarrow> string option \<Rightarrow> byte list option \<Rightarrow> int \<Rightarrow> int \<Rightarrow>
   u32 \<Rightarrow> (byte list option \<times> int \<times> int) option" where
  "wn_image_decode malloc env outs helper data n max_dimension max_bytes =
     (if \<not> outs \<or> \<not> helper_ok helper \<or> data = None \<or> n \<le> 0 \<or>
         n > uint WN_IMAGE_INPUT_MAX \<or> max_dimension \<le> 0 \<or>
         max_dimension > uint WN_IMAGE_DIM_MAX \<or> max_bytes = 0 \<or> max_bytes > WN_IMAGE_OUTPUT_MAX
      then Some (None, 0, 0)
      else
        let header = image_header n max_dimension max_bytes;
            reply = image_state max_dimension max_bytes
        in case image_run malloc env (input_bytes data n) header reply of
             None \<Rightarrow> None
           | Some (ok, reply, es) \<Rightarrow>
               if \<not> ok then Some (None, 0, 0)
               else Some (r_pixels reply, sint (r_width reply), sint (r_height reply)))"

section \<open>Formulas\<close>

text \<open>
  A float is its IEEE 754 bit pattern. Non-negative floats are ordered like their patterns, so
  \<open>font_size > 0 && font_size <= 4096\<close> holds for the patterns from 1 to that of 4096, and for no
  negative number and no NaN.
\<close>

definition math_font_ok :: "u32 \<Rightarrow> bool" where
  "math_font_ok bits \<longleftrightarrow> 0 < bits \<and> bits \<le> 0x45800000"

definition wn_math_render ::
  "(nat \<Rightarrow> byte list option) \<Rightarrow> run_answers \<Rightarrow> bool \<Rightarrow> string option \<Rightarrow> byte list option \<Rightarrow> int \<Rightarrow> u32 \<Rightarrow>
   u32 \<Rightarrow> u32 \<Rightarrow> u32 \<Rightarrow> (byte list option \<times> int \<times> int) option" where
  "wn_math_render malloc env outs helper data n font_bits argb max_side max_bytes =
     (if \<not> outs \<or> \<not> helper_ok helper \<or> data = None \<or> n \<le> 0 \<or>
         n > uint WN_MATH_INPUT_MAX \<or> \<not> math_font_ok font_bits \<or> max_side = 0 \<or>
         max_side > WN_MATH_DIM_MAX \<or> max_bytes = 0 \<or> max_bytes > WN_MATH_OUTPUT_MAX \<or>
         0 \<in> set (input_bytes data n)
      then Some (None, 0, 0)
      else
        let header = ascii ''MAI1'' @ wn_image_put (word_of_int n) @ wn_image_put font_bits @
                     wn_image_put argb @ wn_image_put max_side @ wn_image_put max_bytes;
            reply = zero_reply\<lparr>r_kind := DECODER_MATH, r_dimension := max_side, r_cap := max_bytes\<rparr>
        in case image_run malloc env (input_bytes data n) header reply of
             None \<Rightarrow> None
           | Some (ok, reply, es) \<Rightarrow>
               if \<not> ok then Some (None, 0, 0)
               else Some (r_pixels reply, sint (r_width reply), sint (r_height reply)))"

section \<open>Archives\<close>

definition archive_op_code :: "archive_op \<Rightarrow> u32" where
  "archive_op_code op = (case op of WN_ARCHIVE_LIST \<Rightarrow> 0 | WN_ARCHIVE_ENTRY \<Rightarrow> 1)"

abbreviation archive_header :: "int \<Rightarrow> archive_op \<Rightarrow> u32 \<Rightarrow> byte list" where
  "archive_header n op index \<equiv>
     ascii ''ARI1'' @ wn_image_put (word_of_int n) @ wn_image_put (archive_op_code op) @
     wn_image_put index"

abbreviation archive_state :: "archive_op \<Rightarrow> u32 \<Rightarrow> image_reply" where
  "archive_state op index \<equiv>
     zero_reply\<lparr>r_kind := DECODER_ARCHIVE, r_op := op, r_index := index,
                r_cap := (if op = WN_ARCHIVE_LIST then WN_ARCHIVE_LIST_MAX else WN_ARCHIVE_ENTRY_MAX)\<rparr>"

definition wn_archive_read ::
  "(nat \<Rightarrow> byte list option) \<Rightarrow> run_answers \<Rightarrow> bool \<Rightarrow> string option \<Rightarrow> byte list option \<Rightarrow> int \<Rightarrow>
   archive_op \<Rightarrow> u32 \<Rightarrow> (byte list option \<times> u32 \<times> u32) option" where
  "wn_archive_read malloc env outs helper data n op index =
     (if \<not> outs \<or> \<not> helper_ok helper \<or> data = None \<or> n \<le> 0 \<or>
         n > uint WN_ARCHIVE_INPUT_MAX \<or> (op = WN_ARCHIVE_LIST \<and> index \<noteq> 0) \<or>
         index \<ge> WN_ARCHIVE_SCAN_MAX
      then Some (None, 0, 0)
      else
        let header = archive_header n op index;
            reply = archive_state op index
        in case image_run malloc env (input_bytes data n) header reply of
             None \<Rightarrow> None
           | Some (ok, reply, es) \<Rightarrow>
               if \<not> ok then Some (None, 0, 0)
               else Some (r_pixels reply, r_count reply, r_bytes reply))"

section \<open>Pages\<close>

abbreviation pdf_header :: "int \<Rightarrow> u32 \<Rightarrow> u32 \<Rightarrow> u32 \<Rightarrow> byte list" where
  "pdf_header n page width height \<equiv>
     ascii ''PDI1'' @ wn_image_put (word_of_int n) @ wn_image_put page @ wn_image_put width @
     wn_image_put height"

abbreviation pdf_state :: "u32 \<Rightarrow> u32 \<Rightarrow> u32 \<Rightarrow> image_reply" where
  "pdf_state page width height \<equiv>
     zero_reply\<lparr>r_kind := DECODER_PDF, r_index := page, r_dimension := width,
                r_target_height := height, r_cap := WN_PDF_OUTPUT_MAX\<rparr>"

definition wn_pdf_render ::
  "(nat \<Rightarrow> byte list option) \<Rightarrow> run_answers \<Rightarrow> bool \<Rightarrow> string option \<Rightarrow> byte list option \<Rightarrow> int \<Rightarrow>
   u32 \<Rightarrow> u32 \<Rightarrow> u32 \<Rightarrow> (byte list option \<times> u32 \<times> u32 \<times> u32) option" where
  "wn_pdf_render malloc env outs helper data n page width height =
     (if \<not> outs \<or> \<not> helper_ok helper \<or> data = None \<or> n \<le> 0 \<or>
         n > uint WN_PDF_INPUT_MAX \<or> page \<ge> WN_PDF_PAGES_MAX \<or> width = 0 \<or>
         width > WN_PDF_DIM_MAX \<or> height > WN_PDF_DIM_MAX
      then Some (None, 0, 0, 0)
      else
        let header = pdf_header n page width height;
            reply = pdf_state page width height
        in case image_run malloc env (input_bytes data n) header reply of
             None \<Rightarrow> None
           | Some (ok, reply, es) \<Rightarrow>
               if \<not> ok then Some (None, 0, 0, 0)
               else Some (r_pixels reply, r_count reply, r_width reply, r_height reply))"

section \<open>Meshes\<close>

definition wn_mesh_decode ::
  "(nat \<Rightarrow> byte list option) \<Rightarrow> run_answers \<Rightarrow> bool \<Rightarrow> string option \<Rightarrow> byte list option \<Rightarrow> int \<Rightarrow> u32 \<Rightarrow>
   (byte list option \<times> u32) option" where
  "wn_mesh_decode malloc env outs helper data n format =
     (if \<not> outs \<or> \<not> helper_ok helper \<or> data = None \<or> n \<le> 0 \<or>
         n > uint WN_MODEL_INPUT_MAX \<or> format < 1 \<or> format > 4
      then Some (None, 0)
      else
        let header = ascii ''MDI1'' @ wn_image_put (word_of_int n) @ wn_image_put format @ wn_image_put 0;
            reply = zero_reply\<lparr>r_kind := DECODER_MESH, r_cap := WN_MODEL_OUTPUT_MAX\<rparr>
        in case image_run malloc env (input_bytes data n) header reply of
             None \<Rightarrow> None
           | Some (ok, reply, es) \<Rightarrow>
               if \<not> ok then Some (None, 0) else Some (r_pixels reply, r_bytes reply))"

section \<open>Model sessions\<close>

record model_session =
  m_process :: decoder_process
  m_active :: bool
  m_sequence :: u32

definition wn_model_start ::
  "bool \<Rightarrow> start_answers \<Rightarrow> string option \<Rightarrow> model_session option \<times> event list" where
  "wn_model_start calloc_ok ans helper =
     (if \<not> helper_ok helper \<or> \<not> calloc_ok then (None, [])
      else let (ok, process, es) = decoder_start ans
           in if ok then (Some \<lparr>m_process = process, m_active = True, m_sequence = 0\<rparr>, es)
              else (None, es))"

record exchange_answers =
  x_start :: int
  x_first :: peek_answer
  x_loop :: "os_answers list"

record exchange_result =
  x_output :: "byte list option"
  x_length :: u32
  x_session :: model_session
  x_peer :: "byte list"
  x_events :: "event list"

definition session_stop :: "model_session \<Rightarrow> byte list \<Rightarrow> exchange_result" where
  "session_stop session peer =
     (let (process, es) = decoder_stop (m_process session)
      in \<lparr>x_output = None, x_length = 0,
          x_session = session\<lparr>m_process := process, m_active := False\<rparr>, x_peer = peer, x_events = es\<rparr>)"

definition exchange_refused ::
  "exchange_answers \<Rightarrow> model_session \<Rightarrow> u32 \<Rightarrow> byte list option \<Rightarrow> u32 \<Rightarrow> bool \<Rightarrow> bool" where
  "exchange_refused env session operation data n len_out \<longleftrightarrow>
     \<not> len_out \<or> (n \<noteq> 0 \<and> data = None) \<or> n > WN_MODEL_INPUT_MAX \<or> operation > 1 \<or>
     m_sequence session = - 1 \<or> x_start env < 0"

definition exchange_header :: "model_session \<Rightarrow> u32 \<Rightarrow> u32 \<Rightarrow> byte list" where
  "exchange_header session operation n =
     ascii ''FBI1'' @ wn_image_put operation @ wn_image_put n @ wn_image_put (m_sequence session)"

definition exchange_reply :: "model_session \<Rightarrow> u32 \<Rightarrow> byte list option \<Rightarrow> u32 \<Rightarrow> image_reply" where
  "exchange_reply session operation out capacity =
     zero_reply\<lparr>r_kind := DECODER_MODEL, r_index := operation, r_sequence := m_sequence session,
                r_cap := (if out \<noteq> None \<and> capacity < WN_MODEL_OUTPUT_MAX then capacity
                          else WN_MODEL_OUTPUT_MAX),
                r_pixels := out, r_borrowed := (out \<noteq> None)\<rparr>"

definition exchange_finish :: "model_session \<Rightarrow> bool \<times> transfer \<Rightarrow> exchange_result" where
  "exchange_finish session result =
     (let (ok, t) = result in
      if \<not> ok
      then session_stop (session\<lparr>m_process := (m_process session)\<lparr>p_reaped := t_reaped t\<rparr>\<rparr>) (t_peer t)
      else \<lparr>x_output = r_pixels (t_reply t), x_length = r_bytes (t_reply t),
            x_session = session, x_peer = t_peer t, x_events = []\<rparr>)"

text \<open>
  \<open>peer\<close> is what the helper's stream still holds; \<open>out\<close> is a buffer lent by the caller (None for
  a null pointer) and \<open>capacity\<close> the size announced for it.
\<close>

definition wn_model_exchange ::
  "(nat \<Rightarrow> byte list option) \<Rightarrow> exchange_answers \<Rightarrow> byte list \<Rightarrow> model_session \<Rightarrow> u32 \<Rightarrow>
   byte list option \<Rightarrow> u32 \<Rightarrow> byte list option \<Rightarrow> u32 \<Rightarrow> bool \<Rightarrow> exchange_result option" where
  "wn_model_exchange malloc env peer session operation data n out capacity len_out =
     (if \<not> m_active session
      then Some \<lparr>x_output = None, x_length = 0, x_session = session, x_peer = peer, x_events = []\<rparr>
      else if exchange_refused env session operation data n len_out
      then Some (session_stop session peer)
      else
        let session = session\<lparr>m_sequence := m_sequence session + 1\<rparr>
        in map_option (exchange_finish session)
             (decoder_transfer malloc (exchange_header session operation n)
                (input_bytes data (uint n)) (exchange_reply session operation out capacity) False
                (x_start env + int WN_IMAGE_SECONDS * 1000) (x_first env) (x_loop env) peer))"

definition wn_model_close :: "model_session \<Rightarrow> event list" where
  "wn_model_close session =
     (if m_active session then snd (decoder_stop (m_process session)) else [])"

section \<open>The shape of a whole reply\<close>

lemma wire_field: "k + 4 \<le> length p \<Longrightarrow> wn_image_put (wn_image_u32 (drop k p)) @ drop (k + 4) p = drop k p"
proof -
  assume "k + 4 \<le> length p"
  then have "wn_image_put (wn_image_u32 (drop k p)) = take 4 (drop k p)"
    using wn_image_put_u32 [of "take 4 (drop k p)"] wn_image_u32_take [of 4 "drop k p"] by simp
  then show ?thesis using append_take_drop_id [of 4 "drop k p"] by (simp add: add.commute)
qed

lemma header_split:
  assumes "16 \<le> length p"
  shows "take 4 p @ wn_image_put (wn_image_u32 (drop 4 p)) @ wn_image_put (wn_image_u32 (drop 8 p)) @
    wn_image_put (wn_image_u32 (drop 12 p)) @ drop 16 p = p"
  using wire_field [of 4 p] wire_field [of 8 p] wire_field [of 12 p] assms by simp

text \<open>What the state of a finished reply says about the stream.\<close>

lemma whole_reply_shape:
  assumes w: "whole_reply r0 stream" and inv: "reply_inv r0 stream r"
  shows "header_valid (r_kind r0) r0 (take 16 stream)"
    "stream = take 4 stream @ wn_image_put (wn_image_u32 (drop 4 stream)) @
       wn_image_put (wn_image_u32 (drop 8 stream)) @ wn_image_put (r_bytes r) @ drop 16 stream"
    "r_bytes r = wn_image_u32 (drop 12 stream)" 
    "length stream = 16 + unat (r_bytes r)" "wire_size stream = unat (r_bytes r)"
    "\<exists>px. r_pixels r = Some px \<and> unat (r_bytes r) - page_prefix (r_kind r0) \<le> length px \<and>
       take (unat (r_bytes r) - page_prefix (r_kind r0)) px = drop (16 + page_prefix (r_kind r0)) stream"
proof -
  have l: "16 \<le> length stream" and v: "viable r0 stream" and n: "length stream = 16 + wire_size stream"
    using w by (simp_all add: whole_reply_def)
  show "header_valid (r_kind r0) r0 (take 16 stream)" using viable_header [OF v l] by simp
  show b: "r_bytes r = wn_image_u32 (drop 12 stream)"
    using reply_inv_facts(7) [OF inv] l by (simp add: fields_hold_def)
  then show s: "wire_size stream = unat (r_bytes r)" by (simp add: wire_size_def)
  then show "length stream = 16 + unat (r_bytes r)" using n by simp
  show "stream = take 4 stream @ wn_image_put (wn_image_u32 (drop 4 stream)) @
       wn_image_put (wn_image_u32 (drop 8 stream)) @ wn_image_put (r_bytes r) @ drop 16 stream"
    using header_split [OF l] by (simp add: b)
  have "16 + page_prefix (r_kind r0) \<le> length stream"
    using payload_bytes(2) [OF inv v l] n by simp
  then show "\<exists>px. r_pixels r = Some px \<and> unat (r_bytes r) - page_prefix (r_kind r0) \<le> length px \<and>
       take (unat (r_bytes r) - page_prefix (r_kind r0)) px = drop (16 + page_prefix (r_kind r0)) stream"
    using reply_inv_facts(8) [OF inv] n s by (auto simp: pixels_hold_def)
qed

lemma plane_reply:
  assumes w: "whole_reply r0 stream" and inv: "reply_inv r0 stream r" 
    and k: "r_kind r0 = DECODER_IMAGE \<and> magic = ''WNO1'' \<or> r_kind r0 = DECODER_MATH \<and> magic = ''MAO1''"
  shows "\<exists>px. r_pixels r = Some px \<and>
    0 < unat (r_width r) \<and> unat (r_width r) \<le> unat (r_dimension r0) \<and>
    0 < unat (r_height r) \<and> unat (r_height r) \<le> unat (r_dimension r0) \<and>
    unat (r_bytes r) = 4 * unat (r_width r) * unat (r_height r) \<and>
    unat (r_bytes r) \<le> unat (r_cap r0) \<and> unat (r_bytes r) \<le> length px \<and>
    stream = ascii magic @ wn_image_put (r_width r) @ wn_image_put (r_height r) @
      wn_image_put (r_bytes r) @ take (unat (r_bytes r)) px"
proof -
  note s = whole_reply_shape [OF w inv]
  have l: "16 \<le> length stream" using w by (simp add: whole_reply_def)
  have f: "r_width r = wn_image_u32 (drop 4 stream)" "r_height r = wn_image_u32 (drop 8 stream)"
    using reply_inv_facts(6,7) [OF inv] l k by (auto simp: fields_hold_def)
  have pp: "page_prefix (r_kind r0) = 0" using k by (auto simp: page_prefix_def)
  have "plane_valid magic (unat (r_dimension r0)) (unat (r_dimension r0)) (unat (r_cap r0)) 0 (take 16 stream)"
    using s(1) k by auto
  then have hv: "take 4 stream = ascii magic" "0 < unat (r_width r)" "unat (r_width r) \<le> unat (r_dimension r0)"
    "0 < unat (r_height r)" "unat (r_height r) \<le> unat (r_dimension r0)"
    "unat (r_bytes r) = 4 * unat (r_width r) * unat (r_height r)" "unat (r_bytes r) \<le> unat (r_cap r0)"
    using l s(5) by (auto simp: plane_valid_def image_area_def drop_take wn_image_u32_take f)
  obtain px where px: "r_pixels r = Some px" "unat (r_bytes r) \<le> length px"
    "take (unat (r_bytes r)) px = drop 16 stream"
    using s(6) by (auto simp: pp)
  show ?thesis using s(2) hv px by (auto simp: f)
qed

lemma pdf_reply:
  assumes w: "whole_reply r0 stream" and inv: "reply_inv r0 stream r" and k: "r_kind r0 = DECODER_PDF"
  shows "\<exists>px. r_pixels r = Some px \<and>
    0 < unat (r_width r) \<and> unat (r_width r) \<le> unat (r_dimension r0) \<and>
    0 < unat (r_height r) \<and> unat (r_height r) \<le> 32768 \<and>
    (r_target_height r0 \<noteq> 0 \<longrightarrow> unat (r_height r) \<le> unat (r_target_height r0)) \<and>
    unat (r_bytes r) = 4 * unat (r_width r) * unat (r_height r) + 4 \<and>
    4 * unat (r_width r) * unat (r_height r) \<le> unat (r_cap r0) \<and>
    4 * unat (r_width r) * unat (r_height r) \<le> length px \<and>
    unat (r_count r) \<le> 10000 \<and> unat (r_index r0) < unat (r_count r) \<and>
    stream = ascii ''PDO1'' @ wn_image_put (r_width r) @ wn_image_put (r_height r) @
      wn_image_put (r_bytes r) @ wn_image_put (r_count r) @ take (4 * unat (r_width r) * unat (r_height r)) px"
proof -
  note s = whole_reply_shape [OF w inv]
  have l: "16 \<le> length stream" and v: "viable r0 stream" using w by (simp_all add: whole_reply_def)
  have f: "r_width r = wn_image_u32 (drop 4 stream)" "r_height r = wn_image_u32 (drop 8 stream)"
    using reply_inv_facts(6,7) [OF inv] l k by (auto simp: fields_hold_def)
  have pp: "page_prefix (r_kind r0) = 4" using k by (auto simp: page_prefix_def)
  have hv: "take 4 stream = ascii ''PDO1''" "0 < unat (r_width r)" "unat (r_width r) \<le> unat (r_dimension r0)"
    "0 < unat (r_height r)" "unat (r_height r) \<le> 32768"
    "r_target_height r0 \<noteq> 0 \<longrightarrow> unat (r_height r) \<le> unat (r_target_height r0)"
    "unat (r_bytes r) = 4 * unat (r_width r) * unat (r_height r) + 4"
    "4 * unat (r_width r) * unat (r_height r) \<le> unat (r_cap r0)"
    using s(1,5) l k
    by (auto simp: plane_valid_def image_area_def drop_take wn_image_u32_take f split: if_splits)
  have l20: "20 \<le> length stream" using s(4) hv(7) by simp
  then have c: "r_count r = wn_image_u32 (drop 16 stream)" and "page_valid r0 (drop 16 stream)"
    using reply_inv_facts(6,7) [OF inv] k v by (auto simp: fields_hold_def viable_def)
  then have pv: "unat (r_count r) \<le> 10000" "unat (r_index r0) < unat (r_count r)"
    by (auto simp: page_valid_def)
  obtain px where px: "r_pixels r = Some px" "unat (r_bytes r) - 4 \<le> length px"
    "take (unat (r_bytes r) - 4) px = drop 20 stream"
    using s(6) by (auto simp: pp)
  have "drop 16 stream = wn_image_put (r_count r) @ drop 20 stream"
    using wire_field [of 16 stream] l20 c by simp
  then show ?thesis using s(2) hv px pv by (auto simp: f)
qed

lemma plain_reply:
  assumes w: "whole_reply r0 stream" and inv: "reply_inv r0 stream r"
    and k: "r_kind r0 \<in> {DECODER_ARCHIVE, DECODER_MESH, DECODER_MODEL}"
  shows "\<exists>px. r_pixels r = Some px \<and> unat (r_bytes r) \<le> length px \<and> unat (r_bytes r) \<le> unat (r_cap r0) \<and>
    (case r_kind r0 of
       DECODER_MESH \<Rightarrow> stream = ascii ''MDO1'' @ wn_image_put 1 @ wn_image_put 0 @ wn_image_put (r_bytes r) @ take (unat (r_bytes r)) px
     | DECODER_MODEL \<Rightarrow> stream = ascii ''FBO1'' @ wn_image_put (r_index r0) @ wn_image_put (r_sequence r0) @
         wn_image_put (r_bytes r) @ take (unat (r_bytes r)) px
     | _ \<Rightarrow> (if r_op r0 = WN_ARCHIVE_LIST
             then unat (r_count r) \<le> 2000 \<and> 17 * unat (r_count r) \<le> unat (r_bytes r) \<and> (r_count r = 0 \<longrightarrow> r_bytes r = 0)
             else r_count r = 0) \<and>
            stream = ascii ''ARO1'' @ wn_image_put (r_count r) @
              wn_image_put (if r_op r0 = WN_ARCHIVE_LIST then 0 else r_index r0) @ wn_image_put (r_bytes r) @
              take (unat (r_bytes r)) px)"
proof -
  note s = whole_reply_shape [OF w inv]
  have l: "16 \<le> length stream" using w by (simp_all add: whole_reply_def)
  have f: "r_kind r0 = DECODER_ARCHIVE \<Longrightarrow> r_count r = wn_image_u32 (drop 4 stream)" 
    using reply_inv_facts(6,7) [OF inv] l by (auto simp: fields_hold_def)
  have pp: "page_prefix (r_kind r0) = 0" using k by (auto simp: page_prefix_def)
  obtain px where px: "r_pixels r = Some px" "unat (r_bytes r) \<le> length px"
    "take (unat (r_bytes r)) px = drop 16 stream"
    using s(6) by (auto simp: pp)
  have ws: "wire_size (take 16 stream) = unat (r_bytes r)" using s(5) l by simp
  note simps = drop_take wn_image_u32_take ws unat_eq_0
  have st: "stream = take 4 stream @ wn_image_put (wn_image_u32 (drop 4 stream)) @
       wn_image_put (wn_image_u32 (drop 8 stream)) @ wn_image_put (r_bytes r) @ take (unat (r_bytes r)) px"
    using s(2) px by simp
  consider (mesh) "r_kind r0 = DECODER_MESH" | (model) "r_kind r0 = DECODER_MODEL" | (arc) "r_kind r0 = DECODER_ARCHIVE"
    using k by auto
  then show ?thesis
  proof cases
    case mesh
    then have "take 4 stream = ascii ''MDO1''" "wn_image_u32 (drop 4 stream) = 1" "wn_image_u32 (drop 8 stream) = 0"
      "unat (r_bytes r) \<le> unat (r_cap r0)" using s(1) l by (auto simp: simps)
    then show ?thesis using st px(1,2) mesh by simp
  next
    case model
    then have "take 4 stream = ascii ''FBO1''" "wn_image_u32 (drop 4 stream) = r_index r0"
      "wn_image_u32 (drop 8 stream) = r_sequence r0" "unat (r_bytes r) \<le> unat (r_cap r0)"
      using s(1) l by (auto simp: simps)
    then show ?thesis using st px(1,2) model by simp
  next
    case arc
    then have "take 4 stream = ascii ''ARO1''" "unat (r_bytes r) \<le> unat (r_cap r0)"
      "if r_op r0 = WN_ARCHIVE_LIST
       then unat (r_count r) \<le> 2000 \<and> 17 * unat (r_count r) \<le> unat (r_bytes r) \<and> (r_count r = 0 \<longrightarrow> r_bytes r = 0)
       else r_count r = 0"
      "wn_image_u32 (drop 8 stream) = (if r_op r0 = WN_ARCHIVE_LIST then 0 else r_index r0)"
      using s(1) l by (auto simp: simps f)
    then show ?thesis using st px(1,2) arc f by (auto simp: f)
  qed
qed


text \<open>
  The reply states of the client calls satisfy the precondition of the transfer, and the checks make
  the casts exact.
\<close>

lemma word_of_int_small: "0 < k \<Longrightarrow> k \<le> 134217728 \<Longrightarrow> unat (word_of_int k :: u32) = nat k"
  by (simp add: unat_eq_nat_uint uint_word_of_int)

lemma plane_client:
  assumes m: "malloc_ok malloc" and fr: "fresh r0" and dim: "unat (r_dimension r0) \<le> 32768"
    and r: "image_run malloc env data header r0 = Some (True, r, es)"
    and k: "r_kind r0 = DECODER_IMAGE \<and> magic = ''WNO1'' \<or> r_kind r0 = DECODER_MATH \<and> magic = ''MAO1''"
    and w: "w = sint (r_width r)" and h: "h = sint (r_height r)" and px: "r_pixels r = Some px"
  shows "0 < w \<and> w \<le> int (unat (r_dimension r0)) \<and> 0 < h \<and> h \<le> int (unat (r_dimension r0)) \<and>
    4 * w * h \<le> uint (r_cap r0) \<and> nat (4 * w * h) \<le> length px \<and>
    e_stream env = ascii magic @ wn_image_put (word_of_int w) @ wn_image_put (word_of_int h) @
      wn_image_put (word_of_int (4 * w * h)) @ take (nat (4 * w * h)) px"
proof -
  obtain px' where p: "r_pixels r = Some px'" "0 < unat (r_width r)" "unat (r_width r) \<le> unat (r_dimension r0)"
    "0 < unat (r_height r)" "unat (r_height r) \<le> unat (r_dimension r0)"
    "unat (r_bytes r) = 4 * unat (r_width r) * unat (r_height r)"
    "unat (r_bytes r) \<le> unat (r_cap r0)" "unat (r_bytes r) \<le> length px'"
    "e_stream env = ascii magic @ wn_image_put (r_width r) @ wn_image_put (r_height r) @
      wn_image_put (r_bytes r) @ take (unat (r_bytes r)) px'"
    using plane_reply [OF image_run_success [OF m fr r] k]
    by (elim exE conjE) (rule that; assumption)
  have wh: "unat (r_width r) \<le> 32768" "unat (r_height r) \<le> 32768" using p(3,5) dim by simp_all
  note iw = w [unfolded sint_small [OF wh(1)]] h [unfolded sint_small [OF wh(2)]]
  have b: "4 * w * h = int (unat (r_bytes r))" unfolding iw p(6) by simp
  have c: "word_of_int (4 * w * h) = r_bytes r" "nat (4 * w * h) = unat (r_bytes r)"
    "word_of_int w = r_width r" "word_of_int h = r_height r"
    unfolding b unfolding iw by simp_all
  have "4 * w * h \<le> uint (r_cap r0)" unfolding b uint_nat using p(7) by linarith
  moreover have "0 < w" "0 < h" "w \<le> int (unat (r_dimension r0))" "h \<le> int (unat (r_dimension r0))"
    using p(2-5) unfolding iw by linarith+
  moreover have "px' = px" using p(1) px by simp
  ultimately show ?thesis using p(8,9) unfolding c by simp
qed

section \<open>A cooperating run\<close>

text \<open>
  The environment in which the helper writes \<open>stream\<close> and the operating system moves one byte per
  call: it shows that the hypotheses of the properties can be met.
\<close>

definition sample_env :: "nat \<Rightarrow> byte list \<Rightarrow> run_answers" where
  "sample_env request stream =
     \<lparr>e_start = 0, e_spawn = sample_start, e_first = Peek_Would_Block,
      e_loop = replicate request sample_answers @
        replicate (length stream + 2) (sample_answers\<lparr>a_poll := Poll_Ready False True True\<rparr>),
      e_stream = stream\<rparr>"

lemma image_run_cooperates:
  assumes fr: "fresh r0" and w: "whole_reply r0 stream" and n: "length header + length data \<le> n"
  shows "\<exists>r px es. image_run sample_malloc (sample_env n stream) data header r0 = Some (True, r, es) \<and>
    r_pixels r = Some px \<and> reply_inv r0 stream r"
proof -
  obtain s where loop: "transfer_loop sample_malloc header data True 10000 (replicate n sample_answers @
      replicate (length stream + 2) (sample_answers\<lparr>a_poll := Poll_Ready False True True\<rparr>))
      (transfer_start r0 stream) = Some (True, s)"
    using transfer_cooperates [OF fr sample_malloc_ok w, of "replicate n sample_answers" 10000 header data
        "replicate (length stream + 2) (sample_answers\<lparr>a_poll := Poll_Ready False True True\<rparr>)"] n
    by (auto simp: write_answer_def read_answer_def sample_answers_def)
  obtain process es0 where start: "decoder_start sample_start = (True, process, es0)"
    by (simp add: sample_run_defs)
  obtain process' es1 where stop: "decoder_stop (process\<lparr>p_reaped := t_reaped s\<rparr>) = (process', es1)"
    by fastforce
  have "image_run sample_malloc (sample_env n stream) data header r0 =
      Some (True, t_reply s, es0 @ (if t_reaped s then [Child_Reaped (p_child process)] else []) @ es1)"
    using loop start stop
    by (simp add: image_run_def sample_env_def decoder_transfer_def limit_defs)
  then obtain r es where run: "image_run sample_malloc (sample_env n stream) data header r0 = Some (True, r, es)"
    by blast
  note s = image_run_success [OF sample_malloc_ok(1) fr run]
  have "e_stream (sample_env n stream) = stream" by (simp add: sample_env_def)
  then show ?thesis using run s whole_reply_shape(6) [OF s] by auto
qed

section \<open>Properties of the one-shot calls\<close>

text \<open>
  C7. Image decoding is safe against the helper: when a picture is returned, both dimensions are
  positive and within the requested bound, the pixel buffer holds at least 4 * width * height bytes,
  that size respects the byte limit, and the pixels are exactly the payload of the helper's reply,
  whose header announced these dimensions and this size.
\<close>

theorem image_decode_sound:
  assumes m: "malloc_ok malloc"
    and run: "wn_image_decode malloc env outs helper data n max_dimension max_bytes = Some (Some px, w, h)"
  shows "0 < w \<and> w \<le> max_dimension \<and> 0 < h \<and> h \<le> max_dimension \<and> 4 * w * h \<le> uint max_bytes \<and>
    nat (4 * w * h) \<le> length px \<and>
    e_stream env = ascii ''WNO1'' @ wn_image_put (word_of_int w) @ wn_image_put (word_of_int h) @
      wn_image_put (word_of_int (4 * w * h)) @ take (nat (4 * w * h)) px"
proof -
  let ?r0 = "zero_reply\<lparr>r_dimension := word_of_int max_dimension, r_cap := max_bytes\<rparr>"
  have d: "0 < max_dimension" "max_dimension \<le> 32768"
    using run by (auto simp: wn_image_decode_def limit_defs split: if_splits)
  then have ud: "unat (word_of_int max_dimension :: u32) = nat max_dimension"
    by (intro word_of_int_small) simp_all
  obtain header r es where r: "image_run malloc env (input_bytes data n) header ?r0 = Some (True, r, es)"
    and res: "r_pixels r = Some px" "w = sint (r_width r)" "h = sint (r_height r)"
    using run by (auto simp: wn_image_decode_def Let_def split: if_splits option.splits prod.splits)
  have fr: "fresh ?r0" using d ud by (simp add: fresh_def zero_reply_def)
  have r0: "unat (r_dimension ?r0) = nat max_dimension" "r_cap ?r0 = max_bytes" using ud by simp_all
  have "unat (r_dimension ?r0) \<le> 32768" using d unfolding r0 by simp
  from plane_client [OF m fr this r _ res(2,3,1), where magic = "''WNO1''"] d show ?thesis
    unfolding r0 by (simp add: zero_reply_def)
qed

lemma image_decode_sound_witness:
  "\<exists>px w h. wn_image_decode sample_malloc
       (sample_env 17 (ascii ''WNO1'' @ wn_image_put 1 @ wn_image_put 1 @ wn_image_put 4 @ [9, 8, 7, 255]))
       True (Some ''decoder'') (Some [5]) 1 10 100 = Some (Some px, w, h) \<and>
     nat (4 * w * h) \<le> length px \<and> 4 * w * h \<le> 100"
proof -
  let ?stream = "ascii ''WNO1'' @ wn_image_put 1 @ wn_image_put 1 @ wn_image_put 4 @ [9, 8, 7, 255]"
  let ?r0 = "zero_reply\<lparr>r_dimension := word_of_int 10, r_cap := 100\<rparr>"
  have w: "whole_reply ?r0 ?stream"
    by (simp add: whole_reply_def viable_def zero_reply_def wire_size_def image_area_def plane_valid_def
        wire_simps ascii_def)
  have fr: "fresh ?r0" by (simp add: fresh_def zero_reply_def)
  obtain r px es where "image_run sample_malloc (sample_env 17 ?stream) [5]
      (ascii ''WNI1'' @ wn_image_put 1 @ wn_image_put 10 @ wn_image_put 100) ?r0 = Some (True, r, es)"
    and "r_pixels r = Some px"
    using image_run_cooperates [OF fr w, of "ascii ''WNI1'' @ wn_image_put 1 @ wn_image_put 10 @ wn_image_put 100" "[5]" 17]
    by auto
  then have run: "wn_image_decode sample_malloc (sample_env 17 ?stream) True (Some ''decoder'') (Some [5]) 1 10 100 =
      Some (Some px, sint (r_width r), sint (r_height r))"
    by (simp add: wn_image_decode_def helper_ok_def limit_defs input_bytes_def)
  from image_decode_sound [OF sample_malloc_ok(1) run] run show ?thesis
    by (intro exI [of _ px] exI [of _ "sint (r_width r)"] exI [of _ "sint (r_height r)"]) simp
qed

text \<open>
  Page rendering is safe against the helper: when a page is returned, the requested page exists
  (page < pages <= 10000), the dimensions respect the request, the pixel buffer holds the whole page,
  its size is at most 64 MiB, and the pixels are exactly what followed the page count in the reply.
\<close>

theorem pdf_render_sound:
  assumes m: "malloc_ok malloc"
    and run: "wn_pdf_render malloc env outs helper data n page width height = Some (Some px, pages, w, h)"
  shows "unat page < unat pages \<and> unat pages \<le> 10000 \<and> 0 < unat w \<and> w \<le> width \<and> 0 < unat h \<and>
    unat h \<le> 32768 \<and> (height \<noteq> 0 \<longrightarrow> h \<le> height) \<and>
    4 * unat w * unat h \<le> 64 * 1024 * 1024 \<and> 4 * unat w * unat h \<le> length px \<and>
    e_stream env = ascii ''PDO1'' @ wn_image_put w @ wn_image_put h @
      wn_image_put (of_nat (4 * unat w * unat h + 4)) @ wn_image_put pages @ take (4 * unat w * unat h) px"
proof -
  let ?r0 = "zero_reply\<lparr>r_kind := DECODER_PDF, r_index := page, r_dimension := width,
     r_target_height := height, r_cap := WN_PDF_OUTPUT_MAX\<rparr>"
  have d: "unat width \<le> 32768"
    using run by (auto simp: wn_pdf_render_def limit_defs word_less_nat_alt split: if_splits)
  obtain header r es where r: "image_run malloc env (input_bytes data n) header ?r0 = Some (True, r, es)"
    and res: "r_pixels r = Some px" "pages = r_count r" "w = r_width r" "h = r_height r"
    using run by (auto simp: wn_pdf_render_def Let_def split: if_splits option.splits prod.splits)
  have fr: "fresh ?r0" using d by (simp add: fresh_def zero_reply_def)
  have r0: "r_dimension ?r0 = width" "r_cap ?r0 = WN_PDF_OUTPUT_MAX" "r_index ?r0 = page" "r_target_height ?r0 = height"
    by simp_all
  have k: "r_kind ?r0 = DECODER_PDF" by simp
  obtain px' where p: "r_pixels r = Some px'" "0 < unat w" "unat w \<le> unat width" "0 < unat h"
    "unat h \<le> 32768" "height \<noteq> 0 \<longrightarrow> unat h \<le> unat height"
    "unat (r_bytes r) = 4 * unat w * unat h + 4"
    "4 * unat w * unat h \<le> unat WN_PDF_OUTPUT_MAX"
    "4 * unat w * unat h \<le> length px'" "unat pages \<le> 10000" "unat page < unat pages"
    "e_stream env = ascii ''PDO1'' @ wn_image_put w @ wn_image_put h @
      wn_image_put (r_bytes r) @ wn_image_put pages @ take (4 * unat w * unat h) px'"
    using pdf_reply [OF image_run_success [OF m fr r] k] unfolding r0 res(2-4) [symmetric]
    by (elim exE conjE) (rule that; assumption)
  have "px' = px" using p(1) res(1) by simp
  moreover have "of_nat (4 * unat w * unat h + 4) = r_bytes r" unfolding p(7) [symmetric] by simp
  moreover have "unat WN_PDF_OUTPUT_MAX = 64 * 1024 * 1024" by (simp add: limit_defs)
  ultimately show ?thesis using p(2-6,8-12) by (simp add: word_le_nat_alt)
qed

lemma pdf_render_sound_witness:
  "\<exists>px pages w h. wn_pdf_render sample_malloc
       (sample_env 21 (ascii ''PDO1'' @ wn_image_put 1 @ wn_image_put 1 @ wn_image_put 8 @ wn_image_put 3 @ [9, 8, 7, 255]))
       True (Some ''decoder'') (Some [5]) 1 2 10 0 = Some (Some px, pages, w, h) \<and>
     2 < unat pages \<and> 4 * unat w * unat h \<le> length px"
proof -
  let ?stream = "ascii ''PDO1'' @ wn_image_put 1 @ wn_image_put 1 @ wn_image_put 8 @ wn_image_put 3 @ [9, 8, 7, 255]"
  let ?h = "ascii ''PDI1'' @ wn_image_put 1 @ wn_image_put 2 @ wn_image_put 10 @ wn_image_put 0"
  let ?r0 = "zero_reply\<lparr>r_kind := DECODER_PDF, r_index := 2, r_dimension := 10, r_target_height := 0,
     r_cap := WN_PDF_OUTPUT_MAX\<rparr>"
  have w: "whole_reply ?r0 ?stream"
    by (simp add: whole_reply_def viable_def zero_reply_def wire_size_def image_area_def plane_valid_def
        wire_simps ascii_def page_valid_def limit_defs)
  have fr: "fresh ?r0" by (simp add: fresh_def zero_reply_def)
  obtain r px es where "image_run sample_malloc (sample_env 21 ?stream) [5] ?h ?r0 = Some (True, r, es)"
    and "r_pixels r = Some px"
    using image_run_cooperates [OF fr w, of ?h "[5]" 21] by auto
  then have run: "wn_pdf_render sample_malloc (sample_env 21 ?stream) True (Some ''decoder'') (Some [5]) 1 2 10 0 =
      Some (Some px, r_count r, r_width r, r_height r)"
    by (simp add: wn_pdf_render_def helper_ok_def limit_defs input_bytes_def)
  from pdf_render_sound [OF sample_malloc_ok(1) run] run show ?thesis
    by (intro exI [of _ px] exI [of _ "r_count r"] exI [of _ "r_width r"] exI [of _ "r_height r"]) simp
qed

text \<open>
  C9. Archive reading is safe against the helper: the returned buffer holds the announced length; a
  listing has at most 2000 records of at least 17 bytes each within 8 MiB, and an entry has at most
  64 MiB and is the one that was asked for (its index is echoed in the reply header).
\<close>

theorem archive_read_sound:
  assumes m: "malloc_ok malloc"
    and run: "wn_archive_read malloc env outs helper data n op index = Some (Some out, count, len)"
  shows "unat len \<le> length out \<and>
    (if op = WN_ARCHIVE_LIST
     then unat count \<le> 2000 \<and> 17 * unat count \<le> unat len \<and> unat len \<le> 8 * 1024 * 1024 \<and> (count = 0 \<longrightarrow> len = 0)
     else count = 0 \<and> unat len \<le> 64 * 1024 * 1024) \<and>
    e_stream env = ascii ''ARO1'' @ wn_image_put count @ wn_image_put index @ wn_image_put len @
      take (unat len) out"
proof -
  let ?r0 = "zero_reply\<lparr>r_kind := DECODER_ARCHIVE, r_op := op, r_index := index,
     r_cap := (if op = WN_ARCHIVE_LIST then WN_ARCHIVE_LIST_MAX else WN_ARCHIVE_ENTRY_MAX)\<rparr>"
  have ix: "op = WN_ARCHIVE_LIST \<Longrightarrow> index = 0"
    using run by (auto simp: wn_archive_read_def split: if_splits)
  obtain header r es where r: "image_run malloc env (input_bytes data n) header ?r0 = Some (True, r, es)"
    and res: "r_pixels r = Some out" "count = r_count r" "len = r_bytes r"
    using run by (auto simp: wn_archive_read_def Let_def split: if_splits option.splits prod.splits)
  have fr: "fresh ?r0" by (simp add: fresh_def zero_reply_def)
  have r0: "r_op ?r0 = op" "r_index ?r0 = index" "r_kind ?r0 = DECODER_ARCHIVE"
    "r_cap ?r0 = (if op = WN_ARCHIVE_LIST then WN_ARCHIVE_LIST_MAX else WN_ARCHIVE_ENTRY_MAX)" by simp_all
  have k: "r_kind ?r0 \<in> {DECODER_ARCHIVE, DECODER_MESH, DECODER_MODEL}" by simp
  obtain px where p: "r_pixels r = Some px" "unat len \<le> length px"
    "unat len \<le> unat (if op = WN_ARCHIVE_LIST then WN_ARCHIVE_LIST_MAX else WN_ARCHIVE_ENTRY_MAX)"
    "if op = WN_ARCHIVE_LIST then unat count \<le> 2000 \<and> 17 * unat count \<le> unat len \<and> (count = 0 \<longrightarrow> len = 0) else count = 0"
    "e_stream env = ascii ''ARO1'' @ wn_image_put count @
       wn_image_put (if op = WN_ARCHIVE_LIST then 0 else index) @ wn_image_put len @ take (unat len) px"
    using plain_reply [OF image_run_success [OF m fr r] k] unfolding r0 decoder_kind.case res(2,3) [symmetric]
    by (elim exE conjE) (rule that; assumption)
  have "px = out" using p(1) res(1) by simp
  moreover have "(if op = WN_ARCHIVE_LIST then 0 else index) = index" using ix by simp
  ultimately show ?thesis using p(2-5) by (cases "op = WN_ARCHIVE_LIST") (simp_all add: limit_defs)
qed

lemma archive_read_sound_witness:
  "\<exists>out len. wn_archive_read sample_malloc
       (sample_env 17 (ascii ''ARO1'' @ wn_image_put 0 @ wn_image_put 6 @ wn_image_put 2 @ [9, 8]))
       True (Some ''decoder'') (Some [5]) 1 WN_ARCHIVE_ENTRY 6 = Some (Some out, 0, len) \<and>
     unat len \<le> length out"
proof -
  let ?stream = "ascii ''ARO1'' @ wn_image_put 0 @ wn_image_put 6 @ wn_image_put 2 @ [9, 8]"
  let ?h = "ascii ''ARI1'' @ wn_image_put 1 @ wn_image_put 1 @ wn_image_put 6"
  let ?r0 = "zero_reply\<lparr>r_kind := DECODER_ARCHIVE, r_op := WN_ARCHIVE_ENTRY, r_index := 6,
     r_cap := WN_ARCHIVE_ENTRY_MAX\<rparr>"
  have w: "whole_reply ?r0 ?stream"
    by (simp add: whole_reply_def viable_def zero_reply_def wire_size_def wire_simps ascii_def limit_defs)
  have fr: "fresh ?r0" by (simp add: fresh_def zero_reply_def)
  obtain r px es where "image_run sample_malloc (sample_env 17 ?stream) [5] ?h ?r0 = Some (True, r, es)"
    and "r_pixels r = Some px"
    using image_run_cooperates [OF fr w, of ?h "[5]" 17] by auto
  then have run: "wn_archive_read sample_malloc (sample_env 17 ?stream) True (Some ''decoder'') (Some [5]) 1
      WN_ARCHIVE_ENTRY 6 = Some (Some px, r_count r, r_bytes r)"
    by (simp add: wn_archive_read_def helper_ok_def limit_defs input_bytes_def archive_op_code_def)
  from archive_read_sound [OF sample_malloc_ok(1) run] run show ?thesis
    by (intro exI [of _ px] exI [of _ "r_bytes r"]) simp
qed

lemma mesh_decode_sound:
  assumes m: "malloc_ok malloc"
    and run: "wn_mesh_decode malloc env outs helper data n format = Some (Some out, len)"
  shows "unat len \<le> length out \<and> unat len \<le> 512 * 1024 * 1024 \<and>
    e_stream env = ascii ''MDO1'' @ wn_image_put 1 @ wn_image_put 0 @ wn_image_put len @ take (unat len) out"
proof -
  let ?r0 = "zero_reply\<lparr>r_kind := DECODER_MESH, r_cap := WN_MODEL_OUTPUT_MAX\<rparr>"
  obtain header r es where r: "image_run malloc env (input_bytes data n) header ?r0 = Some (True, r, es)"
    and res: "r_pixels r = Some out" "len = r_bytes r"
    using run by (auto simp: wn_mesh_decode_def Let_def split: if_splits option.splits prod.splits)
  have fr: "fresh ?r0" by (simp add: fresh_def zero_reply_def)
  have r0: "r_kind ?r0 = DECODER_MESH" "r_cap ?r0 = WN_MODEL_OUTPUT_MAX" by simp_all
  have k: "r_kind ?r0 \<in> {DECODER_ARCHIVE, DECODER_MESH, DECODER_MODEL}" by simp
  obtain px where p: "r_pixels r = Some px" "unat len \<le> length px" "unat len \<le> unat WN_MODEL_OUTPUT_MAX"
    "e_stream env = ascii ''MDO1'' @ wn_image_put 1 @ wn_image_put 0 @ wn_image_put len @ take (unat len) px"
    using plain_reply [OF image_run_success [OF m fr r] k] unfolding r0 decoder_kind.case res(2) [symmetric]
    by (elim exE conjE) (rule that; assumption)
  then show ?thesis using res(1) by (simp add: limit_defs)
qed

lemma math_render_sound:
  assumes m: "malloc_ok malloc"
    and run: "wn_math_render malloc env outs helper data n font_bits argb max_side max_bytes = Some (Some px, w, h)"
  shows "0 < w \<and> w \<le> uint max_side \<and> 0 < h \<and> h \<le> uint max_side \<and> 4 * w * h \<le> uint max_bytes \<and>
    nat (4 * w * h) \<le> length px \<and>
    e_stream env = ascii ''MAO1'' @ wn_image_put (word_of_int w) @ wn_image_put (word_of_int h) @
      wn_image_put (word_of_int (4 * w * h)) @ take (nat (4 * w * h)) px"
proof -
  let ?r0 = "zero_reply\<lparr>r_kind := DECODER_MATH, r_dimension := max_side, r_cap := max_bytes\<rparr>"
  have d: "unat max_side \<le> 4096"
    using run by (auto simp: wn_math_render_def limit_defs word_less_nat_alt split: if_splits)
  obtain header r es where r: "image_run malloc env (input_bytes data n) header ?r0 = Some (True, r, es)"
    and res: "r_pixels r = Some px" "w = sint (r_width r)" "h = sint (r_height r)"
    using run by (auto simp: wn_math_render_def Let_def split: if_splits option.splits prod.splits)
  have fr: "fresh ?r0" using d by (simp add: fresh_def zero_reply_def)
  have r0: "r_dimension ?r0 = max_side" "r_cap ?r0 = max_bytes" by simp_all
  have "unat (r_dimension ?r0) \<le> 32768" using d unfolding r0 by simp
  from plane_client [OF m fr this r _ res(2,3,1), where magic = "''MAO1''"] show ?thesis
    unfolding r0 by (simp add: uint_nat del: of_nat_unat)
qed

section \<open>Sessions\<close>

text \<open>A session transfer (without \<open>finish\<close>) never waits for the child.\<close>

definition transfer_live :: "transfer \<Rightarrow> bool" where
  "transfer_live s \<longleftrightarrow> \<not> t_eof s \<and> \<not> t_reaped s"

lemma transfer_read_live:
  "transfer_read malloc False request ans s = (ok, s') \<Longrightarrow> transfer_live s \<Longrightarrow>
   \<not> t_reaped s' \<and> (ok \<longrightarrow> \<not> t_eof s')"
  by (auto simp: transfer_read_def transfer_live_def Let_def split: recv_answer.splits if_splits prod.splits)

lemma transfer_write_live:
  "transfer_write header data finish ans s = (ok, s') \<Longrightarrow> t_reaped s' = t_reaped s \<and> t_eof s' = t_eof s"
  by (auto simp: transfer_write_def Let_def split: send_answer.splits if_splits)

lemma transfer_io_live:
  assumes "transfer_io malloc header data False rd wr ans s = (ok, s')" "transfer_live s"
  shows "\<not> t_reaped s' \<and> (ok \<longrightarrow> \<not> t_eof s')"
proof -
  obtain ok1 s1 where r:
    "(if rd then transfer_read malloc False (length header + length data) ans s else (True, s)) = (ok1, s1)"
    by fastforce
  have 1: "\<not> t_reaped s1 \<and> (ok1 \<longrightarrow> \<not> t_eof s1)"
    using r assms(2) transfer_read_live by (fastforce simp: transfer_live_def split: if_splits)
  have "(if ok1 \<and> wr \<and> t_sent s1 < length header + length data
         then transfer_write header data False ans s1 else (ok1, s1)) = (ok, s')"
    using assms(1) unfolding transfer_io_def Let_def r by simp
  then show ?thesis using 1 transfer_write_live by (fastforce split: if_splits)
qed

lemma transfer_step_live:
  assumes "transfer_live s"
  shows "transfer_step malloc header data False deadline ans s = Inr s' \<Longrightarrow> transfer_live s'"
    "transfer_step malloc header data False deadline ans s = Inl (ok, s') \<Longrightarrow> \<not> t_reaped s'"
  using assms transfer_io_live [OF _ assms]
  by (fastforce simp: transfer_step_def transfer_live_def Let_def split: if_splits poll_answer.splits prod.splits)+

interpretation session_transfer: guarded_machine "transfer_step malloc header data False deadline" transfer_live
  for malloc header data deadline
  by unfold_locales (rule transfer_step_live)

lemma decoder_transfer_live:
  assumes "decoder_transfer malloc header data r0 False deadline first as stream = Some (ok, t)"
  shows "\<not> t_reaped t"
proof (cases "first = Peek_Data \<or> first = Peek_Failed")
  case True
  then have "t = transfer_start r0 stream" using assms by (auto simp: decoder_transfer_def Let_def)
  then show ?thesis by (simp add: transfer_start_def)
next
  case False
  then have "perform (transfer_step malloc header data False deadline) as (transfer_start r0 stream) = Inl (ok, t)"
    using assms by (auto simp: decoder_transfer_def transfer_loop_def Let_def split: sum.splits)
  moreover have "transfer_live (transfer_start r0 stream)" by (simp add: transfer_live_def transfer_start_def)
  ultimately show ?thesis using session_transfer.perform_stop transfer_step_live(2) by blast
qed

text \<open>An active session owns a live child and an open socket; an inactive one owns nothing.\<close>

definition session_inv :: "int \<Rightarrow> int \<Rightarrow> model_session \<Rightarrow> bool" where
  "session_inv pid fd s \<longleftrightarrow> 0 < pid \<and> 0 \<le> fd \<and>
     (if m_active s then m_process s = \<lparr>p_child = pid, p_socket = fd, p_reaped = False\<rparr>
      else p_child (m_process s) = -1 \<and> p_socket (m_process s) = -1)"

definition session_child :: "int \<Rightarrow> model_session \<Rightarrow> child_state" where
  "session_child pid s = (if m_active s then Live_Child pid else Gone_Child)"

definition session_fds :: "int \<Rightarrow> model_session \<Rightarrow> int set" where
  "session_fds fd s = (if m_active s then {fd} else {})"

definition tidy :: "int \<Rightarrow> int \<Rightarrow> model_session \<Rightarrow> event list \<Rightarrow> model_session \<Rightarrow> bool" where
  "tidy pid fd s es s' \<longleftrightarrow> session_inv pid fd s' \<and>
     child_run (session_child pid s) es = Some (session_child pid s') \<and>
     closes_held (session_fds fd s) es \<and> open_after (session_fds fd s) es = session_fds fd s'"

lemma tidy_refl: "session_inv pid fd s \<Longrightarrow> session_inv pid fd s' \<Longrightarrow> m_active s' = m_active s \<Longrightarrow> tidy pid fd s [] s'"
  by (simp add: tidy_def session_child_def session_fds_def)

lemma session_stop_tidy:
  assumes "session_inv pid fd s" "m_active s"
  shows "tidy pid fd s (x_events (session_stop s peer)) (x_session (session_stop s peer))"
  using assms
  by (simp add: session_stop_def decoder_stop_def session_inv_def tidy_def session_child_def
      session_fds_def close_if_open_def)

lemma exchange_tidy:
  assumes inv: "session_inv pid fd s"
    and x: "wn_model_exchange malloc env peer s operation data n out capacity len_out = Some res"
  shows "tidy pid fd s (x_events res) (x_session res)"
proof (cases "m_active s")
  case False
  then have "x_session res = s" "x_events res = []" using x by (auto simp: wn_model_exchange_def)
  then show ?thesis using tidy_refl [OF inv inv] by simp
next
  case True
  let ?s1 = "s\<lparr>m_sequence := m_sequence s + 1\<rparr>"
  have s1: "session_inv pid fd ?s1" "m_active ?s1" using inv True by (simp_all add: session_inv_def)
  have child: "session_child pid ?s1 = session_child pid s" "session_fds fd ?s1 = session_fds fd s"
    by (simp_all add: session_child_def session_fds_def)
  have same: "t_reaped t = False \<Longrightarrow> ?s1\<lparr>m_process := (m_process ?s1)\<lparr>p_reaped := t_reaped t\<rparr>\<rparr> = ?s1" for t
    using inv True by (simp add: session_inv_def)
  show ?thesis
  proof (cases "exchange_refused env s operation data n len_out")
    case True
    then have "res = session_stop s peer" using x \<open>m_active s\<close> by (simp add: wn_model_exchange_def)
    then show ?thesis using session_stop_tidy [OF inv \<open>m_active s\<close>] by simp
  next
    case False
    obtain ok t where t: "decoder_transfer malloc (exchange_header ?s1 operation n) (input_bytes data (uint n))
        (exchange_reply ?s1 operation out capacity) False (x_start env + int WN_IMAGE_SECONDS * 1000)
        (x_first env) (x_loop env) peer = Some (ok, t)" and res: "res = exchange_finish ?s1 (ok, t)"
      using x \<open>m_active s\<close> False by (auto simp: wn_model_exchange_def Let_def)
    have "\<not> t_reaped t" by (rule decoder_transfer_live [OF t])
    then have "res = (if ok then \<lparr>x_output = r_pixels (t_reply t), x_length = r_bytes (t_reply t),
            x_session = ?s1, x_peer = t_peer t, x_events = []\<rparr> else session_stop ?s1 (t_peer t))"
      using same [of t] by (simp add: res exchange_finish_def)
    then show ?thesis
      using tidy_refl [OF inv s1(1)] session_stop_tidy [OF s1] by (auto simp: tidy_def child)
  qed
qed

lemma tidy_trans: "tidy pid fd s es s' \<Longrightarrow> tidy pid fd s' es' s'' \<Longrightarrow> tidy pid fd s (es @ es') s''"
  by (simp add: tidy_def child_run_append closes_held_append open_after_append)

text \<open>A client's history of requests.\<close>

record exchange_request =
  q_env :: exchange_answers
  q_operation :: u32
  q_data :: "byte list option"
  q_size :: u32
  q_out :: "byte list option"
  q_capacity :: u32
  q_len_out :: bool

fun session_run ::
  "(nat \<Rightarrow> byte list option) \<Rightarrow> exchange_request list \<Rightarrow> model_session \<Rightarrow> byte list \<Rightarrow>
   (exchange_result list \<times> model_session \<times> event list) option" where
  "session_run malloc [] s peer = Some ([], s, [])"
| "session_run malloc (q # qs) s peer =
     (case wn_model_exchange malloc (q_env q) peer s (q_operation q) (q_data q) (q_size q) (q_out q)
             (q_capacity q) (q_len_out q) of
        None \<Rightarrow> None
      | Some r \<Rightarrow> map_option (\<lambda>(rs, s', es). (r # rs, s', x_events r @ es))
                    (session_run malloc qs (x_session r) (x_peer r)))"

lemma session_run_tidy:
  "session_inv pid fd s \<Longrightarrow> session_run malloc qs s peer = Some (rs, s', es) \<Longrightarrow> tidy pid fd s es s'"
proof (induction qs arbitrary: s peer rs es)
  case Nil
  then show ?case using tidy_refl by simp
next
  case (Cons q qs)
  then obtain r rs1 es1 where r: "wn_model_exchange malloc (q_env q) peer s (q_operation q) (q_data q) (q_size q) (q_out q)
             (q_capacity q) (q_len_out q) = Some r"
    and rest: "session_run malloc qs (x_session r) (x_peer r) = Some (rs1, s', es1)" "es = x_events r @ es1"
    by (auto split: option.splits)
  have t: "tidy pid fd s (x_events r) (x_session r)" by (rule exchange_tidy [OF Cons.prems(1) r])
  then have "session_inv pid fd (x_session r)" by (simp add: tidy_def)
  from tidy_trans [OF t Cons.IH [OF this rest(1)]] show ?case by (simp add: rest(2))
qed

lemma session_close_tidy:
  "session_inv pid fd s \<Longrightarrow>
   child_run (session_child pid s) (wn_model_close s) = Some Gone_Child \<and>
   closes_held (session_fds fd s) (wn_model_close s) \<and> open_after (session_fds fd s) (wn_model_close s) = {}"
  by (simp add: wn_model_close_def decoder_stop_def session_inv_def session_child_def session_fds_def
      close_if_open_def)

section \<open>Properties of sessions\<close>

text \<open>
  C10. A session never mistakes a reply for another request's: a successful exchange happened on an
  active session, used a sequence number one greater than the last one (without wrapping around),
  and consumed from the helper's stream exactly one reply that echoes this operation and this
  sequence number; the output buffer holds its payload and a lent buffer is not overrun.
\<close>

theorem exchange_sound:
  assumes m: "malloc_ok malloc"
    and lent: "\<forall>buf. out = Some buf \<longrightarrow> unat capacity \<le> length buf"
    and x: "wn_model_exchange malloc env peer s operation data n out capacity len_out = Some res"
    and ok: "x_output res = Some px"
  shows "m_active s \<and> unat (m_sequence (x_session res)) = unat (m_sequence s) + 1 \<and>
    unat (x_length res) \<le> length px \<and> (out \<noteq> None \<longrightarrow> x_length res \<le> capacity) \<and>
    peer = ascii ''FBO1'' @ wn_image_put operation @ wn_image_put (m_sequence (x_session res)) @
      wn_image_put (x_length res) @ take (unat (x_length res)) px @ x_peer res"
proof -
  let ?s1 = "s\<lparr>m_sequence := m_sequence s + 1\<rparr>"
  let ?r0 = "exchange_reply ?s1 operation out capacity"
  have act: "m_active s" using x ok by (auto simp: wn_model_exchange_def split: if_splits)
  have good: "\<not> exchange_refused env s operation data n len_out"
    using x ok act by (auto simp: wn_model_exchange_def session_stop_def case_prod_beta split: if_splits)
  then have seq: "unat (m_sequence s + 1) = unat (m_sequence s) + 1"
    by (intro unat_plus_one) (simp add: exchange_refused_def)
  obtain fine t where t: "decoder_transfer malloc (exchange_header ?s1 operation n) (input_bytes data (uint n))
        ?r0 False (x_start env + int WN_IMAGE_SECONDS * 1000)
        (x_first env) (x_loop env) peer = Some (fine, t)" and res: "res = exchange_finish ?s1 (fine, t)"
    using x act good by (auto simp: wn_model_exchange_def Let_def)
  have "fine" using res ok by (cases fine) (auto simp: exchange_finish_def session_stop_def case_prod_beta)
  then have r: "x_session res = ?s1" "x_length res = r_bytes (t_reply t)" "r_pixels (t_reply t) = Some px" "x_peer res = t_peer t"
    using res ok by (auto simp: exchange_finish_def)
  have fr: "fresh ?r0"
    using lent by (auto simp: fresh_def exchange_reply_def zero_reply_def word_less_nat_alt not_less
        intro: order_trans)
  have "transfer_loop malloc (exchange_header ?s1 operation n) (input_bytes data (uint n)) False
      (x_start env + int WN_IMAGE_SECONDS * 1000) (x_loop env) (transfer_start ?r0 peer) = Some (True, t)"
    using t \<open>fine\<close> by (simp add: decoder_transfer_def Let_def split: if_splits)
  then obtain got where got: "peer = got @ t_peer t" "whole_reply ?r0 got" "reply_inv ?r0 got (t_reply t)"
    using transfer_loop_success [OF m fr] by blast
  have r0: "r_kind ?r0 = DECODER_MODEL" "r_index ?r0 = operation" "r_sequence ?r0 = m_sequence s + 1"
    "out \<noteq> None \<Longrightarrow> r_cap ?r0 \<le> capacity"
    by (auto simp: exchange_reply_def)
  have k: "r_kind ?r0 \<in> {DECODER_ARCHIVE, DECODER_MESH, DECODER_MODEL}" by (simp add: r0)
  obtain px' where p: "r_pixels (t_reply t) = Some px'" "unat (x_length res) \<le> length px'"
    "unat (x_length res) \<le> unat (r_cap ?r0)"
    "got = ascii ''FBO1'' @ wn_image_put operation @ wn_image_put (m_sequence s + 1) @
       wn_image_put (x_length res) @ take (unat (x_length res)) px'"
    using plain_reply [OF got(2,3) k] unfolding r0(1-3) decoder_kind.case r(2) [symmetric]
    by (elim exE conjE) (rule that; assumption)
  have "x_length res \<le> capacity" if "out \<noteq> None"
    using p(3) r0(4) [OF that] by (simp add: word_le_nat_alt)
  then show ?thesis
    using act seq p(1,2,4) got(1) r by simp
qed

definition sample_session :: model_session where
  "sample_session = \<lparr>m_process = \<lparr>p_child = 77, p_socket = 4, p_reaped = False\<rparr>,
     m_active = True, m_sequence = 6\<rparr>"

definition sample_exchange :: exchange_answers where
  "sample_exchange = \<lparr>x_start = 0, x_first = Peek_Would_Block, x_loop =
     [sample_answers\<lparr>a_send := Send_Ready 16\<rparr>,
      sample_answers\<lparr>a_poll := Poll_Ready False True False, a_recv := Recv_Ready 16\<rparr>,
      sample_answers\<lparr>a_poll := Poll_Ready False True False, a_recv := Recv_Ready 9\<rparr>,
      sample_answers]\<rparr>"

definition sample_peer :: "byte list" where
  "sample_peer = ascii ''FBO1'' @ wn_image_put 1 @ wn_image_put 7 @ wn_image_put 2 @ [9, 8] @ [1, 1]"

lemma sample_header:
  "exchange_header \<lparr>m_process = p, m_active = a, m_sequence = 7\<rparr> 1 0 =
   [70, 66, 73, 49, 1, 0, 0, 0, 0, 0, 0, 0, 7, 0, 0, 0]"
  by (simp add: exchange_header_def sample_session_def ascii_def wn_image_put_def)
lemma sample_peer: "sample_peer = [70, 66, 79, 49, 1, 0, 0, 0, 7, 0, 0, 0, 2, 0, 0, 0, 9, 8, 1, 1]"
  by (simp add: sample_peer_def ascii_def wn_image_put_def)

lemma sample_transfer:
  "decoder_transfer sample_malloc [70, 66, 73, 49, 1, 0, 0, 0, 0, 0, 0, 0, 7, 0, 0, 0] []
   (exchange_reply \<lparr>m_process = p, m_active = a, m_sequence = 7\<rparr> 1 None 0) False 10000 Peek_Would_Block (x_loop sample_exchange) sample_peer =
   Some (True, \<lparr>t_reply = (exchange_reply \<lparr>m_process = p, m_active = a, m_sequence = 7\<rparr> 1 None 0)
      \<lparr>r_header := [70, 66, 79, 49, 1, 0, 0, 0, 7, 0, 0, 0, 2, 0, 0, 0], r_pixels := Some [9, 8], r_received := 18, r_bytes := 2\<rparr>,
      t_sent = 16, t_eof = False, t_reaped = False, t_peer = [1, 1], t_written = [70, 66, 73, 49, 1, 0, 0, 0, 0, 0, 0, 0, 7, 0, 0, 0]\<rparr>)"
  by (simp add: decoder_transfer_def transfer_loop_def sample_exchange_def sample_peer transfer_start_def exchange_reply_def zero_reply_def Let_def sample_answers_def transfer_step_def transfer_io_def transfer_write_def transfer_read_def send_slice_def 
     image_complete_def limit_defs image_buffer_def reply_recv_def image_received_def blit_def
     decoder_header_def mesh_refused_def allocate_pixels_def sample_malloc_def ascii_def wn_image_u32_def)

lemma exchange_sound_witness:
  "\<exists>res. wn_model_exchange sample_malloc sample_exchange sample_peer sample_session 1 None 0 None 0 True =
     Some res \<and> x_output res = Some [9, 8] \<and> m_sequence (x_session res) = 7 \<and> x_peer res = [1, 1] \<and>
     sample_peer = ascii ''FBO1'' @ wn_image_put 1 @ wn_image_put 7 @ wn_image_put 2 @ [9, 8] @ [1, 1]"
proof -
  obtain res where res: "wn_model_exchange sample_malloc sample_exchange sample_peer sample_session 1 None 0
      None 0 True = Some res"
    and out: "x_output res = Some [9, 8]" "m_sequence (x_session res) = 7" "x_peer res = [1, 1]" "x_length res = 2"
    using sample_transfer [unfolded sample_exchange_def]
    by (simp add: wn_model_exchange_def sample_exchange_def sample_session_def exchange_refused_def
        limit_defs sample_header input_bytes_def exchange_finish_def)
  from exchange_sound [OF sample_malloc_ok(1) _ res out(1)] res out show ?thesis by simp
qed

text \<open>
  C11. A session leaks nothing: after it is started, used for any sequence of requests (refused,
  failed or successful) and closed, every descriptor it opened has been closed exactly once, and its
  helper has been killed and reaped exactly once, whichever request ended the session.
\<close>

theorem session_resources:
  assumes start: "wn_model_start True ans helper = (Some s, es0)"
    and ans: "dup_answers_ok ans" "s_fork ans \<noteq> 0" "fresh_opens {} es0"
    and run: "session_run malloc qs s peer = Some (rs, s', es)"
  shows "child_run No_Child (es0 @ es @ wn_model_close s') = Some Gone_Child \<and>
    closes_held {} (es0 @ es @ wn_model_close s') \<and> open_after {} (es0 @ es @ wn_model_close s') = {}"
proof -
  obtain process where st: "decoder_start ans = (True, process, es0)"
    and s: "s = \<lparr>m_process = process, m_active = True, m_sequence = 0\<rparr>"
    using start by (auto simp: wn_model_start_def split: if_splits prod.splits)
  have p: "0 < p_child process" "0 \<le> p_socket process" "\<not> p_reaped process"
    using decoder_start_success [OF st ans(1)] ans(2) by auto
  then have inv: "session_inv (p_child process) (p_socket process) s" by (simp add: session_inv_def s)
  note t = session_run_tidy [OF inv run, unfolded tidy_def]
  note c = session_close_tidy [OF t [THEN conjunct1]]
  have "session_child (p_child process) s = Live_Child (p_child process)" "session_fds (p_socket process) s = {p_socket process}"
    by (simp_all add: session_child_def session_fds_def s)
  then show ?thesis
    using decoder_start_child [OF st] decoder_start_fds [OF st ans(1,3)] t c
    by (simp add: child_run_append closes_held_append open_after_append)
qed

definition sample_bad_request :: exchange_request where
  "sample_bad_request = \<lparr>q_env = sample_exchange, q_operation = 7, q_data = None, q_size = 0,
     q_out = None, q_capacity = 0, q_len_out = True\<rparr>"

lemma session_resources_witness:
  "\<exists>s es0 rs s' es. wn_model_start True sample_start (Some ''model'') = (Some s, es0) \<and>
     session_run sample_malloc [sample_bad_request] s [] = Some (rs, s', es) \<and>
     child_run No_Child (es0 @ es @ wn_model_close s') = Some Gone_Child"
proof -
  obtain s es0 where st: "wn_model_start True sample_start (Some ''model'') = (Some s, es0)"
    and es0: "fresh_opens {} es0"
    by (simp add: wn_model_start_def helper_ok_def sample_run_defs)
  have "m_active s" using st by (auto simp: wn_model_start_def split: if_splits prod.splits)
  then obtain rs s' es where run: "session_run sample_malloc [sample_bad_request] s [] = Some (rs, s', es)"
    by (simp add: sample_bad_request_def wn_model_exchange_def exchange_refused_def)
  have "dup_answers_ok sample_start" "s_fork sample_start \<noteq> 0"
    by (simp_all add: dup_answers_ok_def sample_start_def)
  from session_resources [OF st this es0 run] st run show ?thesis by blast
qed

end
