(* ===== verification/Image_Helpers.thy ===== *)
theory Image_Helpers
  imports Decoder_Client
begin

text \<open>
  The one-shot helper programs that answer the client calls: \<open>app/image.c\<close> (pictures) and
  \<open>app/pdf.c\<close> (pages). Each is a function from its standard input to its exit status and standard
  output. The image, PDF and drawing libraries are parameters; resource limits and sandboxing calls
  that fail make the program exit with 1 and are the parameter \<open>restricted\<close>.
\<close>

section \<open>Standard input and output\<close>

text \<open>\<open>fread(buf, 1, n, stdin)\<close> followed by the rest; None when fewer than n bytes arrive.\<close>

definition read_exactly :: "nat \<Rightarrow> byte list \<Rightarrow> (byte list \<times> byte list) option" where
  "read_exactly n input =
     (if n \<le> length input then Some (take n input, drop n input) else None)"

record helper_env =
  h_restricted :: bool
  h_stdin :: "byte list"
  h_ferror :: bool
  h_malloc :: bool
  h_write :: bool

text \<open>Writing the reply: with a failing \<open>fwrite\<close> or \<open>fflush\<close> the exit status is 1.\<close>

definition emit :: "helper_env \<Rightarrow> byte list \<Rightarrow> int \<times> byte list" where
  "emit env out = (if h_write env then (0, out) else (1, []))"

section \<open>Pictures\<close>

text \<open>\<open>w\<close> and \<open>h\<close> are ints, so once positive the 64-bit product of the code cannot wrap.\<close>

definition image_bounds :: "32 word \<Rightarrow> 32 word \<Rightarrow> u32 \<Rightarrow> u32 \<Rightarrow> bool" where
  "image_bounds w h dimension bytes \<longleftrightarrow>
     sint w > 0 \<and> sint h > 0 \<and> w \<le> dimension \<and> h \<le> dimension \<and>
     (ucast w :: u64) * ucast h * 4 \<le> ucast bytes"

record image_library =
  l_info :: "byte list \<Rightarrow> (u32 \<times> u32) option"
  l_load :: "byte list \<Rightarrow> (u32 \<times> u32 \<times> byte list) option"

definition is_webp :: "byte list \<Rightarrow> bool" where
  "is_webp input \<longleftrightarrow>
     12 \<le> length input \<and> take 4 input = ascii ''RIFF'' \<and> take 4 (drop 8 input) = ascii ''WEBP''"

text \<open>Decoding after the request has been read: the reply, or None for exit status 1.\<close>

definition image_reply_bytes ::
  "image_library \<Rightarrow> image_library \<Rightarrow> u32 \<Rightarrow> u32 \<Rightarrow> byte list \<Rightarrow> byte list option" where
  "image_reply_bytes webp_lib stb_lib dimension cap input =
     (let lib = (if is_webp input then webp_lib else stb_lib) in
      case l_info lib input of
        None \<Rightarrow> None
      | Some (w0, h0) \<Rightarrow>
          if \<not> image_bounds w0 h0 dimension cap then None
          else
            (case l_load lib input of
               None \<Rightarrow> None
             | Some (w, h, pixels) \<Rightarrow>
                 if w = w0 \<and> h = h0 \<and> image_bounds w h dimension cap
                 then let bytes = ucast ((ucast w :: u64) * ucast h * 4) :: u32
                      in Some (ascii ''WNO1'' @ wn_image_put w @ wn_image_put h @ wn_image_put bytes @
                               take (unat bytes) pixels)
                 else None))"

definition image_main :: "image_library \<Rightarrow> image_library \<Rightarrow> helper_env \<Rightarrow> int \<times> byte list" where
  "image_main webp_lib stb_lib env =
     (if \<not> h_restricted env then (1, [])
      else
        case read_exactly 16 (h_stdin env) of
          None \<Rightarrow> (1, [])
        | Some (header, rest) \<Rightarrow>
            if take 4 header \<noteq> ascii ''WNI1'' then (1, [])
            else
              let n = wn_image_u32 (drop 4 header);
                  dimension = wn_image_u32 (drop 8 header);
                  cap = wn_image_u32 (drop 12 header)
              in
              if n = 0 \<or> n > WN_IMAGE_INPUT_MAX \<or> dimension = 0 \<or> dimension > WN_IMAGE_DIM_MAX \<or>
                 cap = 0 \<or> cap > WN_IMAGE_OUTPUT_MAX \<or> \<not> h_malloc env
              then (1, [])
              else
                (case read_exactly (unat n) rest of
                   None \<Rightarrow> (1, [])
                 | Some (input, excess) \<Rightarrow>
                     if excess \<noteq> [] \<or> h_ferror env then (1, [])
                     else (case image_reply_bytes webp_lib stb_lib dimension cap input of
                             None \<Rightarrow> (1, [])
                           | Some out \<Rightarrow> emit env out)))"

section \<open>Pages\<close>

text \<open>
  \<open>pdf_dimensions\<close> rounds the scaled page in double precision; the rounded sides (None when they
  are not finite, or the scale is not positive) are an answer of the floating-point unit, here a
  parameter. What the code then does with them is integer arithmetic.
\<close>

definition pdf_dimensions :: "(int \<times> int) option \<Rightarrow> u32 \<Rightarrow> u32 \<Rightarrow> (int \<times> int) option" where
  "pdf_dimensions rounded want_w want_h =
     (case rounded of
        None \<Rightarrow> None
      | Some (w, h) \<Rightarrow>
          if w > uint WN_PDF_DIM_MAX \<or> h > uint WN_PDF_DIM_MAX then None
          else let width = max 1 w; height = max 1 h in
            if width \<le> uint want_w \<and> (want_h = 0 \<or> height \<le> uint want_h) \<and>
               width * height * 4 \<le> uint WN_PDF_OUTPUT_MAX
            then Some (width, height) else None)"

text \<open>A pixel of the drawing surface is a native (little-endian) ARGB word.\<close>

definition pdf_pixel :: "u32 \<Rightarrow> byte list" where
  "pdf_pixel argb = [ucast (drop_bit 16 argb), ucast (drop_bit 8 argb), ucast argb, 255]"

text \<open>The surface: for every row and column the ARGB word found there.\<close>

definition pdf_emit :: "(nat \<Rightarrow> nat \<Rightarrow> u32) \<Rightarrow> int \<Rightarrow> int \<Rightarrow> int \<Rightarrow> byte list" where
  "pdf_emit surface width height pages =
     ascii ''PDO1'' @ wn_image_put (word_of_int width) @ wn_image_put (word_of_int height) @
     wn_image_put (word_of_int (width * height * 4) + 4) @ wn_image_put (word_of_int pages) @
     concat (map (\<lambda>y. concat (map (\<lambda>x. pdf_pixel (surface y x)) [0..<nat width])) [0..<nat height])"

record pdf_library =
  d_pages :: "byte list \<Rightarrow> int option"
  d_page :: "byte list \<Rightarrow> u32 \<Rightarrow> bool"
  d_rounded :: "byte list \<Rightarrow> u32 \<Rightarrow> u32 \<Rightarrow> u32 \<Rightarrow> (int \<times> int) option"
  d_surface :: "byte list \<Rightarrow> u32 \<Rightarrow> int \<Rightarrow> int \<Rightarrow> (nat \<Rightarrow> nat \<Rightarrow> u32) option"

definition pdf_render :: "pdf_library \<Rightarrow> byte list \<Rightarrow> u32 \<Rightarrow> u32 \<Rightarrow> u32 \<Rightarrow> byte list option" where
  "pdf_render lib data index want_w want_h =
     (case d_pages lib data of
        None \<Rightarrow> None
      | Some pages \<Rightarrow>
          if pages \<le> 0 \<or> pages > uint WN_PDF_PAGES_MAX \<or> uint index \<ge> pages then None
          else if \<not> d_page lib data index then None
          else
            (case pdf_dimensions (d_rounded lib data index want_w want_h) want_w want_h of
               None \<Rightarrow> None
             | Some (width, height) \<Rightarrow>
                 map_option (\<lambda>surface. pdf_emit surface width height pages)
                   (d_surface lib data index width height)))"

definition pdf_main :: "pdf_library \<Rightarrow> bool \<Rightarrow> helper_env \<Rightarrow> int \<times> byte list" where
  "pdf_main lib fonts env =
     (if \<not> h_restricted env \<or> \<not> fonts then (1, [])
      else
        case read_exactly 20 (h_stdin env) of
          None \<Rightarrow> (1, [])
        | Some (header, rest) \<Rightarrow>
            if take 4 header \<noteq> ascii ''PDI1'' then (1, [])
            else
              let n = wn_image_u32 (drop 4 header);
                  page = wn_image_u32 (drop 8 header);
                  width = wn_image_u32 (drop 12 header);
                  height = wn_image_u32 (drop 16 header)
              in
              if n = 0 \<or> n > WN_PDF_INPUT_MAX \<or> page \<ge> WN_PDF_PAGES_MAX \<or> width = 0 \<or>
                 width > WN_PDF_DIM_MAX \<or> height > WN_PDF_DIM_MAX \<or> \<not> h_malloc env
              then (1, [])
              else
                (case read_exactly (unat n) rest of
                   None \<Rightarrow> (1, [])
                 | Some (input, excess) \<Rightarrow>
                     if excess \<noteq> [] \<or> h_ferror env then (1, [])
                     else (case pdf_render lib input page width height of
                             None \<Rightarrow> (1, [])
                           | Some out \<Rightarrow> emit env out)))"

section \<open>Reading is exact\<close>

interpretation stdin: exact_reader "\<lambda>input n. read_exactly n input" "\<lambda>input. input"
  by unfold_locales (auto simp: read_exactly_def split: if_splits)

section \<open>The reply of a helper\<close>

text \<open>Pixel data of the libraries has the announced size.\<close>

definition library_ok :: "image_library \<Rightarrow> bool" where
  "library_ok lib \<longleftrightarrow> (\<forall>input w h pixels. l_load lib input = Some (w, h, pixels) \<longrightarrow>
     length pixels = 4 * unat w * unat h)"

lemma image_bounds_nat:
  assumes "image_bounds w h dimension bytes" "unat dimension \<le> 32768"
  shows "0 < unat w" "unat w \<le> unat dimension" "0 < unat h" "unat h \<le> unat dimension"
    "4 * unat w * unat h \<le> unat bytes" "unat (ucast ((ucast w :: u64) * ucast h * 4) :: u32) = 4 * unat w * unat h"
proof -
  show d: "unat w \<le> unat dimension" "unat h \<le> unat dimension"
    using assms by (auto simp: image_bounds_def word_le_nat_alt)
  then have b: "unat w \<le> 32768" "unat h \<le> 32768" using assms(2) by auto
  show "0 < unat w" "0 < unat h"
    using assms(1) sint_small [OF b(1)] sint_small [OF b(2)] by (auto simp: image_bounds_def unat_gt_0)
  show a: "4 * unat w * unat h \<le> unat bytes"
    using assms(1) area64(1) [OF b] by (simp add: image_bounds_def word_le_nat_alt)
  have "unat bytes < 2 ^ 32" using unsigned_less [of bytes] by simp
  then have "4 * unat w * unat h < 2 ^ 32" by (rule le_less_trans [OF a])
  then show "unat (ucast ((ucast w :: u64) * ucast h * 4) :: u32) = 4 * unat w * unat h"
    using area64(1) [OF b] by (simp add: unsigned_ucast_eq take_bit_nat_def)
qed

lemma image_reply_bytes_whole:
  assumes lib: "library_ok webp_lib" "library_ok stb_lib" and dim: "unat (r_dimension r0) \<le> 32768"
    and k: "r_kind r0 = DECODER_IMAGE"
    and out: "image_reply_bytes webp_lib stb_lib (r_dimension r0) (r_cap r0) input = Some stream"
  shows "whole_reply r0 stream"
proof -
  define reply where "reply w h pixels =
      (let bytes = ucast ((ucast w :: u64) * ucast h * 4) :: u32
       in Some (ascii ''WNO1'' @ wn_image_put w @ wn_image_put h @ wn_image_put bytes @ take (unat bytes) pixels))"
    for w h :: u32 and pixels :: "byte list"
  have "\<exists>lib w h pixels. library_ok lib \<and> l_load lib input = Some (w, h, pixels) \<and>
      image_bounds w h (r_dimension r0) (r_cap r0) \<and> reply w h pixels = Some stream"
    using out lib unfolding image_reply_bytes_def reply_def [symmetric] Let_def [of "if is_webp input then webp_lib else stb_lib"]
    by (fastforce split: option.splits if_splits)
  then obtain w h pixels where b: "image_bounds w h (r_dimension r0) (r_cap r0)" and px: "length pixels = 4 * unat w * unat h"
    and r: "reply w h pixels = Some stream"
    unfolding library_ok_def by blast
  have s: "stream = ascii ''WNO1'' @ wn_image_put w @ wn_image_put h @
      wn_image_put (ucast ((ucast w :: u64) * ucast h * 4)) @ take (unat (ucast ((ucast w :: u64) * ucast h * 4) :: u32)) pixels"
    using r by (simp add: reply_def Let_def)
  note n = image_bounds_nat [OF b dim]
  have s': "stream = ascii ''WNO1'' @ wn_image_put w @ wn_image_put h @ wn_image_put (ucast ((ucast w :: u64) * ucast h * 4)) @ pixels"
    using s px unfolding n(6) by simp
  show ?thesis
    using n px k
    by (simp add: s' whole_reply_def viable_def plane_valid_def wire_size_def image_area_def wire_simps n(6))
qed



lemma read_request:
  assumes "length magic = 4" "0 < n" "n \<le> 134217728" "n = int (length data)"
  shows "read_exactly 16 (ascii magic @ wn_image_put (word_of_int n) @ wn_image_put a @ wn_image_put b @ data) =
     Some (ascii magic @ wn_image_put (word_of_int n) @ wn_image_put a @ wn_image_put b, data)"
    "read_exactly 20 (ascii magic @ wn_image_put (word_of_int n) @ wn_image_put a @ wn_image_put b @ wn_image_put c @ data) =
     Some (ascii magic @ wn_image_put (word_of_int n) @ wn_image_put a @ wn_image_put b @ wn_image_put c, data)"
    "read_exactly (unat (word_of_int n :: u32)) data = Some (data, [])"
  using word_of_int_small [OF assms(2,3)] assms(1,4) by (simp_all add: read_exactly_def)

lemma length_pdf_pixel [simp]: "length (pdf_pixel argb) = 4"
  by (simp add: pdf_pixel_def)

lemma length_concat_const:
  "(\<And>x. x \<in> set xs \<Longrightarrow> length (f x) = k) \<Longrightarrow> length (concat (map f xs)) = k * length xs"
  by (induction xs) auto

lemma pdf_dimensions_nat:
  assumes "pdf_dimensions rounded want_w want_h = Some (w, h)"
  shows "0 < w" "w \<le> 32768" "w \<le> uint want_w" "0 < h" "h \<le> 32768" "want_h \<noteq> 0 \<Longrightarrow> h \<le> uint want_h"
    "w * h * 4 \<le> 67108864"
  using assms by (auto simp: pdf_dimensions_def Let_def limit_defs mult.commute split: option.splits if_splits)

lemma pdf_pages_length:
  "length (concat (map (\<lambda>y. concat (map (\<lambda>x. pdf_pixel (surface y x)) [0..<w])) [0..<h])) = 4 * w * h"
  by (subst length_concat_const [where k = "4 * w"]) (simp_all add: length_concat_const [where k = 4])

lemma pdf_stream_whole:
  assumes "0 < unat w" "unat w \<le> unat want_w" "0 < unat h" "unat h \<le> 32768"
    "want_h \<noteq> 0 \<longrightarrow> unat h \<le> unat want_h" "4 * unat w * unat h \<le> 67108864"
    "unat bytes = 4 * unat w * unat h + 4" "length body = 4 * unat w * unat h"
    "0 < unat pages" "unat pages \<le> 10000" "unat page < unat pages"
  shows "whole_reply (pdf_state page want_w want_h)
    (ascii ''PDO1'' @ wn_image_put w @ wn_image_put h @ wn_image_put bytes @ wn_image_put pages @ body)"
  using assms
  by (simp add: whole_reply_def viable_def plane_valid_def wire_size_def image_area_def
        page_valid_def zero_reply_def wire_simps limit_defs)

lemma pdf_emit_whole:
  assumes d: "pdf_dimensions rounded want_w want_h = Some (w, h)"
    and p: "0 < pages" "pages \<le> 10000" "uint page < pages"
  shows "whole_reply (pdf_state page want_w want_h) (pdf_emit surface w h pages)"
proof -
  note n = pdf_dimensions_nat [OF d]
  have uw: "unat (word_of_int w :: u32) = nat w" "unat (word_of_int h :: u32) = nat h"
    "unat (word_of_int pages :: u32) = nat pages"
    using n p by (auto intro!: word_of_int_small)
  have "0 < w * h * 4" using n(1,4) by simp
  then have uwh: "unat (word_of_int (w * h * 4) :: u32) = nat (w * h * 4)"
    by (rule word_of_int_small) (use n(7) in linarith)
  have e: "nat (w * h * 4) = 4 * nat w * nat h" using n by (simp add: nat_mult_distrib)
  have le: "4 * nat w * nat h \<le> 67108864" unfolding e [symmetric] nat_le_iff using n(7) by simp
  then have b: "unat (word_of_int (w * h * 4) + 4 :: u32) = 4 * nat w * nat h + 4"
    by (simp add: unat_word_ariths(1) uwh e del: of_int_mult)
  have "nat w \<le> unat want_w" "want_h \<noteq> 0 \<longrightarrow> nat h \<le> unat want_h" "unat page < nat pages"
    using n(3,6) p(3) unfolding uint_nat nat_le_iff zless_nat_eq_int_zless by blast+
  then show ?thesis
    unfolding pdf_emit_def
    by (intro pdf_stream_whole; use n p le in \<open>simp only: uw b pdf_pages_length; simp?\<close>)
qed


section \<open>Properties\<close>

text \<open>
  The picture helper and its client agree on the protocol: given the request that
  \<open>wn_image_decode\<close> sends for its arguments, every output with which the helper exits with status 0
  is a whole reply in the client's sense (so, by the liveness of the transfer, it is accepted). The
  hypothesis on the libraries is that decoded pixel data has the announced size.
\<close>

theorem image_protocol_agrees:
  assumes lib: "library_ok webp_lib" "library_ok stb_lib"
    and n: "n = int (length data)"
    and req: "h_stdin env = image_header n max_dimension max_bytes @ data"
    and dim: "max_dimension \<le> 32768"  "0 < max_dimension" "n \<le> 134217728" "0 < n"
    and run: "image_main webp_lib stb_lib env = (0, out)"
  shows "whole_reply (image_state max_dimension max_bytes) out"
proof -
  have d: "unat (word_of_int max_dimension :: u32) = nat max_dimension"
    by (rule word_of_int_small) (use dim in simp_all)
  let ?r0 = "image_state max_dimension max_bytes"
  have st: "h_stdin env = ascii ''WNI1'' @ wn_image_put (word_of_int n) @ wn_image_put (word_of_int max_dimension) @
     wn_image_put max_bytes @ data" by (simp add: req)
  have "image_reply_bytes webp_lib stb_lib (r_dimension ?r0) (r_cap ?r0) data = Some out"
    using run unfolding image_main_def st read_request [where magic = "''WNI1''", simplified, OF dim(4,3) n]
    by (auto simp: wire_simps emit_def read_request(3) [where magic = "''WNI1''", simplified, OF dim(4,3) n] Let_def
       split: if_splits option.splits)
  from image_reply_bytes_whole [OF lib _ _ this] show ?thesis using d dim by (simp add: zero_reply_def)
qed

definition sample_library :: image_library where
  "sample_library = \<lparr>l_info = \<lambda>_. Some (1, 1), l_load = \<lambda>_. Some (1, 1, [9, 8, 7, 255])\<rparr>"

lemma image_protocol_agrees_witness:
  "\<exists>out. image_main sample_library sample_library
      \<lparr>h_restricted = True, h_stdin = image_header 1 10 100 @ [5], h_ferror = False, h_malloc = True,
       h_write = True\<rparr> = (0, out) \<and> whole_reply (image_state 10 100) out"
proof -
  have lib: "library_ok sample_library" by (simp add: library_ok_def sample_library_def)
  have "\<exists>out. image_main sample_library sample_library
      \<lparr>h_restricted = True, h_stdin = image_header 1 10 100 @ [5], h_ferror = False, h_malloc = True,
       h_write = True\<rparr> = (0, out)"
    by (simp add: image_main_def read_exactly_def emit_def limit_defs image_reply_bytes_def image_bounds_def
        sample_library_def is_webp_def wn_image_put_def wn_image_u32_def ascii_def Let_def)
  then obtain out where run: "image_main sample_library sample_library
      \<lparr>h_restricted = True, h_stdin = image_header 1 10 100 @ [5], h_ferror = False, h_malloc = True,
       h_write = True\<rparr> = (0, out)" ..
  from image_protocol_agrees [OF lib lib _ _ _ _ _ _ run, of 1 "[5]" 10 100] run show ?thesis by simp
qed

text \<open>
  C13. The page helper and its client agree on the protocol: given the request of \<open>wn_pdf_render\<close>,
  every output with which \<open>app/pdf.c\<close> exits with status 0 is a whole reply for that request: the page
  is in range, the sides respect the request and exactly 4 * width * height bytes follow.
\<close>

theorem pdf_protocol_agrees:
  assumes n: "n = int (length data)" "0 < n" "n \<le> 134217728"
    and req: "h_stdin env = pdf_header n page width height @ data"
    and run: "pdf_main lib fonts env = (0, out)"
  shows "whole_reply (pdf_state page width height) out"
proof -
  have st: "h_stdin env = ascii ''PDI1'' @ wn_image_put (word_of_int n) @ wn_image_put page @
     wn_image_put width @ wn_image_put height @ data" by (simp add: req)
  have "pdf_render lib data page width height = Some out"
    using run unfolding pdf_main_def st read_request [where magic = "''PDI1''", simplified, OF n(2,3,1)]
    by (auto simp: wire_simps emit_def read_request(3) [where magic = "''PDI1''", simplified, OF n(2,3,1)] Let_def
       split: if_splits option.splits)
  then obtain pages w h surface where "0 < pages" "pages \<le> 10000" "uint page < pages"
    and "pdf_dimensions (d_rounded lib data page width height) width height = Some (w, h)"
    and "out = pdf_emit surface w h pages"
    by (auto simp: pdf_render_def limit_defs not_less not_le split: option.splits if_splits)
  then show ?thesis using pdf_emit_whole by simp
qed

definition sample_pdf :: pdf_library where
  "sample_pdf = \<lparr>d_pages = \<lambda>_. Some 3, d_page = \<lambda>_ _. True, d_rounded = \<lambda>_ _ _ _. Some (1, 2),
     d_surface = \<lambda>_ _ _ _. Some (\<lambda>y x. 0xFF102030)\<rparr>"

lemma pdf_protocol_agrees_witness:
  "\<exists>out. pdf_main sample_pdf True
      \<lparr>h_restricted = True, h_stdin = pdf_header 1 2 10 0 @ [5], h_ferror = False, h_malloc = True,
       h_write = True\<rparr> = (0, out) \<and> whole_reply (pdf_state 2 10 0) out"
proof -
  have "\<exists>out. pdf_main sample_pdf True
      \<lparr>h_restricted = True, h_stdin = pdf_header 1 2 10 0 @ [5], h_ferror = False, h_malloc = True,
       h_write = True\<rparr> = (0, out)"
    by (simp add: pdf_main_def read_exactly_def emit_def limit_defs pdf_render_def pdf_dimensions_def
        sample_pdf_def wn_image_put_def wn_image_u32_def ascii_def Let_def)
  then obtain out where run: "pdf_main sample_pdf True
      \<lparr>h_restricted = True, h_stdin = pdf_header 1 2 10 0 @ [5], h_ferror = False, h_malloc = True,
       h_write = True\<rparr> = (0, out)" ..
  from pdf_protocol_agrees [OF _ _ _ _ run, of 1 "[5]" 2 10 0] run show ?thesis by simp
qed

end
