(* ===== verification/Archive_Helper.thy ===== *)
theory Archive_Helper
  imports Image_Helpers
begin

text \<open>
  The archive helper \<open>app/archive.c\<close>: listing the regular files of an archive as fixed-layout records
  and extracting one entry into a growing buffer. The archive library is a parameter: the sequence
  of its \<open>archive_read_next_header\<close> results, and for an entry its metadata and data stream.
\<close>

section \<open>What the library answers\<close>

datatype filter_status = ARCHIVE_OK | ARCHIVE_WARN | ARCHIVE_FATAL

text \<open>\<open>Arc_Read n\<close> delivers up to \<open>n\<close> (at least one) pending bytes; later calls deliver what fits.\<close>

datatype arc_read_answer = Arc_Read nat | Arc_Read_Failed

record arc_entry =
  a_name :: "byte list option"
  a_regular :: bool
  a_hardlink :: bool
  a_symlink :: bool
  a_size :: "int option"
  a_data :: "byte list"
  a_reads :: "arc_read_answer list"
  a_skip :: bool

datatype next_header = Next_Entry arc_entry | Next_Failed

text \<open>\<open>realloc\<close>: None on failure, otherwise a buffer of the new size that keeps the old contents.\<close>

definition realloc_ok :: "(byte list \<Rightarrow> nat \<Rightarrow> byte list option) \<Rightarrow> bool" where
  "realloc_ok realloc \<longleftrightarrow>
     (\<forall>old n new. realloc old n = Some new \<longrightarrow>
        length new = n \<and> (length old \<le> n \<longrightarrow> take (length old) new = old))"

section \<open>Filters\<close>

text \<open>
  A filter is registered on the real reader only if the probe reader has it natively; the result
  lists the registered filters. Each element is (filter, probe status, status on the reader).
\<close>

fun arc_filters :: "('f \<times> filter_status \<times> filter_status) list \<Rightarrow> bool \<times> 'f list" where
  "arc_filters [] = (True, [])"
| "arc_filters ((f, probe, real) # fs) =
     (if probe = ARCHIVE_OK
      then if real \<noteq> ARCHIVE_OK then (False, [])
           else let (ok, rest) = arc_filters fs in (ok, f # rest)
      else if probe \<noteq> ARCHIVE_WARN then (False, [])
      else arc_filters fs)"

section \<open>The output buffer\<close>

record arc_output =
  o_data :: "byte list"
  o_size :: u32
  o_capacity :: u32
  o_count :: u32

definition empty_output :: arc_output where
  "empty_output = \<lparr>o_data = [], o_size = 0, o_capacity = 0, o_count = 0\<rparr>"

text \<open>
  The doubling loop of \<open>arc_reserve\<close>, with fuel: 32 doublings take any non-zero capacity past every
  32-bit size, so \<open>arc_grow_enough\<close> below shows that the loop has always ended by then.
\<close>

fun arc_grow :: "nat \<Rightarrow> u32 \<Rightarrow> u32 \<Rightarrow> u32 \<Rightarrow> u32" where
  "arc_grow 0 limit needed capacity = capacity"
| "arc_grow (Suc fuel) limit needed capacity =
     (if capacity < needed
      then arc_grow fuel limit needed (if capacity > limit div 2 then limit else capacity * 2)
      else capacity)"

definition arc_reserve ::
  "(byte list \<Rightarrow> nat \<Rightarrow> byte list option) \<Rightarrow> arc_output \<Rightarrow> u32 \<Rightarrow> u32 \<Rightarrow> bool \<times> arc_output" where
  "arc_reserve realloc out extra limit =
     (if extra > limit - o_size out then (False, out)
      else let needed = o_size out + extra in
        if needed \<le> o_capacity out then (True, out)
        else let capacity = arc_grow 32 limit needed (if o_capacity out \<noteq> 0 then o_capacity out else 4096)
          in case realloc (o_data out) (unat capacity) of
               None \<Rightarrow> (False, out)
             | Some data \<Rightarrow> (True, out\<lparr>o_data := data, o_capacity := capacity\<rparr>))"

definition arc_regular :: "arc_entry \<Rightarrow> bool" where
  "arc_regular entry \<longleftrightarrow> a_regular entry \<and> \<not> a_hardlink entry \<and> \<not> a_symlink entry"

definition declared_size :: "arc_entry \<Rightarrow> int" where
  "declared_size entry = (case a_size entry of Some n \<Rightarrow> n | None \<Rightarrow> -1)"

section \<open>Listing\<close>

text \<open>The record layout: index, name length, 64-bit size (low word first), name.\<close>

definition arc_record_bytes :: "u32 \<Rightarrow> int \<Rightarrow> byte list \<Rightarrow> byte list" where
  "arc_record_bytes index declared name =
     (let n = word_of_int declared :: u64 in
      wn_image_put index @ wn_image_put (of_nat (length name)) @
      wn_image_put (ucast n) @ wn_image_put (ucast (drop_bit 32 n)) @ name)"

definition arc_record ::
  "(byte list \<Rightarrow> nat \<Rightarrow> byte list option) \<Rightarrow> arc_output \<Rightarrow> arc_entry \<Rightarrow> u32 \<Rightarrow> bool \<times> arc_output" where
  "arc_record realloc out entry index =
     (case a_name entry of
        None \<Rightarrow> (False, out)
      | Some name \<Rightarrow>
          if o_count out \<ge> WN_ARCHIVE_COUNT_MAX then (False, out)
          else
            let len = of_nat (min (length name) (Suc (unat WN_ARCHIVE_NAME_MAX))) :: u32;
                declared = declared_size entry
            in
            if len = 0 \<or> len > WN_ARCHIVE_NAME_MAX \<or> declared < -1 then (False, out)
            else
              let (ok, out) = arc_reserve realloc out (16 + len) WN_ARCHIVE_LIST_MAX in
              if \<not> ok then (False, out)
              else (True, out\<lparr>o_data := blit (unat (o_size out)) (arc_record_bytes index declared name) (o_data out),
                              o_size := o_size out + (16 + len),
                              o_count := o_count out + 1\<rparr>))"

section \<open>Extracting\<close>

text \<open>One \<open>archive_read_data\<close> call with room for \<open>n\<close> bytes: None for an error.\<close>

definition arc_read_data :: "arc_read_answer list \<Rightarrow> byte list \<Rightarrow> nat \<Rightarrow> byte list option" where
  "arc_read_data answers pending n =
     (case answers of
        [] \<Rightarrow> Some (take n pending)
      | Arc_Read k # _ \<Rightarrow> Some (take (min n (max 1 k)) pending)
      | Arc_Read_Failed # _ \<Rightarrow> None)"

function arc_extract_loop ::
  "(byte list \<Rightarrow> nat \<Rightarrow> byte list option) \<Rightarrow> int \<Rightarrow> arc_read_answer list \<Rightarrow> byte list \<Rightarrow> arc_output \<Rightarrow>
   bool \<times> arc_output" where
  "arc_extract_loop realloc declared answers pending out =
     (let remaining = WN_ARCHIVE_ENTRY_MAX - o_size out;
          (ok, out) = (if remaining \<noteq> 0 \<and> o_size out = o_capacity out
                       then arc_reserve realloc out (if remaining < 65536 then remaining else 65536)
                              WN_ARCHIVE_ENTRY_MAX
                       else (True, out))
      in
      if \<not> ok then (False, out)
      else
        (case arc_read_data answers pending
                (if remaining \<noteq> 0 then unat (o_capacity out - o_size out) else 1) of
           None \<Rightarrow> (False, out)
         | Some bs \<Rightarrow>
             if length bs > unat remaining then (False, out)
             else if bs = [] then (declared < 0 \<or> declared = uint (o_size out), out)
             else arc_extract_loop realloc declared (tl answers) (drop (length bs) pending)
                    (out\<lparr>o_data := blit (unat (o_size out)) bs (o_data out),
                         o_size := o_size out + of_nat (length bs)\<rparr>)))"
  by pat_completeness auto

termination
proof (relation "measure (\<lambda>(realloc, declared, answers, pending, out). length pending)", goal_cases)
  case 1
  then show ?case by simp
next
  case (2 realloc declared answers pending out remaining pr ok out' bs)
  then have "bs \<noteq> []" "pending \<noteq> []"
    by (auto simp: arc_read_data_def split: list.splits arc_read_answer.splits)
  then show ?case by simp
qed

declare arc_extract_loop.simps [simp del]

definition arc_extract ::
  "(byte list \<Rightarrow> nat \<Rightarrow> byte list option) \<Rightarrow> arc_entry \<Rightarrow> arc_output \<Rightarrow> bool \<times> arc_output" where
  "arc_extract realloc entry out =
     (let declared = declared_size entry in
      if declared < -1 \<or> declared > uint WN_ARCHIVE_ENTRY_MAX then (False, out)
      else
        let (ok, out) = (if declared > 0
                         then arc_reserve realloc out (word_of_int declared) WN_ARCHIVE_ENTRY_MAX
                         else (True, out))
        in if \<not> ok then (False, out)
           else arc_extract_loop realloc declared (a_reads entry) (a_data entry) out)"

section \<open>The scan and the program\<close>

text \<open>The end of the list of headers is \<open>ARCHIVE_EOF\<close>.\<close>

fun arc_read ::
  "(byte list \<Rightarrow> nat \<Rightarrow> byte list option) \<Rightarrow> u32 \<Rightarrow> u32 \<Rightarrow> next_header list \<Rightarrow> u32 \<Rightarrow> arc_output \<Rightarrow>
   bool \<times> arc_output" where
  "arc_read realloc op requested [] index out = (op = archive_op_code WN_ARCHIVE_LIST, out)"
| "arc_read realloc op requested (Next_Failed # hs) index out = (False, out)"
| "arc_read realloc op requested (Next_Entry entry # hs) index out =
     (if index \<ge> WN_ARCHIVE_SCAN_MAX then (False, out)
      else if op = archive_op_code WN_ARCHIVE_ENTRY \<and> index = requested
      then (if arc_regular entry then arc_extract realloc entry out else (False, out))
      else
        let (ok, out) = (if op = archive_op_code WN_ARCHIVE_LIST \<and> arc_regular entry
                         then arc_record realloc out entry index else (True, out))
        in if \<not> ok then (False, out)
           else if \<not> a_skip entry then (False, out)
           else arc_read realloc op requested hs (index + 1) out)"

text \<open>
  \<open>open_archive input\<close> are the header results when opening the archive succeeds. Locale and limits
  are the parameter \<open>h_restricted\<close> of the environment.
\<close>

definition archive_main ::
  "(byte list \<Rightarrow> nat \<Rightarrow> byte list option) \<Rightarrow> ('f \<times> filter_status \<times> filter_status) list \<Rightarrow>
   (byte list \<Rightarrow> next_header list option) \<Rightarrow> helper_env \<Rightarrow> int \<times> byte list" where
  "archive_main realloc filters open_archive env =
     (if \<not> h_restricted env then (1, [])
      else
        case read_exactly 16 (h_stdin env) of
          None \<Rightarrow> (1, [])
        | Some (header, rest) \<Rightarrow>
            if take 4 header \<noteq> ascii ''ARI1'' then (1, [])
            else
              let n = wn_image_u32 (drop 4 header);
                  op = wn_image_u32 (drop 8 header);
                  index = wn_image_u32 (drop 12 header)
              in
              if n = 0 \<or> n > WN_ARCHIVE_INPUT_MAX \<or> op > archive_op_code WN_ARCHIVE_ENTRY \<or>
                 index \<ge> WN_ARCHIVE_SCAN_MAX \<or> (op = archive_op_code WN_ARCHIVE_LIST \<and> index \<noteq> 0) \<or>
                 \<not> h_malloc env
              then (1, [])
              else
                (case read_exactly (unat n) rest of
                   None \<Rightarrow> (1, [])
                 | Some (input, excess) \<Rightarrow>
                     if excess \<noteq> [] \<or> h_ferror env \<or> \<not> fst (arc_filters filters) then (1, [])
                     else
                       (case open_archive input of
                          None \<Rightarrow> (1, [])
                        | Some headers \<Rightarrow>
                            let (ok, out) = arc_read realloc op index headers 0 empty_output in
                            if \<not> ok then (1, [])
                            else emit env (ascii ''ARO1'' @ wn_image_put (o_count out) @
                                   wn_image_put index @ wn_image_put (o_size out) @
                                   take (unat (o_size out)) (o_data out)))))"

section \<open>The buffer invariant\<close>

definition output_ok :: "u32 \<Rightarrow> byte list \<Rightarrow> arc_output \<Rightarrow> bool" where
  "output_ok limit content out \<longleftrightarrow>
     length (o_data out) = unat (o_capacity out) \<and> unat (o_size out) \<le> unat (o_capacity out) \<and>
     unat (o_capacity out) \<le> unat limit \<and> take (unat (o_size out)) (o_data out) = content"

lemma output_ok_length: "output_ok limit content out \<Longrightarrow> length content = unat (o_size out)"
  by (auto simp: output_ok_def)

lemma output_ok_empty: "output_ok limit [] empty_output"
  by (simp add: output_ok_def empty_output_def)

lemma arc_grow_enough:
  "unat needed \<le> unat limit \<Longrightarrow> unat capacity \<le> unat limit \<Longrightarrow> unat needed \<le> unat capacity * 2 ^ fuel \<Longrightarrow>
   unat needed \<le> unat (arc_grow fuel limit needed capacity) \<and>
   unat (arc_grow fuel limit needed capacity) \<le> unat limit \<and>
   unat capacity \<le> unat (arc_grow fuel limit needed capacity)"
proof (induction fuel arbitrary: capacity)
  case 0
  then show ?case by simp
next
  case (Suc fuel)
  show ?case
  proof (cases "capacity < needed")
    case True
    show ?thesis
    proof (cases "capacity > limit div 2")
      case big: True
      have "unat needed \<le> unat limit * 2 ^ fuel" using Suc.prems(1) by (simp add: le_trans)
      from Suc.IH [OF Suc.prems(1) _ this] show ?thesis using True big Suc.prems(2) by auto
    next
      case False
      then have "unat capacity \<le> unat limit div 2" by (simp add: not_less word_le_nat_alt unat_div)
      then have le: "2 * unat capacity \<le> unat limit" by simp
      have "2 * unat capacity < 4294967296" by (rule le_less_trans [OF le unat_u32_bound])
      then have d: "unat (capacity * 2) = 2 * unat capacity" by (simp add: unat_word_ariths(2))
      have "unat needed \<le> unat (capacity * 2) * 2 ^ fuel" using Suc.prems(3) d by simp
      from Suc.IH [OF Suc.prems(1) _ this] show ?thesis using True False le d by auto
    qed
  next
    case False
    then have "arc_grow (Suc fuel) limit needed capacity = capacity" by simp
    moreover have "unat needed \<le> unat capacity" using False by (simp add: not_less word_le_nat_alt)
    ultimately show ?thesis using Suc.prems(2) by simp
  qed
qed

lemma arc_reserve_ok:
  assumes inv: "output_ok limit content out" and ro: "realloc_ok realloc" and lim: "4096 \<le> unat limit"
    and res: "arc_reserve realloc out extra limit = (True, out')"
  shows "output_ok limit content out' \<and> o_size out' = o_size out \<and> o_count out' = o_count out \<and>
    unat (o_size out) + unat extra \<le> unat (o_capacity out') \<and> unat (o_size out) + unat extra \<le> unat limit"
proof -
  have s: "unat (o_size out) \<le> unat limit" "unat (o_size out) \<le> unat (o_capacity out)" 
      "unat (o_capacity out) \<le> unat limit" using inv by (auto simp: output_ok_def)
  have e: "unat extra \<le> unat limit - unat (o_size out)"
    using res unat_minus [OF s(1)] by (auto simp: arc_reserve_def word_less_nat_alt not_less split: if_splits)
  then have le: "unat (o_size out) + unat extra \<le> unat limit" using s by simp
  have "unat (o_size out) + unat extra < 4294967296" by (rule le_less_trans [OF le unat_u32_bound])
  then have needed: "unat (o_size out + extra) = unat (o_size out) + unat extra" by (rule unat_plus)
  have ne: "\<not> extra > limit - o_size out" using e unat_minus [OF s(1)] by (simp add: word_less_nat_alt)
  show ?thesis
  proof (cases "o_size out + extra \<le> o_capacity out")
    case True
    then have "out' = out" using res ne by (simp add: arc_reserve_def Let_def)
    then show ?thesis using True inv le needed by (simp add: word_le_nat_alt)
  next
    case False
    define start where "start = (if o_capacity out \<noteq> 0 then o_capacity out else 4096)"
    have st: "unat start \<le> unat limit" "0 < unat start" "unat (o_capacity out) \<le> unat start"
      using s(3) lim by (auto simp: start_def unat_gt_0)
    have "unat (o_size out + extra) \<le> 2 ^ 32" using unat_u32_bound [of "o_size out + extra"] by simp
    also have "\<dots> \<le> unat start * 2 ^ 32" using st(2) by simp
    finally have g: "unat (o_size out + extra) \<le> unat (arc_grow 32 limit (o_size out + extra) start)"
      "unat (arc_grow 32 limit (o_size out + extra) start) \<le> unat limit"
      "unat start \<le> unat (arc_grow 32 limit (o_size out + extra) start)"
      using arc_grow_enough [of "o_size out + extra" limit start 32] le needed st(1) by simp_all
    let ?c = "arc_grow 32 limit (o_size out + extra) start"
    obtain data where data: "realloc (o_data out) (unat ?c) = Some data"
      and out': "out' = out\<lparr>o_data := data, o_capacity := ?c\<rparr>"
      using res ne False by (auto simp: arc_reserve_def Let_def start_def split: option.splits)
    have "length (o_data out) \<le> unat ?c" using inv st(3) g(3) by (simp add: output_ok_def)
    then have d: "length data = unat ?c" "take (length (o_data out)) data = o_data out"
      using ro data by (auto simp: realloc_ok_def)
    have "take (unat (o_size out)) data = take (unat (o_size out)) (take (length (o_data out)) data)"
      using inv by (simp add: output_ok_def)
    then have "take (unat (o_size out)) data = content"
      using d(2) inv by (simp add: output_ok_def)
    then show ?thesis using inv g le needed d(1) by (simp add: output_ok_def out')
  qed
qed


text \<open>Appending to the buffer.\<close>

lemma output_ok_append:
  assumes inv: "output_ok limit content out" and fits: "unat (o_size out) + length bs \<le> unat (o_capacity out)"
    and n: "unat n = length bs"
  shows "output_ok limit (content @ bs) (out\<lparr>o_data := blit (unat (o_size out)) bs (o_data out), o_size := o_size out + n\<rparr>)"
proof -
  have "unat (o_size out) + unat n < 4294967296"
    unfolding n by (rule le_less_trans [OF fits unat_u32_bound])
  then have "unat (o_size out + n) = unat (o_size out) + length bs" using unat_plus n by simp
  then show ?thesis
    using inv fits take_blit [of "unat (o_size out)" bs "o_data out"] by (simp add: output_ok_def)
qed

lemma length_arc_record_bytes: "length (arc_record_bytes index declared name) = 16 + length name"
  by (simp add: arc_record_bytes_def Let_def)

lemma output_ok_count [simp]: "output_ok limit content (out\<lparr>o_count := n\<rparr>) = output_ok limit content out"
  by (simp add: output_ok_def)

definition listable :: "arc_entry \<Rightarrow> bool" where
  "listable e \<longleftrightarrow> (case a_name e of None \<Rightarrow> False
     | Some name \<Rightarrow> 0 < length name \<and> length name \<le> 4096 \<and> -1 \<le> declared_size e)"

lemma arc_record_ok:
  assumes inv: "output_ok WN_ARCHIVE_LIST_MAX content out" and ro: "realloc_ok realloc"
    and res: "arc_record realloc out entry index = (True, out')"
  shows "\<exists>name. a_name entry = Some name \<and> listable entry \<and> unat (o_count out) < 2000 \<and>
    output_ok WN_ARCHIVE_LIST_MAX (content @ arc_record_bytes index (declared_size entry) name) out' \<and>
    o_count out' = o_count out + 1"
proof -
  obtain name where name: "a_name entry = Some name" using res by (auto simp: arc_record_def split: option.splits)
  define len where "len = (of_nat (min (length name) (Suc (unat WN_ARCHIVE_NAME_MAX))) :: u32)"
  obtain out1 where c: "\<not> o_count out \<ge> WN_ARCHIVE_COUNT_MAX" and l: "len \<noteq> 0" "\<not> len > WN_ARCHIVE_NAME_MAX"
      "\<not> declared_size entry < -1"
    and r: "arc_reserve realloc out (16 + len) WN_ARCHIVE_LIST_MAX = (True, out1)"
    and out': "out' = out1\<lparr>o_data := blit (unat (o_size out1)) (arc_record_bytes index (declared_size entry) name) (o_data out1),
       o_size := o_size out1 + (16 + len), o_count := o_count out1 + 1\<rparr>"
    using res name unfolding arc_record_def by (auto simp: len_def [symmetric] Let_def split: if_splits prod.splits)
  have "min (length name) 4097 < 4294967296" by simp
  then have ul: "unat len = min (length name) 4097"
    by (simp add: len_def limit_defs unat_of_nat del: of_nat_min)
  have le: "0 < length name" "length name \<le> 4096" "unat len = length name"
    using l(1,2) ul by (auto simp: word_less_nat_alt not_less limit_defs unat_eq_0 min_def split: if_splits)
  have e: "unat (16 + len) = 16 + length name" using le by (subst unat_plus) simp_all
  note a = arc_reserve_ok [OF inv ro _ r]
  have lim: "4096 \<le> unat WN_ARCHIVE_LIST_MAX" by (simp add: limit_defs)
  have "output_ok WN_ARCHIVE_LIST_MAX (content @ arc_record_bytes index (declared_size entry) name)
     (out1\<lparr>o_data := blit (unat (o_size out1)) (arc_record_bytes index (declared_size entry) name) (o_data out1),
       o_size := o_size out1 + (16 + len)\<rparr>)"
    by (rule output_ok_append) (use a [OF lim] e in \<open>auto simp: length_arc_record_bytes\<close>)
  then have "output_ok WN_ARCHIVE_LIST_MAX (content @ arc_record_bytes index (declared_size entry) name) out'"
    unfolding out' by (simp add: output_ok_def)
  moreover have "unat (o_count out) < 2000" using c by (simp add: limit_defs word_le_nat_alt not_le)
  ultimately show ?thesis
    using a [OF lim] name le l(3) out' by (auto simp: listable_def)
qed

text \<open>No filter is registered that would start an external program.\<close>

lemma arc_filters_native:
  "arc_filters fs = (True, registered) \<Longrightarrow> f \<in> set registered \<Longrightarrow> (f, ARCHIVE_OK, ARCHIVE_OK) \<in> set fs"
  by (induction fs arbitrary: registered rule: arc_filters.induct) (auto split: if_splits prod.splits)

section \<open>What a listing contains\<close>

text \<open>The regular entries with their positions, as far as the archive can be read.\<close>

fun listing :: "u32 \<Rightarrow> next_header list \<Rightarrow> (u32 \<times> int \<times> byte list) list" where
  "listing index (Next_Entry e # hs) =
     (if arc_regular e
      then (index, declared_size e, case a_name e of None \<Rightarrow> [] | Some name \<Rightarrow> name) # listing (index + 1) hs
      else listing (index + 1) hs)"
| "listing index _ = []"

abbreviation record_of :: "u32 \<times> int \<times> byte list \<Rightarrow> byte list" where
  "record_of r \<equiv> (case r of (index, declared, name) \<Rightarrow> arc_record_bytes index declared name)"

definition record_ok :: "u32 \<times> int \<times> byte list \<Rightarrow> bool" where
  "record_ok r = (case r of (index, declared, name) \<Rightarrow>
     0 < length name \<and> length name \<le> 4096 \<and> -1 \<le> declared)"

lemma arc_read_listing:
  assumes ro: "realloc_ok realloc"
  shows "output_ok WN_ARCHIVE_LIST_MAX content out \<Longrightarrow> unat (o_count out) \<le> 2000 \<Longrightarrow>
    arc_read realloc 0 requested hs index out = (True, out') \<Longrightarrow>
    output_ok WN_ARCHIVE_LIST_MAX (content @ concat (map record_of (listing index hs))) out' \<and>
    unat (o_count out') = unat (o_count out) + length (listing index hs) \<and> unat (o_count out') \<le> 2000 \<and>
    list_all record_ok (listing index hs)"
proof (induction hs arbitrary: content out index)
  case Nil
  then show ?case by simp
next
  case (Cons h hs)
  then obtain e where h: "h = Next_Entry e" by (cases h) auto
  have z: "archive_op_code WN_ARCHIVE_ENTRY \<noteq> 0" "archive_op_code WN_ARCHIVE_LIST = 0"
    by (simp_all add: archive_op_code_def)
  show ?case
  proof (cases "arc_regular e")
    case True
    obtain out1 where r: "arc_record realloc out e index = (True, out1)"
      and rest: "arc_read realloc 0 requested hs (index + 1) out1 = (True, out')"
      using Cons.prems(3) True z by (auto simp: h split: if_splits prod.splits)
    obtain name where n: "a_name e = Some name" "listable e" "unat (o_count out) < 2000"
      "output_ok WN_ARCHIVE_LIST_MAX (content @ arc_record_bytes index (declared_size e) name) out1"
      "o_count out1 = o_count out + 1"
      using arc_record_ok [OF Cons.prems(1) ro r] by auto
    have c: "unat (o_count out1) = unat (o_count out) + 1"
      unfolding n(5) by (subst unat_plus) (use n(3) in simp_all)
    have "unat (o_count out1) \<le> 2000" using c n(3) by simp
    from Cons.IH [OF n(4) this rest] show ?thesis
      using n(1,2) c True by (auto simp: h listable_def record_ok_def)
  next
    case False
    then have "arc_read realloc 0 requested hs (index + 1) out = (True, out')"
      using Cons.prems(3) z by (auto simp: h split: if_splits)
    from Cons.IH [OF Cons.prems(1,2) this] show ?thesis using False by (simp add: h)
  qed
qed

text \<open>The records can be read back: a parser for the listing format.\<close>

function arc_parse :: "byte list \<Rightarrow> (u32 \<times> u64 \<times> byte list) list option" where
  "arc_parse bs =
     (if bs = [] then Some []
      else if length bs < 16 then None
      else
        let n = unat (wn_image_u32 (drop 4 bs));
            size = ucast (wn_image_u32 (drop 8 bs)) OR push_bit 32 (ucast (wn_image_u32 (drop 12 bs)))
        in if length bs < 16 + n then None
           else map_option ((#) (wn_image_u32 bs, size, take n (drop 16 bs))) (arc_parse (drop (16 + n) bs)))"
  by pat_completeness auto

termination by (relation "measure length") auto

declare arc_parse.simps [simp del]

lemma split64: "(ucast (ucast n :: u32) OR push_bit 32 (ucast (ucast (drop_bit 32 n) :: u32)) :: u64) = n"
  by (rule bit_word_eqI) (auto simp: bit_simps)

lemma arc_parse_record:
  assumes "length name < 4294967296"
  shows "arc_parse (arc_record_bytes index declared name @ rest) =
    map_option ((#) (index, word_of_int declared, name)) (arc_parse rest)"
proof -
  let ?n = "word_of_int declared :: u64"
  let ?bs = "wn_image_put index @ wn_image_put (of_nat (length name)) @
      wn_image_put (ucast ?n) @ wn_image_put (ucast (drop_bit 32 ?n)) @ name @ rest"
  have n: "unat (of_nat (length name) :: u32) = length name"
    using assms by (simp add: unat_of_nat)
  have f: "wn_image_u32 ?bs = index" "wn_image_u32 (drop 4 ?bs) = of_nat (length name)"
    "wn_image_u32 (drop 8 ?bs) = ucast ?n" "wn_image_u32 (drop 12 ?bs) = ucast (drop_bit 32 ?n)"
    by (simp_all add: wire_simps)
  have d: "drop 16 ?bs = name @ rest" "16 + length name \<le> length ?bs" by simp_all
  have "drop (length name + 16) ?bs = drop (length name) (drop 16 ?bs)" by (simp only: drop_drop)
  also have "\<dots> = rest" unfolding d(1) by simp
  finally have dn: "drop (16 + length name) ?bs = rest" by (simp only: add.commute)
  show ?thesis
    unfolding arc_record_bytes_def Let_def append_assoc
    apply (subst arc_parse.simps)
    unfolding f Let_def n split64 d(1) dn
    using d(2) by (auto simp del: length_append)
qed

lemma arc_parse_records:
  "list_all record_ok rs \<Longrightarrow>
   arc_parse (concat (map record_of rs)) = Some (map (\<lambda>(index, declared, name). (index, word_of_int declared, name)) rs)"
proof (induction rs)
  case Nil
  then show ?case by (simp add: arc_parse.simps)
next
  case (Cons r rs)
  then show ?case by (cases r) (simp add: arc_parse_record record_ok_def)
qed


section \<open>What an extraction delivers\<close>

lemma arc_extract_step:
  assumes "arc_extract_loop realloc declared answers pending out = (True, out')"
  shows "\<exists>out1 bs. (if WN_ARCHIVE_ENTRY_MAX - o_size out \<noteq> 0 \<and> o_size out = o_capacity out
       then arc_reserve realloc out
              (if WN_ARCHIVE_ENTRY_MAX - o_size out < 65536 then WN_ARCHIVE_ENTRY_MAX - o_size out else 65536)
              WN_ARCHIVE_ENTRY_MAX
       else (True, out)) = (True, out1) \<and>
    arc_read_data answers pending
      (if WN_ARCHIVE_ENTRY_MAX - o_size out \<noteq> 0 then unat (o_capacity out1 - o_size out1) else 1) = Some bs \<and>
    length bs \<le> unat (WN_ARCHIVE_ENTRY_MAX - o_size out) \<and>
    (if bs = [] then out' = out1 \<and> (declared < 0 \<or> declared = uint (o_size out1))
     else arc_extract_loop realloc declared (tl answers) (drop (length bs) pending)
        (out1\<lparr>o_data := blit (unat (o_size out1)) bs (o_data out1), o_size := o_size out1 + of_nat (length bs)\<rparr>) =
        (True, out'))"
  using assms
  by (subst (asm) arc_extract_loop.simps)
     (auto simp: Let_def not_less split: if_splits prod.splits option.splits)

lemma arc_read_data_prefix:
  assumes "arc_read_data answers pending n = Some bs"
  shows "pending = bs @ drop (length bs) pending \<and> length bs \<le> n \<and> (bs = [] \<longrightarrow> n = 0 \<or> pending = [])"
proof -
  obtain m where m: "bs = take m pending" "m \<le> n" "n \<noteq> 0 \<longrightarrow> 0 < m"
  proof (cases answers)
    case Nil
    then show ?thesis using assms that [of n] by (simp add: arc_read_data_def)
  next
    case (Cons a as)
    then obtain k where "a = Arc_Read k" using assms by (cases a) (auto simp: arc_read_data_def)
    then show ?thesis using Cons assms that [of "min n (max 1 k)"]
      by (simp add: arc_read_data_def less_max_iff_disj)
  qed
  have "pending = take m pending @ drop (length (take m pending)) pending"
    by (cases "m \<le> length pending") auto
  then show ?thesis using m by auto
qed

lemma arc_extract_loop_ok:
  assumes ro: "realloc_ok realloc"
  shows "output_ok WN_ARCHIVE_ENTRY_MAX content out \<Longrightarrow>
    arc_extract_loop realloc declared answers pending out = (True, out') \<Longrightarrow>
    output_ok WN_ARCHIVE_ENTRY_MAX (content @ pending) out' \<and> o_count out' = o_count out \<and>
    (declared < 0 \<or> declared = int (length (content @ pending)))"
proof (induction pending arbitrary: content out answers rule: length_induct)
  case (1 pending)
  have lim: "4096 \<le> unat WN_ARCHIVE_ENTRY_MAX" by (simp add: limit_defs)
  define remaining where "remaining = WN_ARCHIVE_ENTRY_MAX - o_size out"
  obtain out1 bs where r: "(if remaining \<noteq> 0 \<and> o_size out = o_capacity out
       then arc_reserve realloc out (if remaining < 65536 then remaining else 65536) WN_ARCHIVE_ENTRY_MAX
       else (True, out)) = (True, out1)"
    and rd: "arc_read_data answers pending (if remaining \<noteq> 0 then unat (o_capacity out1 - o_size out1) else 1) = Some bs"
    and le: "length bs \<le> unat remaining"
    and goes: "if bs = [] then out' = out1 \<and> (declared < 0 \<or> declared = uint (o_size out1))
     else arc_extract_loop realloc declared (tl answers) (drop (length bs) pending)
        (out1\<lparr>o_data := blit (unat (o_size out1)) bs (o_data out1), o_size := o_size out1 + of_nat (length bs)\<rparr>) =
        (True, out')"
    using arc_extract_step [OF 1(3)] unfolding remaining_def by blast
  have a: "output_ok WN_ARCHIVE_ENTRY_MAX content out1" "o_size out1 = o_size out" "o_count out1 = o_count out"
    "remaining \<noteq> 0 \<Longrightarrow> unat (o_size out1) < unat (o_capacity out1)"
  proof -
    have "0 < unat (if remaining < 65536 then remaining else 65536)" if "remaining \<noteq> 0"
      using that by (simp add: unat_gt_0)
    moreover have "unat (o_size out) < unat (o_capacity out)" if "o_size out \<noteq> o_capacity out"
      using 1(2) that by (metis le_neq_implies_less output_ok_def word_unat_eq_iff)
    ultimately show "output_ok WN_ARCHIVE_ENTRY_MAX content out1" "o_size out1 = o_size out" "o_count out1 = o_count out"
      "remaining \<noteq> 0 \<Longrightarrow> unat (o_size out1) < unat (o_capacity out1)"
      using arc_reserve_ok [OF 1(2) ro lim, of "if remaining < 65536 then remaining else 65536" out1] r 1(2)
      by (auto split: if_splits)
  qed
  note p = arc_read_data_prefix [OF rd]
  show ?case
  proof (cases "bs = []")
    case True
    have "unat (o_capacity out1 - o_size out1) \<noteq> 0" if "remaining \<noteq> 0"
      using a(4) [OF that] by (simp add: unat_minus)
    then have "pending = []" using p True by (auto split: if_splits)
    moreover have "uint (o_size out1) = int (length content)"
      using output_ok_length [OF a(1)] by (simp add: uint_nat del: of_nat_unat)
    ultimately show ?thesis using goes True a(1,3) by simp
  next
    case False
    then have rem: "remaining \<noteq> 0" using le by auto
    then have fits: "unat (o_size out1) + length bs \<le> unat (o_capacity out1)"
      using p [THEN conjunct2, THEN conjunct1] a(4) [OF rem] rem by (simp add: unat_minus)
    have "length bs < 4294967296" by (rule le_less_trans [OF le unat_u32_bound])
    then have n: "unat (of_nat (length bs) :: u32) = length bs" by (simp add: unat_of_nat)
    have "length (drop (length bs) pending) < length pending" using False p by (cases pending) auto
    from 1(1) [rule_format, OF this output_ok_append [OF a(1) fits n]] goes False p
    show ?thesis by (simp add: a(3))
  qed
qed


lemma arc_extract_ok:
  assumes ro: "realloc_ok realloc" and ex: "arc_extract realloc entry empty_output = (True, out')"
  shows "output_ok WN_ARCHIVE_ENTRY_MAX (a_data entry) out'" "o_count out' = 0"
    "\<forall>n. a_size entry = Some n \<and> 0 \<le> n \<longrightarrow> n = int (length (a_data entry))"
proof -
  define d where "d = declared_size entry"
  obtain out1 where r: "(if d > 0 then arc_reserve realloc empty_output (word_of_int d) WN_ARCHIVE_ENTRY_MAX
      else (True, empty_output)) = (True, out1)"
    and loop: "arc_extract_loop realloc d (a_reads entry) (a_data entry) out1 = (True, out')"
    using ex by (auto simp: arc_extract_def d_def [symmetric] Let_def split: if_splits prod.splits)
  have lim: "4096 \<le> unat WN_ARCHIVE_ENTRY_MAX" by (simp add: limit_defs)
  have "o_count empty_output = 0" by (simp add: empty_output_def)
  then have "output_ok WN_ARCHIVE_ENTRY_MAX [] out1 \<and> o_count out1 = 0"
    using r arc_reserve_ok [OF output_ok_empty ro lim] output_ok_empty by (auto split: if_splits)
  from arc_extract_loop_ok [OF ro conjunct1 [OF this] loop] conjunct2 [OF this]
  show "output_ok WN_ARCHIVE_ENTRY_MAX (a_data entry) out'" "o_count out' = 0"
    "\<forall>n. a_size entry = Some n \<and> 0 \<le> n \<longrightarrow> n = int (length (a_data entry))"
    by (auto simp: d_def declared_size_def)
qed

lemma arc_read_entry:
  assumes ro: "realloc_ok realloc"
  shows "arc_read realloc 1 requested hs index empty_output = (True, out') \<Longrightarrow>
    \<exists>k e. k < length hs \<and> unat requested = unat index + k \<and> hs ! k = Next_Entry e \<and>
      arc_regular e \<and> output_ok WN_ARCHIVE_ENTRY_MAX (a_data e) out' \<and>
      o_count out' = 0 \<and> (\<forall>n. a_size e = Some n \<and> 0 \<le> n \<longrightarrow> n = int (length (a_data e)))"
proof (induction hs arbitrary: index)
  case Nil
  then show ?case by (simp add: archive_op_code_def)
next
  case (Cons h hs)
  then obtain e where h: "h = Next_Entry e" by (cases h) auto
  have z: "archive_op_code WN_ARCHIVE_ENTRY = 1" "archive_op_code WN_ARCHIVE_LIST \<noteq> 1"
    by (simp_all add: archive_op_code_def)
  show ?case
  proof (cases "index = requested")
    case True
    then have "arc_regular e" "arc_extract realloc e empty_output = (True, out')"
      using Cons.prems z by (auto simp: h split: if_splits)
    then show ?thesis
      using arc_extract_ok [OF ro] True by (intro exI [of _ 0] exI [of _ e]) (simp add: h)
  next
    case False
    then have rest: "arc_read realloc 1 requested hs (index + 1) empty_output = (True, out')"
      and "index < WN_ARCHIVE_SCAN_MAX"
      using Cons.prems z by (auto simp: h split: if_splits)
    then have "unat index < 65536" by (simp add: limit_defs word_less_nat_alt)
    then have "unat (index + 1) = unat index + 1" by (subst unat_plus) simp_all
    with Cons.IH [OF rest] obtain k e' where "k < length hs" "unat requested = unat index + Suc k"
      "hs ! k = Next_Entry e'" "arc_regular e'" "output_ok WN_ARCHIVE_ENTRY_MAX (a_data e') out'"
      "o_count out' = 0" "\<forall>n. a_size e' = Some n \<and> 0 \<le> n \<longrightarrow> n = int (length (a_data e'))"
      by auto
    then show ?thesis by (intro exI [of _ "Suc k"] exI [of _ e']) simp
  qed
qed

section \<open>The reply of the helper\<close>

lemma archive_main_output:
  assumes n: "n = int (length data)" "0 < n" "n \<le> 134217728"
    and req: "h_stdin env = archive_header n op index @ data"
    and run: "archive_main realloc filters open_archive env = (0, out)"
  shows "\<exists>headers buf. open_archive data = Some headers \<and>
    arc_read realloc (archive_op_code op) index headers 0 empty_output = (True, buf) \<and>
    out = ascii ''ARO1'' @ wn_image_put (o_count buf) @ wn_image_put index @ wn_image_put (o_size buf) @
      take (unat (o_size buf)) (o_data buf) \<and> (op = WN_ARCHIVE_LIST \<longrightarrow> index = 0)"
proof -
  have st: "h_stdin env = ascii ''ARI1'' @ wn_image_put (word_of_int n) @ wn_image_put (archive_op_code op) @
     wn_image_put index @ data" by (simp add: req)
  show ?thesis
    using run unfolding archive_main_def st read_request [where magic = "''ARI1''", simplified, OF n(2,3,1)]
    by (auto simp: wire_simps emit_def read_request(3) [where magic = "''ARI1''", simplified, OF n(2,3,1)] Let_def
       split: if_splits option.splits prod.splits)
qed

lemma archive_reply_whole:
  assumes "length payload = unat n" "unat n \<le> unat (r_cap (archive_state op index))"
    and "op = WN_ARCHIVE_LIST \<Longrightarrow> unat count \<le> 2000 \<and> 17 * unat count \<le> unat n \<and> index = 0 \<and> (count = 0 \<longrightarrow> n = 0)"
    and "op \<noteq> WN_ARCHIVE_LIST \<Longrightarrow> count = 0"
  shows "whole_reply (archive_state op index)
    (ascii ''ARO1'' @ wn_image_put count @ wn_image_put index @ wn_image_put n @ payload)"
  using assms
  by (auto simp: whole_reply_def viable_def wire_size_def zero_reply_def wire_simps limit_defs mult.commute)

lemma records_length:
  "list_all record_ok rs \<Longrightarrow> 17 * length rs \<le> length (concat (map record_of rs))"
  by (induction rs) (auto simp: record_ok_def length_arc_record_bytes neq_Nil_conv)

section \<open>Properties\<close>

text \<open>
  C14. Listing: given the request of \<open>wn_archive_read\<close>, when the archive helper exits with status 0
  its output is a whole reply for that request, and its payload parses back to exactly the regular
  files of the archive, in order, each with its position, its declared size and its name; there are
  at most 2000 of them. The library and its data are arbitrary; \<open>realloc\<close> keeps old contents.
\<close>

theorem archive_listing:
  assumes ro: "realloc_ok realloc" and n: "n = int (length data)" "0 < n" "n \<le> 134217728"
    and req: "h_stdin env = archive_header n WN_ARCHIVE_LIST 0 @ data"
    and run: "archive_main realloc filters open_archive env = (0, out)"
  shows "whole_reply (archive_state WN_ARCHIVE_LIST 0) out \<and>
    (\<exists>headers. open_archive data = Some headers \<and> length (listing 0 headers) \<le> 2000 \<and>
       arc_parse (drop 16 out) = Some (map (\<lambda>(index, declared, name). (index, word_of_int declared, name))
         (listing 0 headers)))"
proof -
  obtain headers buf where headers: "open_archive data = Some headers"
    and read: "arc_read realloc 0 0 headers 0 empty_output = (True, buf)"
    and out: "out = ascii ''ARO1'' @ wn_image_put (o_count buf) @ wn_image_put 0 @ wn_image_put (o_size buf) @
      take (unat (o_size buf)) (o_data buf)"
    using archive_main_output [OF n req run] by (auto simp: archive_op_code_def)
  have "o_count empty_output = 0" by (simp add: empty_output_def)
  then have l: "output_ok WN_ARCHIVE_LIST_MAX (concat (map record_of (listing 0 headers))) buf"
    "unat (o_count buf) = length (listing 0 headers)" "unat (o_count buf) \<le> 2000" "list_all record_ok (listing 0 headers)"
    using arc_read_listing [OF ro output_ok_empty _ read] by auto
  have c: "take (unat (o_size buf)) (o_data buf) = concat (map record_of (listing 0 headers))"
    using l(1) by (simp add: output_ok_def)
  have len: "length (concat (map record_of (listing 0 headers))) = unat (o_size buf)"
    by (rule output_ok_length [OF l(1)])
  have z: "o_size buf = 0" if "o_count buf = 0" using l(2) len that by (simp add: unat_eq_0)
  have "whole_reply (archive_state WN_ARCHIVE_LIST 0) out"
    unfolding out c
    by (rule archive_reply_whole)
       (use l len z records_length [OF l(4)] in \<open>auto simp: output_ok_def\<close>)
  moreover have "drop 16 out = concat (map record_of (listing 0 headers))" unfolding out c by simp
  ultimately show ?thesis using headers l(2,3) arc_parse_records [OF l(4)] by simp
qed

definition sample_realloc :: "byte list \<Rightarrow> nat \<Rightarrow> byte list option" where
  "sample_realloc old n = Some (take n old @ replicate (n - length old) 0)"

definition sample_entry :: arc_entry where
  "sample_entry = \<lparr>a_name = Some [65], a_regular = True, a_hardlink = False, a_symlink = False,
     a_size = Some 2, a_data = [9, 8], a_reads = [Arc_Read 1], a_skip = True\<rparr>"

definition sample_archive_env :: "archive_op \<Rightarrow> helper_env" where
  "sample_archive_env op = \<lparr>h_restricted = True, h_stdin = archive_header 1 op 0 @ [5],
     h_ferror = False, h_malloc = True, h_write = True\<rparr>"

lemma sample_realloc_ok: "realloc_ok sample_realloc"
  by (auto simp: realloc_ok_def sample_realloc_def)

lemma arc_grow_done: "\<not> capacity < needed \<Longrightarrow> arc_grow fuel limit needed capacity = capacity"
  by (cases fuel) simp_all

lemmas sample_archive_simps = archive_main_def read_exactly_def emit_def limit_defs sample_archive_env_def
  sample_entry_def wn_image_put_def wn_image_u32_def ascii_def Let_def arc_record_def arc_reserve_def
  sample_realloc_def empty_output_def declared_size_def arc_grow_done archive_op_code_def arc_regular_def

lemma archive_listing_witness:
  "\<exists>out. archive_main sample_realloc [((), ARCHIVE_OK, ARCHIVE_OK)] (\<lambda>_. Some [Next_Entry sample_entry])
      (sample_archive_env WN_ARCHIVE_LIST) = (0, out) \<and> arc_parse (drop 16 out) = Some [(0, 2, [65])]"
proof -
  have "\<exists>out. archive_main sample_realloc [((), ARCHIVE_OK, ARCHIVE_OK)] (\<lambda>_. Some [Next_Entry sample_entry])
      (sample_archive_env WN_ARCHIVE_LIST) = (0, out)"
    by (simp add: sample_archive_simps)
  then obtain out where run: "archive_main sample_realloc [((), ARCHIVE_OK, ARCHIVE_OK)]
      (\<lambda>_. Some [Next_Entry sample_entry]) (sample_archive_env WN_ARCHIVE_LIST) = (0, out)" ..
  from archive_listing [OF sample_realloc_ok _ _ _ _ run, of 1 "[5]"] run show ?thesis
    by (simp add: sample_archive_env_def sample_entry_def arc_regular_def declared_size_def)
qed

text \<open>
  C15. Extraction: given a request for entry \<open>index\<close>, when the helper exits with status 0 the archive's
  entry at that position is a regular file (no link), the reply is a whole reply for that request and
  carries exactly that entry's data (at most 64 MiB), and a declared size was the real one.
\<close>

theorem archive_extraction:
  assumes ro: "realloc_ok realloc" and n: "n = int (length data)" "0 < n" "n \<le> 134217728"
    and req: "h_stdin env = archive_header n WN_ARCHIVE_ENTRY index @ data"
    and run: "archive_main realloc filters open_archive env = (0, out)"
  shows "whole_reply (archive_state WN_ARCHIVE_ENTRY index) out \<and>
    (\<exists>headers e. open_archive data = Some headers \<and> unat index < length headers \<and>
       headers ! unat index = Next_Entry e \<and> arc_regular e \<and> drop 16 out = a_data e \<and>
       (\<forall>k. a_size e = Some k \<and> 0 \<le> k \<longrightarrow> k = int (length (a_data e))))"
proof -
  obtain headers buf where headers: "open_archive data = Some headers"
    and read: "arc_read realloc 1 index headers 0 empty_output = (True, buf)"
    and out: "out = ascii ''ARO1'' @ wn_image_put (o_count buf) @ wn_image_put index @ wn_image_put (o_size buf) @
      take (unat (o_size buf)) (o_data buf)"
    using archive_main_output [OF n req run] by (auto simp: archive_op_code_def)
  obtain e where e: "unat index < length headers" "headers ! unat index = Next_Entry e" "arc_regular e"
    "output_ok WN_ARCHIVE_ENTRY_MAX (a_data e) buf" "o_count buf = 0"
    "\<forall>k. a_size e = Some k \<and> 0 \<le> k \<longrightarrow> k = int (length (a_data e))"
    using arc_read_entry [OF ro read] by auto
  have c: "take (unat (o_size buf)) (o_data buf) = a_data e" using e(4) by (simp add: output_ok_def)
  have "whole_reply (archive_state WN_ARCHIVE_ENTRY index) out"
    unfolding out c
    by (rule archive_reply_whole) (use e(4,5) output_ok_length [OF e(4)] in \<open>auto simp: output_ok_def\<close>)
  then show ?thesis using headers e out c by simp
qed

lemma archive_extraction_witness:
  "\<exists>out. archive_main sample_realloc [((), ARCHIVE_OK, ARCHIVE_OK)] (\<lambda>_. Some [Next_Entry sample_entry])
      (sample_archive_env WN_ARCHIVE_ENTRY) = (0, out) \<and> drop 16 out = [9, 8]"
proof -
  have "\<exists>out. archive_main sample_realloc [((), ARCHIVE_OK, ARCHIVE_OK)] (\<lambda>_. Some [Next_Entry sample_entry])
      (sample_archive_env WN_ARCHIVE_ENTRY) = (0, out)"
    by (simp add: sample_archive_simps arc_extract_def arc_extract_loop.simps arc_read_data_def)
  then obtain out where run: "archive_main sample_realloc [((), ARCHIVE_OK, ARCHIVE_OK)]
      (\<lambda>_. Some [Next_Entry sample_entry]) (sample_archive_env WN_ARCHIVE_ENTRY) = (0, out)" ..
  from archive_extraction [OF sample_realloc_ok _ _ _ _ run, of 1 "[5]" 0] run show ?thesis
    by (auto simp: sample_archive_env_def sample_entry_def)
qed

end
