(* ===== verification/Frames.thy ===== *)
theory Frames
  imports Decoder_Process
begin

text \<open>
  What the two process brokers share (\<open>app/helper_broker.c\<close>, \<open>app/tool_broker.c\<close>): C strings as byte
  lists without a zero byte, argument vectors packed as zero-terminated strings, environment entries,
  base names, and error numbers.
\<close>

section \<open>Errors\<close>

datatype errno =
  EINVAL | EPERM | E2BIG | ENAMETOOLONG | ENOENT | ENOMEM | ENOSYS | EIO | EPIPE | ECANCELED |
  ETIMEDOUT | EALREADY | EFBIG | EBUSY | EINTR | EAGAIN | EBADF | EACCES | ESRCH | ELOOP | ENOTEMPTY |
  Os_Error int

section \<open>C strings\<close>

type_synonym cstring = "byte list"

definition is_cstring :: "cstring \<Rightarrow> bool" where
  "is_cstring s \<longleftrightarrow> 0 \<notin> set s"

text \<open>\<open>strnlen(p, n)\<close> on a region of bytes.\<close>

definition strnlen :: "byte list \<Rightarrow> nat \<Rightarrow> nat" where
  "strnlen bs n = length (takeWhile (\<lambda>b. b \<noteq> 0) (take n bs))"

text \<open>One argument of a packed vector: it must be terminated inside the region.\<close>

definition put_cstring :: "cstring \<Rightarrow> byte list" where
  "put_cstring s = s @ [0]"

definition get_cstring :: "byte list \<Rightarrow> (cstring \<times> byte list) option" where
  "get_cstring bs =
     (if bs = [] then None
      else let n = strnlen bs (length bs) in
        if n = length bs then None else Some (take n bs, drop (n + 1) bs))"

lemma strnlen_cstring: "is_cstring s \<Longrightarrow> length s < n \<Longrightarrow> strnlen (s @ 0 # rest) n = length s"
proof -
  assume s: "is_cstring s" and n: "length s < n"
  obtain k where "n = length s + Suc k" using less_imp_Suc_add [OF n] by auto
  then have "take n (s @ 0 # rest) = s @ 0 # take k rest" by simp
  moreover have "takeWhile (\<lambda>b. b \<noteq> 0) (s @ 0 # take k rest) = s"
    using s by (induction s) (auto simp: is_cstring_def)
  ultimately show ?thesis by (simp add: strnlen_def)
qed

lemma get_put_cstring: "is_cstring s \<Longrightarrow> get_cstring (put_cstring s @ rest) = Some (s, rest)"
  using strnlen_cstring [of s "length (s @ 0 # rest)" rest]
  by (simp add: get_cstring_def put_cstring_def)

lemma get_cstring_sound:
  assumes "get_cstring bs = Some (s, rest)"
  shows "bs = put_cstring s @ rest \<and> is_cstring s"
proof -
  define pre where "pre = takeWhile (\<lambda>b. b \<noteq> 0) bs"
  have eq: "pre @ dropWhile (\<lambda>b. b \<noteq> 0) bs = bs" by (simp add: pre_def)
  have ne: "length pre \<noteq> length bs" and s: "s = take (length pre) bs" "rest = drop (length pre + 1) bs"
    using assms by (auto simp: get_cstring_def strnlen_def pre_def Let_def split: if_splits)
  obtain b tl where d: "dropWhile (\<lambda>b. b \<noteq> 0) bs = b # tl"
    using eq ne by (cases "dropWhile (\<lambda>b. b \<noteq> 0) bs") auto
  then have "b = 0" using hd_dropWhile [of "\<lambda>b. b \<noteq> 0" bs] by simp
  moreover have "0 \<notin> set pre" unfolding pre_def by (auto dest: set_takeWhileD)
  moreover have bs: "bs = pre @ b # tl" using eq d by simp
  then have "s = pre" "rest = tl" using s by simp_all
  ultimately show ?thesis using bs by (simp add: put_cstring_def is_cstring_def)
qed

interpretation cstring: item_codec put_cstring get_cstring is_cstring
  by unfold_locales (rule get_put_cstring get_cstring_sound; assumption)+

section \<open>Names and environment entries\<close>

text \<open>The part after the last slash: \<open>strrchr(path, '/')\<close> and one further, or the whole string.\<close>

definition base_name :: "cstring \<Rightarrow> cstring" where
  "base_name s = rev (takeWhile (\<lambda>b. b \<noteq> 47) (rev s))"

definition env_entry :: "cstring \<Rightarrow> cstring \<Rightarrow> cstring" where
  "env_entry key value = key @ [61] @ value"

lemma base_name_no_slash: "47 \<notin> set (base_name s)"
  by (auto simp: base_name_def dest: set_takeWhileD)

section \<open>String literals\<close>

lemma of_char_byte_eq [simp]: "(of_char c :: byte) = of_char d \<longleftrightarrow> c = d"
proof
  assume "(of_char c :: byte) = of_char d"
  then have "(of_nat (of_char c) :: byte) = of_nat (of_char d)" by (simp only: of_nat_of_char)
  then have "(of_char c :: nat) = of_char d"
    using nat_of_char_less_256 [of c] nat_of_char_less_256 [of d]
    by (simp add: word_of_nat_eq_iff take_bit_nat_eq_self)
  then show "c = d" by simp
qed simp

lemma ascii_inject [simp]: "ascii s = ascii t \<longleftrightarrow> s = t"
  by (simp add: ascii_def inj_map_eq_map inj_def)

lemma ascii_eq_Nil [simp]: "ascii s = [] \<longleftrightarrow> s = []"
  by (simp add: ascii_def)

lemma byte_of_char_0: "(of_char c :: byte) = 0 \<longleftrightarrow> c = CHR 0x00"
  using of_char_byte_eq [of c "CHR 0x00"] by (simp del: of_char_byte_eq)

lemma is_cstring_ascii [simp]: "is_cstring (ascii s) \<longleftrightarrow> CHR 0x00 \<notin> set s"
  by (auto simp: is_cstring_def ascii_def byte_of_char_0 dest: sym)

lemma base_name_ascii: "base_name (ascii s) = ascii (rev (takeWhile (\<lambda>c. c \<noteq> CHR ''/'') (rev s)))"
proof -
  have "(of_char c :: byte) = 47 \<longleftrightarrow> c = CHR ''/''" for c
    using of_char_byte_eq [of c "CHR ''/''"] by (simp del: of_char_byte_eq)
  then have "(\<lambda>b. b \<noteq> (47 :: byte)) \<circ> of_char = (\<lambda>c. c \<noteq> CHR ''/'')" by (simp add: fun_eq_iff)
  then show ?thesis by (simp add: base_name_def ascii_def takeWhile_map rev_map)
qed

end
