(* ===== verification/Helper_Request.thy ===== *)
theory Helper_Request
  imports Frames
begin

text \<open>
  What the helper broker (\<open>app/helper_broker.c\<close>) decides: the table of helpers and the environment it
  freezes before the application handles any data (\<open>freeze_helpers\<close>, \<open>freeze_environment\<close>), the
  request that \<open>wn_helper_execve\<close> packs, and how \<open>serve_request\<close> unpacks and authorises it. The
  specification \<open>authorised\<close> says what may be executed without mentioning the wire format.
\<close>

section \<open>Helpers\<close>

datatype helper_kind = HELPER_DECODER | HELPER_PDF | HELPER_FONT | HELPER_OPTIONAL

record helper =
  h_requested :: cstring
  h_executable :: cstring
  h_kind :: helper_kind

definition helper_names :: "cstring list" where
  "helper_names = map ascii
     [''wn-image'', ''wn-archive'', ''wn-mesh'', ''wn-fbx'', ''wn-math'', ''wn-nes'', ''wn-pdf'', ''wn-font'',
      ''wn-stt'', ''wn-tts'', ''wn-translate'', ''wn-webview'']"

definition HELPER_COUNT :: nat where "HELPER_COUNT = length helper_names"
definition ARG_COUNT :: nat where "ARG_COUNT = 64"
definition ARG_BYTES :: nat where "ARG_BYTES = 16384"
definition PATH_MAX :: nat where "PATH_MAX = 4096"

text \<open>The position of a name in the table, \<open>HELPER_COUNT\<close> when it is not there.\<close>

definition helper_index :: "cstring \<Rightarrow> nat" where
  "helper_index name = length (takeWhile (\<lambda>n. n \<noteq> name) helper_names)"

definition kind_of_index :: "nat \<Rightarrow> helper_kind" where
  "kind_of_index kind =
     (if kind < 6 then HELPER_DECODER else if kind = 6 then HELPER_PDF
      else if kind = 7 then HELPER_FONT else HELPER_OPTIONAL)"

section \<open>Freezing\<close>

text \<open>One helper of the list; the state is the table so far and the font directory.\<close>

definition freeze_helper ::
  "(cstring \<Rightarrow> errno + cstring) \<Rightarrow> cstring \<Rightarrow> cstring option \<Rightarrow> helper list \<times> cstring \<Rightarrow>
   errno + (helper list \<times> cstring)" where
  "freeze_helper realpath resources entry s =
     (let (frozen, font_root) = s in
      case entry of
        None \<Rightarrow> Inl EINVAL
      | Some path \<Rightarrow>
          if strnlen path PATH_MAX = PATH_MAX then Inl EINVAL
          else
            let name = base_name path; kind = helper_index name in
            if kind = HELPER_COUNT then Inl EPERM
            else if \<exists>h\<in>set frozen. base_name (h_requested h) = name then Inl EINVAL
            else
              (case realpath path of
                 Inl e \<Rightarrow> Inl e
               | Inr exe \<Rightarrow>
                   let frozen = frozen @ [\<lparr>h_requested = path, h_executable = exe,
                         h_kind = kind_of_index kind\<rparr>] in
                   if kind_of_index kind = HELPER_PDF then
                     let fonts = resources @ ascii ''/fonts'' in
                     if length fonts \<ge> PATH_MAX then Inl ENAMETOOLONG
                     else (case realpath fonts of Inl e \<Rightarrow> Inl e | Inr root \<Rightarrow> Inr (frozen, root))
                   else Inr (frozen, font_root)))"

definition freeze_helpers ::
  "(cstring \<Rightarrow> errno + cstring) \<Rightarrow> cstring option list option \<Rightarrow> nat \<Rightarrow> cstring option \<Rightarrow>
   errno + (helper list \<times> cstring)" where
  "freeze_helpers realpath helpers count resources =
     (if count > HELPER_COUNT \<or> (count \<noteq> 0 \<and> helpers = None) \<or> resources = None then Inl EINVAL
      else perform (freeze_helper realpath (the resources))
             (if count = 0 then [] else take count (the helpers)) ([], []))"

definition environment_keys :: "cstring list" where
  "environment_keys = map ascii
     [''HOME'', ''DISPLAY'', ''XAUTHORITY'', ''DBUS_SESSION_BUS_ADDRESS'', ''XDG_CONFIG_HOME'', ''XDG_DATA_HOME'',
      ''XDG_CACHE_HOME'', ''XDG_RUNTIME_DIR'', ''LANG'', ''LANGUAGE'', ''LC_ALL'', ''LC_CTYPE'', ''LC_MESSAGES'',
      ''TZ'', ''TMPDIR'', ''SQLITE_TMPDIR'', ''MESA_SHADER_CACHE_DIR'']"

definition base_path :: cstring where
  "base_path = ascii ''PATH=/usr/local/bin:/usr/bin:/bin''"

text \<open>One variable; the state is the number of bytes used and the entries so far.\<close>

definition freeze_variable ::
  "nat \<Rightarrow> (cstring \<Rightarrow> cstring option) \<Rightarrow> cstring \<Rightarrow> nat \<times> cstring list \<Rightarrow> errno + (nat \<times> cstring list)" where
  "freeze_variable capacity getenv key s =
     (let (used, entries) = s in
      case getenv key of
        None \<Rightarrow> Inr (used, entries)
      | Some value \<Rightarrow>
          let n = strnlen value capacity in
          if n > capacity - used \<or> length key + n + 2 > capacity - used then Inl E2BIG
          else Inr (used + length key + n + 2, entries @ [env_entry key (take n value)]))"

definition freeze_environment :: "(cstring \<Rightarrow> cstring option) \<Rightarrow> errno + cstring list" where
  "freeze_environment getenv =
     map_sum id snd (perform (freeze_variable ARG_BYTES getenv) environment_keys (0, [base_path]))"

section \<open>Requests\<close>

record request =
  r_count :: u32
  r_bytes :: u32

text \<open>Packing the arguments after the program name; \<open>bytes\<close> is what the buffer holds already.\<close>

fun pack_arguments :: "byte list \<Rightarrow> nat \<Rightarrow> cstring list \<Rightarrow> errno + (nat \<times> byte list)" where
  "pack_arguments bytes count [] = (if count \<ge> ARG_COUNT then Inl E2BIG else Inr (count, bytes))"
| "pack_arguments bytes count (argument # rest) =
     (if count \<ge> ARG_COUNT then Inl E2BIG
      else
        let available = ARG_BYTES - length bytes; n = strnlen argument available in
        if n = available then Inl E2BIG
        else pack_arguments (bytes @ take (n + 1) (argument @ [0])) (count + 1) rest)"

definition encode_request ::
  "cstring option \<Rightarrow> cstring list option \<Rightarrow> errno + (request \<times> byte list)" where
  "encode_request path argv =
     (case (path, argv) of
        (Some path, Some (arg0 # args)) \<Rightarrow>
          let n = strnlen path ARG_BYTES in
          if n = 0 \<or> n = ARG_BYTES then Inl E2BIG
          else
            map_sum id (\<lambda>(count, bytes). (\<lparr>r_count = of_nat count, r_bytes = of_nat (length bytes)\<rparr>, bytes))
              (pack_arguments (take (n + 1) (path @ [0])) 0 args)
      | _ \<Rightarrow> Inl EINVAL)"

text \<open>The argument loop of \<open>serve_request\<close>: the arguments and the offset behind them.\<close>

fun unpack_arguments :: "byte list \<Rightarrow> nat \<Rightarrow> nat \<Rightarrow> nat \<Rightarrow> (cstring list \<times> nat) option" where
  "unpack_arguments bytes len 0 offset = Some ([], offset)"
| "unpack_arguments bytes len (Suc count) offset =
     (if offset \<ge> len then None
      else
        let n = strnlen (drop offset bytes) (len - offset) in
        if n = len - offset then None
        else map_option (\<lambda>(args, off). (take n (drop offset bytes) # args, off))
               (unpack_arguments bytes len count (offset + n + 1)))"

definition request_ok :: "request \<Rightarrow> bool" where
  "request_ok req \<longleftrightarrow> \<not> (unat (r_count req) \<ge> ARG_COUNT \<or> r_bytes req = 0 \<or> unat (r_bytes req) > ARG_BYTES)"

text \<open>
  What will be executed and with which arguments. \<open>bytes\<close> is what was received, \<open>stdin_regular\<close> the
  answer of \<open>fstat\<close> on the caller's standard input.
\<close>

definition parse_request ::
  "helper list \<Rightarrow> cstring \<Rightarrow> byte \<Rightarrow> bool \<Rightarrow> request \<Rightarrow> byte list \<Rightarrow> errno + (helper \<times> cstring list)" where
  "parse_request frozen font_root stdio stdin_regular req bytes =
     (if \<not> request_ok req then Inl EINVAL
      else
        let len = unat (r_bytes req); count = unat (r_count req); n = strnlen bytes len in
        if n = len then Inl EINVAL
        else
          (case find (\<lambda>h. h_requested h = take n bytes) frozen of
             None \<Rightarrow> Inl EPERM
           | Some h \<Rightarrow>
               (case unpack_arguments bytes len count (n + 1) of
                  None \<Rightarrow> Inl EINVAL
                | Some (args, offset) \<Rightarrow>
                    if offset \<noteq> len \<or> (h_kind h = HELPER_DECODER \<and> count \<noteq> 0) \<or>
                      ((h_kind h = HELPER_PDF \<or> h_kind h = HELPER_FONT) \<and> count \<noteq> 1)
                    then Inl EINVAL
                    else
                      let argv = h_executable h # args in
                      if h_kind h = HELPER_PDF then Inr (h, argv[1 := font_root])
                      else if h_kind h = HELPER_FONT \<and>
                        (argv ! 1 \<noteq> ascii ''--stdin'' \<or> stdio AND 1 = 0 \<or> \<not> stdin_regular)
                      then Inl EINVAL
                      else Inr (h, argv))))"

section \<open>Specification\<close>

text \<open>Who may be executed with which arguments.\<close>

definition authorised ::
  "helper list \<Rightarrow> cstring \<Rightarrow> byte \<Rightarrow> bool \<Rightarrow> cstring \<Rightarrow> cstring list \<Rightarrow> errno + (helper \<times> cstring list)" where
  "authorised frozen font_root stdio stdin_regular path args =
     (case find (\<lambda>h. h_requested h = path) frozen of
        None \<Rightarrow> Inl EPERM
      | Some h \<Rightarrow>
          (case h_kind h of
             HELPER_DECODER \<Rightarrow> if args = [] then Inr (h, [h_executable h]) else Inl EINVAL
           | HELPER_PDF \<Rightarrow> if length args = 1 then Inr (h, [h_executable h, font_root]) else Inl EINVAL
           | HELPER_FONT \<Rightarrow>
               if args = [ascii ''--stdin''] \<and> bit stdio 0 \<and> stdin_regular
               then Inr (h, [h_executable h, ascii ''--stdin'']) else Inl EINVAL
           | HELPER_OPTIONAL \<Rightarrow> Inr (h, h_executable h # args)))"

text \<open>The bytes of a packed vector and the vectors that fit a request.\<close>

definition packed :: "cstring list \<Rightarrow> byte list" where
  "packed args = concat (map put_cstring args)"

definition request_fits :: "cstring \<Rightarrow> cstring list \<Rightarrow> bool" where
  "request_fits path args \<longleftrightarrow> path \<noteq> [] \<and> length args < ARG_COUNT \<and> length (packed (path # args)) \<le> ARG_BYTES"


section \<open>Packing and unpacking\<close>

lemma unat_of_nat_u32: "n < 4294967296 \<Longrightarrow> unat (of_nat n :: u32) = n"
  by (simp add: unat_of_nat)

lemma strnlen_is_cstring: "is_cstring s \<Longrightarrow> strnlen s n = min (length s) n"
proof -
  assume "is_cstring s"
  then have "takeWhile (\<lambda>b. b \<noteq> 0) (take n s) = take n s"
    by (auto simp: takeWhile_eq_all_conv is_cstring_def dest: in_set_takeD)
  then have "length (takeWhile (\<lambda>b. b \<noteq> 0) (take n s)) = length (take n s)" by (rule arg_cong)
  then show ?thesis unfolding strnlen_def by simp
qed

lemma strnlen_le: "strnlen bs n \<le> n"
  by (metis length_take length_takeWhile_le min.bounded_iff strnlen_def)

lemma packed_simps [simp]:
  "packed [] = []" "packed (a # args) = a @ 0 # packed args" "packed (xs @ ys) = packed xs @ packed ys"
  by (simp_all add: packed_def put_cstring_def)

lemma pack_arguments_spec:
  "\<forall>a\<in>set args. is_cstring a \<Longrightarrow> length bytes \<le> ARG_BYTES \<Longrightarrow>
   pack_arguments bytes count args =
     (if count + length args < ARG_COUNT \<and> length bytes + length (packed args) \<le> ARG_BYTES
      then Inr (count + length args, bytes @ packed args) else Inl E2BIG)"
proof (induction args arbitrary: bytes count)
  case Nil
  then show ?case by auto
next
  case (Cons a rest)
  have a: "is_cstring a" using Cons.prems by simp
  define av where "av = ARG_BYTES - length bytes"
  have n: "strnlen a av = min (length a) av" using a by (rule strnlen_is_cstring)
  show ?case
  proof (cases "count < ARG_COUNT \<and> length a < av")
    case True
    then have "length (bytes @ a @ [0]) \<le> ARG_BYTES" by (auto simp: av_def)
    from Cons.IH [OF _ this, of "count + 1"] Cons.prems True show ?thesis
      by (simp add: n Let_def av_def [symmetric] ac_simps)
  next
    case False
    then have "count \<ge> ARG_COUNT \<or> strnlen a av = av" using n by auto
    moreover have "\<not> (count + length (a # rest) < ARG_COUNT \<and> length bytes + length (packed (a # rest)) \<le> ARG_BYTES)"
      using False by (auto simp: av_def)
    ultimately show ?thesis by (auto simp: Let_def av_def)
  qed
qed

lemma encode_request_spec:
  assumes "is_cstring path" "\<forall>a\<in>set args. is_cstring a"
  shows "encode_request (Some path) (Some (arg0 # args)) =
    (if request_fits path args
     then Inr (\<lparr>r_count = of_nat (length args), r_bytes = of_nat (length (packed (path # args)))\<rparr>,
               packed (path # args))
     else Inl E2BIG)"
proof -
  have n: "strnlen path ARG_BYTES = min (length path) ARG_BYTES" using assms(1) by (rule strnlen_is_cstring)
  show ?thesis
  proof (cases "path \<noteq> [] \<and> length path < ARG_BYTES")
    case True
    then have "pack_arguments (path @ [0]) 0 args =
      (if length args < ARG_COUNT \<and> length path + 1 + length (packed args) \<le> ARG_BYTES
       then Inr (length args, (path @ [0]) @ packed args) else Inl E2BIG)"
      using pack_arguments_spec [OF assms(2), of "path @ [0]" 0] by simp
    then show ?thesis using True by (simp add: encode_request_def n Let_def request_fits_def)
  next
    case False
    then have "strnlen path ARG_BYTES = 0 \<or> strnlen path ARG_BYTES = ARG_BYTES" using n by auto
    moreover have "\<not> request_fits path args" using False by (auto simp: request_fits_def)
    ultimately show ?thesis by (auto simp: encode_request_def Let_def)
  qed
qed

text \<open>The loop with offsets is the shared item reader on the rest of the buffer.\<close>

lemma unpack_arguments_get_many:
  "length bytes = len \<Longrightarrow> offset \<le> len \<Longrightarrow>
   unpack_arguments bytes len count offset =
     map_option (\<lambda>(args, rest). (args, len - length rest)) (get_many get_cstring count (drop offset bytes))"
proof (induction count arbitrary: offset)
  case 0
  then show ?case by simp
next
  case (Suc count)
  show ?case
  proof (cases "offset < len")
    case False
    then show ?thesis using Suc.prems by (simp add: get_cstring_def)
  next
    case True
    define n where "n = strnlen (drop offset bytes) (len - offset)"
    have n: "n \<le> len - offset" unfolding n_def by (rule strnlen_le)
    have g: "get_cstring (drop offset bytes) =
      (if n = len - offset then None else Some (take n (drop offset bytes), drop (offset + n + 1) bytes))"
      using True Suc.prems by (simp add: get_cstring_def n_def [symmetric] ac_simps)
    show ?thesis
    proof (cases "n = len - offset")
      case True
      then show ?thesis using g Suc.prems by (simp add: n_def [symmetric])
    next
      case False
      then have le: "offset + n + 1 \<le> len" using n True by simp
      have e: "unpack_arguments bytes len (Suc count) offset =
        map_option (\<lambda>(args, off). (take n (drop offset bytes) # args, off))
          (unpack_arguments bytes len count (offset + n + 1))"
        using True False by (simp add: n_def [symmetric] Let_def)
      show ?thesis unfolding e Suc.IH [OF Suc.prems(1) le] using g False
        by (simp add: option.map_comp comp_def case_prod_unfold)
    qed
  qed
qed

lemma unpack_arguments_packed:
  assumes "\<forall>a\<in>set args. is_cstring a"
  shows "unpack_arguments (pre @ packed args) (length (pre @ packed args)) (length args) (length pre) =
    Some (args, length (pre @ packed args))"
  using cstring.get_many_put [OF assms, of "[]"]
  by (simp add: unpack_arguments_get_many packed_def)

text \<open>Unpacking everything leaves exactly the packed arguments.\<close>

lemma unpack_arguments_sound:
  assumes "unpack_arguments bytes len count offset = Some (args, len)" "length bytes = len" "offset \<le> len"
  shows "drop offset bytes = packed args \<and> length args = count \<and> (\<forall>a\<in>set args. is_cstring a)"
proof -
  obtain rest where m: "get_many get_cstring count (drop offset bytes) = Some (args, rest)"
    and l: "len - length rest = len"
    using assms by (auto simp: unpack_arguments_get_many)
  from cstring.get_many_sound [OF m]
  have d: "drop offset bytes = concat (map put_cstring args) @ rest" "length args = count"
    "\<forall>a\<in>set args. is_cstring a" by auto
  have "length rest \<le> len" using arg_cong [OF d(1), of length] assms(2) by simp
  then have "length rest = 0" using l by linarith
  then show ?thesis using d by (simp add: packed_def)
qed

lemma authorise_arguments:
  assumes "find (\<lambda>h. h_requested h = path) frozen = Some h"
  shows "authorised frozen font_root stdio reg path args =
    (if (h_kind h = HELPER_DECODER \<and> length args \<noteq> 0) \<or>
        ((h_kind h = HELPER_PDF \<or> h_kind h = HELPER_FONT) \<and> length args \<noteq> 1) then Inl EINVAL
     else if h_kind h = HELPER_PDF then Inr (h, (h_executable h # args)[1 := font_root])
     else if h_kind h = HELPER_FONT \<and>
        ((h_executable h # args) ! 1 \<noteq> ascii ''--stdin'' \<or> stdio AND 1 = 0 \<or> \<not> reg) then Inl EINVAL
     else Inr (h, h_executable h # args))"
proof -
  have b: "stdio AND 1 = 0 \<longleftrightarrow> \<not> bit stdio 0" by (simp add: and_one_eq bit_0 odd_iff_mod_2_eq_one)
  show ?thesis using assms
    by (cases "h_kind h"; cases args; cases "tl args") (auto simp: authorised_def b)
qed

text \<open>A well-formed request is parsed as its specification says.\<close>

lemma parse_request_spec:
  assumes req: "unat (r_count req) = length args" "unat (r_bytes req) = length (packed (path # args))"
    and fits: "request_fits path args"
    and cs: "is_cstring path" "\<forall>a\<in>set args. is_cstring a"
  shows "parse_request frozen font_root stdio reg req (packed (path # args)) =
    authorised frozen font_root stdio reg path args"
proof -
  have ne: "r_bytes req \<noteq> 0" using req(2) by auto
  have ok: "request_ok req" using req ne fits by (auto simp: request_ok_def request_fits_def)
  have n: "strnlen (packed (path # args)) (length (packed (path # args))) = length path"
    using strnlen_cstring [OF cs(1)] by simp
  have t: "take (length path) (packed (path # args)) = path" by simp
  have u: "unpack_arguments (packed (path # args)) (length (packed (path # args))) (length args) (length path + 1) =
    Some (args, length (packed (path # args)))"
    using unpack_arguments_packed [OF cs(2), of "path @ [0]"] by simp
  show ?thesis
  proof (cases "find (\<lambda>h. h_requested h = path) frozen")
    case None
    then show ?thesis using ok n t unfolding parse_request_def req Let_def
      by (simp add: authorised_def del: packed_simps) (simp add: packed_simps)
  next
    case (Some h)
    show ?thesis unfolding parse_request_def req Let_def n t Some authorise_arguments [OF Some] option.case u
      using ok by (simp del: packed_simps) (simp add: packed_simps)
  qed
qed


text \<open>Conversely, whatever bytes are accepted are the packed form of an authorised request.\<close>

lemma parse_request_sound:
  assumes p: "parse_request frozen font_root stdio reg req bytes = Inr (h, argv)"
    and len: "length bytes = unat (r_bytes req)"
  shows "\<exists>path args. bytes = packed (path # args) \<and> length args < ARG_COUNT \<and> length bytes \<le> ARG_BYTES \<and>
    is_cstring path \<and> (\<forall>a\<in>set args. is_cstring a) \<and>
    authorised frozen font_root stdio reg path args = Inr (h, argv)"
proof -
  define n where "n = strnlen bytes (length bytes)"
  have ok: "request_ok req" and n: "n \<noteq> length bytes"
    using p by (auto simp: parse_request_def Let_def len n_def split: if_splits)
  define path where "path = take n bytes"
  obtain h' where f: "find (\<lambda>h. h_requested h = path) frozen = Some h'"
    using p by (auto simp: parse_request_def Let_def len [symmetric] n_def [symmetric] path_def split: if_splits option.splits)
  obtain args offset where u: "unpack_arguments bytes (length bytes) (unat (r_count req)) (n + 1) = Some (args, offset)"
    using p ok n f
    by (auto simp: parse_request_def Let_def len [symmetric] n_def [symmetric] path_def [symmetric] split: option.splits)
  have off: "offset = length bytes"
    using p ok n f u
    by (auto simp: parse_request_def Let_def len [symmetric] n_def [symmetric] path_def [symmetric] split: if_splits)
  have nle: "n + 1 \<le> length bytes" using n strnlen_le [of bytes "length bytes"] by (simp add: n_def)
  from unpack_arguments_sound [OF u [unfolded off] refl nle]
  have d: "drop (n + 1) bytes = packed args" "length args = unat (r_count req)" "\<forall>a\<in>set args. is_cstring a"
    by auto
  have g: "get_cstring bytes = Some (path, drop (n + 1) bytes)"
    using n nle by (auto simp: get_cstring_def n_def [symmetric] path_def Let_def)
  have "bytes = put_cstring path @ packed args" and cs: "is_cstring path"
    using get_cstring_sound [OF g] d(1) by auto
  then have b: "bytes = packed (path # args)" "is_cstring path" by (simp_all add: put_cstring_def)
  have "authorised frozen font_root stdio reg path args = Inr (h, argv)"
    using p ok n f u off d(2) unfolding authorise_arguments [OF f]
    by (auto simp: parse_request_def Let_def len [symmetric] n_def [symmetric] path_def [symmetric] split: if_splits)
  then show ?thesis using b d ok len by (intro exI [of _ path] exI [of _ args]) (auto simp: request_ok_def)
qed

lemma parse_request_error:
  "parse_request frozen font_root stdio reg req bytes = Inl e \<Longrightarrow> e = EINVAL \<or> e = EPERM"
  by (auto simp: parse_request_def Let_def split: if_splits option.splits)

section \<open>The frozen table\<close>

definition frozen_entry :: "(cstring \<Rightarrow> errno + cstring) \<Rightarrow> cstring \<Rightarrow> cstring \<Rightarrow> helper \<Rightarrow> bool" where
  "frozen_entry realpath resources font_root h \<longleftrightarrow>
     strnlen (h_requested h) PATH_MAX < PATH_MAX \<and>
     base_name (h_requested h) \<in> set helper_names \<and>
     h_kind h = kind_of_index (helper_index (base_name (h_requested h))) \<and>
     realpath (h_requested h) = Inr (h_executable h) \<and>
     (h_kind h = HELPER_PDF \<longrightarrow> realpath (resources @ ascii ''/fonts'') = Inr font_root)"

definition frozen_ok :: "(cstring \<Rightarrow> errno + cstring) \<Rightarrow> cstring \<Rightarrow> helper list \<times> cstring \<Rightarrow> bool" where
  "frozen_ok realpath resources s \<longleftrightarrow>
     distinct (map (base_name \<circ> h_requested) (fst s)) \<and>
     (\<forall>h\<in>set (fst s). frozen_entry realpath resources (snd s) h)"

lemma helper_index_known: "helper_index name \<noteq> HELPER_COUNT \<Longrightarrow> name \<in> set helper_names"
proof (rule ccontr)
  assume "name \<notin> set helper_names"
  then have "takeWhile (\<lambda>n. n \<noteq> name) helper_names = helper_names" by (auto simp: takeWhile_eq_all_conv)
  then have "length (takeWhile (\<lambda>n. n \<noteq> name) helper_names) = length helper_names" by (rule arg_cong)
  then show "helper_index name \<noteq> HELPER_COUNT \<Longrightarrow> False"
    unfolding helper_index_def HELPER_COUNT_def by (rule notE [rotated])
qed

lemma freeze_helper_step:
  assumes "freeze_helper realpath resources entry (frozen, font_root) = Inr (frozen', font_root')"
  shows "\<exists>path h. entry = Some path \<and> frozen' = frozen @ [h] \<and> h_requested h = path \<and>
    base_name path \<notin> set (map (base_name \<circ> h_requested) frozen) \<and>
    frozen_entry realpath resources font_root' h \<and>
    (font_root' = font_root \<or> realpath (resources @ ascii ''/fonts'') = Inr font_root')"
proof -
  obtain path where e: "entry = Some path" using assms by (cases entry) (auto simp: freeze_helper_def)
  have n: "strnlen path PATH_MAX < PATH_MAX"
    using assms strnlen_le [of path PATH_MAX] by (auto simp: freeze_helper_def e split: if_splits)
  have i: "helper_index (base_name path) \<noteq> HELPER_COUNT"
    and dup: "\<not> (\<exists>h\<in>set frozen. base_name (h_requested h) = base_name path)"
    using assms by (auto simp: freeze_helper_def e Let_def split: if_splits)
  obtain exe where x: "realpath path = Inr exe"
    using assms i dup by (auto simp: freeze_helper_def e Let_def split: if_splits sum.splits)
  define h where "h = \<lparr>h_requested = path, h_executable = exe, h_kind = kind_of_index (helper_index (base_name path))\<rparr>"
  have r: "frozen' = frozen @ [h]"
    "(h_kind h = HELPER_PDF \<and> realpath (resources @ ascii ''/fonts'') = Inr font_root') \<or>
     (h_kind h \<noteq> HELPER_PDF \<and> font_root' = font_root)"
    using assms i dup x by (auto simp: freeze_helper_def e Let_def h_def split: if_splits sum.splits)
  have "frozen_entry realpath resources font_root' h"
    using r(2) n x helper_index_known [OF i] by (auto simp: frozen_entry_def h_def)
  then show ?thesis using e dup r
    by (intro exI [of _ path] exI [of _ h]) (auto simp: h_def)
qed

lemma frozen_entry_mono:
  "frozen_entry realpath resources font_root h \<Longrightarrow>
   font_root' = font_root \<or> realpath (resources @ ascii ''/fonts'') = Inr font_root' \<Longrightarrow>
   frozen_entry realpath resources font_root' h"
  by (auto simp: frozen_entry_def)

interpretation freeze: guarded_machine "freeze_helper realpath resources" "frozen_ok realpath resources"
  for realpath resources
proof unfold_locales
  fix entry s s'
  assume ok: "frozen_ok realpath resources s" and st: "freeze_helper realpath resources entry s = Inr s'"
  obtain frozen font_root frozen' font_root' where s: "s = (frozen, font_root)" "s' = (frozen', font_root')"
    by (cases s, cases s')
  from freeze_helper_step [OF st [unfolded s]] ok
  show "frozen_ok realpath resources s'"
    by (auto simp: s frozen_ok_def intro: frozen_entry_mono)
qed

lemma freeze_requested:
  "perform (freeze_helper realpath resources) entries (frozen, font_root) = Inr (frozen', font_root') \<Longrightarrow>
   map (Some \<circ> h_requested) frozen' = map (Some \<circ> h_requested) frozen @ entries"
proof (induction entries arbitrary: frozen font_root)
  case Nil
  then show ?case by simp
next
  case (Cons e entries)
  then obtain fr fo where st: "freeze_helper realpath resources e (frozen, font_root) = Inr (fr, fo)"
    and rest: "perform (freeze_helper realpath resources) entries (fr, fo) = Inr (frozen', font_root')"
    by (auto split: sum.splits)
  from freeze_helper_step [OF st] Cons.IH [OF rest] show ?case by auto
qed

lemma freeze_helpers_parts:
  assumes "freeze_helpers realpath helpers count resources = Inr (frozen, font_root)"
  shows "count \<le> HELPER_COUNT" "frozen_ok realpath (the resources) (frozen, font_root)"
    "map (Some \<circ> h_requested) frozen = (if count = 0 then [] else take count (the helpers))"
proof -
  have p: "perform (freeze_helper realpath (the resources))
      (if count = 0 then [] else take count (the helpers)) ([], []) = Inr (frozen, font_root)"
    and c: "count \<le> HELPER_COUNT"
    using assms by (auto simp: freeze_helpers_def split: if_splits)
  show "count \<le> HELPER_COUNT" by (rule c)
  show "frozen_ok realpath (the resources) (frozen, font_root)"
    by (rule freeze.perform_inv [OF _ p]) (simp add: frozen_ok_def)
  show "map (Some \<circ> h_requested) frozen = (if count = 0 then [] else take count (the helpers))"
    using freeze_requested [OF p] by simp
qed

section \<open>The frozen environment\<close>

definition environment_size :: "(cstring \<Rightarrow> cstring option) \<Rightarrow> cstring list \<Rightarrow> nat" where
  "environment_size getenv keys =
     sum_list (map (\<lambda>k. case getenv k of None \<Rightarrow> 0 | Some v \<Rightarrow> length k + length v + 2) keys)"

definition environment_entries :: "(cstring \<Rightarrow> cstring option) \<Rightarrow> cstring list \<Rightarrow> cstring list" where
  "environment_entries getenv keys = List.map_filter (\<lambda>k. map_option (env_entry k) (getenv k)) keys"

lemma freeze_variables_spec:
  assumes cs: "\<And>k v. getenv k = Some v \<Longrightarrow> is_cstring v" and used: "used \<le> capacity"
  shows "perform (freeze_variable capacity getenv) keys (used, entries) =
    (if used + environment_size getenv keys \<le> capacity
     then Inr (used + environment_size getenv keys, entries @ environment_entries getenv keys) else Inl E2BIG)"
  using used
proof (induction keys arbitrary: used entries)
  case Nil
  then show ?case by (simp add: environment_size_def environment_entries_def map_filter_simps)
next
  case (Cons k keys)
  show ?case
  proof (cases "getenv k")
    case None
    then show ?thesis using Cons
      by (simp add: freeze_variable_def environment_size_def environment_entries_def map_filter_simps)
  next
    case (Some v)
    have n: "strnlen v capacity = min (length v) capacity" using cs [OF Some] by (rule strnlen_is_cstring)
    show ?thesis
    proof (cases "length k + length v + 2 \<le> capacity - used")
      case True
      then have st: "freeze_variable capacity getenv k (used, entries) =
        Inr (used + length k + length v + 2, entries @ [env_entry k v])"
        using Some n by (simp add: freeze_variable_def Let_def)
      have "used + length k + length v + 2 \<le> capacity" using True by simp
      from Cons.IH [OF this] show ?thesis
        by (simp add: st environment_size_def environment_entries_def map_filter_simps Some ac_simps)
    next
      case False
      then have "freeze_variable capacity getenv k (used, entries) = Inl E2BIG"
        using Some n Cons.prems by (auto simp: freeze_variable_def Let_def min_def)
      then show ?thesis using False by (simp add: environment_size_def Some)
    qed
  qed
qed


section \<open>Properties\<close>

text \<open>
  C16. Requests round trip: \<open>wn_helper_execve\<close> refuses exactly the requests that do not fit the fixed
  buffer (with \<open>E2BIG\<close>), and every request it sends is read by the broker as the path and the
  arguments of the caller, so the broker's answer is the one of the specification \<open>authorised\<close>.
\<close>

theorem request_roundtrip:
  assumes "is_cstring path" "\<forall>a\<in>set args. is_cstring a"
  shows "case encode_request (Some path) (Some (program # args)) of
      Inl e \<Rightarrow> e = E2BIG \<and> \<not> request_fits path args
    | Inr (req, bytes) \<Rightarrow> request_fits path args \<and> length bytes = unat (r_bytes req) \<and>
        parse_request frozen font_root stdio reg req bytes = authorised frozen font_root stdio reg path args"
proof (cases "request_fits path args")
  case True
  define req where
    "req = \<lparr>r_count = of_nat (length args) :: u32, r_bytes = of_nat (length (packed (path # args))) :: u32\<rparr>"
  have "length args < 64" "length (packed (path # args)) \<le> 16384"
    using True by (auto simp: request_fits_def ARG_COUNT_def ARG_BYTES_def)
  then have u: "unat (r_count req) = length args" "unat (r_bytes req) = length (packed (path # args))"
    unfolding req_def request.simps by (auto intro: unat_of_nat_u32 simp del: packed_simps)
  have "encode_request (Some path) (Some (program # args)) = Inr (req, packed (path # args))"
    using encode_request_spec [OF assms] True by (simp add: req_def)
  then show ?thesis using True u parse_request_spec [OF u True assms] by simp
qed (simp add: encode_request_spec [OF assms])

definition sample_helpers :: "cstring list" where
  "sample_helpers = map ascii [''/app/wn-image'', ''/app/wn-font'', ''/app/wn-stt'']"

definition sample_realpath :: "cstring \<Rightarrow> errno + cstring" where
  "sample_realpath p = Inr (ascii ''/real'' @ p)"

definition sample_frozen :: "helper list" where
  "sample_frozen = (case freeze_helpers sample_realpath (Some (map Some sample_helpers)) 3 (Some (ascii ''/res'')) of
     Inl e \<Rightarrow> [] | Inr (frozen, root) \<Rightarrow> frozen)"

lemma request_roundtrip_witness:
  "\<exists>req bytes. encode_request (Some (ascii ''/app/wn-stt'')) (Some [ascii ''wn-stt'', ascii ''en'']) = Inr (req, bytes) \<and>
     parse_request sample_frozen [] 7 False req bytes =
       authorised sample_frozen [] 7 False (ascii ''/app/wn-stt'') [ascii ''en'']"
proof -
  have cs: "is_cstring (ascii ''/app/wn-stt'')" "\<forall>a\<in>set [ascii ''en'']. is_cstring a"
    by (simp_all add: is_cstring_def ascii_def)
  have "request_fits (ascii ''/app/wn-stt'') [ascii ''en'']"
    by (simp add: request_fits_def ARG_COUNT_def ARG_BYTES_def ascii_def)
  then show ?thesis
    using request_roundtrip [OF cs, where program = "ascii ''wn-stt''" and frozen = sample_frozen
        and font_root = "[]" and stdio = 7 and reg = False]
    by (auto split: sum.splits)
qed

text \<open>
  C17. Authorisation: whatever request arrives, it is executed only when its path is literally one of
  the paths frozen at start, whose base name is a known helper, and then the executable is that path's
  resolution from start-up. A decoder gets no argument, the PDF helper exactly the resolved font
  directory, the font helper exactly \<open>--stdin\<close> with a regular file as standard input; only the
  optional tools get the caller's arguments, and those are the ones in the request.
\<close>

theorem authorised_execution:
  assumes "freeze_helpers realpath (Some helpers) count (Some resources) = Inr (frozen, font_root)"
    and "parse_request frozen font_root stdio reg req bytes = Inr (h, argv)"
    and "length bytes = unat (r_bytes req)"
  shows "\<exists>path args. bytes = packed (path # args) \<and> Some path \<in> set helpers \<and>
    base_name path \<in> set helper_names \<and> argv \<noteq> [] \<and> realpath path = Inr (hd argv) \<and>
    (case h_kind h of
       HELPER_DECODER \<Rightarrow> tl argv = []
     | HELPER_PDF \<Rightarrow> tl argv = [font_root] \<and> realpath (resources @ ascii ''/fonts'') = Inr font_root
     | HELPER_FONT \<Rightarrow> tl argv = [ascii ''--stdin''] \<and> bit stdio 0 \<and> reg
     | HELPER_OPTIONAL \<Rightarrow> tl argv = args \<and> length args < ARG_COUNT \<and> (\<forall>a\<in>set args. is_cstring a))"
proof -
  note fr = freeze_helpers_parts [OF assms(1)]
  obtain path args where b: "bytes = packed (path # args)" "length args < ARG_COUNT" "\<forall>a\<in>set args. is_cstring a"
    and au: "authorised frozen font_root stdio reg path args = Inr (h, argv)"
    using parse_request_sound [OF assms(2,3)] by auto
  have f: "find (\<lambda>h. h_requested h = path) frozen = Some h"
    using au by (auto simp: authorised_def split: option.splits helper_kind.splits if_splits)
  then have h: "h \<in> set frozen" "h_requested h = path" by (auto simp: find_Some_iff)
  then have "frozen_entry realpath resources font_root h" using fr(2) by (simp add: frozen_ok_def)
  moreover have "Some path \<in> set (map (Some \<circ> h_requested) frozen)" using h by auto
  then have "Some path \<in> set helpers" unfolding fr(3) by (auto split: if_splits dest: in_set_takeD)
  ultimately show ?thesis using b au f h
    by (intro exI [of _ path] exI [of _ args])
      (auto simp: authorised_def frozen_entry_def split: helper_kind.splits if_splits)
qed

lemma authorised_execution_witness:
  "\<exists>frozen req bytes. freeze_helpers sample_realpath (Some (map Some sample_helpers)) 3 (Some (ascii ''/res'')) = Inr (frozen, []) \<and>
     (\<exists>h. parse_request frozen [] 7 False req bytes = Inr (h, [ascii ''/real/app/wn-stt'', ascii ''en''])) \<and>
     Some (ascii ''/app/wn-stt'') \<in> set (map Some sample_helpers)"
proof -
  define path where "path = ascii ''/app/wn-stt''"
  define bytes where "bytes = packed [path, ascii ''en'']"
  define req where "req = \<lparr>r_count = 1 :: u32, r_bytes = 15 :: u32\<rparr>"
  define fr where "fr = map (\<lambda>(p, k). \<lparr>h_requested = ascii p, h_executable = ascii (''/real'' @ p), h_kind = k\<rparr>)
    [(''/app/wn-image'', HELPER_DECODER), (''/app/wn-font'', HELPER_FONT), (''/app/wn-stt'', HELPER_OPTIONAL)]"
  have fz: "freeze_helpers sample_realpath (Some (map Some sample_helpers)) 3 (Some (ascii ''/res'')) = Inr (fr, [])"
    by (simp add: freeze_helpers_def freeze_helper_def sample_helpers_def sample_realpath_def fr_def
        HELPER_COUNT_def helper_names_def helper_index_def kind_of_index_def PATH_MAX_def Let_def
        strnlen_is_cstring base_name_ascii ascii_append [symmetric])
  have p: "parse_request fr [] 7 False req bytes =
      Inr (\<lparr>h_requested = path, h_executable = ascii ''/real/app/wn-stt'', h_kind = HELPER_OPTIONAL\<rparr>,
        [ascii ''/real/app/wn-stt'', ascii ''en''])"
    unfolding bytes_def path_def
    by (subst parse_request_spec) (simp_all add: req_def fr_def request_fits_def ARG_COUNT_def
        ARG_BYTES_def authorised_def)
  have l: "length bytes = unat (r_bytes req)"
    by (simp add: bytes_def path_def req_def)
  obtain path' args where "bytes = packed (path' # args)" "Some path' \<in> set (map Some sample_helpers)"
    using authorised_execution [OF fz p l] by (elim exE conjE) (rule that; assumption)
  then show ?thesis using fz p unfolding path_def by (auto simp: sample_helpers_def)
qed

text \<open>
  The frozen environment: the optional tools run with a fixed \<open>PATH\<close> followed by exactly those
  of the listed variables that are set, each with its value at start, in the order of the list; if
  they do not fit the buffer the start fails with \<open>E2BIG\<close> and nothing is truncated.
\<close>

theorem freeze_environment_exact:
  assumes "\<And>k v. getenv k = Some v \<Longrightarrow> is_cstring v"
  shows "freeze_environment getenv =
    (if environment_size getenv environment_keys \<le> ARG_BYTES
     then Inr (base_path # environment_entries getenv environment_keys) else Inl E2BIG)"
  using freeze_variables_spec [where getenv = getenv and used = 0 and capacity = ARG_BYTES
      and keys = environment_keys and entries = "[base_path]"] assms
  by (simp add: freeze_environment_def)

lemma freeze_environment_exact_witness:
  "freeze_environment [ascii ''TZ'' \<mapsto> ascii ''UTC''] = Inr [base_path, ascii ''TZ=UTC'']"
proof -
  have cs: "is_cstring v" if "[ascii ''TZ'' \<mapsto> ascii ''UTC''] k = Some v" for k v
    using that by (auto simp: is_cstring_def ascii_def split: if_splits)
  have "environment_size [ascii ''TZ'' \<mapsto> ascii ''UTC''] environment_keys \<le> ARG_BYTES"
    and "environment_entries [ascii ''TZ'' \<mapsto> ascii ''UTC''] environment_keys = [ascii ''TZ=UTC'']"
    by (simp_all add: environment_size_def environment_entries_def environment_keys_def ARG_BYTES_def
        map_filter_simps env_entry_def) (simp add: ascii_def)
  then show ?thesis 
    using freeze_environment_exact [where getenv = "[ascii ''TZ'' \<mapsto> ascii ''UTC'']", OF cs] by simp
qed

end
