(* ===== verification/Tool_Request.thy ===== *)
theory Tool_Request
  imports Helper_Request Wire
begin

text \<open>
  Requests to the desktop tool broker (\<open>app/tool_broker.c\<close>): the environment it freezes
  (\<open>freeze_environment\<close>), the request that \<open>open_request\<close> packs, with the proxy credentials kept apart from
  the arguments, and how \<open>serve_request\<close> validates it, chooses the executable and builds the
  environment of the tool.
\<close>

section \<open>Tools and their environment\<close>

definition WN_TOOL_CURL :: nat where "WN_TOOL_CURL = 1"
definition WN_TOOL_NOTIFY :: nat where "WN_TOOL_NOTIFY = 2"
definition WN_TOOL_OPEN_DIALOG :: nat where "WN_TOOL_OPEN_DIALOG = 3"
definition WN_TOOL_SAVE_DIALOG :: nat where "WN_TOOL_SAVE_DIALOG = 4"

definition ARG_LIMIT :: nat where "ARG_LIMIT = 65536"
definition PROXY_LIMIT :: nat where "PROXY_LIMIT = 2048"

definition tool_keys :: "cstring list" where
  "tool_keys = map ascii
     [''HOME'', ''DISPLAY'', ''XAUTHORITY'', ''DBUS_SESSION_BUS_ADDRESS'', ''XDG_CONFIG_HOME'', ''XDG_DATA_HOME'',
      ''XDG_CACHE_HOME'', ''XDG_RUNTIME_DIR'', ''LANG'', ''LANGUAGE'', ''LC_ALL'', ''LC_CTYPE'', ''LC_MESSAGES'',
      ''TZ'', ''TMPDIR'', ''SQLITE_TMPDIR'', ''MESA_SHADER_CACHE_DIR'', ''SSL_CERT_FILE'', ''SSL_CERT_DIR'',
      ''CURL_CA_BUNDLE'', ''http_proxy'', ''https_proxy'', ''all_proxy'', ''no_proxy'', ''HTTP_PROXY'',
      ''HTTPS_PROXY'', ''ALL_PROXY'', ''NO_PROXY'', ''GDK_BACKEND'', ''GDK_DEBUG'', ''GDK_DISABLE'']"

text \<open>One variable; \<open>alloc\<close> answers the allocation of its entry.\<close>

definition freeze_tool_variable ::
  "(cstring \<Rightarrow> bool) \<Rightarrow> (cstring \<Rightarrow> cstring option) \<Rightarrow> cstring \<Rightarrow> cstring list \<Rightarrow> errno + cstring list" where
  "freeze_tool_variable alloc getenv key entries =
     (case getenv key of
        None \<Rightarrow> Inr entries
      | Some value \<Rightarrow>
          if length value > ARG_LIMIT - length key - 2 then Inl E2BIG
          else if \<not> alloc (env_entry key value) then Inl ENOMEM
          else Inr (entries @ [env_entry key value]))"

definition freeze_tool_environment ::
  "(cstring \<Rightarrow> bool) \<Rightarrow> (cstring \<Rightarrow> cstring option) \<Rightarrow> errno + cstring list" where
  "freeze_tool_environment alloc getenv =
     (let path = base_path; renderer = ascii ''GSK_RENDERER=cairo'' in
      if \<not> alloc path then Inl ENOMEM
      else if \<not> alloc renderer then Inl ENOMEM
      else perform (freeze_tool_variable alloc getenv) tool_keys [path, renderer])"

section \<open>The request\<close>

record tool_request =
  o_operation :: u32
  o_count :: u32
  o_bytes :: u32
  o_proxy_bytes :: u32

definition proxy_scheme :: cstring where "proxy_scheme = ascii ''socks5h://''"

text \<open>\<open>strncmp(s, prefix, strlen(prefix)) == 0\<close>; the first nine bytes of the scheme are compared.\<close>

definition has_prefix :: "cstring \<Rightarrow> cstring \<Rightarrow> bool" where
  "has_prefix p s \<longleftrightarrow> take (length p) s = p"

definition socks_proxy :: "cstring \<Rightarrow> bool" where
  "socks_proxy s \<longleftrightarrow> has_prefix (take 9 proxy_scheme) s"

fun pack_tool_arguments :: "byte list \<Rightarrow> cstring option list \<Rightarrow> errno + byte list" where
  "pack_tool_arguments payload [] = Inr payload"
| "pack_tool_arguments payload (None # rest) = Inl EINVAL"
| "pack_tool_arguments payload (Some argument # rest) =
     (let n = strnlen argument ARG_LIMIT in
      if n = ARG_LIMIT \<or> n + 1 > ARG_LIMIT - length payload then Inl E2BIG
      else pack_tool_arguments (payload @ take (n + 1) (argument @ [0])) rest)"

text \<open>The checks and the packing of \<open>open_request\<close>: the request, the payload and the proxy bytes.\<close>

definition encode_tool_request ::
  "nat \<Rightarrow> cstring option list \<Rightarrow> cstring option \<Rightarrow> errno + (tool_request \<times> byte list \<times> byte list)" where
  "encode_tool_request operation arguments proxy =
     (let proxy = (case proxy of None \<Rightarrow> [] | Some p \<Rightarrow> p);
          proxy_bytes = (if proxy = [] then 0 else strnlen proxy PROXY_LIMIT + 1)
      in if length arguments > ARG_COUNT then Inl E2BIG
         else if proxy_bytes > PROXY_LIMIT \<or> (proxy_bytes \<noteq> 0 \<and> operation \<noteq> WN_TOOL_CURL) then Inl EINVAL
         else if proxy_bytes \<noteq> 0 \<and> (proxy_bytes < 11 \<or> \<not> socks_proxy proxy) then Inl EINVAL
         else
           map_sum id
             (\<lambda>payload.
                (\<lparr>o_operation = of_nat operation, o_count = of_nat (length arguments),
                  o_bytes = of_nat (length payload), o_proxy_bytes = of_nat proxy_bytes\<rparr>,
                 payload, take proxy_bytes (proxy @ [0])))
             (pack_tool_arguments [] arguments))"

section \<open>Validation\<close>

definition tool_request_ok :: "tool_request \<Rightarrow> bool" where
  "tool_request_ok req \<longleftrightarrow>
     \<not> (unat (o_operation req) < WN_TOOL_CURL \<or> unat (o_operation req) > WN_TOOL_SAVE_DIALOG \<or>
        unat (o_count req) > ARG_COUNT \<or> unat (o_bytes req) > ARG_LIMIT \<or> unat (o_proxy_bytes req) > PROXY_LIMIT \<or>
        (o_proxy_bytes req \<noteq> 0 \<and> unat (o_operation req) \<noteq> WN_TOOL_CURL))"

definition proxy_variables :: "cstring list" where
  "proxy_variables = map ascii
     [''http_proxy='', ''https_proxy='', ''all_proxy='', ''HTTP_PROXY='', ''HTTPS_PROXY='', ''ALL_PROXY='']"

definition proxy_variable :: "cstring \<Rightarrow> bool" where
  "proxy_variable entry \<longleftrightarrow> (\<exists>p\<in>set proxy_variables. has_prefix p entry)"

text \<open>The environment of the tool; None when the proxy bytes are malformed.\<close>

definition tool_child_environment :: "cstring list \<Rightarrow> nat \<Rightarrow> byte list \<Rightarrow> cstring list option" where
  "tool_child_environment environment proxy_bytes proxy =
     (if proxy_bytes = 0 then Some environment
      else if proxy_bytes < 11 \<or> strnlen proxy proxy_bytes \<noteq> proxy_bytes - 1 \<or> \<not> socks_proxy proxy then None
      else Some (filter (\<lambda>e. \<not> proxy_variable e) environment @
             [ascii ''all_proxy='' @ take (strnlen proxy proxy_bytes) proxy]))"

text \<open>\<open>tools op\<close> is the resolved path of a tool, empty when it is not installed.\<close>

definition parse_tool_request ::
  "(nat \<Rightarrow> cstring) \<Rightarrow> cstring list \<Rightarrow> tool_request \<Rightarrow> byte list \<Rightarrow> byte list \<Rightarrow> errno + (cstring list \<times> cstring list)" where
  "parse_tool_request tools environment req arguments proxy =
     (if \<not> tool_request_ok req then Inl EINVAL
      else
        (case tool_child_environment environment (unat (o_proxy_bytes req)) proxy of
           None \<Rightarrow> Inl EINVAL
         | Some child_environment \<Rightarrow>
             let tool = tools (unat (o_operation req)) in
             if tool = [] then Inl ENOENT
             else
               (case unpack_arguments arguments (unat (o_bytes req)) (unat (o_count req)) 0 of
                  None \<Rightarrow> Inl EINVAL
                | Some (args, offset) \<Rightarrow>
                    if offset \<noteq> unat (o_bytes req) then Inl EINVAL
                    else Inr (tool # args, child_environment))))"

section \<open>Specification\<close>

text \<open>What a tool is started with, in terms of the caller's arguments.\<close>

definition tool_environment :: "cstring list \<Rightarrow> cstring option \<Rightarrow> cstring list" where
  "tool_environment environment proxy =
     (case proxy of
        Some (c # p) \<Rightarrow> filter (\<lambda>e. \<not> proxy_variable e) environment @ [ascii ''all_proxy='' @ c # p]
      | _ \<Rightarrow> environment)"

definition proxy_accepted :: "nat \<Rightarrow> cstring option \<Rightarrow> bool" where
  "proxy_accepted operation proxy \<longleftrightarrow>
     (case proxy of
        Some (c # p) \<Rightarrow>
          operation = WN_TOOL_CURL \<and> 10 \<le> length (c # p) \<and> length (c # p) < PROXY_LIMIT \<and> socks_proxy (c # p)
      | _ \<Rightarrow> True)"

section \<open>Lemmas\<close>

lemma pack_tool_arguments_spec:
  "\<forall>a\<in>set args. is_cstring a \<Longrightarrow> length payload \<le> ARG_LIMIT \<Longrightarrow>
   pack_tool_arguments payload (map Some args) =
     (if length payload + length (packed args) \<le> ARG_LIMIT then Inr (payload @ packed args) else Inl E2BIG)"
proof (induction args arbitrary: payload)
  case Nil
  then show ?case by simp
next
  case (Cons a rest)
  have n: "strnlen a ARG_LIMIT = min (length a) ARG_LIMIT"
    using Cons.prems(1) by (intro strnlen_is_cstring) simp
  show ?case
  proof (cases "length a + 1 \<le> ARG_LIMIT - length payload")
    case True
    then have "length (payload @ a @ [0]) \<le> ARG_LIMIT" "length a < ARG_LIMIT" by auto
    with Cons.IH [OF _ this(1)] Cons.prems True show ?thesis
      by (simp add: n Let_def)
  next
    case False
    then have "strnlen a ARG_LIMIT = ARG_LIMIT \<or> strnlen a ARG_LIMIT + 1 > ARG_LIMIT - length payload"
      using n by (auto simp: min_def)
    moreover have "\<not> length payload + length (packed (a # rest)) \<le> ARG_LIMIT" using False by auto
    ultimately show ?thesis by (auto simp: Let_def)
  qed
qed

text \<open>The proxy as the caller gives it and as the broker reads it.\<close>

lemma has_prefix_append: "length p \<le> length s \<Longrightarrow> has_prefix p (s @ t) \<longleftrightarrow> has_prefix p s"
  by (simp add: has_prefix_def)

lemma tool_child_environment_spec:
  assumes "is_cstring (c # p)" "10 \<le> length (c # p)" "socks_proxy (c # p)"
  shows "tool_child_environment environment (length (c # p) + 1) ((c # p) @ [0]) =
    Some (tool_environment environment (Some (c # p)))"
proof -
  have n: "strnlen ((c # p) @ [0]) (length (c # p) + 1) = length (c # p)"
    by (rule strnlen_cstring [OF assms(1)]) simp
  have "socks_proxy ((c # p) @ [0])"
    using assms(2,3) unfolding socks_proxy_def
    by (subst has_prefix_append) (auto simp: proxy_scheme_def)
  then show ?thesis using n assms(2) by (auto simp: tool_child_environment_def tool_environment_def)
qed

lemma unpack_tool_arguments:
  assumes "\<forall>a\<in>set args. is_cstring a"
  shows "unpack_arguments (packed args) (length (packed args)) (length args) 0 = Some (args, length (packed args))"
  using unpack_arguments_packed [OF assms, of "[]"] by simp

lemma unat_of_nat_limit: "n \<le> 65536 \<Longrightarrow> unat (of_nat n :: u32) = n"
  by (rule unat_of_nat_u32) simp

text \<open>The client's checks in terms of the specification.\<close>

lemma encode_tool_request_spec:
  assumes cs: "\<forall>a\<in>set args. is_cstring a" "\<forall>p. proxy = Some p \<longrightarrow> is_cstring p"
  defines "px \<equiv> (case proxy of Some (c # p) \<Rightarrow> (c # p) @ [0] | _ \<Rightarrow> [])"
  shows "encode_tool_request operation (map Some args) proxy =
    (if length args > ARG_COUNT then Inl E2BIG
     else if \<not> proxy_accepted operation proxy then Inl EINVAL
     else if length (packed args) > ARG_LIMIT then Inl E2BIG
     else Inr (\<lparr>o_operation = of_nat operation, o_count = of_nat (length args),
         o_bytes = of_nat (length (packed args)), o_proxy_bytes = of_nat (length px)\<rparr>, packed args, px))"
proof -
  have pk: "pack_tool_arguments [] (map Some args) =
    (if length (packed args) \<le> ARG_LIMIT then Inr (packed args) else Inl E2BIG)"
    using pack_tool_arguments_spec [OF cs(1), of "[]"] by simp
  consider "proxy = None \<or> proxy = Some []" | c p where "proxy = Some (c # p)"
    by (metis list.exhaust option.exhaust)
  then show ?thesis
  proof cases
    case 1
    then show ?thesis by (auto simp: encode_tool_request_def pk px_def proxy_accepted_def Let_def)
  next
    case (2 c p)
    have n: "strnlen (c # p) PROXY_LIMIT = min (length (c # p)) PROXY_LIMIT"
      using cs(2) 2 by (intro strnlen_is_cstring) simp
    show ?thesis
    proof (cases "length (c # p) < PROXY_LIMIT")
      case True
      then have n: "strnlen (c # p) PROXY_LIMIT = length (c # p)" using n by simp
      show ?thesis using True
        by (auto simp: encode_tool_request_def pk px_def proxy_accepted_def 2 n Let_def)
    next
      case False
      then have n: "strnlen (c # p) PROXY_LIMIT = PROXY_LIMIT" using n by simp
      show ?thesis using False
        by (auto simp: encode_tool_request_def px_def proxy_accepted_def 2 n Let_def)
    qed
  qed
qed

lemma tool_request_ok_spec:
  assumes "1 \<le> operation" "operation \<le> 4" "length args \<le> ARG_COUNT" "length (packed args) \<le> ARG_LIMIT"
    and "proxy_accepted operation proxy"
  defines "px \<equiv> (case proxy of Some (c # p) \<Rightarrow> (c # p) @ [0] | _ \<Rightarrow> [])"
  shows "tool_request_ok \<lparr>o_operation = of_nat operation, o_count = of_nat (length args),
      o_bytes = of_nat (length (packed args)), o_proxy_bytes = of_nat (length px)\<rparr>"
    "unat (of_nat operation :: u32) = operation" "unat (of_nat (length args) :: u32) = length args"
    "unat (of_nat (length (packed args)) :: u32) = length (packed args)" "unat (of_nat (length px) :: u32) = length px"
proof -
  have px: "length px \<le> PROXY_LIMIT" "px \<noteq> [] \<Longrightarrow> operation = WN_TOOL_CURL"
    using assms(5) by (auto simp: px_def proxy_accepted_def PROXY_LIMIT_def split: option.splits list.splits)
  show u: "unat (of_nat operation :: u32) = operation" "unat (of_nat (length args) :: u32) = length args"
    "unat (of_nat (length (packed args)) :: u32) = length (packed args)" "unat (of_nat (length px) :: u32) = length px"
    using assms(1-4) px(1) by (auto intro!: unat_of_nat_limit simp: ARG_COUNT_def ARG_LIMIT_def PROXY_LIMIT_def)
  have "(of_nat (length px) :: u32) \<noteq> 0 \<Longrightarrow> operation = WN_TOOL_CURL"
    using px(2) by (cases "px = []") auto
  then show "tool_request_ok \<lparr>o_operation = of_nat operation, o_count = of_nat (length args),
      o_bytes = of_nat (length (packed args)), o_proxy_bytes = of_nat (length px)\<rparr>"
    using assms(1-4) px(1) by (auto simp: tool_request_ok_def u WN_TOOL_CURL_def WN_TOOL_SAVE_DIALOG_def)
qed

text \<open>What the frozen environment consists of.\<close>

definition tool_variable :: "(cstring \<Rightarrow> cstring option) \<Rightarrow> cstring \<Rightarrow> bool" where
  "tool_variable getenv e \<longleftrightarrow> e = base_path \<or> e = ascii ''GSK_RENDERER=cairo'' \<or>
     (\<exists>k\<in>set tool_keys. \<exists>v. getenv k = Some v \<and> e = env_entry k v)"

interpretation tool_freeze: guarded_machine
  "\<lambda>k. if k \<in> set tool_keys then freeze_tool_variable alloc getenv k else Inr"
  "\<lambda>entries. \<forall>e\<in>set entries. tool_variable getenv e" for alloc getenv
proof unfold_locales
  fix s k s'
  assume inv: "\<forall>e\<in>set s. tool_variable getenv e"
    and st: "(if k \<in> set tool_keys then freeze_tool_variable alloc getenv k else Inr) s = Inr s'"
  have "s' = s \<or> (k \<in> set tool_keys \<and> (\<exists>v. getenv k = Some v \<and> s' = s @ [env_entry k v]))"
    using st by (auto simp: freeze_tool_variable_def split: if_splits option.splits)
  moreover have "tool_variable getenv (env_entry k v)" if "k \<in> set tool_keys" "getenv k = Some v" for v
    using that by (auto simp: tool_variable_def)
  ultimately show "\<forall>e\<in>set s'. tool_variable getenv e" using inv by auto
qed

lemma freeze_tool_environment_variables:
  assumes "freeze_tool_environment alloc getenv = Inr environment"
  shows "\<forall>e\<in>set environment. tool_variable getenv e"
proof -
  let ?step = "\<lambda>k. if k \<in> set tool_keys then freeze_tool_variable alloc getenv k else Inr"
  have "perform (freeze_tool_variable alloc getenv) tool_keys [base_path, ascii ''GSK_RENDERER=cairo''] = Inr environment"
    using assms by (simp add: freeze_tool_environment_def Let_def split: if_splits)
  then have "perform ?step tool_keys [base_path, ascii ''GSK_RENDERER=cairo''] = Inr environment"
    by (subst perform_cong [where g = "freeze_tool_variable alloc getenv"]) simp_all
  from tool_freeze.perform_inv [OF _ this] show ?thesis by (simp add: tool_variable_def)
qed

section \<open>Properties\<close>

text \<open>
  C28. Tool requests round trip: \<open>open_request\<close> refuses exactly the requests with too many or too long
  arguments (\<open>E2BIG\<close>) and proxies that are not short SOCKS URIs for curl (\<open>EINVAL\<close>); what it sends is
  read by the broker as the caller's arguments behind the frozen path of the tool, with the proxy as
  the only proxy variable of the environment and never among the arguments.
\<close>

theorem tool_request_roundtrip:
  assumes cs: "\<forall>a\<in>set args. is_cstring a" "\<forall>p. proxy = Some p \<longrightarrow> is_cstring p"
    and op: "1 \<le> operation" "operation \<le> 4"
  shows "case encode_tool_request operation (map Some args) proxy of
      Inl e \<Rightarrow> (e = E2BIG \<and> (length args > ARG_COUNT \<or> length (packed args) > ARG_LIMIT)) \<or>
        (e = EINVAL \<and> \<not> proxy_accepted operation proxy)
    | Inr (req, payload, px) \<Rightarrow>
        length payload = unat (o_bytes req) \<and> length px = unat (o_proxy_bytes req) \<and>
        parse_tool_request tools environment req payload px =
          (if tools operation = [] then Inl ENOENT
           else Inr (tools operation # args, tool_environment environment proxy))"
proof (cases "length args \<le> ARG_COUNT \<and> proxy_accepted operation proxy \<and> length (packed args) \<le> ARG_LIMIT")
  case False
  then show ?thesis unfolding encode_tool_request_spec [OF cs] by auto
next
  case True
  then have ok: "length args \<le> ARG_COUNT" "length (packed args) \<le> ARG_LIMIT" "proxy_accepted operation proxy" by auto
  define px where "px = (case proxy of Some (c # p) \<Rightarrow> (c # p) @ [0] | _ \<Rightarrow> [])"
  define req where "req = \<lparr>o_operation = of_nat operation :: u32, o_count = of_nat (length args) :: u32,
      o_bytes = of_nat (length (packed args)) :: u32, o_proxy_bytes = of_nat (length px) :: u32\<rparr>"
  have enc: "encode_tool_request operation (map Some args) proxy = Inr (req, packed args, px)"
    unfolding encode_tool_request_spec [OF cs] using ok by (simp add: req_def px_def)
  note k = tool_request_ok_spec [OF op ok, folded px_def]
  have rk: "tool_request_ok req" and u: "unat (o_operation req) = operation" "unat (o_count req) = length args"
    "unat (o_bytes req) = length (packed args)" "unat (o_proxy_bytes req) = length px"
    using k by (simp_all add: req_def)
  have "tool_child_environment environment (length px) px = Some (tool_environment environment proxy)"
  proof (cases "\<exists>c p. proxy = Some (c # p)")
    case True
    then obtain c p where p: "proxy = Some (c # p)" by blast
    have "10 \<le> length (c # p)" "socks_proxy (c # p)" using ok(3) p by (simp_all add: proxy_accepted_def)
    from tool_child_environment_spec [OF _ this] cs(2) p show ?thesis by (simp add: px_def)
  next
    case False
    then have "px = []" "tool_environment environment proxy = environment"
      by (auto simp: px_def tool_environment_def split: option.splits list.splits)
    then show ?thesis by (simp add: tool_child_environment_def)
  qed
  then show ?thesis using rk u unpack_tool_arguments [OF cs(1)]
    by (simp add: enc parse_tool_request_def Let_def)
qed

lemma tool_request_roundtrip_witness:
  "\<exists>req payload px. encode_tool_request 1 (map Some [ascii ''-sS'']) (Some (ascii ''socks5h://u:p@localhost:9050'')) =
       Inr (req, payload, px) \<and>
     parse_tool_request (\<lambda>_. ascii ''/usr/local/bin/curl'') [ascii ''all_proxy=other''] req payload px =
       Inr ([ascii ''/usr/local/bin/curl'', ascii ''-sS''], [ascii ''all_proxy=socks5h://u:p@localhost:9050''])"
proof -
  have cs: "\<forall>a\<in>set [ascii ''-sS'']. is_cstring a"
    "\<forall>p. Some (ascii ''socks5h://u:p@localhost:9050'') = Some p \<longrightarrow> is_cstring p" by auto
  have "\<exists>r. encode_tool_request 1 (map Some [ascii ''-sS'']) (Some (ascii ''socks5h://u:p@localhost:9050'')) = Inr r"
    unfolding encode_tool_request_spec [OF cs]
    by (simp add: proxy_accepted_def ascii_def PROXY_LIMIT_def ARG_COUNT_def ARG_LIMIT_def WN_TOOL_CURL_def
        socks_proxy_def proxy_scheme_def has_prefix_def)
  moreover have "tool_environment [ascii ''all_proxy=other''] (Some (ascii ''socks5h://u:p@localhost:9050'')) =
      [ascii ''all_proxy=socks5h://u:p@localhost:9050'']"
    by (simp add: tool_environment_def ascii_def proxy_variable_def proxy_variables_def has_prefix_def)
  ultimately show ?thesis
    using tool_request_roundtrip [OF cs, where operation = 1 and tools = "\<lambda>_. ascii ''/usr/local/bin/curl''"
        and environment = "[ascii ''all_proxy=other'']"]
    by auto
qed



text \<open>
  A URI with a single slash passes the scheme test on both sides, because only nine of the ten
  characters of \<open>socks5h://\<close> are compared.
\<close>

lemma single_slash_accepted: "proxy_accepted WN_TOOL_CURL (Some (ascii ''socks5h:/host:9''))"
  by (simp add: proxy_accepted_def ascii_def PROXY_LIMIT_def socks_proxy_def proxy_scheme_def has_prefix_def)

end
