(* ===== verification/Broker_Io.thy ===== *)
theory Broker_Io
  imports Frames Wire
begin

text \<open>
  Blocking transfers of the two brokers: \<open>transfer\<close> of \<open>app/helper_broker.c\<close> with its set-up deadline,
  \<open>transfer\<close> of \<open>app/tool_broker.c\<close> without one, and \<open>socket_pair\<close>. One \<open>io_round\<close> holds what the
  operating system answers in one iteration of a loop; the incoming bytes are a stream of which
  \<open>recv\<close> delivers any positive number of pending bytes up to the capacity, and 0 (end of file) only
  when none are pending. A loop that has used up its answers is None: it is still waiting.
\<close>

section \<open>One iteration\<close>

datatype io_answer = Io_Count nat | Io_Error errno

datatype poll_result = Io_Ready | Io_Timeout | Io_Poll_Error errno

record io_round =
  i_stopping :: bool
  i_now :: int
  i_poll :: poll_result
  i_io :: io_answer

datatype io_step = Io_Stop errno | Io_Retry | Io_Move nat

text \<open>The call itself; \<open>timed\<close> says whether there is a deadline.\<close>

definition broker_call_step :: "bool \<Rightarrow> io_answer \<Rightarrow> io_step" where
  "broker_call_step timed io =
     (case io of
        Io_Count n \<Rightarrow> Io_Move n
      | Io_Error e \<Rightarrow> if e = EINTR \<or> (timed \<and> e = EAGAIN) then Io_Retry else Io_Stop e)"

text \<open>A deadline of 0 means none: then neither the clock nor \<open>poll\<close> is asked.\<close>

definition broker_io_step :: "int \<Rightarrow> io_round \<Rightarrow> io_step" where
  "broker_io_step deadline a =
     (if deadline = 0 then broker_call_step False (i_io a)
      else if i_stopping a \<or> i_now a < 0 \<or> i_now a \<ge> deadline
      then Io_Stop (if i_stopping a then ECANCELED else ETIMEDOUT)
      else
        (case i_poll a of
           Io_Poll_Error e \<Rightarrow> if e = EINTR then Io_Retry else Io_Stop e
         | Io_Timeout \<Rightarrow> Io_Stop ETIMEDOUT
         | Io_Ready \<Rightarrow> broker_call_step True (i_io a)))"

section \<open>The loops\<close>

text \<open>Reading \<open>length\<close> bytes: the result, the bytes still pending, the answers left.\<close>

fun transfer_in ::
  "int \<Rightarrow> io_round list \<Rightarrow> nat \<Rightarrow> byte list \<Rightarrow> ((errno + byte list) \<times> byte list \<times> io_round list) option" where
  "transfer_in deadline as 0 pending = Some (Inr [], pending, as)"
| "transfer_in deadline [] (Suc n) pending = None"
| "transfer_in deadline (a # as) (Suc n) pending =
     (case broker_io_step deadline a of
        Io_Stop e \<Rightarrow> Some (Inl e, pending, as)
      | Io_Retry \<Rightarrow> transfer_in deadline as (Suc n) pending
      | Io_Move k \<Rightarrow>
          let bs = take (min (max 1 k) (Suc n)) pending in
          if bs = [] then Some (Inl EPIPE, pending, as)
          else map_option (\<lambda>(r, rest). (map_sum id (\<lambda>got. bs @ got) r, rest))
                 (transfer_in deadline as (Suc n - length bs) (drop (length bs) pending)))"

text \<open>Writing all of \<open>bytes\<close>: the result, the bytes written, the answers left.\<close>

fun transfer_out ::
  "int \<Rightarrow> io_round list \<Rightarrow> byte list \<Rightarrow> ((errno + unit) \<times> byte list \<times> io_round list) option" where
  "transfer_out deadline as [] = Some (Inr (), [], as)"
| "transfer_out deadline [] (b # bytes) = None"
| "transfer_out deadline (a # as) (b # bytes) =
     (case broker_io_step deadline a of
        Io_Stop e \<Rightarrow> Some (Inl e, [], as)
      | Io_Retry \<Rightarrow> transfer_out deadline as (b # bytes)
      | Io_Move k \<Rightarrow>
          let bs = take k (b # bytes) in
          if bs = [] then Some (Inl EPIPE, [], as)
          else map_option (\<lambda>(r, out, rest). (r, bs @ out, rest))
                 (transfer_out deadline as (drop (length bs) (b # bytes))))"

section \<open>Sockets above the standard descriptors\<close>

text \<open>
  \<open>socket_pair\<close>: the pair, each end moved above 2 when it is not; \<open>dup\<close> answers \<open>F_DUPFD_CLOEXEC\<close> for
  the first and the second end. Nothing stays open when it fails.
\<close>

definition move_end :: "errno + int \<Rightarrow> int \<Rightarrow> errno + (int \<times> event list)" where
  "move_end dup fd =
     (if fd < 3 then (case dup of Inl e \<Rightarrow> Inl e | Inr moved \<Rightarrow> Inr (moved, [Fd_Open moved, Fd_Close fd]))
      else Inr (fd, []))"

definition socket_pair ::
  "errno + (int \<times> int) \<Rightarrow> errno + int \<Rightarrow> errno + int \<Rightarrow> (errno + (int \<times> int)) \<times> event list" where
  "socket_pair answer dup0 dup1 =
     (case answer of
        Inl e \<Rightarrow> (Inl e, [])
      | Inr (a, b) \<Rightarrow>
          let es = [Fd_Open a, Fd_Open b] in
          (case move_end dup0 a of
             Inl e \<Rightarrow> (Inl e, es @ [Fd_Close a, Fd_Close b])
           | Inr (a, es0) \<Rightarrow>
               (case move_end dup1 b of
                  Inl e \<Rightarrow> (Inl e, es @ es0 @ [Fd_Close a, Fd_Close b])
                | Inr (b, es1) \<Rightarrow> (Inr (a, b), es @ es0 @ es1))))"

section \<open>Lemmas\<close>

lemma map_sum_Inr_iff: "map_sum f g r = Inr y \<longleftrightarrow> (\<exists>x. r = Inr x \<and> y = g x)"
  by (cases r) auto

lemma map_sum_Inl_iff: "map_sum f g r = Inl y \<longleftrightarrow> (\<exists>x. r = Inl x \<and> y = f x)"
  by (cases r) auto

lemma transfer_in_exact:
  "transfer_in deadline as n pending = Some (Inr bs, rest, as') \<Longrightarrow> length bs = n \<and> pending = bs @ rest"
proof (induction deadline as n pending arbitrary: bs rest as' rule: transfer_in.induct)
  case (3 deadline a as n pending)
  show ?case
  proof (cases "broker_io_step deadline a")
    case (Io_Move k)
    define xs where "xs = take (min (max 1 k) (Suc n)) pending"
    have st: "transfer_in deadline (a # as) (Suc n) pending =
      (if xs = [] then Some (Inl EPIPE, pending, as)
       else map_option (\<lambda>(r, rest). (map_sum id (\<lambda>got. xs @ got) r, rest))
         (transfer_in deadline as (Suc n - length xs) (drop (length xs) pending)))"
      unfolding xs_def using Io_Move by (simp only: transfer_in.simps io_step.case Let_def)
    have ne: "xs \<noteq> []" using 3(3) [unfolded st] by auto
    obtain got where g: "transfer_in deadline as (Suc n - length xs) (drop (length xs) pending) = Some (Inr got, rest, as')"
      and bs: "bs = xs @ got"
      using 3(3) [unfolded st] ne by (auto simp: map_sum_Inr_iff)
    have ih: "length got = Suc n - length xs" "drop (length xs) pending = got @ rest"
      using 3(2) [OF Io_Move xs_def ne g] by auto
    have "length xs \<le> Suc n" by (simp add: xs_def)
    then have "length bs = Suc n" using ih(1) by (simp add: bs)
    moreover have "xs @ drop (length xs) pending = pending" unfolding xs_def by (rule take_drop_length)
    then have "pending = bs @ rest" unfolding ih(2) bs by simp
    ultimately show ?thesis ..
  next
    case (Io_Stop e)
    then show ?thesis using 3(3) by simp
  next
    case Io_Retry
    then show ?thesis using 3(3) 3(1) by simp
  qed
qed auto

lemma transfer_out_exact:
  "transfer_out deadline as bytes = Some (r, out, as') \<Longrightarrow> 
   (\<exists>rest. bytes = out @ rest \<and> (r = Inr () \<longrightarrow> rest = []))"
proof (induction deadline as bytes arbitrary: r out as' rule: transfer_out.induct)
  case (3 deadline a as b bytes)
  show ?case
  proof (cases "broker_io_step deadline a")
    case (Io_Move k)
    define xs where "xs = take k (b # bytes)"
    have st: "transfer_out deadline (a # as) (b # bytes) =
      (if xs = [] then Some (Inl EPIPE, [], as)
       else map_option (\<lambda>(r, out, rest). (r, xs @ out, rest))
         (transfer_out deadline as (drop (length xs) (b # bytes))))"
      unfolding xs_def using Io_Move by (simp only: transfer_out.simps io_step.case Let_def)
    have xs: "b # bytes = xs @ drop (length xs) (b # bytes)"
      unfolding xs_def by (rule take_drop_length [symmetric])
    show ?thesis
    proof (cases "xs = []")
      case True
      then show ?thesis using 3(3) [unfolded st] by auto
    next
      case False
      obtain out' where o: "transfer_out deadline as (drop (length xs) (b # bytes)) = Some (r, out', as')"
        and out: "out = xs @ out'"
        using 3(3) [unfolded st] False by auto
      from 3(2) [OF Io_Move xs_def False o] show ?thesis
        using xs by (metis append.assoc out)
    qed
  next
    case (Io_Stop e)
    then show ?thesis using 3(3) by auto
  next
    case Io_Retry
    then show ?thesis using 3(3) 3(1) by simp
  qed
qed auto

text \<open>Both loops implement the shared interface of exact readers and writers.\<close>

definition broker_read :: "int \<Rightarrow> io_round list \<times> byte list \<Rightarrow> nat \<Rightarrow> (byte list \<times> io_round list \<times> byte list) option" where
  "broker_read deadline w n =
     (case transfer_in deadline (fst w) n (snd w) of
        Some (Inr bs, rest, as) \<Rightarrow> Some (bs, as, rest)
      | _ \<Rightarrow> None)"

interpretation broker: exact_reader "broker_read deadline" snd for deadline
  by unfold_locales (auto simp: broker_read_def dest: transfer_in_exact split: option.splits sum.splits)


section \<open>Errors and deadlines\<close>

text \<open>What in one iteration makes the loop give up with a given error.\<close>

definition stopped_by :: "int \<Rightarrow> io_round \<Rightarrow> errno \<Rightarrow> bool" where
  "stopped_by deadline a e \<longleftrightarrow>
     (deadline \<noteq> 0 \<and> e = ECANCELED \<and> i_stopping a) \<or>
     (deadline \<noteq> 0 \<and> e = ETIMEDOUT \<and> (i_now a < 0 \<or> i_now a \<ge> deadline \<or> i_poll a = Io_Timeout)) \<or>
     (deadline \<noteq> 0 \<and> e \<noteq> EINTR \<and> i_poll a = Io_Poll_Error e) \<or>
     (e \<noteq> EINTR \<and> \<not> (deadline \<noteq> 0 \<and> e = EAGAIN) \<and> i_io a = Io_Error e)"

definition late :: "int \<Rightarrow> io_round \<Rightarrow> bool" where
  "late deadline a \<longleftrightarrow> deadline \<noteq> 0 \<and> (i_stopping a \<or> i_now a < 0 \<or> i_now a \<ge> deadline)"

lemma broker_io_step_stop: "broker_io_step deadline a = Io_Stop e \<Longrightarrow> stopped_by deadline a e"
  by (auto simp: broker_io_step_def broker_call_step_def stopped_by_def
      split: if_splits poll_result.splits io_answer.splits)

lemma broker_io_step_late: "late deadline a \<Longrightarrow> \<exists>e. broker_io_step deadline a = Io_Stop e"
  by (auto simp: late_def broker_io_step_def)

lemma transfer_in_error:
  "transfer_in deadline as n pending = Some (Inl e, rest, as') \<Longrightarrow>
   (\<exists>got. pending = got @ rest \<and> length got < n) \<and>
   ((e = EPIPE \<and> rest = []) \<or> (\<exists>a\<in>set as. stopped_by deadline a e))"
proof (induction deadline as n pending arbitrary: e rest as' rule: transfer_in.induct)
  case (3 deadline a as n pending)
  show ?case
  proof (cases "broker_io_step deadline a")
    case (Io_Move k)
    define xs where "xs = take (min (max 1 k) (Suc n)) pending"
    have st: "transfer_in deadline (a # as) (Suc n) pending =
      (if xs = [] then Some (Inl EPIPE, pending, as)
       else map_option (\<lambda>(r, rest). (map_sum id (\<lambda>got. xs @ got) r, rest))
         (transfer_in deadline as (Suc n - length xs) (drop (length xs) pending)))"
      unfolding xs_def using Io_Move by (simp only: transfer_in.simps io_step.case Let_def)
    show ?thesis
    proof (cases "xs = []")
      case True
      then show ?thesis using 3(3) [unfolded st] by (auto simp: xs_def)
    next
      case False
      then have g: "transfer_in deadline as (Suc n - length xs) (drop (length xs) pending) = Some (Inl e, rest, as')"
        using 3(3) [unfolded st] by (auto simp: map_sum_Inl_iff)
      from 3(2) [OF Io_Move xs_def False g] obtain got where
        got: "drop (length xs) pending = got @ rest" "length got < Suc n - length xs"
        and e: "(e = EPIPE \<and> rest = []) \<or> (\<exists>a\<in>set as. stopped_by deadline a e)" by blast
      have "xs @ drop (length xs) pending = pending" unfolding xs_def by (rule take_drop_length)
      then have "pending = (xs @ got) @ rest" unfolding got(1) by simp
      moreover have "length (xs @ got) < Suc n" using got(2) by simp
      ultimately show ?thesis using e by auto
    qed
  next
    case (Io_Stop x)
    then show ?thesis using 3(3) broker_io_step_stop [OF Io_Stop] by auto
  next
    case Io_Retry
    then show ?thesis using 3(3) 3(1) by auto
  qed
qed auto

lemma transfer_in_settles: "\<exists>a\<in>set as. late deadline a \<Longrightarrow> transfer_in deadline as n pending \<noteq> None"
proof (induction deadline as n pending rule: transfer_in.induct)
  case (3 deadline a as n pending)
  show ?case
  proof (cases "late deadline a")
    case True
    then show ?thesis using broker_io_step_late [OF True] by auto
  next
    case False
    then have l: "\<exists>a\<in>set as. late deadline a" using 3(3) by auto
    show ?thesis
    proof (cases "broker_io_step deadline a")
      case (Io_Move k)
      then show ?thesis using 3(2) [OF Io_Move refl _ l] by (auto simp: Let_def)
    qed (use 3(1) l in auto)
  qed
qed auto

text \<open>Rounds in which the transfer advances, and what enough of them achieve.\<close>

definition prompt :: "int \<Rightarrow> io_round \<Rightarrow> bool" where
  "prompt deadline a = (case broker_io_step deadline a of Io_Move k \<Rightarrow> k > 0 | _ \<Rightarrow> False)"

lemma transfer_in_progress:
  "\<forall>a\<in>set as. prompt deadline a \<Longrightarrow> n \<le> length pending \<Longrightarrow> n \<le> length as \<Longrightarrow>
   \<exists>as'. transfer_in deadline as n pending = Some (Inr (take n pending), drop n pending, as') \<and>
     set as' \<subseteq> set as \<and> length as \<le> length as' + n"
proof (induction deadline as n pending rule: transfer_in.induct)
  case (3 deadline a as n pending)
  obtain k where st: "broker_io_step deadline a = Io_Move k" and k: "k > 0"
    using 3(3) by (auto simp: prompt_def split: io_step.splits)
  define xs where "xs = take (min (max 1 k) (Suc n)) pending"
  have ne: "xs \<noteq> []" using 3(4) by (auto simp: xs_def)
  have l: "0 < length xs" "length xs \<le> Suc n" using ne by (auto simp: xs_def)
  have "Suc n - length xs \<le> n" using l(1) by linarith
  note le = this
  then have pre: "\<forall>a\<in>set as. prompt deadline a" "Suc n - length xs \<le> length (drop (length xs) pending)"
    "Suc n - length xs \<le> length as" using 3(3-5) by auto
  have tk: "xs @ take (Suc n - length xs) (drop (length xs) pending) = take (Suc n) pending"
  proof -
    have "xs @ drop (length xs) pending = pending" unfolding xs_def by (rule take_drop_length)
    then have "take (length xs) pending = xs" by (metis append_eq_conv_conj)
    then show ?thesis using take_add [of "length xs" "Suc n - length xs" pending] l(2) by simp
  qed
  obtain as' where r: "transfer_in deadline as (Suc n - length xs) (drop (length xs) pending) =
      Some (Inr (take (Suc n - length xs) (drop (length xs) pending)), drop (Suc n) pending, as')"
    "set as' \<subseteq> set as" "length as \<le> length as' + (Suc n - length xs)"
    using 3(2) [OF st xs_def ne pre] l(2) by auto
  have "transfer_in deadline (a # as) (Suc n) pending = Some (Inr (take (Suc n) pending), drop (Suc n) pending, as')"
    using ne r(1) tk by (simp only: transfer_in.simps st io_step.case Let_def xs_def [symmetric]) simp
  moreover have "length (a # as) \<le> length as' + Suc n" using r(3) le by simp
  ultimately show ?case using r(2) by (intro exI [of _ as']) auto
qed auto

lemma transfer_out_progress:
  "\<forall>a\<in>set as. prompt deadline a \<Longrightarrow> length bytes \<le> length as \<Longrightarrow>
   \<exists>as'. transfer_out deadline as bytes = Some (Inr (), bytes, as') \<and>
     set as' \<subseteq> set as \<and> length as \<le> length as' + length bytes"
proof (induction deadline as bytes rule: transfer_out.induct)
  case (3 deadline a as b bytes)
  obtain k where st: "broker_io_step deadline a = Io_Move k" and k: "k > 0"
    using 3(3) by (auto simp: prompt_def split: io_step.splits)
  define xs where "xs = take k (b # bytes)"
  have ne: "xs \<noteq> []" using k by (auto simp: xs_def)
  have l: "0 < length xs" "length xs \<le> Suc (length bytes)" using ne by (auto simp: xs_def)
  have le: "length (drop (length xs) (b # bytes)) \<le> length bytes" using l(1) by (simp, linarith)
  then have pre: "\<forall>a\<in>set as. prompt deadline a" "length (drop (length xs) (b # bytes)) \<le> length as"
    using 3(3,4) by auto
  have eq: "xs @ drop (length xs) (b # bytes) = b # bytes" unfolding xs_def by (rule take_drop_length)
  obtain as' where r: "transfer_out deadline as (drop (length xs) (b # bytes)) = Some (Inr (), drop (length xs) (b # bytes), as')"
    "set as' \<subseteq> set as" "length as \<le> length as' + length (drop (length xs) (b # bytes))"
    using 3(2) [OF st xs_def ne pre] by auto
  have "transfer_out deadline (a # as) (b # bytes) = Some (Inr (), b # bytes, as')"
    using ne r(1) eq by (simp only: transfer_out.simps st io_step.case Let_def xs_def [symmetric]) simp
  moreover have "length (a # as) \<le> length as' + length (b # bytes)" using r(3) le by simp
  ultimately show ?case using r(2) by (intro exI [of _ as']) auto
qed auto

section \<open>Properties\<close>

text \<open>
  Outcomes of a broker read: success means exactly the bytes asked for, in order; a failure
  means that strictly fewer were available in time, and its error says why: \<open>EPIPE\<close> only at the end of
  the stream, \<open>ECANCELED\<close> only while stopping, \<open>ETIMEDOUT\<close> only at the deadline or a \<open>poll\<close> timeout, and
  otherwise the error of the failing call; interrupted calls are never an error. Once the clock has
  passed a deadline, the read has returned.
\<close>

theorem broker_read_outcome:
  "(case transfer_in deadline as n pending of
      None \<Rightarrow> \<not> (\<exists>a\<in>set as. late deadline a)
    | Some (Inr bs, rest, as') \<Rightarrow> length bs = n \<and> pending = bs @ rest
    | Some (Inl e, rest, as') \<Rightarrow>
        (\<exists>got. pending = got @ rest \<and> length got < n) \<and>
        ((e = EPIPE \<and> rest = []) \<or> (\<exists>a\<in>set as. stopped_by deadline a e)))"
proof (cases "transfer_in deadline as n pending")
  case None
  then have "\<not> (\<exists>a\<in>set as. late deadline a)" using transfer_in_settles by metis
  then show ?thesis using None by simp
next
  case (Some x)
  obtain r rest as' where "x = (r, rest, as')" by (metis prod_cases3)
  then show ?thesis using Some by (cases r) (auto dest: transfer_in_exact transfer_in_error)
qed

definition sample_round :: "int \<Rightarrow> io_answer \<Rightarrow> io_round" where
  "sample_round now io = \<lparr>i_stopping = False, i_now = now, i_poll = Io_Ready, i_io = io\<rparr>"

lemma broker_read_outcome_witness:
  "transfer_in 9 [sample_round 1 (Io_Count 2), sample_round 2 (Io_Error EAGAIN), sample_round 9 (Io_Count 1)]
     3 [7, 8, 5] = Some (Inl ETIMEDOUT, [5], []) \<and>
   (\<exists>a\<in>set [sample_round 1 (Io_Count 2), sample_round 2 (Io_Error EAGAIN), sample_round 9 (Io_Count 1)].
     stopped_by 9 a ETIMEDOUT)"
proof -
  let ?as = "[sample_round 1 (Io_Count 2), sample_round 2 (Io_Error EAGAIN), sample_round 9 (Io_Count 1)]"
  have t: "transfer_in 9 ?as 3 [7, 8, 5] = Some (Inl ETIMEDOUT, [5], [])"
    by (simp add: sample_round_def broker_io_step_def broker_call_step_def eval_nat_numeral)
  show ?thesis using broker_read_outcome [where deadline = 9 and as = ?as and n = 3 and pending = "[7, 8, 5]"] unfolding t by auto
qed

end
