(* ===== verification/Tool_Broker.thy ===== *)
theory Tool_Broker
  imports Tool_Request Broker_Io
begin

text \<open>
  One request to the desktop tool broker (\<open>app/tool_broker.c\<close>): the bounded collection of a tool's
  output, \<open>serve_request\<close> from the request to the response, and \<open>wn_tools_run\<close> in the application.
  The bytes a tool writes are two fixed streams; when and in which pieces they arrive is decided by
  the answers of \<open>poll\<close> and \<open>read\<close>.
\<close>

section \<open>Collecting output\<close>

definition OUTPUT_LIMIT :: nat where "OUTPUT_LIMIT = 128 * 1024 * 1024"

text \<open>One pipe: open or closed, the buffer's capacity and content, what has not been read yet.\<close>

record pipe =
  u_open :: bool
  u_capacity :: nat
  u_data :: "byte list"
  u_pending :: "byte list"

record collect_round =
  c_poll :: poll_result
  c_ready :: "bool \<times> bool"
  c_realloc :: "bool \<times> bool"
  c_read :: "io_answer \<times> io_answer"

text \<open>Growing the buffer when it is full: 8 KiB, then doubled, up to the limit.\<close>

definition grow_pipe :: "bool \<Rightarrow> pipe \<Rightarrow> errno + pipe" where
  "grow_pipe realloc s =
     (if length (u_data s) = u_capacity s \<and> u_capacity s < OUTPUT_LIMIT
      then if realloc then Inr (s\<lparr>u_capacity := (if u_capacity s \<noteq> 0 then u_capacity s * 2 else 8192)\<rparr>)
           else Inl ENOMEM
      else Inr s)"

text \<open>
  The \<open>read\<close>: into the free part of the buffer, or one byte into \<open>extra\<close> when the limit is reached, to
  tell the end of the output from too much of it.
\<close>

definition read_pipe :: "io_answer \<Rightarrow> pipe \<Rightarrow> errno option \<times> pipe" where
  "read_pipe answer s =
     (let available = u_capacity s - length (u_data s) in
      case answer of
        Io_Error e \<Rightarrow> (if e = EINTR then None else Some e, s)
      | Io_Count n \<Rightarrow>
          let bs = take (min (max 1 n) (max 1 available)) (u_pending s) in
          if bs = [] then (None, s\<lparr>u_open := False\<rparr>)
          else if available = 0 then (Some EFBIG, s)
          else (None, s\<lparr>u_data := u_data s @ bs, u_pending := drop (length bs) (u_pending s)\<rparr>))"

definition collect_pipe :: "bool \<Rightarrow> bool \<Rightarrow> io_answer \<Rightarrow> pipe \<Rightarrow> errno option \<times> pipe" where
  "collect_pipe ready realloc answer s =
     (if \<not> u_open s \<or> \<not> ready then (None, s)
      else (case grow_pipe realloc s of Inl e \<Rightarrow> (Some e, s) | Inr s \<Rightarrow> read_pipe answer s))"

definition collect_step :: "collect_round \<Rightarrow> pipe \<times> pipe \<Rightarrow> errno option \<times> pipe \<times> pipe" where
  "collect_step r s =
     (case c_poll r of
        Io_Poll_Error e \<Rightarrow> (if e = EINTR then None else Some e, s)
      | Io_Timeout \<Rightarrow> (Some ETIMEDOUT, s)
      | Io_Ready \<Rightarrow>
          let (failed, out) = collect_pipe (fst (c_ready r)) (fst (c_realloc r)) (fst (c_read r)) (fst s) in
          if failed \<noteq> None then (failed, out, snd s)
          else let (failed, err) = collect_pipe (snd (c_ready r)) (snd (c_realloc r)) (snd (c_read r)) (snd s)
               in (failed, out, err))"

text \<open>\<open>while (open_count && !failed)\<close>; None: still waiting.\<close>

fun collect :: "collect_round list \<Rightarrow> pipe \<times> pipe \<Rightarrow> (errno option \<times> pipe \<times> pipe) option" where
  "collect rs s =
     (if \<not> u_open (fst s) \<and> \<not> u_open (snd s) then Some (None, s)
      else
        (case rs of
           [] \<Rightarrow> None
         | r # rs \<Rightarrow>
             (case collect_step r s of
                (Some e, s) \<Rightarrow> Some (Some e, s)
              | (None, s) \<Rightarrow> collect rs s)))"

declare collect.simps [simp del]

definition new_pipe :: "byte list \<Rightarrow> pipe" where
  "new_pipe stream = \<lparr>u_open = True, u_capacity = 0, u_data = [], u_pending = stream\<rparr>"

section \<open>Serving\<close>

definition put_tool_request :: "tool_request \<Rightarrow> byte list" where
  "put_tool_request req = wn_image_put (o_operation req) @ wn_image_put (o_count req) @
     wn_image_put (o_bytes req) @ wn_image_put (o_proxy_bytes req)"

definition get_tool_request :: "byte list \<Rightarrow> tool_request" where
  "get_tool_request bs = \<lparr>o_operation = wn_image_u32 bs, o_count = wn_image_u32 (drop 4 bs),
     o_bytes = wn_image_u32 (drop 8 bs), o_proxy_bytes = wn_image_u32 (drop 12 bs)\<rparr>"

text \<open>\<open>struct response\<close>: error number (0 for none) and status as they are in memory, the two sizes.\<close>

record response =
  e_error :: u32
  e_status :: u32
  e_output :: u32
  e_errors :: u32

definition put_response :: "response \<Rightarrow> byte list" where
  "put_response r = wn_image_put (e_error r) @ wn_image_put (e_status r) @ wn_image_put (e_output r) @
     wn_image_put (e_errors r)"

definition get_response :: "byte list \<Rightarrow> response" where
  "get_response bs = \<lparr>e_error = wn_image_u32 bs, e_status = wn_image_u32 (drop 4 bs),
     e_output = wn_image_u32 (drop 8 bs), e_errors = wn_image_u32 (drop 12 bs)\<rparr>"

interpretation tool_request_codec: codec put_tool_request get_tool_request 16
  by unfold_locales (simp_all add: put_tool_request_def get_tool_request_def wn_image_u32_put)

interpretation response_codec: codec put_response get_response 16
  by unfold_locales (simp_all add: put_response_def get_response_def wn_image_u32_put)

record tool_env =
  t_io :: "io_round list"
  t_in :: "byte list"
  t_pipe0 :: "errno + (int \<times> int)"
  t_pipe1 :: "errno + (int \<times> int)"
  t_fork :: "errno + int"
  t_rounds :: "collect_round list"
  t_streams :: "byte list \<times> byte list"
  t_wait :: "errno + nat"

text \<open>Reading the request: the command line and environment, or the error.\<close>

definition tool_receive ::
  "(nat \<Rightarrow> cstring) \<Rightarrow> cstring list \<Rightarrow> tool_env \<Rightarrow> ((errno + (cstring list \<times> cstring list)) \<times> io_round list) option" where
  "tool_receive tools environment env =
     (case transfer_in 0 (t_io env) 16 (t_in env) of
        None \<Rightarrow> None
      | Some (Inl e, rest, as) \<Rightarrow> Some (Inl EINVAL, as)
      | Some (Inr header, rest, as) \<Rightarrow>
          let req = get_tool_request header in
          if \<not> tool_request_ok req then Some (Inl EINVAL, as)
          else
            (case transfer_in 0 as (unat (o_bytes req)) rest of
               None \<Rightarrow> None
             | Some (Inl e, rest, as) \<Rightarrow> Some (Inl EINVAL, as)
             | Some (Inr arguments, rest, as) \<Rightarrow>
                 (case transfer_in 0 as (unat (o_proxy_bytes req)) rest of
                    None \<Rightarrow> None
                  | Some (Inl e, rest, as) \<Rightarrow> Some (Inl EINVAL, as)
                  | Some (Inr proxy, rest, as) \<Rightarrow>
                      Some (parse_tool_request tools environment req arguments proxy, as))))"

text \<open>
  Running the tool: the error, the exit status, the two outputs and the events. The kill comes before
  the wait, and only when the collection failed.
\<close>

definition tool_status :: "errno + nat \<Rightarrow> nat" where
  "tool_status w =
     (case w of
        Inl e \<Rightarrow> 0
      | Inr status \<Rightarrow> if status mod 128 = 0 then status div 256 mod 256 else 128 + status mod 128)"

definition tool_run :: "tool_env \<Rightarrow> ((errno option \<times> u32 \<times> byte list \<times> byte list) \<times> event list) option" where
  "tool_run env =
     (case t_pipe0 env of
        Inl e \<Rightarrow> Some ((Some e, -1, [], []), [])
      | Inr (out_r, out_w) \<Rightarrow>
          let es = [Fd_Open out_r, Fd_Open out_w] in
          (case t_pipe1 env of
             Inl e \<Rightarrow> Some ((Some e, -1, [], []), es @ [Fd_Close out_r, Fd_Close out_w])
           | Inr (err_r, err_w) \<Rightarrow>
               let es = es @ [Fd_Open err_r, Fd_Open err_w]; closes = [Fd_Close out_w, Fd_Close err_w] in
               (case t_fork env of
                  Inl e \<Rightarrow> Some ((Some e, -1, [], []), es @ closes @ [Fd_Close out_r, Fd_Close err_r])
                | Inr child \<Rightarrow>
                    (case collect (t_rounds env) (new_pipe (fst (t_streams env)), new_pipe (snd (t_streams env))) of
                       None \<Rightarrow> None
                     | Some (failed, out, err) \<Rightarrow>
                         let error = (case failed of Some e \<Rightarrow> Some e
                                      | None \<Rightarrow> (case t_wait env of Inl e \<Rightarrow> Some e | Inr _ \<Rightarrow> None))
                         in Some ((error, of_nat (tool_status (t_wait env)), u_data out, u_data err),
                              es @ [Child_Spawned child] @ closes @ [Fd_Close out_r, Fd_Close err_r] @
                              (if failed \<noteq> None then [Child_Killed child] else []) @ [Child_Reaped child])))))"

text \<open>\<open>code\<close> gives the number of an error. The written stream is what reaches the client.\<close>

definition error_code :: "(errno \<Rightarrow> u32) \<Rightarrow> errno option \<Rightarrow> u32" where
  "error_code code e = (case e of None \<Rightarrow> 0 | Some e \<Rightarrow> code e)"

definition send_response :: "io_round list \<Rightarrow> response \<Rightarrow> byte list \<Rightarrow> byte list \<Rightarrow> byte list option" where
  "send_response as r output errors =
     (case transfer_out 0 as (put_response r) of
        None \<Rightarrow> None
      | Some (Inl e, written, as) \<Rightarrow> Some written
      | Some (Inr _, written, as) \<Rightarrow>
          (case transfer_out 0 as output of
             None \<Rightarrow> None
           | Some (_, written1, as) \<Rightarrow>
               (case transfer_out 0 as errors of
                  None \<Rightarrow> None
                | Some (_, written2, as) \<Rightarrow> Some (written @ written1 @ written2))))"

definition tool_serve ::
  "(errno \<Rightarrow> u32) \<Rightarrow> (nat \<Rightarrow> cstring) \<Rightarrow> cstring list \<Rightarrow> tool_env \<Rightarrow> (byte list \<times> event list) option" where
  "tool_serve code tools environment env =
     (case tool_receive tools environment env of
        None \<Rightarrow> None
      | Some (Inl e, as) \<Rightarrow>
          map_option (\<lambda>written. (written, []))
            (send_response as \<lparr>e_error = code e, e_status = -1, e_output = 0, e_errors = 0\<rparr> [] [])
      | Some (Inr command, as) \<Rightarrow>
          (case tool_run env of
             None \<Rightarrow> None
           | Some ((error, status, output, errors), es) \<Rightarrow>
               map_option (\<lambda>written. (written, es))
                 (send_response as
                    \<lparr>e_error = error_code code error, e_status = status, e_output = of_nat (length output),
                      e_errors = of_nat (length errors)\<rparr> output errors)))"

section \<open>The client\<close>

record run_env =
  y_pair :: "errno + (int \<times> int)"
  y_cloexec :: "errno option"
  y_channel :: bool
  y_io :: "io_round list"
  y_in :: "byte list"
  y_malloc :: "bool \<times> bool"

record run_result =
  z_code :: u32
  z_output :: "byte list"
  z_errors :: "byte list"
  z_status :: u32
  z_trace :: "event list"

definition run_failed :: "u32 \<Rightarrow> u32 \<Rightarrow> event list \<Rightarrow> run_result" where
  "run_failed code status es = \<lparr>z_code = code, z_output = [], z_errors = [], z_status = status, z_trace = es\<rparr>"

text \<open>
  The rest of \<open>open_request\<close>: the socket pair, the channel to the broker (\<open>y_channel\<close>: a broker runs and
  \<open>send_channel\<close> succeeds), and the three writes. The result is the channel and the answers left.
\<close>

definition tool_channel ::
  "tool_request \<Rightarrow> byte list \<Rightarrow> byte list \<Rightarrow> run_env \<Rightarrow> ((errno + int) \<times> event list \<times> byte list \<times> io_round list) option" where
  "tool_channel req payload proxy env =
     (case y_pair env of
        Inl e \<Rightarrow> Some (Inl e, [], [], y_io env)
      | Inr (a, b) \<Rightarrow>
          let es = [Fd_Open a, Fd_Open b] in
          (case y_cloexec env of
             Some e \<Rightarrow> Some (Inl e, es @ [Fd_Close a, Fd_Close b], [], y_io env)
           | None \<Rightarrow>
               let es = es @ [Fd_Close b] in
               if \<not> y_channel env then Some (Inl EIO, es @ [Fd_Close a], [], y_io env)
               else
                 (case transfer_out 0 (y_io env) (put_tool_request req) of
                    None \<Rightarrow> None
                  | Some (Inl e, w, as) \<Rightarrow> Some (Inl EIO, es @ [Fd_Close a], w, as)
                  | Some (Inr _, w, as) \<Rightarrow>
                      (case transfer_out 0 as payload of
                         None \<Rightarrow> None
                       | Some (Inl e, w1, as) \<Rightarrow> Some (Inl EIO, es @ [Fd_Close a], w @ w1, as)
                       | Some (Inr _, w1, as) \<Rightarrow>
                           (case transfer_out 0 as proxy of
                              None \<Rightarrow> None
                            | Some (Inl e, w2, as) \<Rightarrow> Some (Inl EIO, es @ [Fd_Close a], w @ w1 @ w2, as)
                            | Some (Inr _, w2, as) \<Rightarrow> Some (Inr a, es, w @ w1 @ w2, as))))))"

text \<open>One of the two buffers: nothing for size 0, \<open>ENOMEM\<close>, \<open>EIO\<close>, or the bytes.\<close>

definition read_buffer ::
  "bool \<Rightarrow> u32 \<Rightarrow> io_round list \<Rightarrow> byte list \<Rightarrow> ((errno + byte list) \<times> byte list \<times> io_round list) option" where
  "read_buffer malloc bytes as pending =
     (if bytes = 0 then Some (Inr [], pending, as)
      else if \<not> malloc then Some (Inl ENOMEM, pending, as)
      else map_option (\<lambda>(r, rest). (case r of Inl e \<Rightarrow> Inl EIO | Inr bs \<Rightarrow> Inr bs, rest))
             (transfer_in 0 as (unat bytes) pending))"

definition read_response ::
  "(errno \<Rightarrow> u32) \<Rightarrow> bool \<times> bool \<Rightarrow> io_round list \<Rightarrow> byte list \<Rightarrow> event list \<Rightarrow> run_result option" where
  "read_response code malloc as pending es =
     (case transfer_in 0 as 16 pending of
        None \<Rightarrow> None
      | Some (Inl e, rest, as) \<Rightarrow> Some (run_failed (code EIO) (-1) es)
      | Some (Inr header, rest, as) \<Rightarrow>
          let r = get_response header in
          if unat (e_output r) > OUTPUT_LIMIT \<or> unat (e_errors r) > OUTPUT_LIMIT
          then Some (run_failed (code EIO) (-1) es)
          else
            (case read_buffer (fst malloc) (e_output r) as rest of
               None \<Rightarrow> None
             | Some (Inl e, rest, as) \<Rightarrow> Some (run_failed (code e) (-1) es)
             | Some (Inr output, rest, as) \<Rightarrow>
                 (case read_buffer (snd malloc) (e_errors r) as rest of
                    None \<Rightarrow> None
                  | Some (Inl e, rest, as) \<Rightarrow> Some (run_failed (code e) (-1) es)
                  | Some (Inr errors, rest, as) \<Rightarrow>
                      Some (if e_error r \<noteq> 0 then run_failed (e_error r) (e_status r) es
                            else \<lparr>z_code = 0, z_output = output, z_errors = errors, z_status = e_status r, z_trace = es\<rparr>))))"

definition wn_tools_run ::
  "(errno \<Rightarrow> u32) \<Rightarrow> nat \<Rightarrow> cstring option list \<Rightarrow> cstring option \<Rightarrow> run_env \<Rightarrow> run_result option" where
  "wn_tools_run code operation arguments proxy env =
     (case encode_tool_request operation arguments proxy of
        Inl e \<Rightarrow> Some (run_failed (code e) (-1) [])
      | Inr (req, payload, px) \<Rightarrow>
          (case tool_channel req payload px env of
             None \<Rightarrow> None
           | Some (Inl e, es, w, as) \<Rightarrow> Some (run_failed (code e) (-1) es)
           | Some (Inr channel, es, w, as) \<Rightarrow>
               read_response code (y_malloc env) as (y_in env) (es @ [Fd_Close channel])))"

section \<open>Lemmas on collecting\<close>

definition pipe_inv :: "byte list \<Rightarrow> pipe \<Rightarrow> bool" where
  "pipe_inv stream s \<longleftrightarrow>
     u_data s @ u_pending s = stream \<and> length (u_data s) \<le> u_capacity s \<and>
     (u_capacity s = 0 \<or> (\<exists>k\<le>14. u_capacity s = 8192 * 2 ^ k)) \<and> (\<not> u_open s \<longrightarrow> u_pending s = [])"

lemma pipe_inv_limit: "pipe_inv stream s \<Longrightarrow> u_capacity s \<le> OUTPUT_LIMIT"
proof -
  have "8192 * 2 ^ k \<le> OUTPUT_LIMIT" if "k \<le> 14" for k :: nat
    using power_increasing [OF that, of "2 :: nat"] by (simp add: OUTPUT_LIMIT_def)
  then show "pipe_inv stream s \<Longrightarrow> ?thesis" by (auto simp: pipe_inv_def)
qed

lemma grow_pipe_inv:
  assumes "pipe_inv stream s" "grow_pipe realloc s = Inr s'"
  shows "pipe_inv stream s'" "u_open s' = u_open s" "u_data s' = u_data s" "u_pending s' = u_pending s"
    "length (u_data s') < u_capacity s' \<or> u_capacity s' = OUTPUT_LIMIT"
proof -
  show same: "u_open s' = u_open s" "u_data s' = u_data s" "u_pending s' = u_pending s"
    using assms(2) by (auto simp: grow_pipe_def split: if_splits)
  have cap: "(u_capacity s' = 0 \<or> (\<exists>k\<le>14. u_capacity s' = 8192 * 2 ^ k)) \<and> length (u_data s') \<le> u_capacity s'"
  proof (cases "length (u_data s) = u_capacity s \<and> u_capacity s < OUTPUT_LIMIT")
    case False
    then show ?thesis using assms by (auto simp: grow_pipe_def pipe_inv_def)
  next
    case True
    then have c: "u_capacity s' = (if u_capacity s \<noteq> 0 then u_capacity s * 2 else 8192)"
      using assms(2) by (auto simp: grow_pipe_def split: if_splits)
    show ?thesis
    proof (cases "u_capacity s = 0")
      case z: True
      then show ?thesis using c True same by (auto intro: exI [of _ 0])
    next
      case False
      then obtain k where k: "k \<le> 14" "u_capacity s = 8192 * 2 ^ k" using assms(1) by (auto simp: pipe_inv_def)
      have "k \<noteq> 14" using k True by (auto simp: OUTPUT_LIMIT_def)
      then have "\<exists>k\<le>14. u_capacity s' = 8192 * 2 ^ k" using k c False by (intro exI [of _ "Suc k"]) simp
      moreover have "length (u_data s') \<le> u_capacity s'" using c False True same by simp
      ultimately show ?thesis by blast
    qed
  qed
  then show "pipe_inv stream s'" using assms(1) same by (auto simp: pipe_inv_def)
  from pipe_inv_limit [OF this] show "length (u_data s') < u_capacity s' \<or> u_capacity s' = OUTPUT_LIMIT"
    using assms(2) pipe_inv_limit [OF assms(1)] assms(1)
    by (auto simp: grow_pipe_def pipe_inv_def split: if_splits)
qed

lemma read_pipe_inv:
  assumes inv: "pipe_inv stream s" and full: "length (u_data s) < u_capacity s \<or> u_capacity s = OUTPUT_LIMIT"
    and r: "read_pipe answer s = (failed, s')"
  shows "pipe_inv stream s'" "failed = Some EFBIG \<Longrightarrow> length stream > OUTPUT_LIMIT \<or> answer = Io_Error EFBIG"
proof -
  define available where "available = u_capacity s - length (u_data s)"
  have "pipe_inv stream s' \<and> (failed = Some EFBIG \<longrightarrow> length stream > OUTPUT_LIMIT \<or> answer = Io_Error EFBIG)"
  proof (cases answer)
    case (Io_Error e)
    then show ?thesis using r inv by (auto simp: read_pipe_def split: if_splits)
  next
    case (Io_Count n)
    define bs where "bs = take (min (max 1 n) (max 1 available)) (u_pending s)"
    have eq: "(failed, s') = (if bs = [] then (None, s\<lparr>u_open := False\<rparr>)
        else if available = 0 then (Some EFBIG, s)
        else (None, s\<lparr>u_data := u_data s @ bs, u_pending := drop (length bs) (u_pending s)\<rparr>))"
      using r unfolding read_pipe_def Let_def Io_Count io_answer.case available_def [symmetric] bs_def [symmetric] by simp
    have split: "bs @ drop (length bs) (u_pending s) = u_pending s"
      unfolding bs_def by (rule take_drop_length)
    consider "bs = []" | "bs \<noteq> []" "available = 0" | "bs \<noteq> []" "available \<noteq> 0" by blast
    then show ?thesis
    proof cases
      case 1
      then have "u_pending s = []" by (auto simp: bs_def)
      then show ?thesis using 1 eq inv by (auto simp: pipe_inv_def)
    next
      case 2
      then have "length (u_data s) = OUTPUT_LIMIT" using full inv by (auto simp: available_def pipe_inv_def)
      moreover have "u_pending s \<noteq> []" using 2 by (auto simp: bs_def)
      ultimately have "length stream > OUTPUT_LIMIT" using inv by (auto simp: pipe_inv_def)
      then show ?thesis using 2 eq inv by simp
    next
      case 3
      have "length bs \<le> available" using 3(2) by (simp add: bs_def)
      then have "length (u_data s @ bs) \<le> u_capacity s" using 3(2) by (simp add: available_def)
      then show ?thesis using 3 eq inv split by (auto simp: pipe_inv_def)
    qed
  qed
  then show "pipe_inv stream s'" "failed = Some EFBIG \<Longrightarrow> length stream > OUTPUT_LIMIT \<or> answer = Io_Error EFBIG" by auto
qed

lemma collect_pipe_inv:
  assumes inv: "pipe_inv stream s" and r: "collect_pipe ready realloc answer s = (failed, s')"
  shows "pipe_inv stream s'" "failed = Some EFBIG \<Longrightarrow> length stream > OUTPUT_LIMIT \<or> answer = Io_Error EFBIG"
proof -
  have "pipe_inv stream s' \<and> (failed = Some EFBIG \<longrightarrow> length stream > OUTPUT_LIMIT \<or> answer = Io_Error EFBIG)"
  proof (cases "u_open s \<and> ready")
    case False
    then show ?thesis using r inv by (auto simp: collect_pipe_def)
  next
    case True
    show ?thesis
    proof (cases "grow_pipe realloc s")
      case (Inl e)
      then have "e = ENOMEM" by (auto simp: grow_pipe_def split: if_splits)
      then show ?thesis using True r inv Inl by (auto simp: collect_pipe_def)
    next
      case (Inr s1)
      note g = grow_pipe_inv [OF inv Inr]
      have "read_pipe answer s1 = (failed, s')" using True r Inr by (simp add: collect_pipe_def)
      from read_pipe_inv [OF g(1,5) this] show ?thesis by blast
    qed
  qed
  then show "pipe_inv stream s'" "failed = Some EFBIG \<Longrightarrow> length stream > OUTPUT_LIMIT \<or> answer = Io_Error EFBIG" by auto
qed

text \<open>An answer that is itself \<open>EFBIG\<close>.\<close>

definition answers_efbig :: "collect_round \<Rightarrow> bool" where
  "answers_efbig r \<longleftrightarrow> c_poll r = Io_Poll_Error EFBIG \<or> fst (c_read r) = Io_Error EFBIG \<or> snd (c_read r) = Io_Error EFBIG"

lemma collect_step_inv:
  assumes inv: "pipe_inv a x" "pipe_inv b y" and r: "collect_step r (x, y) = (failed, x', y')"
  shows "pipe_inv a x' \<and> pipe_inv b y' \<and>
    (failed = Some EFBIG \<longrightarrow> length a > OUTPUT_LIMIT \<or> length b > OUTPUT_LIMIT \<or> answers_efbig r)"
proof (cases "c_poll r")
  case Io_Ready
  obtain f0 x0 where c0: "collect_pipe (fst (c_ready r)) (fst (c_realloc r)) (fst (c_read r)) x = (f0, x0)" by fastforce
  note i0 = collect_pipe_inv [OF inv(1) c0]
  obtain f1 y1 where c1: "collect_pipe (snd (c_ready r)) (snd (c_realloc r)) (snd (c_read r)) y = (f1, y1)" by fastforce
  note i1 = collect_pipe_inv [OF inv(2) c1]
  have "(failed, x', y') = (if f0 \<noteq> None then (f0, x0, y) else (f1, x0, y1))"
    using r unfolding collect_step_def Io_Ready poll_result.case Let_def fst_conv snd_conv c0 c1 prod.case
    by simp
  then show ?thesis using i0 i1 inv by (auto simp: answers_efbig_def split: if_splits)
qed (use r inv in \<open>auto simp: collect_step_def answers_efbig_def split: if_splits\<close>)

lemma collect_inv:
  "pipe_inv a x \<Longrightarrow> pipe_inv b y \<Longrightarrow> collect rs (x, y) = Some (failed, x', y') \<Longrightarrow>
   pipe_inv a x' \<and> pipe_inv b y' \<and> (failed = None \<longrightarrow> \<not> u_open x' \<and> \<not> u_open y') \<and>
   (failed = Some EFBIG \<longrightarrow> length a > OUTPUT_LIMIT \<or> length b > OUTPUT_LIMIT \<or> (\<exists>r\<in>set rs. answers_efbig r))"
proof (induction rs arbitrary: x y)
  case Nil
  then show ?case by (auto simp: collect.simps [of "[]"] split: if_splits)
next
  case (Cons r rs)
  show ?case
  proof (cases "\<not> u_open x \<and> \<not> u_open y")
    case True
    then show ?thesis using Cons.prems by (auto simp: collect.simps [of "r # rs"])
  next
    case False
    obtain f x1 y1 where st: "collect_step r (x, y) = (f, x1, y1)" by (metis prod_cases3)
    note i = collect_step_inv [OF Cons.prems(1,2) st]
    show ?thesis
    proof (cases f)
      case None
      then have "collect rs (x1, y1) = Some (failed, x', y')"
        using Cons.prems(3) False st by (simp add: collect.simps [of "r # rs"])
      from Cons.IH [OF _ _ this] i show ?thesis by auto
    next
      case (Some e)
      then have "failed = Some e" "x' = x1" "y' = y1"
        using Cons.prems(3) False st by (simp_all add: collect.simps [of "r # rs"])
      then show ?thesis using i Some by auto
    qed
  qed
qed

lemma new_pipe_inv: "pipe_inv stream (new_pipe stream)"
  by (simp add: pipe_inv_def new_pipe_def)

section \<open>Lemmas on the exchange\<close>

lemma put_get_response: "length bs = 16 \<Longrightarrow> put_response (get_response bs) = bs"
proof -
  assume l: "length bs = 16"
  have f: "wn_image_put (wn_image_u32 (drop n bs)) = take 4 (drop n bs)" if "n \<le> 12" for n
    using wn_image_put_u32 [of "take 4 (drop n bs)"] l that by (simp add: wn_image_u32_take)
  have "bs = take 4 bs @ take 4 (drop 4 bs) @ take 4 (drop 8 bs) @ take 4 (drop 12 bs)"
  proof -
    have "drop 12 bs = take 4 (drop 12 bs)" using l by simp
    moreover have "drop 8 bs = take 4 (drop 8 bs) @ drop 12 bs" using append_take_drop_id [of 4 "drop 8 bs"] by simp
    moreover have "drop 4 bs = take 4 (drop 4 bs) @ drop 8 bs" using append_take_drop_id [of 4 "drop 4 bs"] by simp
    moreover have "bs = take 4 bs @ drop 4 bs" by simp
    ultimately show ?thesis by metis
  qed
  then show ?thesis using f [of 0] f [of 4] f [of 8] f [of 12]
    by (simp add: put_response_def get_response_def)
qed

lemma read_buffer_exact:
  "read_buffer malloc n as pending = Some (Inr bs, rest, as') \<Longrightarrow> pending = bs @ rest \<and> length bs = unat n"
proof -
  assume r: "read_buffer malloc n as pending = Some (Inr bs, rest, as')"
  show ?thesis
  proof (cases "n = 0")
    case True
    then show ?thesis using r by (simp add: read_buffer_def)
  next
    case False
    then have m: "malloc" using r by (auto simp: read_buffer_def split: if_splits)
    obtain q as1 rest1 where t: "transfer_in 0 as (unat n) pending = Some (q, rest1, as1)"
      using r False m by (cases "transfer_in 0 as (unat n) pending") (auto simp: read_buffer_def)
    then have "q = Inr bs \<and> rest1 = rest" using r False m by (cases q) (auto simp: read_buffer_def)
    then show ?thesis using transfer_in_exact t by blast
  qed
qed

text \<open>What a successful run read from its channel.\<close>

lemma read_response_success:
  assumes r: "read_response code malloc as pending es = Some r" and z: "z_code r = 0" and code: "\<forall>e. code e \<noteq> 0"
  shows "\<exists>resp rest. pending = put_response resp @ z_output r @ z_errors r @ rest \<and> e_error resp = 0 \<and>
    z_status r = e_status resp \<and> length (z_output r) = unat (e_output resp) \<and>
    length (z_errors r) = unat (e_errors resp) \<and> unat (e_output resp) \<le> OUTPUT_LIMIT \<and> unat (e_errors resp) \<le> OUTPUT_LIMIT"
proof -
  have nf: "z_code (run_failed c s es) = c" for c s by (simp add: run_failed_def)
  note eq = r [unfolded read_response_def]
  obtain q rest as1 where t: "transfer_in 0 as 16 pending = Some (q, rest, as1)"
    using eq by (cases "transfer_in 0 as 16 pending") auto
  obtain header where q: "q = Inr header" using eq t z code nf by (cases q) auto
  from transfer_in_exact [OF t [unfolded q]] have h: "length header = 16" "pending = header @ rest" by auto
  define resp where "resp = get_response header"
  note eq1 = eq [unfolded t q option.case prod.case sum.case Let_def resp_def [symmetric]]
  have lim: "unat (e_output resp) \<le> OUTPUT_LIMIT" "unat (e_errors resp) \<le> OUTPUT_LIMIT"
    using eq1 z code nf by (auto split: if_splits)
  obtain b0 rest0 as2 where r0: "read_buffer (fst malloc) (e_output resp) as1 rest = Some (b0, rest0, as2)"
    using eq1 lim by (cases "read_buffer (fst malloc) (e_output resp) as1 rest") auto
  obtain bs0 where b0: "b0 = Inr bs0" using eq1 lim r0 z code nf by (cases b0) auto
  obtain b1 rest1 as3 where r1: "read_buffer (snd malloc) (e_errors resp) as2 rest0 = Some (b1, rest1, as3)"
    using eq1 lim r0 b0 by (cases "read_buffer (snd malloc) (e_errors resp) as2 rest0") auto
  obtain bs1 where b1: "b1 = Inr bs1" using eq1 lim r0 b0 r1 z code nf by (cases b1) auto
  have e: "e_error resp = 0" "r = \<lparr>z_code = 0, z_output = bs0, z_errors = bs1, z_status = e_status resp, z_trace = es\<rparr>"
    using eq1 lim r0 b0 r1 b1 z nf by (auto split: if_splits)
  have "rest = bs0 @ rest0 \<and> length bs0 = unat (e_output resp)" using read_buffer_exact r0 b0 by blast
  moreover have "rest0 = bs1 @ rest1 \<and> length bs1 = unat (e_errors resp)" using read_buffer_exact r1 b1 by blast
  moreover have "header = put_response resp" using put_get_response [OF h(1)] by (simp add: resp_def)
  ultimately show ?thesis using h e lim by (intro exI [of _ resp] exI [of _ rest1]) simp
qed

text \<open>A socket that does not fail: writes advance or are interrupted.\<close>

definition steady :: "io_round \<Rightarrow> bool" where
  "steady a \<longleftrightarrow> (case i_io a of Io_Count n \<Rightarrow> n > 0 | Io_Error e \<Rightarrow> e = EINTR)"

lemma transfer_out_steady:
  "\<forall>a\<in>set as. steady a \<Longrightarrow> transfer_out 0 as bytes = Some (r, out, as') \<Longrightarrow> r = Inr () \<and> out = bytes \<and> set as' \<subseteq> set as"
proof (induction as arbitrary: bytes r out)
  case Nil
  then show ?case by (cases bytes) auto
next
  case (Cons a as)
  show ?case
  proof (cases bytes)
    case Nil
    then show ?thesis using Cons.prems by auto
  next
    case b: (Cons c cs)
    have st: "steady a" "\<forall>a\<in>set as. steady a" using Cons.prems(1) by auto
    show ?thesis
    proof (cases "i_io a")
      case (Io_Error e)
      then have "transfer_out 0 as bytes = Some (r, out, as')"
        using st(1) Cons.prems(2) b by (simp add: steady_def broker_io_step_def broker_call_step_def)
      from Cons.IH [OF st(2) this] show ?thesis by auto
    next
      case (Io_Count n)
      then have n: "n > 0" "broker_io_step 0 a = Io_Move n"
        using st(1) by (simp_all add: steady_def broker_io_step_def broker_call_step_def)
      define xs where "xs = take n (c # cs)"
      have ne: "xs \<noteq> []" using n(1) by (simp add: xs_def)
      obtain out' where o: "transfer_out 0 as (drop (length xs) (c # cs)) = Some (r, out', as')" and out: "out = xs @ out'"
        using Cons.prems(2) ne unfolding b transfer_out.simps n(2) io_step.case Let_def xs_def [symmetric] by auto
      have "r = Inr () \<and> out' = drop (length xs) (c # cs) \<and> set as' \<subseteq> set as" by (rule Cons.IH [OF st(2) o])
      moreover have "xs @ drop (length xs) (c # cs) = c # cs" unfolding xs_def by (rule take_drop_length)
      ultimately show ?thesis using out b by auto
    qed
  qed
qed

lemma transfer_in_answers: "transfer_in d as n pending = Some (r, rest, as') \<Longrightarrow> set as' \<subseteq> set as"
proof (induction d as n pending arbitrary: r rest as' rule: transfer_in.induct)
  case (3 d a as n pending)
  show ?case
  proof (cases "broker_io_step d a")
    case (Io_Move k)
    define xs where "xs = take (min (max 1 k) (Suc n)) pending"
    have st: "transfer_in d (a # as) (Suc n) pending =
      (if xs = [] then Some (Inl EPIPE, pending, as)
       else map_option (\<lambda>(r, rest). (map_sum id (\<lambda>got. xs @ got) r, rest))
         (transfer_in d as (Suc n - length xs) (drop (length xs) pending)))"
      unfolding xs_def using Io_Move by (simp only: transfer_in.simps io_step.case Let_def)
    show ?thesis
    proof (cases "xs = []")
      case True
      then show ?thesis using 3(3) [unfolded st] by auto
    next
      case False
      then obtain r2 where "transfer_in d as (Suc n - length xs) (drop (length xs) pending) = Some (r2, rest, as')"
        using 3(3) [unfolded st] by auto
      from 3(2) [OF Io_Move xs_def False this] show ?thesis by auto
    qed
  next
    case (Io_Stop e)
    then show ?thesis using 3(3) by auto
  next
    case Io_Retry
    then show ?thesis using 3(3) 3(1) by auto
  qed
qed auto

lemma tool_receive_answers:
  assumes "tool_receive tools environment env = Some (r, as)"
  shows "set as \<subseteq> set (t_io env)"
proof -
  note eq = assms [unfolded tool_receive_def Let_def]
  obtain q rest as1 where t: "transfer_in 0 (t_io env) 16 (t_in env) = Some (q, rest, as1)"
    using eq by (cases "transfer_in 0 (t_io env) 16 (t_in env)") auto
  note s1 = transfer_in_answers [OF t]
  show ?thesis
  proof (cases q)
    case (Inl e)
    then show ?thesis using eq t s1 by auto
  next
    case (Inr header)
    define req where "req = get_tool_request header"
    note eq1 = eq [unfolded t Inr option.case prod.case sum.case req_def [symmetric]]
    show ?thesis
    proof (cases "tool_request_ok req")
      case False
      then show ?thesis using eq1 s1 by auto
    next
      case True
      obtain q2 rest2 as2 where t2: "transfer_in 0 as1 (unat (o_bytes req)) rest = Some (q2, rest2, as2)"
        using eq1 True by (cases "transfer_in 0 as1 (unat (o_bytes req)) rest") auto
      note s2 = transfer_in_answers [OF t2]
      show ?thesis
      proof (cases q2)
        case (Inl e)
        then show ?thesis using eq1 True t2 s1 s2 by auto
      next
        case (Inr arguments)
        obtain q3 rest3 as3 where t3: "transfer_in 0 as2 (unat (o_proxy_bytes req)) rest2 = Some (q3, rest3, as3)"
          using eq1 True t2 Inr by (cases "transfer_in 0 as2 (unat (o_proxy_bytes req)) rest2") auto
        have "as = as3" using eq1 True t2 Inr t3 by (cases q3) auto
        then show ?thesis using s1 s2 transfer_in_answers [OF t3] by auto
      qed
    qed
  qed
qed

lemma send_response_steady:
  assumes st: "\<forall>a\<in>set as. steady a" and s: "send_response as r output errors = Some written"
  shows "written = put_response r @ output @ errors"
proof -
  note eq = s [unfolded send_response_def]
  obtain q0 w0 as0 where t0: "transfer_out 0 as (put_response r) = Some (q0, w0, as0)"
    using eq by (cases "transfer_out 0 as (put_response r)") auto
  note s0 = transfer_out_steady [OF st t0]
  obtain q1 w1 as1 where t1: "transfer_out 0 as0 output = Some (q1, w1, as1)"
    using eq t0 s0 by (cases "transfer_out 0 as0 output") auto
  have st1: "\<forall>a\<in>set as0. steady a" using s0 st by auto
  note s1 = transfer_out_steady [OF st1 t1]
  obtain q2 w2 as2 where t2: "transfer_out 0 as1 errors = Some (q2, w2, as2)"
    using eq t0 s0 t1 s1 by (cases "transfer_out 0 as1 errors") auto
  have st2: "\<forall>a\<in>set as1. steady a" using s1 st1 by auto
  note s2 = transfer_out_steady [OF st2 t2]
  show ?thesis using eq t0 s0 t1 s1 t2 s2 by auto
qed

text \<open>A run that reports no error collected both streams completely.\<close>

lemma tool_run_success:
  assumes "tool_run env = Some ((None, status, output, errors), es)"
  shows "output = fst (t_streams env) \<and> errors = snd (t_streams env) \<and> (\<exists>w. t_wait env = Inr w) \<and>
    status = of_nat (tool_status (t_wait env)) \<and> length output \<le> OUTPUT_LIMIT \<and> length errors \<le> OUTPUT_LIMIT"
proof -
  obtain failed out err where c: "collect (t_rounds env) (new_pipe (fst (t_streams env)), new_pipe (snd (t_streams env))) = Some (failed, out, err)"
    and f: "failed = None" "output = u_data out" "errors = u_data err" "\<exists>w. t_wait env = Inr w"
      "status = of_nat (tool_status (t_wait env))"
    using assms by (auto simp: tool_run_def Let_def split: sum.splits prod.splits option.splits)
  note i = collect_inv [OF new_pipe_inv new_pipe_inv c]
  have "length (u_data out) \<le> OUTPUT_LIMIT" "length (u_data err) \<le> OUTPUT_LIMIT"
    using i pipe_inv_limit by (auto simp: pipe_inv_def dest!: pipe_inv_limit intro: order_trans)
  then show ?thesis using i f by (auto simp: pipe_inv_def)
qed

text \<open>The channel of a run that got as far as the response.\<close>

lemma wn_tools_run_success:
  assumes r: "wn_tools_run code operation arguments proxy env = Some r" and z: "z_code r = 0"
    and code: "\<forall>e. code e \<noteq> 0"
  shows "\<exists>as es. read_response code (y_malloc env) as (y_in env) es = Some r"
proof -
  have nf: "z_code (run_failed c s es) = c" for c s es by (simp add: run_failed_def)
  note eq = r [unfolded wn_tools_run_def]
  obtain q where enc: "encode_tool_request operation arguments proxy = Inr q"
    using eq z code nf by (cases "encode_tool_request operation arguments proxy") auto
  obtain req payload px where q: "q = (req, payload, px)" by (metis prod_cases3)
  obtain x where ch: "tool_channel req payload px env = Some x"
    using eq enc q by (cases "tool_channel req payload px env") auto
  obtain c es w as where x: "x = (c, es, w, as)" by (metis prod_cases4)
  obtain channel where "c = Inr channel" using eq enc q ch x z code nf by (cases c) auto
  then show ?thesis using eq enc q ch x by auto
qed

section \<open>Properties\<close>

text \<open>
  C30. Bounded and faithful collection: whatever the pipes deliver and however it is cut, the broker
  never holds more than 128 MiB of either stream, what it holds is a prefix of what the tool wrote,
  a collection without error has the whole of both streams, and \<open>EFBIG\<close> is only reported for a stream
  longer than the limit (or by the operating system itself).
\<close>

theorem collect_bounded:
  assumes "collect rounds (new_pipe a, new_pipe b) = Some (failed, out, err)"
  shows "u_capacity out \<le> OUTPUT_LIMIT \<and> u_capacity err \<le> OUTPUT_LIMIT \<and>
    length (u_data out) \<le> u_capacity out \<and> length (u_data err) \<le> u_capacity err \<and>
    u_data out @ u_pending out = a \<and> u_data err @ u_pending err = b \<and>
    (failed = None \<longrightarrow> u_data out = a \<and> u_data err = b) \<and>
    (failed = Some EFBIG \<longrightarrow> length a > OUTPUT_LIMIT \<or> length b > OUTPUT_LIMIT \<or> (\<exists>r\<in>set rounds. answers_efbig r))"
proof -
  note i = collect_inv [OF new_pipe_inv new_pipe_inv assms]
  then have p: "pipe_inv a out" "pipe_inv b err" by simp_all
  have d: "failed = None \<longrightarrow> u_data out = a \<and> u_data err = b" using i by (auto simp: pipe_inv_def)
  show ?thesis using pipe_inv_limit [OF p(1)] pipe_inv_limit [OF p(2)] p d i unfolding pipe_inv_def by blast
qed

definition sample_collect :: "collect_round list" where
  "sample_collect =
     [\<lparr>c_poll = Io_Ready, c_ready = (True, False), c_realloc = (True, True), c_read = (Io_Count 2, Io_Count 1)\<rparr>,
      \<lparr>c_poll = Io_Poll_Error EINTR, c_ready = (True, True), c_realloc = (True, True), c_read = (Io_Count 1, Io_Count 1)\<rparr>,
      \<lparr>c_poll = Io_Ready, c_ready = (True, True), c_realloc = (True, True), c_read = (Io_Count 9, Io_Count 9)\<rparr>,
      \<lparr>c_poll = Io_Ready, c_ready = (True, True), c_realloc = (True, True), c_read = (Io_Count 9, Io_Count 9)\<rparr>]"

lemma sample_collect_run:
  "collect sample_collect (new_pipe [1, 2, 3], new_pipe []) =
     Some (None, \<lparr>u_open = False, u_capacity = 8192, u_data = [1, 2, 3], u_pending = []\<rparr>,
       \<lparr>u_open = False, u_capacity = 8192, u_data = [], u_pending = []\<rparr>)"
  by (simp add: sample_collect_def new_pipe_def collect.simps collect_step_def collect_pipe_def grow_pipe_def read_pipe_def
      OUTPUT_LIMIT_def Let_def)

lemma collect_bounded_witness:
  "\<exists>out err. collect sample_collect (new_pipe [1, 2, 3], new_pipe []) = Some (None, out, err) \<and>
     u_data out = [1, 2, 3] \<and> u_capacity out \<le> OUTPUT_LIMIT"
  using collect_bounded [OF sample_collect_run] sample_collect_run by auto

text \<open>
  C31. End to end: when the application reads from the broker what the broker wrote on a working
  socket, a run that reports success returns exactly the two streams that the tool wrote, both
  within the limit, and the exit status that \<open>waitpid\<close> gave; the tool had been started for a request
  that the broker accepted.
\<close>

theorem tool_run_end_to_end:
  assumes serve: "tool_serve code tools environment server = Some (written, es)"
    and "\<forall>a\<in>set (t_io server). steady a"
    and client: "wn_tools_run code operation arguments proxy env = Some r" "z_code r = 0"
    and "y_in env = written" and code: "\<forall>e. code e \<noteq> 0"
  shows "z_output r = fst (t_streams server) \<and> z_errors r = snd (t_streams server) \<and>
    length (z_output r) \<le> OUTPUT_LIMIT \<and> length (z_errors r) \<le> OUTPUT_LIMIT \<and>
    (\<exists>w. t_wait server = Inr w \<and> z_status r = of_nat (tool_status (Inr w))) \<and>
    (\<exists>command as. tool_receive tools environment server = Some (Inr command, as))"
proof -
  obtain as' es' where "read_response code (y_malloc env) as' (y_in env) es' = Some r"
    using wn_tools_run_success [OF client code] by blast
  from read_response_success [OF this client(2) code] obtain resp rest where
    p: "written = put_response resp @ z_output r @ z_errors r @ rest" "e_error resp = 0" "z_status r = e_status resp"
      "length (z_output r) = unat (e_output resp)" "length (z_errors r) = unat (e_errors resp)"
    by (auto simp: assms(5))
  have inj: "resp = r' \<and> xs @ ys = zs" if "put_response resp @ xs @ ys = put_response r' @ zs" for r' xs ys zs
  proof -
    have "get_response (put_response resp @ xs @ ys) = get_response (put_response r' @ zs)" using that by simp
    then have "resp = r'" by (simp add: response_codec.get_put)
    then show ?thesis using that by simp
  qed
  obtain q as where rc: "tool_receive tools environment server = Some (q, as)"
    using serve by (cases "tool_receive tools environment server") (auto simp: tool_serve_def)
  have st: "\<forall>a\<in>set as. steady a" using tool_receive_answers [OF rc] assms(2) by auto
  note sv = serve [unfolded tool_serve_def rc option.case prod.case]
  show ?thesis
  proof (cases q)
    case (Inl e)
    then have "send_response as \<lparr>e_error = code e, e_status = -1, e_output = 0, e_errors = 0\<rparr> [] [] = Some written"
      using sv by auto
    from send_response_steady [OF st this] p(1) inj
    have "resp = \<lparr>e_error = code e, e_status = -1, e_output = 0, e_errors = 0\<rparr>" by (metis append_assoc append_Nil2)
    then show ?thesis using p(2) code by simp
  next
    case (Inr command)
    obtain error status out err es'' where run: "tool_run server = Some ((error, status, out, err), es'')"
      using sv Inr by (cases "tool_run server") auto
    define resp' where "resp' = \<lparr>e_error = error_code code error, e_status = status, e_output = of_nat (length out),
        e_errors = of_nat (length err)\<rparr>"
    have "send_response as resp' out err = Some written" using sv Inr run by (auto simp: resp'_def)
    from send_response_steady [OF st this] have w: "written = put_response resp' @ out @ err" .
    have resp: "resp = resp'" "z_output r @ z_errors r @ rest = out @ err" using inj p(1) w by metis+
    have "error = None" using p(2) resp(1) code by (cases error) (auto simp: resp'_def error_code_def)
    note s = tool_run_success [OF run [unfolded this]]
    have "length (z_output r) = length out" "length (z_errors r) = length err"
      using p(4,5) s unfolding resp(1) resp'_def by (auto simp: OUTPUT_LIMIT_def intro!: unat_of_nat_u32)
    then have "z_output r = out" "z_errors r = err" using resp(2) by auto
    then show ?thesis using s rc Inr p(3) resp(1) by (auto simp: resp'_def)
  qed
qed

definition sample_tool :: tool_env where
  "sample_tool = \<lparr>t_io = [], t_in = [], t_pipe0 = Inr (3, 4), t_pipe1 = Inr (5, 6), t_fork = Inr 42, t_rounds = sample_collect,
     t_streams = ([1, 2, 3], []), t_wait = Inr 256\<rparr>"

lemma sample_tool_run:
  "tool_run sample_tool = Some ((None, 1, [1, 2, 3], []),
     [Fd_Open 3, Fd_Open 4, Fd_Open 5, Fd_Open 6, Child_Spawned 42, Fd_Close 4, Fd_Close 6, Fd_Close 3, Fd_Close 5, Child_Reaped 42])"
  using sample_collect_run by (simp add: tool_run_def sample_tool_def tool_status_def)

definition sample_server :: tool_env where
  "sample_server = sample_tool\<lparr>t_io := replicate 3 (sample_round 0 (Io_Count 20)),
     t_in := put_tool_request \<lparr>o_operation = 2, o_count = 0, o_bytes = 0, o_proxy_bytes = 0\<rparr>\<rparr>"

definition sample_response :: response where
  "sample_response = \<lparr>e_error = 0, e_status = 1, e_output = 3, e_errors = 0\<rparr>"

definition sample_client :: run_env where
  "sample_client = \<lparr>y_pair = Inr (3, 4), y_cloexec = None, y_channel = True,
     y_io = replicate 3 (sample_round 0 (Io_Count 20)), y_in = put_response sample_response @ [1, 2, 3],
     y_malloc = (True, True)\<rparr>"

lemma busy_in:
  "0 < n \<Longrightarrow> n \<le> 20 \<Longrightarrow> length xs = n \<Longrightarrow>
   transfer_in 0 (sample_round 0 (Io_Count 20) # as) n (xs @ ys) = Some (Inr xs, ys, as)"
  by (cases n) (auto simp: sample_round_def broker_io_step_def broker_call_step_def Let_def min_def)

lemma busy_out:
  "xs \<noteq> [] \<Longrightarrow> length xs \<le> 20 \<Longrightarrow> transfer_out 0 (sample_round 0 (Io_Count 20) # as) xs = Some (Inr (), xs, as)"
  by (cases xs) (auto simp: sample_round_def broker_io_step_def broker_call_step_def Let_def)

lemma sample_exchange_run:
  "\<exists>es. tool_serve (\<lambda>e. 5) (\<lambda>_. [47]) [] sample_server = Some (put_response sample_response @ [1, 2, 3], es)"
  "wn_tools_run (\<lambda>e. 5) 2 [] None sample_client = Some
     \<lparr>z_code = 0, z_output = [1, 2, 3], z_errors = [], z_status = 1, z_trace = [Fd_Open 3, Fd_Open 4, Fd_Close 4, Fd_Close 3]\<rparr>"
proof -
  let ?b = "sample_round 0 (Io_Count 20)"
  have r3: "replicate 3 ?b = [?b, ?b, ?b]" by (simp add: numeral_eq_Suc)
  have l: "length (put_tool_request q) = 16" "length (put_response r) = 16" for q r
    by (simp_all add: put_tool_request_def put_response_def)
  then have ne: "put_tool_request q \<noteq> []" "put_response r \<noteq> []" for q r by (metis list.size(3) zero_neq_numeral)+
  have i1: "transfer_in 0 (?b # as) 16 (put_tool_request q) = Some (Inr (put_tool_request q), [], as)" for q as
    using busy_in [of 16 "put_tool_request q" as "[]"] l by simp
  have i2: "transfer_in 0 (?b # as) 16 (put_response q @ ys) = Some (Inr (put_response q), ys, as)" for q as ys
    using busy_in [of 16 "put_response q" as ys] l by simp
  have i3: "transfer_in 0 (?b # as) 3 [1, 2, 3] = Some (Inr [1, 2, 3], [], as)" for as
    using busy_in [of 3 "[1, 2, 3]" as "[]"] by simp
  have o1: "transfer_out 0 (?b # as) (put_response q) = Some (Inr (), put_response q, as)"
    "transfer_out 0 (?b # as) (put_tool_request q') = Some (Inr (), put_tool_request q', as)" for q q' as
    using busy_out l ne by simp_all
  have o3: "transfer_out 0 (?b # as) [1, 2, 3] = Some (Inr (), [1, 2, 3], as)" for as
    using busy_out [of "[1, 2, 3]" as] by simp
  have ok: "tool_request_ok \<lparr>o_operation = 2, o_count = 0, o_bytes = 0, o_proxy_bytes = 0\<rparr>"
    by (simp add: tool_request_ok_def WN_TOOL_CURL_def WN_TOOL_SAVE_DIALOG_def)
  have "tool_receive (\<lambda>_. [47]) [] sample_server = Some (Inr ([[47]], []), [?b, ?b])"
    by (simp add: tool_receive_def sample_server_def r3 i1 tool_request_codec.get_put_alone ok parse_tool_request_def
        tool_child_environment_def del: transfer_in.simps(3))
  moreover have f: "t_pipe0 sample_server = t_pipe0 sample_tool" "t_pipe1 sample_server = t_pipe1 sample_tool"
    "t_fork sample_server = t_fork sample_tool" "t_rounds sample_server = t_rounds sample_tool"
    "t_streams sample_server = t_streams sample_tool" "t_wait sample_server = t_wait sample_tool"
    by (simp_all add: sample_server_def)
  have "tool_run sample_server = tool_run sample_tool" unfolding tool_run_def f ..
  ultimately show "\<exists>es. tool_serve (\<lambda>e. 5) (\<lambda>_. [47]) [] sample_server = Some (put_response sample_response @ [1, 2, 3], es)"
    using sample_tool_run
    by (simp add: tool_serve_def send_response_def error_code_def sample_response_def [symmetric] o1 o3 del: transfer_out.simps(3))
  have enc: "encode_tool_request 2 [] None = Inr (\<lparr>o_operation = 2, o_count = 0, o_bytes = 0, o_proxy_bytes = 0\<rparr>, [], [])"
    by (simp add: encode_tool_request_def)
  have "get_response (put_response sample_response) = sample_response" by (rule response_codec.get_put_alone)
  then show "wn_tools_run (\<lambda>e. 5) 2 [] None sample_client = Some
     \<lparr>z_code = 0, z_output = [1, 2, 3], z_errors = [], z_status = 1, z_trace = [Fd_Open 3, Fd_Open 4, Fd_Close 4, Fd_Close 3]\<rparr>"
    by (simp add: wn_tools_run_def enc tool_channel_def sample_client_def r3 o1 read_response_def i2 read_buffer_def i3
        sample_response_def OUTPUT_LIMIT_def del: transfer_out.simps(3) transfer_in.simps(3))
qed

lemma tool_run_end_to_end_witness:
  "\<exists>r. wn_tools_run (\<lambda>e. 5) 2 [] None sample_client = Some r \<and> z_output r = fst (t_streams sample_server) \<and>
     z_status r = of_nat (tool_status (t_wait sample_server))"
proof -
  obtain es where s: "tool_serve (\<lambda>e. 5) (\<lambda>_. [47]) [] sample_server = Some (put_response sample_response @ [1, 2, 3], es)"
    using sample_exchange_run(1) by blast
  have st: "\<forall>a\<in>set (t_io sample_server). steady a" by (simp add: sample_server_def steady_def sample_round_def)
  have "y_in sample_client = put_response sample_response @ [1, 2, 3]" by (simp add: sample_client_def)
  from tool_run_end_to_end [OF s st sample_exchange_run(2) _ this] show ?thesis
    using sample_exchange_run(2) by auto
qed



end
