(* ===== verification/Broker_Channel.thy ===== *)
theory Broker_Channel
  imports Frames
begin

text \<open>
  How a caller's standard descriptors reach a helper (\<open>app/helper_broker.c\<close>): \<open>send_channel\<close> attaches
  them to one byte on the launcher's socket, \<open>receive_channel\<close> takes them off, the job process of
  \<open>launch_loop\<close> moves them into place and \<open>execute_helper\<close> installs them. A process's descriptors are
  a map from numbers to open files; numbers that the kernel chooses are arguments.
\<close>

section \<open>Descriptor tables\<close>

type_synonym 'o fd_table = "int \<rightharpoonup> 'o"

definition close_fd :: "int \<Rightarrow> 'o fd_table \<Rightarrow> 'o fd_table" where
  "close_fd fd table = table(fd := None)"

text \<open>\<open>close_range(first, ~0)\<close>.\<close>

definition close_above :: "int \<Rightarrow> 'o fd_table \<Rightarrow> 'o fd_table" where
  "close_above first table = (\<lambda>fd. if fd \<ge> first then None else table fd)"

definition close_all :: "int list \<Rightarrow> 'o fd_table \<Rightarrow> 'o fd_table" where
  "close_all fds table = fold close_fd fds table"

text \<open>The three standard descriptors.\<close>

definition stdio_fds :: "int list" where "stdio_fds = [0, 1, 2]"

section \<open>Sending\<close>

text \<open>A standard descriptor is open, absent (\<open>EBADF\<close>), or \<open>fcntl\<close> fails otherwise.\<close>

datatype probe = Probe_Open | Probe_Absent | Probe_Failed

fun probe_stdio :: "(int \<Rightarrow> probe) \<Rightarrow> int list \<Rightarrow> int list \<Rightarrow> byte \<Rightarrow> (int list \<times> byte) option" where
  "probe_stdio probe [] descriptors bits = Some (descriptors, bits)"
| "probe_stdio probe (fd # fds) descriptors bits =
     (case probe fd of
        Probe_Open \<Rightarrow> probe_stdio probe fds (descriptors @ [fd]) (bits OR push_bit (nat fd) 1)
      | Probe_Absent \<Rightarrow> probe_stdio probe fds descriptors bits
      | Probe_Failed \<Rightarrow> None)"

text \<open>The byte and the descriptors of the message; None is the result -1.\<close>

definition send_channel :: "(int \<Rightarrow> probe) \<Rightarrow> int \<Rightarrow> (int list \<times> byte) option" where
  "send_channel probe channel = probe_stdio probe stdio_fds [channel] 0"

section \<open>Receiving\<close>

text \<open>One control message: whether it carries rights, the descriptors in it, an odd length.\<close>

record control =
  q_rights :: bool
  q_fds :: "int list"
  q_odd :: bool

record channel_message =
  m_bytes :: nat
  m_truncated :: bool
  m_mask :: byte
  m_controls :: "control list"

datatype received = Channel_Closed | Channel_Interrupted | Channel_Message channel_message

datatype channel_result = Channel_Lost | Channel_Ignored | Channel_Accepted "int list"

text \<open>\<open>descriptors[count++]\<close>, or close and refuse what exceeds the array.\<close>

definition collect_fd :: "int \<Rightarrow> int list \<times> bool \<times> 'o fd_table \<Rightarrow> int list \<times> bool \<times> 'o fd_table" where
  "collect_fd fd s =
     (let (descriptors, invalid, table) = s in
      if length descriptors = 4 then (descriptors, True, close_fd fd table)
      else (descriptors @ [fd], invalid, table))"

definition collect_control :: "control \<Rightarrow> int list \<times> bool \<times> 'o fd_table \<Rightarrow> int list \<times> bool \<times> 'o fd_table" where
  "collect_control c s =
     (let (descriptors, invalid, table) = s in
      if \<not> q_rights c then (descriptors, True, table)
      else fold collect_fd (q_fds c) (descriptors, invalid \<or> q_odd c, table))"

text \<open>
  Moving every collected descriptor above 9; \<open>dup i\<close> is the kernel's answer to the \<open>i\<close>-th
  \<open>F_DUPFD_CLOEXEC\<close>, negative for a failure.
\<close>

fun normalise :: "(nat \<Rightarrow> int) \<Rightarrow> nat \<Rightarrow> int list \<Rightarrow> bool \<Rightarrow> 'o fd_table \<Rightarrow> int list \<times> bool \<times> 'o fd_table" where
  "normalise dup i [] invalid table = ([], invalid, table)"
| "normalise dup i (fd # fds) invalid table =
     (let moved = (if invalid then -1 else dup i);
          table = close_fd fd (if moved \<ge> 0 then table(moved := table fd) else table);
          (descriptors, invalid, table) = normalise dup (i + 1) fds (invalid \<or> moved < 0) table
      in (moved # descriptors, invalid, table))"

definition wanted_count :: "byte \<Rightarrow> nat" where
  "wanted_count bits = 1 + length (filter (\<lambda>fd. drop_bit (nat fd) bits AND 1 \<noteq> 0) stdio_fds)"

definition receive_message :: "(nat \<Rightarrow> int) \<Rightarrow> channel_message \<Rightarrow> 'o fd_table \<Rightarrow> channel_result \<times> 'o fd_table" where
  "receive_message dup m table =
     (let invalid = (m_bytes m \<noteq> 1 \<or> m_truncated m \<or> m_mask m AND NOT 7 \<noteq> 0);
          (descriptors, invalid, table) = fold collect_control (m_controls m) ([], invalid, table);
          invalid = (invalid \<or> length descriptors \<noteq> wanted_count (m_mask m));
          (descriptors, invalid, table) = normalise dup 0 descriptors invalid table
      in if invalid then (Channel_Ignored, close_all (filter (\<lambda>fd. fd \<ge> 0) descriptors) table)
         else (Channel_Accepted descriptors, table))"

definition receive_channel :: "(nat \<Rightarrow> int) \<Rightarrow> received \<Rightarrow> 'o fd_table \<Rightarrow> channel_result \<times> 'o fd_table" where
  "receive_channel dup r table =
     (case r of
        Channel_Closed \<Rightarrow> (Channel_Lost, table)
      | Channel_Interrupted \<Rightarrow> (Channel_Ignored, table)
      | Channel_Message m \<Rightarrow> receive_message dup m table)"

section \<open>In the job process\<close>

text \<open>The child of \<open>launch_loop\<close>: control channel to 3, standard descriptors to 4, 5 and 6.\<close>

fun place_stdio :: "byte \<Rightarrow> int list \<Rightarrow> int list \<Rightarrow> 'o fd_table \<Rightarrow> 'o fd_table option" where
  "place_stdio bits [] descriptors table = Some table"
| "place_stdio bits (fd # fds) descriptors table =
     (if bits AND push_bit (nat fd) 1 \<noteq> 0
      then (case dup2 (hd descriptors) (fd + 4) table of
              None \<Rightarrow> None
            | Some table \<Rightarrow> place_stdio bits fds (tl descriptors) table)
      else place_stdio bits fds descriptors table)"

definition job_table :: "byte \<Rightarrow> int list \<Rightarrow> 'o fd_table \<Rightarrow> 'o fd_table option" where
  "job_table bits descriptors table =
     (case dup2 (hd descriptors) 3 table of
        None \<Rightarrow> None
      | Some table \<Rightarrow> map_option (close_above 7) (place_stdio bits stdio_fds (tl descriptors) table))"

text \<open>
  What \<open>execute_helper\<close> does to the table: the handshake pipe to 3 (close-on-exec), the caller's
  descriptors to 0, 1 and 2, everything else closed.
\<close>

fun install_stdio :: "byte \<Rightarrow> int list \<Rightarrow> 'o fd_table \<Rightarrow> 'o fd_table option" where
  "install_stdio bits [] table = Some table"
| "install_stdio bits (fd # fds) table =
     (if bits AND push_bit (nat fd) 1 \<noteq> 0
      then (case dup2 (fd + 4) fd table of None \<Rightarrow> None | Some table \<Rightarrow> install_stdio bits fds table)
      else install_stdio bits fds (close_fd fd table))"

definition helper_table :: "byte \<Rightarrow> int \<Rightarrow> 'o fd_table \<Rightarrow> 'o fd_table option" where
  "helper_table bits error_fd table =
     (case dup2 error_fd 3 table of
        None \<Rightarrow> None
      | Some table \<Rightarrow> map_option (close_above 4) (install_stdio bits stdio_fds table))"

text \<open>What is left after \<open>execve\<close>: descriptor 3 is close-on-exec.\<close>

definition exec_table :: "byte \<Rightarrow> int \<Rightarrow> 'o fd_table \<Rightarrow> 'o fd_table option" where
  "exec_table bits error_fd table = map_option (close_fd 3) (helper_table bits error_fd table)"

section \<open>Lemmas on sending\<close>

definition open_stdio :: "(int \<Rightarrow> probe) \<Rightarrow> int list" where
  "open_stdio probe = filter (\<lambda>fd. probe fd = Probe_Open) stdio_fds"

lemma send_channel_cases:
  "send_channel probe channel = Some (ds, bits) \<Longrightarrow>
   (\<forall>fd\<in>{0, 1, 2}. probe fd \<noteq> Probe_Failed) \<and>
   ds = channel # open_stdio probe \<and>
   bits = (if probe 0 = Probe_Open then 1 else 0) + (if probe 1 = Probe_Open then 2 else 0) +
          (if probe 2 = Probe_Open then 4 else 0)"
  by (cases "probe 0"; cases "probe 1"; cases "probe 2")
    (simp_all add: send_channel_def stdio_fds_def open_stdio_def)

lemma stdio_bits:
  fixes a b c :: bool
  defines "bits \<equiv> (if a then 1 else 0) + (if b then 2 else 0) + (if c then 4 else 0) :: byte"
  shows "bits AND NOT 7 = 0" "bits AND 1 \<noteq> 0 \<longleftrightarrow> a" "bits AND 2 \<noteq> 0 \<longleftrightarrow> b" "bits AND 4 \<noteq> 0 \<longleftrightarrow> c"
    "drop_bit 1 bits AND 1 \<noteq> 0 \<longleftrightarrow> b" "drop_bit 2 bits AND 1 \<noteq> 0 \<longleftrightarrow> c"
  by (cases a; cases b; cases c; simp add: bits_def)+

section \<open>Lemmas on receiving\<close>

lemma close_all_apply: "close_all fds table x = (if x \<in> set fds then None else table x)"
  by (induction fds arbitrary: table) (auto simp: close_all_def close_fd_def)

text \<open>The descriptors the kernel installed for a message.\<close>

definition rights_fds :: "channel_message \<Rightarrow> int list" where
  "rights_fds m = concat (map q_fds (filter q_rights (m_controls m)))"

lemma collect_fds:
  "length ds \<le> 4 \<Longrightarrow> fold collect_fd fds (ds, invalid, table) =
     (take 4 (ds @ fds), invalid \<or> length (ds @ fds) > 4, close_all (drop (4 - length ds) fds) table)"
proof (induction fds arbitrary: ds invalid table)
  case Nil
  then show ?case by (simp add: close_all_def)
next
  case (Cons fd fds)
  show ?case
  proof (cases "length ds = 4")
    case True
    then show ?thesis using Cons.IH [of ds True "close_fd fd table"]
      by (simp add: collect_fd_def close_all_def)
  next
    case False
    then have "4 - length ds = Suc (4 - length (ds @ [fd]))" using Cons.prems by simp
    then show ?thesis using False Cons.prems Cons.IH [of "ds @ [fd]" invalid table]
      by (simp add: collect_fd_def)
  qed
qed

lemma collect_controls:
  "length ds \<le> 4 \<Longrightarrow>
   fold collect_control cs (ds, invalid, table) =
     (take 4 (ds @ concat (map q_fds (filter q_rights cs))),
      invalid \<or> (\<exists>c\<in>set cs. \<not> q_rights c \<or> q_odd c) \<or>
        length (ds @ concat (map q_fds (filter q_rights cs))) > 4,
      close_all (drop (4 - length ds) (concat (map q_fds (filter q_rights cs)))) table)"
proof (induction cs arbitrary: ds invalid table)
  case Nil
  then show ?case by (simp add: close_all_def)
next
  case (Cons c cs)
  show ?case
  proof (cases "q_rights c")
    case False
    then show ?thesis using Cons by (simp add: collect_control_def)
  next
    case True
    let ?fs = "concat (map q_fds (filter q_rights cs))"
    have st: "collect_control c (ds, invalid, table) =
      (take 4 (ds @ q_fds c), invalid \<or> q_odd c \<or> length (ds @ q_fds c) > 4,
       close_all (drop (4 - length ds) (q_fds c)) table)"
      using True Cons.prems by (simp add: collect_control_def collect_fds)
    have tk: "take 4 (take 4 (ds @ q_fds c) @ ?fs) = take 4 (ds @ q_fds c @ ?fs)"
      using Cons.prems by (cases "length (ds @ q_fds c) \<le> 4") (simp_all add: take_append min_def)
    have cl: "close_all (drop (4 - length (take 4 (ds @ q_fds c))) ?fs) (close_all (drop (4 - length ds) (q_fds c)) table)
      = close_all (drop (4 - length ds) (q_fds c @ ?fs)) table"
      using Cons.prems by (auto simp: close_all_def min_def)
    have "length (take 4 (ds @ q_fds c)) \<le> 4" by simp
    from Cons.IH [OF this] show ?thesis using True tk cl
      by (simp add: st) (auto simp: min_def)
  qed
qed

text \<open>The kernel answers a number that is free at that moment, at least the minimum asked for.\<close>

fun fresh_dups :: "(nat \<Rightarrow> int) \<Rightarrow> nat \<Rightarrow> int list \<Rightarrow> 'o fd_table \<Rightarrow> bool" where
  "fresh_dups dup i [] table = True"
| "fresh_dups dup i (fd # fds) table =
     (dup i < 0 \<or> (dup i \<ge> 10 \<and> table (dup i) = None \<and>
        fresh_dups dup (i + 1) fds (close_fd fd (table(dup i := table fd)))))"

lemma normalise_length: "normalise dup i fds invalid table = (ds, invalid', table') \<Longrightarrow> length ds = length fds"
  by (induction dup i fds invalid table arbitrary: ds invalid' table' rule: normalise.induct)
    (auto simp: Let_def split: prod.splits)

lemma normalise_invalid:
  "normalise dup i fds True table = (map (\<lambda>_. -1) fds, True, close_all fds table)"
  by (induction fds arbitrary: i table) (simp_all add: Let_def close_all_def)

text \<open>Every collected descriptor is closed, and what was opened instead is recorded.\<close>

lemma normalise_spec:
  assumes "normalise dup i fds False table = (ds, invalid, table')"
    and "distinct fds" "set fds \<subseteq> dom table" "fresh_dups dup i fds table"
  defines "kept \<equiv> filter (\<lambda>fd. fd \<ge> 0) ds"
  shows "(\<forall>x. x \<notin> set kept \<longrightarrow> table' x = (if x \<in> set fds then None else table x)) \<and>
    set kept \<inter> dom table \<subseteq> set fds \<and> distinct kept \<and> (\<forall>d\<in>set kept. 10 \<le> d) \<and>
    (\<not> invalid \<longrightarrow> kept = ds \<and> map table' ds = map table fds)"
  using assms(1-4) unfolding kept_def
proof (induction fds arbitrary: i table ds invalid table')
  case Nil
  then show ?case by simp
next
  case (Cons fd fds)
  show ?case
  proof (cases "dup i < 0")
    case True
    then have "ds = dup i # map (\<lambda>_. -1) fds" "invalid" "table' = close_all fds (close_fd fd table)"
      using Cons.prems(1) by (simp_all add: normalise_invalid Let_def)
    then show ?thesis using True by (auto simp: close_all_apply close_fd_def filter_empty_conv)
  next
    case False
    define t1 where "t1 = close_fd fd (table(dup i := table fd))"
    have fr: "10 \<le> dup i" "table (dup i) = None" "fresh_dups dup (i + 1) fds t1"
      using Cons.prems(4) False by (simp_all add: t1_def)
    obtain ms inv where n: "normalise dup (i + 1) fds False t1 = (ms, inv, table')"
      and ds: "ds = dup i # ms" "invalid = inv"
      using Cons.prems(1) False fr(1) by (auto simp: Let_def t1_def split: prod.splits)
    have new: "dup i \<notin> set (fd # fds)" using fr(2) Cons.prems(3) by (metis domIff subsetD)
    have sub: "set fds \<subseteq> dom t1"
      using Cons.prems(2,3) new by (auto simp: t1_def close_fd_def)
    note ih = Cons.IH [OF n _ sub fr(3)]
    have d: "distinct fds" using Cons.prems(2) by simp
    note ih = ih [OF d]
    let ?k = "filter (\<lambda>fd. fd \<ge> 0) ms"
    have t1: "t1 (dup i) = table fd" "table fd \<noteq> None" "t1 fd = None"
      using new Cons.prems(3) by (auto simp: t1_def close_fd_def)
    have nk: "dup i \<notin> set ?k" using ih t1(1,2) new by auto
    have at: "table' (dup i) = table fd" using ih nk new t1(1) by simp
    have "map table' ms = map table fds" if "\<not> inv"
    proof -
      have "map t1 fds = map table fds" using new Cons.prems(2) by (auto simp: t1_def close_fd_def)
      then show ?thesis using ih that by simp
    qed
    moreover have "table' x = (if x \<in> set (fd # fds) then None else table x)"
      if "x \<noteq> dup i" "x \<notin> set ?k" for x
      using ih that by (auto simp: t1_def close_fd_def)
    moreover have "set ?k \<inter> dom table \<subseteq> set (fd # fds)"
    proof
      fix x assume x: "x \<in> set ?k \<inter> dom table"
      show "x \<in> set (fd # fds)"
      proof (cases "x = fd")
        case False
        then have "x \<in> dom t1" using x fr(2) by (auto simp: t1_def close_fd_def)
        then show ?thesis using ih x by auto
      qed simp
    qed
    moreover have "distinct ?k" "\<forall>d\<in>set ?k. 10 \<le> d" "\<not> inv \<longrightarrow> ?k = ms" using ih by simp_all
    ultimately show ?thesis using nk at fr(1,2) False
      by (simp add: ds) blast
  qed
qed

lemma receive_message_spec:
  fixes m table dup
  defines "fds \<equiv> rights_fds m"
  assumes "distinct fds" "set fds \<subseteq> dom table" "fresh_dups dup 0 (take 4 fds) (close_all (drop 4 fds) table)"
    and r: "receive_message dup m table = (res, table')"
  shows "(res = Channel_Ignored \<and> (\<forall>x. table' x = (if x \<in> set fds then None else table x))) \<or>
    (\<exists>ds. res = Channel_Accepted ds \<and> length ds = wanted_count (m_mask m) \<and> length ds = length fds \<and>
      distinct ds \<and> (\<forall>d\<in>set ds. 10 \<le> d) \<and> map table' ds = map table fds \<and>
      set ds \<inter> dom table \<subseteq> set fds \<and>
      (\<forall>x. x \<notin> set ds \<longrightarrow> table' x = (if x \<in> set fds then None else table x)))"
proof -
  define t1 where "t1 = close_all (drop 4 fds) table"
  define inv0 where "inv0 = (m_bytes m \<noteq> 1 \<or> m_truncated m \<or> m_mask m AND NOT 7 \<noteq> 0)"
  define inv1 where "inv1 = (inv0 \<or> (\<exists>c\<in>set (m_controls m). \<not> q_rights c \<or> q_odd c) \<or> length fds > 4)"
  have co: "fold collect_control (m_controls m) ([], inv0, table) = (take 4 fds, inv1, t1)"
    using collect_controls [of "[]" "m_controls m" inv0 table]
    by (simp only: fds_def rights_fds_def t1_def inv1_def) simp
  define inv2 where "inv2 = (inv1 \<or> length (take 4 fds) \<noteq> wanted_count (m_mask m))"
  obtain ds inv3 t2 where n: "normalise dup 0 (take 4 fds) inv2 t1 = (ds, inv3, t2)"
    by (metis prod_cases3)
  have res: "(res, table') = (if inv3 then (Channel_Ignored, close_all (filter (\<lambda>fd. fd \<ge> 0) ds) t2)
      else (Channel_Accepted ds, t2))"
    using r unfolding receive_message_def inv0_def [symmetric] Let_def co prod.case inv2_def [symmetric] n
    by simp
  show ?thesis
  proof (cases inv2)
    case True
    then have "inv3" "filter (\<lambda>fd. fd \<ge> 0) ds = []" "t2 = close_all (take 4 fds) t1"
      using n by (auto simp: normalise_invalid)
    moreover have "close_all (take 4 fds) t1 x = (if x \<in> set fds then None else table x)" for x
    proof -
      have "set fds = set (take 4 fds) \<union> set (drop 4 fds)" by (metis append_take_drop_id set_append)
      then show ?thesis by (auto simp: t1_def close_all_apply)
    qed
    ultimately show ?thesis using res by (simp add: close_all_def)
  next
    case False
    have le: "length fds \<le> 4" and w: "length fds = wanted_count (m_mask m)"
      using False by (auto simp: inv2_def inv1_def)
    then have t1: "t1 = table" "take 4 fds = fds" by (simp_all add: t1_def close_all_def)
    note sp = normalise_spec [OF n [unfolded t1 iffD2 [OF eq_False False]] assms(2,3)]
    have f: "fresh_dups dup 0 fds table" using assms(4) le by (simp add: close_all_def)
    note sp = sp [OF f]
    have l: "length ds = length fds" using normalise_length [OF n] t1(2) by simp
    show ?thesis
    proof (cases inv3)
      case True
      have "close_all (filter (\<lambda>fd. fd \<ge> 0) ds) t2 x = (if x \<in> set fds then None else table x)" for x
      proof (cases "x \<in> set (filter (\<lambda>fd. fd \<ge> 0) ds)")
        case True
        then have "x \<notin> dom table \<or> x \<in> set fds" using sp by blast
        then show ?thesis using True by (auto simp: close_all_apply domIff)
      next
        case False
        then show ?thesis using conjunct1 [OF sp] by (auto simp: close_all_apply)
      qed
      then show ?thesis using res True by simp
    next
      case False
      then have k: "filter (\<lambda>fd. fd \<ge> 0) ds = ds" using sp by blast
      then show ?thesis using sp [unfolded k] False res l w by auto
    qed
  qed
qed

lemma receive_message_accepts:
  assumes "m_bytes m = 1" "\<not> m_truncated m" "m_mask m AND NOT 7 = 0"
    and "m_controls m = [\<lparr>q_rights = True, q_fds = fds, q_odd = False\<rparr>]"
    and "length fds = wanted_count (m_mask m)" "length fds \<le> 4"
    and "\<forall>i<4. 0 \<le> dup i"
  shows "\<exists>ds table'. receive_message dup m table = (Channel_Accepted ds, table')"
proof -
  have n: "\<exists>ds t'. normalise dup i xs False t = (ds, False, t')" if "i + length xs \<le> 4" for i xs and t :: "'a fd_table"
    using that
  proof (induction xs arbitrary: i t)
    case Nil
    then show ?case by simp
  next
    case (Cons x xs)
    then have "0 \<le> dup i" using assms(7) by simp
    moreover obtain ds t' where
      "normalise dup (i + 1) xs False (close_fd x (t(dup i := t x))) = (ds, False, t')"
      using Cons.IH [of "i + 1" "close_fd x (t(dup i := t x))"] Cons.prems by auto
    ultimately show ?case by (simp add: Let_def)
  qed
  have "fold collect_control (m_controls m) ([], False, table) = (fds, False, table)"
    using assms(4,6) by (simp add: collect_control_def collect_fds close_all_def)
  then show ?thesis using n [of 0 fds table] assms(1-3,5,6) by (auto simp: receive_message_def)
qed

section \<open>Properties\<close>

text \<open>
  C19. No descriptor leaks through the launcher: whatever control messages a client attaches (wrong
  types, odd lengths, too many, not the announced number), \<open>receive_channel\<close> either accepts exactly
  the announced number of descriptors, each moved to a number above 9 and referring to the same open
  file, or ignores the message; in both cases every number the kernel installed for the message is
  free again and no other descriptor has changed.
\<close>

theorem receive_channel_no_leak:
  assumes "distinct (rights_fds m)" "set (rights_fds m) \<subseteq> dom table"
    and "fresh_dups dup 0 (take 4 (rights_fds m)) (close_all (drop 4 (rights_fds m)) table)"
    and "receive_channel dup (Channel_Message m) table = (res, table')"
  shows "(res = Channel_Ignored \<and> (\<forall>x. table' x = (if x \<in> set (rights_fds m) then None else table x))) \<or>
    (\<exists>ds. res = Channel_Accepted ds \<and> length ds = wanted_count (m_mask m) \<and> length ds = length (rights_fds m) \<and>
      distinct ds \<and> (\<forall>d\<in>set ds. 10 \<le> d) \<and> map table' ds = map table (rights_fds m) \<and>
      set ds \<inter> dom table \<subseteq> set (rights_fds m) \<and>
      (\<forall>x. x \<notin> set ds \<longrightarrow> table' x = (if x \<in> set (rights_fds m) then None else table x)))"
  by (rule receive_message_spec [OF assms(1-3)]) (use assms(4) in \<open>simp add: receive_channel_def\<close>)

lemma receive_channel_no_leak_witness:
  "receive_channel (\<lambda>i. if i = 0 then 10 else -1)
     (Channel_Message \<lparr>m_bytes = 1, m_truncated = False, m_mask = 1, m_controls = [\<lparr>q_rights = True, q_fds = [4, 5], q_odd = False\<rparr>]\<rparr>)
     [3 \<mapsto> ''socket'', 4 \<mapsto> ''channel'', 5 \<mapsto> ''stdin''] = (Channel_Ignored, [3 \<mapsto> ''socket''])"
proof -
  define m where "m = \<lparr>m_bytes = 1, m_truncated = False, m_mask = 1 :: byte,
    m_controls = [\<lparr>q_rights = True, q_fds = [4, 5], q_odd = False\<rparr>]\<rparr>"
  define table :: "string fd_table" where "table = [3 \<mapsto> ''socket'', 4 \<mapsto> ''channel'', 5 \<mapsto> ''stdin'']"
  define dup :: "nat \<Rightarrow> int" where "dup = (\<lambda>i. if i = 0 then 10 else -1)"
  have r: "rights_fds m = [4, 5]" by (simp add: rights_fds_def m_def)
  have "distinct (rights_fds m)" "set (rights_fds m) \<subseteq> dom table"
    "fresh_dups dup 0 (take 4 (rights_fds m)) (close_all (drop 4 (rights_fds m)) table)"
    by (simp_all add: r table_def dup_def close_all_def)
  moreover have "fst (receive_channel dup (Channel_Message m) table) = Channel_Ignored"
    unfolding m_def table_def dup_def by code_simp
  then obtain table' where t: "receive_channel dup (Channel_Message m) table = (Channel_Ignored, table')"
    by (metis prod.collapse)
  ultimately have "\<forall>x. table' x = (if x \<in> set (rights_fds m) then None else table x)"
    using receive_channel_no_leak [where m = m and table = table and dup = dup] by blast
  then have "table' = [3 \<mapsto> ''socket'']" by (auto simp: r table_def fun_eq_iff)
  then show ?thesis using t by (simp add: m_def table_def dup_def)
qed

section \<open>From the caller to the helper\<close>

definition probe_table :: "'o fd_table \<Rightarrow> int \<Rightarrow> probe" where
  "probe_table table fd = (case table fd of None \<Rightarrow> Probe_Absent | Some _ \<Rightarrow> Probe_Open)"

lemma probe_table_open [simp]: "probe_table table fd = Probe_Open \<longleftrightarrow> table fd \<noteq> None"
  "probe_table table fd \<noteq> Probe_Failed"
  by (auto simp: probe_table_def split: option.splits)

text \<open>The message as \<open>sendmsg\<close> transports it, the descriptors installed as \<open>fds\<close>.\<close>

definition channel_byte :: "byte \<Rightarrow> int list \<Rightarrow> channel_message" where
  "channel_byte bits fds = \<lparr>m_bytes = 1, m_truncated = False, m_mask = bits,
     m_controls = [\<lparr>q_rights = True, q_fds = fds, q_odd = False\<rparr>]\<rparr>"

lemma rights_fds_channel_byte [simp]: "rights_fds (channel_byte bits fds) = fds"
  by (simp add: rights_fds_def channel_byte_def)

lemma open_stdio_list:
  "open_stdio probe = (if probe 0 = Probe_Open then [0] else []) @ (if probe 1 = Probe_Open then [1] else []) @
     (if probe 2 = Probe_Open then [2] else [])"
  by (simp add: open_stdio_def stdio_fds_def)

lemma map_eq_cases2: "map f xs = y # ys \<Longrightarrow> \<exists>x zs. xs = x # zs \<and> f x = y \<and> map f zs = ys"
  by (cases xs) auto

text \<open>The job process's table, for any accepted descriptors that refer to the caller's files.\<close>

lemma job_table_stdio:
  fixes caller :: "'o fd_table"
  defines "bits \<equiv> (if caller 0 \<noteq> None then 1 else 0) + (if caller 1 \<noteq> None then 2 else 0) +
    (if caller 2 \<noteq> None then 4 else 0) :: byte"
  assumes ds: "map launcher ds = Some ctl # map caller (open_stdio (probe_table caller))"
    and hi: "\<forall>d\<in>set ds. 10 \<le> d" and none: "\<forall>fd. fd \<noteq> 3 \<and> fd \<notin> set ds \<longrightarrow> launcher fd = None"
  shows "job_table bits ds launcher =
    Some (\<lambda>fd. if fd = 3 then Some ctl else if fd \<in> {4, 5, 6} then caller (fd - 4) else None)"
proof -
  note b = stdio_bits(2-4) [of "caller 0 \<noteq> None" "caller 1 \<noteq> None" "caller 2 \<noteq> None", folded bits_def]
  obtain d0 ds1 where d0: "ds = d0 # ds1" "launcher d0 = Some ctl"
    "map launcher ds1 = map caller (open_stdio (probe_table caller))"
    using map_eq_cases2 [OF ds] by auto
  have h: "10 \<le> d0" "\<forall>d\<in>set ds1. 10 \<le> d" using hi d0(1) by auto
  have lo: "launcher fd = None" if "fd < 7" "fd \<noteq> 3" for fd
    using none that hi by force
  define t0 where "t0 = launcher(3 \<mapsto> ctl)"
  have t0: "t0 fd = launcher fd" if "10 \<le> fd" for fd using that by (simp add: t0_def)
  have "\<exists>t. place_stdio bits stdio_fds ds1 t0 = Some t \<and>
      (\<forall>fd. t fd = (if fd \<in> {4, 5, 6} then caller (fd - 4) else t0 fd))"
  proof (cases "caller 0"; cases "caller 1"; cases "caller 2")
  qed (use d0(3) h(2) b lo in \<open>auto simp: open_stdio_list stdio_fds_def dup2_def t0_def dest!: map_eq_cases2\<close>)
  then obtain t where t: "place_stdio bits stdio_fds ds1 t0 = Some t"
    "\<forall>fd. t fd = (if fd \<in> {4, 5, 6} then caller (fd - 4) else t0 fd)" by blast
  have "job_table bits ds launcher = Some (close_above 7 t)"
    using t(1) d0 by (simp add: job_table_def dup2_def t0_def)
  moreover have "close_above 7 t = (\<lambda>fd. if fd = 3 then Some ctl else if fd \<in> {4, 5, 6} then caller (fd - 4) else None)"
    using t(2) lo by (auto simp: close_above_def t0_def fun_eq_iff)
  ultimately show ?thesis by simp
qed

lemma exec_table_stdio:
  fixes caller :: "'o fd_table"
  defines "bits \<equiv> (if caller 0 \<noteq> None then 1 else 0) + (if caller 1 \<noteq> None then 2 else 0) +
    (if caller 2 \<noteq> None then 4 else 0) :: byte"
  assumes e: "7 \<le> error_fd" "job error_fd = Some err"
    and st: "\<forall>fd\<in>{4, 5, 6}. job fd = caller (fd - 4)" and neg: "\<forall>fd<0. job fd = None"
  shows "exec_table bits error_fd job = Some (\<lambda>fd. if fd \<in> {0, 1, 2} then caller fd else None)"
proof -
  note b = stdio_bits(2-4) [of "caller 0 \<noteq> None" "caller 1 \<noteq> None" "caller 2 \<noteq> None", folded bits_def]
  define t0 where "t0 = job(3 \<mapsto> err)"
  have s: "t0 4 = caller 0" "t0 5 = caller 1" "t0 6 = caller 2" using st by (auto simp: t0_def)
  have "\<exists>t. install_stdio bits stdio_fds t0 = Some t \<and>
      (\<forall>fd. t fd = (if fd \<in> {0, 1, 2} then caller fd else t0 fd))"
  proof (cases "caller 0"; cases "caller 1"; cases "caller 2")
  qed (use b s in \<open>auto simp: stdio_fds_def dup2_def close_fd_def\<close>)
  then obtain t where t: "install_stdio bits stdio_fds t0 = Some t"
    "\<forall>fd. t fd = (if fd \<in> {0, 1, 2} then caller fd else t0 fd)" by blast
  have "exec_table bits error_fd job = Some (close_fd 3 (close_above 4 t))"
    using t(1) e by (simp add: exec_table_def helper_table_def dup2_def t0_def)
  moreover have "close_fd 3 (close_above 4 t) = (\<lambda>fd. if fd \<in> {0, 1, 2} then caller fd else None)"
    using t(2) neg by (auto simp: close_above_def close_fd_def t0_def fun_eq_iff)
  ultimately show ?thesis by simp
qed

text \<open>
  End to end: the descriptors of the calling process that are open among 0, 1 and 2 arrive in the
  helper under the same numbers and refer to the same open files, absent ones stay absent, and the
  helper inherits nothing else, neither the control channel nor the launcher's socket nor the
  handshake pipe, whatever numbers the kernel chooses on the way.
\<close>

theorem stdio_passes_through:
  assumes send: "send_channel (probe_table caller) channel = Some (sent, bits)"
    and ctl: "caller channel = Some ctl"
    and inst: "distinct fds" "map launcher fds = map caller sent"
    and only: "\<forall>fd. fd \<noteq> 3 \<and> fd \<notin> set fds \<longrightarrow> launcher fd = None"
    and dup: "\<forall>i<4. 0 \<le> dup i" "fresh_dups dup 0 fds launcher"
  shows "\<exists>ds launcher' job. receive_channel dup (Channel_Message (channel_byte bits fds)) launcher = (Channel_Accepted ds, launcher') \<and>
    job_table bits ds launcher' = Some job \<and> job 3 = Some ctl \<and>
    (\<forall>job' error_fd. 7 \<le> error_fd \<and> job' error_fd \<noteq> None \<and> (\<forall>fd\<in>{4, 5, 6}. job' fd = job fd) \<and> (\<forall>fd<0. job' fd = None) \<longrightarrow>
       exec_table bits error_fd job' = Some (\<lambda>fd. if fd \<in> {0, 1, 2} then caller fd else None))"
proof -
  have sent: "sent = channel # open_stdio (probe_table caller)"
    and bits: "bits = (if caller 0 \<noteq> None then 1 else 0) + (if caller 1 \<noteq> None then 2 else 0) +
      (if caller 2 \<noteq> None then 4 else 0)"
    using send_channel_cases [OF send] by (simp_all del: option.collapse)
  note b = stdio_bits [of "caller 0 \<noteq> None" "caller 1 \<noteq> None" "caller 2 \<noteq> None", folded bits]
  have lw: "length sent = wanted_count bits" "length sent \<le> 4"
    using b(4,5,6) b(2)
    by (auto simp: sent wanted_count_def open_stdio_list stdio_fds_def)
  have lf: "length fds = length sent" using arg_cong [OF inst(2), of length] by simp
  have dom: "set fds \<subseteq> dom launcher"
  proof
    fix fd assume "fd \<in> set fds"
    then have "launcher fd \<in> set (map caller sent)" by (metis inst(2) image_eqI list.set_map)
    moreover have "None \<notin> set (map caller sent)" using ctl by (auto simp: sent open_stdio_list)
    ultimately have "launcher fd \<noteq> None" by metis
    then show "fd \<in> dom launcher" by (simp add: domIff)
  qed
  obtain ds launcher' where r: "receive_message dup (channel_byte bits fds) launcher = (Channel_Accepted ds, launcher')"
    using receive_message_accepts [of "channel_byte bits fds" fds dup launcher] b(1) lw lf dup(1)
    by (auto simp: channel_byte_def)
  have "fresh_dups dup 0 (take 4 fds) (close_all (drop 4 fds) launcher)"
    using dup(2) lw(2) lf by (simp add: close_all_def)
  with receive_message_spec [of "channel_byte bits fds", OF _ _ _ r] inst(1) dom
  have ds: "\<forall>d\<in>set ds. 10 \<le> d" "map launcher' ds = map caller sent"
    "\<forall>x. x \<notin> set ds \<longrightarrow> launcher' x = (if x \<in> set fds then None else launcher x)"
    using inst(2) by auto
  have m: "map launcher' ds = Some ctl # map caller (open_stdio (probe_table caller))"
    using ds(2) ctl by (simp add: sent)
  have none: "\<forall>fd. fd \<noteq> 3 \<and> fd \<notin> set ds \<longrightarrow> launcher' fd = None"
    using ds(3) only by auto
  define job where "job = (\<lambda>fd. if fd = 3 then Some ctl else if fd \<in> {4, 5, 6} then caller (fd - 4) else None)"
  have j: "job_table bits ds launcher' = Some job"
    using job_table_stdio [OF m ds(1) none] by (simp only: bits job_def)
  have ex: "exec_table bits error_fd job' = Some (\<lambda>fd. if fd \<in> {0, 1, 2} then caller fd else None)"
    if a: "7 \<le> error_fd" "job' error_fd \<noteq> None" "\<forall>fd\<in>{4, 5, 6}. job' fd = job fd" "\<forall>fd<0. job' fd = None"
    for job' error_fd
  proof -
    obtain err where err: "job' error_fd = Some err" using a(2) by blast
    have st: "\<forall>fd\<in>{4, 5, 6}. job' fd = caller (fd - 4)" using a(3) by (simp add: job_def)
    show ?thesis using exec_table_stdio [OF a(1) err st a(4)] by (simp only: bits)
  qed
  have "\<forall>job' error_fd. 7 \<le> error_fd \<and> job' error_fd \<noteq> None \<and>
      (\<forall>fd\<in>{4, 5, 6}. job' fd = job fd) \<and> (\<forall>fd<0. job' fd = None) \<longrightarrow>
      exec_table bits error_fd job' = Some (\<lambda>fd. if fd \<in> {0, 1, 2} then caller fd else None)"
    by (intro allI impI) (elim conjE, rule ex; assumption)
  moreover have "job 3 = Some ctl" by (simp add: job_def)
  moreover have "receive_channel dup (Channel_Message (channel_byte bits fds)) launcher = (Channel_Accepted ds, launcher')"
    using r by (simp add: receive_channel_def)
  ultimately show ?thesis using j by (intro exI [of _ ds] exI [of _ launcher'] exI [of _ job] conjI)
qed

lemma stdio_passes_through_witness:
  "\<exists>ds launcher'. receive_channel (\<lambda>i. 10 + int i) (Channel_Message (channel_byte 3 [4, 6, 5]))
     [3 \<mapsto> ''socket'', 4 \<mapsto> ''channel'', 6 \<mapsto> ''in'', 5 \<mapsto> ''out''] = (Channel_Accepted ds, launcher')"
proof -
  define caller :: "string fd_table" where "caller = [0 \<mapsto> ''in'', 1 \<mapsto> ''out'', 9 \<mapsto> ''channel'', 20 \<mapsto> ''vault'']"
  define launcher :: "string fd_table" where
    "launcher = [3 \<mapsto> ''socket'', 4 \<mapsto> ''channel'', 6 \<mapsto> ''in'', 5 \<mapsto> ''out'']"
  have send: "send_channel (probe_table caller) 9 = Some ([9, 0, 1], 3)"
    by (simp add: send_channel_def stdio_fds_def probe_table_def caller_def)
  have "caller 9 = Some ''channel''" "distinct [4, 6, 5 :: int]" "map launcher [4, 6, 5] = map caller [9, 0, 1]"
    "\<forall>fd. fd \<noteq> 3 \<and> fd \<notin> set [4, 6, 5] \<longrightarrow> launcher fd = None" "\<forall>i<4. 0 \<le> 10 + int i"
    "fresh_dups (\<lambda>i. 10 + int i) 0 [4, 6, 5] launcher"
    by (auto simp: caller_def launcher_def close_fd_def)
  from stdio_passes_through [OF send this] show ?thesis by (auto simp: launcher_def)
qed

end
