(* ===== verification/Helper_Serve.thy ===== *)
theory Helper_Serve
  imports Broker_Io Helper_Request Broker_Channel
begin

text \<open>
  One request in its job process (\<open>serve_request\<close> of \<open>app/helper_broker.c\<close>) and the helper it starts
  (\<open>execute_helper\<close>, \<open>kill_helper\<close>): reading and authorising the request, the handshake pipe that
  separates a failed \<open>execve\<close> from a running helper, and the supervision until the helper ends or its
  caller goes away. What the kernel and the scheduler answer is in \<open>serve_env\<close>.
\<close>

section \<open>The request on the wire\<close>

text \<open>The object representation of \<open>struct request\<close>; both ends are the same program on one host.\<close>

definition put_request :: "request \<Rightarrow> byte list" where
  "put_request req = wn_image_put (r_count req) @ wn_image_put (r_bytes req)"

definition get_request :: "byte list \<Rightarrow> request" where
  "get_request bs = \<lparr>r_count = wn_image_u32 bs, r_bytes = wn_image_u32 (drop 4 bs)\<rparr>"

interpretation request_codec: codec put_request get_request 8
  by unfold_locales (simp_all add: put_request_def get_request_def wn_image_u32_put)

lemma put_get_request: "length bs = 8 \<Longrightarrow> put_request (get_request bs) = bs"
proof -
  assume l: "length bs = 8"
  have "wn_image_put (wn_image_u32 bs) = take 4 bs"
    using wn_image_put_u32 [of "take 4 bs"] l by (simp add: wn_image_u32_take)
  moreover have "wn_image_put (wn_image_u32 (drop 4 bs)) = drop 4 bs"
    using l by (intro wn_image_put_u32) simp
  ultimately show ?thesis by (simp add: put_request_def get_request_def)
qed

record reply =
  y_error :: "errno option"
  y_status :: int

section \<open>The helper's side\<close>

record exec_answers =
  x_setsid :: "errno option"
  x_cloexec :: bool
  x_signals :: "errno option"
  x_sigmask :: "errno option"
  x_keep_exec :: bool
  x_execve :: "errno option"

text \<open>
  How the child of \<open>serve_request\<close> ends: as the helper, with an error number written to the handshake
  pipe, or silently.
\<close>

datatype 'o exec_end =
  Exec_Helper cstring "cstring list" "cstring list" "'o fd_table" | Exec_Reported errno | Exec_Silent

definition execute_helper ::
  "cstring list \<Rightarrow> exec_answers \<Rightarrow> helper \<Rightarrow> cstring list \<Rightarrow> byte \<Rightarrow> int \<Rightarrow> 'o fd_table \<Rightarrow> 'o exec_end" where
  "execute_helper environment ans helper argv bits error_fd table =
     (case x_setsid ans of
        Some e \<Rightarrow> if dup2 error_fd 3 table = None then Exec_Silent else Exec_Reported e
      | None \<Rightarrow>
          (case dup2 error_fd 3 table of
             None \<Rightarrow> Exec_Silent
           | Some table \<Rightarrow>
               if \<not> x_cloexec ans then Exec_Silent
               else
                 (case install_stdio bits stdio_fds table of
                    None \<Rightarrow> Exec_Reported EBADF
                  | Some table \<Rightarrow>
                      let table = close_above 4 table in
                      (case (x_signals ans, x_sigmask ans) of
                         (Some e, _) \<Rightarrow> Exec_Reported e
                       | (None, Some e) \<Rightarrow> Exec_Reported e
                       | (None, None) \<Rightarrow>
                           if h_kind helper = HELPER_OPTIONAL \<and> \<not> x_keep_exec ans then Exec_Reported EPERM
                           else
                             (case x_execve ans of
                                Some e \<Rightarrow> Exec_Reported e
                              | None \<Rightarrow>
                                  Exec_Helper (h_executable helper) argv
                                    (if h_kind helper = HELPER_OPTIONAL then environment else [])
                                    (close_fd 3 table))))))"

text \<open>The helper runs with exactly the table \<open>exec_table\<close>, and only optional tools see variables.\<close>

lemma execute_helper_image:
  "execute_helper environment ans helper argv bits error_fd table = Exec_Helper exe av ev t \<Longrightarrow>
   exec_table bits error_fd table = Some t \<and> exe = h_executable helper \<and> av = argv \<and>
   (h_kind helper \<noteq> HELPER_OPTIONAL \<longrightarrow> ev = []) \<and> (h_kind helper = HELPER_OPTIONAL \<longrightarrow> ev = environment)"
  by (auto simp: execute_helper_def exec_table_def helper_table_def Let_def split: option.splits if_splits)

section \<open>The supervisor\<close>

text \<open>
  \<open>kill\<close> of the group and of the process, then \<open>waitpid\<close> until it is not interrupted.
\<close>

definition kill_helper :: "int \<Rightarrow> event list" where
  "kill_helper child = [Group_Killed child, Child_Killed child, Child_Reaped child]"

text \<open>The handshake: the control channel and the error pipe are watched together.\<close>

datatype pipe_read = Pipe_Eof | Pipe_Errno errno | Pipe_Short

datatype watch_answer = Watch_Interrupted | Watch_Timeout | Watch_Failed | Watch_Ready bool bool

record handshake_round =
  k_stopping :: bool
  k_now :: int
  k_watch :: watch_answer
  k_read :: pipe_read

text \<open>\<open>Some None\<close>: the helper was executed; \<open>Some (Some e)\<close>: the error for the caller.\<close>

fun handshake :: "int \<Rightarrow> handshake_round list \<Rightarrow> errno option option" where
  "handshake deadline [] = None"
| "handshake deadline (a # as) =
     (if k_stopping a then Some (Some EINVAL)
      else if k_now a < 0 \<or> k_now a \<ge> deadline then Some (Some ETIMEDOUT)
      else
        (case k_watch a of
           Watch_Interrupted \<Rightarrow> handshake deadline as
         | Watch_Timeout \<Rightarrow> Some (Some ETIMEDOUT)
         | Watch_Failed \<Rightarrow> Some (Some ECANCELED)
         | Watch_Ready control pipe \<Rightarrow>
             if control then Some (Some ECANCELED)
             else if pipe then
               (case k_read a of
                  Pipe_Eof \<Rightarrow> Some None
                | Pipe_Errno e \<Rightarrow> Some (Some e)
                | Pipe_Short \<Rightarrow> Some (Some EIO))
             else handshake deadline as))"

datatype wait_result = Wait_Status int | Wait_Running | Wait_Error errno

datatype wake_up = Wake_Control | Wake_Signal | Wake_Error | Wake_None

record wait_round =
  w_result :: wait_result
  w_now :: int
  w_wake :: wake_up
  w_stopping :: bool

text \<open>\<open>waitpid\<close> failed for good: not merely interrupted.\<close>

definition wait_lost :: "wait_result \<Rightarrow> bool" where
  "wait_lost r = (case r of Wait_Error e \<Rightarrow> e \<noteq> EINTR | _ \<Rightarrow> False)"

text \<open>Supervision: the status and the time of a normal end, or nothing after a kill.\<close>

fun supervise :: "int \<Rightarrow> wait_round list \<Rightarrow> ((int \<times> int) option \<times> event list) option" where
  "supervise child [] = None"
| "supervise child (a # as) =
     (case w_result a of
        Wait_Status status \<Rightarrow> Some (Some (status, w_now a), [Child_Reaped child, Group_Killed child])
      | r \<Rightarrow>
          if wait_lost r then Some (None, kill_helper child)
          else if w_stopping a \<or> w_wake a = Wake_Control \<or> w_wake a = Wake_Error
          then Some (None, kill_helper child)
          else supervise child as)"

record serve_env =
  v_now :: int
  v_flags :: bool
  v_io :: "io_round list"
  v_in :: "byte list"
  v_regular :: bool
  v_pipe :: "errno + (int \<times> int)"
  v_dup :: "errno + int"
  v_fork :: "errno + int"
  v_handshake :: "handshake_round list"
  v_wait :: "wait_round list"

definition REQUEST_MS :: int where "REQUEST_MS = 10000"

definition request_deadline :: "int \<Rightarrow> int" where
  "request_deadline now = (if now < 0 then 1 else now + REQUEST_MS)"

text \<open>Reading and authorising: what to execute, or the error to reply.\<close>

definition serve_receive ::
  "helper list \<Rightarrow> cstring \<Rightarrow> byte \<Rightarrow> serve_env \<Rightarrow> ((errno + (helper \<times> cstring list)) \<times> io_round list) option" where
  "serve_receive frozen font_root bits env =
     (let deadline = request_deadline (v_now env) in
      case transfer_in deadline (v_io env) 8 (v_in env) of
        None \<Rightarrow> None
      | Some (Inl e, rest, as) \<Rightarrow> Some (Inl EINVAL, as)
      | Some (Inr header, rest, as) \<Rightarrow>
          let req = get_request header in
          if \<not> request_ok req then Some (Inl EINVAL, as)
          else
            (case transfer_in deadline as (unat (r_bytes req)) rest of
               None \<Rightarrow> None
             | Some (Inl e, rest, as) \<Rightarrow> Some (Inl EINVAL, as)
             | Some (Inr bytes, rest, as) \<Rightarrow>
                 Some (parse_request frozen font_root bits (v_regular env) req bytes, as)))"

text \<open>
  The handshake pipe and the child: the error and the events, or the read end, the child and the
  events. The copies of the caller's descriptors in 4, 5 and 6 are closed in the parent.
\<close>

definition close_stdio :: "byte \<Rightarrow> int \<Rightarrow> event list" where
  "close_stdio bits keep =
     map Fd_Close (filter (\<lambda>fd. fd \<noteq> keep \<and> bits AND push_bit (nat (fd - 4)) 1 \<noteq> 0) [4, 5, 6])"

definition serve_spawn :: "byte \<Rightarrow> serve_env \<Rightarrow> (errno \<times> event list) + (int \<times> int \<times> event list)" where
  "serve_spawn bits env =
     (case v_pipe env of
        Inl e \<Rightarrow> Inl (e, [])
      | Inr (r, w) \<Rightarrow>
          let es = [Fd_Open r, Fd_Open w] in
          (case v_dup env of
             Inl e \<Rightarrow> Inl (e, es @ [Fd_Close w, Fd_Close r])
           | Inr writer \<Rightarrow>
               let es = es @ [Fd_Open writer, Fd_Close w];
                   closes = Fd_Close writer # close_stdio bits r
               in (case v_fork env of
                     Inl e \<Rightarrow> Inl (e, es @ closes @ [Fd_Close r])
                   | Inr child \<Rightarrow> Inr (r, child, es @ [Child_Spawned child] @ closes))))"

record served =
  z_replies :: "reply list"
  z_events :: "event list"
  z_helper :: "(helper \<times> cstring list) option"

text \<open>Sending one reply; \<open>reply_bytes\<close> is the object representation of \<open>struct reply\<close>.\<close>

definition send_reply ::
  "(reply \<Rightarrow> byte list) \<Rightarrow> int \<Rightarrow> io_round list \<Rightarrow> reply \<Rightarrow> (reply list \<times> io_round list) option" where
  "send_reply reply_bytes deadline as reply =
     (case transfer_out deadline as (reply_bytes reply) of
        None \<Rightarrow> None
      | Some (r, out, as) \<Rightarrow> Some (if r = Inr () then [reply] else [], as))"

definition reject ::
  "(reply \<Rightarrow> byte list) \<Rightarrow> int \<Rightarrow> io_round list \<Rightarrow> errno \<Rightarrow> event list \<Rightarrow> (helper \<times> cstring list) option \<Rightarrow> served option" where
  "reject reply_bytes deadline as e es helper =
     map_option (\<lambda>(sent, _). \<lparr>z_replies = sent, z_events = es, z_helper = helper\<rparr>)
       (send_reply reply_bytes deadline as \<lparr>y_error = Some e, y_status = 0\<rparr>)"

text \<open>From the acknowledged start to the end of the helper.\<close>

definition serve_running ::
  "(reply \<Rightarrow> byte list) \<Rightarrow> int \<Rightarrow> io_round list \<Rightarrow> wait_round list \<Rightarrow> int \<Rightarrow> event list \<Rightarrow>
   (helper \<times> cstring list) option \<Rightarrow> served option" where
  "serve_running reply_bytes deadline as waits child es helper =
     (case send_reply reply_bytes deadline as \<lparr>y_error = None, y_status = 0\<rparr> of
        None \<Rightarrow> None
      | Some ([], as) \<Rightarrow> Some \<lparr>z_replies = [], z_events = es @ kill_helper child, z_helper = helper\<rparr>
      | Some (started, as) \<Rightarrow>
          (case supervise child waits of
             None \<Rightarrow> None
           | Some (None, ks) \<Rightarrow> Some \<lparr>z_replies = started, z_events = es @ ks, z_helper = helper\<rparr>
           | Some (Some (status, now), ks) \<Rightarrow>
               map_option (\<lambda>(sent, _). \<lparr>z_replies = started @ sent, z_events = es @ ks, z_helper = helper\<rparr>)
                 (send_reply reply_bytes (request_deadline now) as \<lparr>y_error = None, y_status = status\<rparr>)))"

definition serve_request ::
  "(reply \<Rightarrow> byte list) \<Rightarrow> helper list \<Rightarrow> cstring \<Rightarrow> byte \<Rightarrow> serve_env \<Rightarrow> served option" where
  "serve_request reply_bytes frozen font_root bits env =
     (let deadline = request_deadline (v_now env) in
      if \<not> v_flags env then Some \<lparr>z_replies = [], z_events = [], z_helper = None\<rparr>
      else
        (case serve_receive frozen font_root bits env of
           None \<Rightarrow> None
         | Some (Inl e, as) \<Rightarrow> reject reply_bytes deadline as e [] None
         | Some (Inr helper, as) \<Rightarrow>
             (case serve_spawn bits env of
                Inl (e, es) \<Rightarrow> reject reply_bytes deadline as e es None
              | Inr (r, child, es) \<Rightarrow>
                  (case handshake deadline (v_handshake env) of
                     None \<Rightarrow> None
                   | Some (Some e) \<Rightarrow>
                       reject reply_bytes deadline as e (es @ [Fd_Close r] @ kill_helper child) (Some helper)
                   | Some None \<Rightarrow>
                       serve_running reply_bytes deadline as (v_wait env) child (es @ [Fd_Close r]) (Some helper)))))"

section \<open>Lemmas\<close>

text \<open>The descriptors of a job process when it starts to serve.\<close>

definition job_fds :: "byte \<Rightarrow> int set" where
  "job_fds bits = insert 3 (set (filter (\<lambda>fd. bits AND push_bit (nat (fd - 4)) 1 \<noteq> 0) [4, 5, 6]))"

text \<open>
  The life of a helper: like \<open>child_step\<close>, but its process group may be signalled after it is gone,
  because descendants keep the group alive.
\<close>

fun helper_step :: "child_state \<Rightarrow> event \<Rightarrow> child_state option" where
  "helper_step Gone_Child (Group_Killed p) = Some Gone_Child"
| "helper_step c e = child_step c e"

fun helper_run :: "child_state \<Rightarrow> event list \<Rightarrow> child_state option" where
  "helper_run c [] = Some c"
| "helper_run c (e # es) = (case helper_step c e of None \<Rightarrow> None | Some c' \<Rightarrow> helper_run c' es)"

lemma helper_run_append:
  "helper_run c (xs @ ys) = (case helper_run c xs of None \<Rightarrow> None | Some c' \<Rightarrow> helper_run c' ys)"
  by (induction xs arbitrary: c) (auto split: option.splits)

definition ends_helper :: "int \<Rightarrow> event list \<Rightarrow> bool" where
  "ends_helper child ks \<longleftrightarrow> ks = kill_helper child \<or> ks = [Child_Reaped child, Group_Killed child]"

lemma supervise_ends:
  "supervise child as = Some (r, ks) \<Longrightarrow> ends_helper child ks \<and>
   (case r of None \<Rightarrow> True | Some (status, now) \<Rightarrow> \<exists>a\<in>set as. w_result a = Wait_Status status \<and> w_now a = now)"
proof (induction as)
  case (Cons a as)
  then show ?case by (cases "w_result a") (auto simp: ends_helper_def split: if_splits option.splits)
qed simp

lemma supervise_ends1: "supervise child as = Some (r, ks) \<Longrightarrow> ends_helper child ks"
  by (rule supervise_ends [THEN conjunct1])

lemma reject_shape:
  "reject reply_bytes d as e es helper = Some z \<Longrightarrow>
   z_events z = es \<and> z_helper z = helper \<and> (\<forall>y\<in>set (z_replies z). y_error y = Some e)"
  by (auto simp: reject_def send_reply_def split: option.splits prod.splits if_splits)

lemma send_reply_shape: "send_reply reply_bytes d as y = Some (sent, as') \<Longrightarrow> sent = [] \<or> sent = [y]"
  by (auto simp: send_reply_def split: option.splits prod.splits if_splits)

lemma serve_running_cases:
  assumes "serve_running reply_bytes d as waits child es helper = Some z"
  shows "(z_replies z = [] \<and> z_events z = es @ kill_helper child \<and> z_helper z = helper) \<or>
    (\<exists>ks. supervise child waits = Some (None, ks) \<and> z_events z = es @ ks \<and> z_helper z = helper \<and>
       z_replies z = [\<lparr>y_error = None, y_status = 0\<rparr>]) \<or>
    (\<exists>status now ks sent. supervise child waits = Some (Some (status, now), ks) \<and> z_events z = es @ ks \<and>
       z_helper z = helper \<and> z_replies z = \<lparr>y_error = None, y_status = 0\<rparr> # sent \<and>
       (sent = [] \<or> sent = [\<lparr>y_error = None, y_status = status\<rparr>]))"
proof -
  obtain started bs where s: "send_reply reply_bytes d as \<lparr>y_error = None, y_status = 0\<rparr> = Some (started, bs)"
    using assms by (cases "send_reply reply_bytes d as \<lparr>y_error = None, y_status = 0\<rparr>") (auto simp: serve_running_def)
  note eq = assms [unfolded serve_running_def s option.case prod.case]
  show ?thesis
  proof (cases started)
    case Nil
    then show ?thesis using eq by auto
  next
    case (Cons y ys)
    then have st: "started = [\<lparr>y_error = None, y_status = 0\<rparr>]" using send_reply_shape [OF s] by auto
    obtain r ks where sv: "supervise child waits = Some (r, ks)"
      using eq Cons by (cases "supervise child waits") auto
    show ?thesis
    proof (cases r)
      case None
      then show ?thesis using eq st sv by auto
    next
      case (Some sn)
      obtain status now where sn: "sn = (status, now)" by fastforce
      obtain sent cs where t: "send_reply reply_bytes (request_deadline now) bs \<lparr>y_error = None, y_status = status\<rparr> =
          Some (sent, cs)" and z: "z = \<lparr>z_replies = started @ sent, z_events = es @ ks, z_helper = helper\<rparr>"
        using eq Cons sv Some sn by auto
      show ?thesis using send_reply_shape [OF t] z sv Some sn st by auto
    qed
  qed
qed

lemma serve_running_shape:
  assumes "serve_running reply_bytes d as waits child es helper = Some z"
  shows "\<exists>ks. ends_helper child ks \<and> z_events z = es @ ks \<and> z_helper z = helper"
proof -
  have k: "ends_helper child (kill_helper child)" by (simp add: ends_helper_def)
  show ?thesis using serve_running_cases [OF assms] k supervise_ends1 by blast
qed

text \<open>How a served request ended.\<close>

lemma serve_request_cases:
  assumes "serve_request reply_bytes frozen font_root bits env = Some z"
  obtains (refused) "z_events z = []" "z_helper z = None" "\<forall>y\<in>set (z_replies z). y_error y \<noteq> None"
    | (unspawned) e where "serve_spawn bits env = Inl (e, z_events z)" "z_helper z = None"
        "\<forall>y\<in>set (z_replies z). y_error y \<noteq> None"
    | (failed) r child es e helper as where "serve_spawn bits env = Inr (r, child, es)"
        "serve_receive frozen font_root bits env = Some (Inr helper, as)"
        "z_events z = (es @ [Fd_Close r]) @ kill_helper child" "z_helper z = Some helper"
        "z_replies z = [] \<or> z_replies z = [\<lparr>y_error = Some e, y_status = 0\<rparr>]"
    | (started) r child es helper as where "serve_spawn bits env = Inr (r, child, es)"
        "serve_receive frozen font_root bits env = Some (Inr helper, as)"
        "serve_running reply_bytes (request_deadline (v_now env)) as (v_wait env) child (es @ [Fd_Close r]) (Some helper) = Some z"
proof (cases "v_flags env")
  case False
  then show ?thesis using assms by (intro refused) (auto simp: serve_request_def Let_def)
next
  case flags: True
  define d where "d = request_deadline (v_now env)"
  note eq = assms [unfolded serve_request_def Let_def d_def [symmetric]]
  show ?thesis
  proof (cases "serve_receive frozen font_root bits env")
    case None
    then show ?thesis using eq flags by simp
  next
    case (Some x)
    obtain q as where rc: "serve_receive frozen font_root bits env = Some (q, as)" using Some by (cases x) simp
    show ?thesis
    proof (cases q)
      case (Inl e)
      then have "reject reply_bytes d as e [] None = Some z" using eq flags rc by simp
      from reject_shape [OF this] show ?thesis by (intro refused) auto
    next
      case (Inr helper)
      note eq1 = eq [unfolded rc Inr option.case prod.case sum.case]
      show ?thesis
      proof (cases "serve_spawn bits env")
        case (Inl y)
        obtain e es where y: "y = (e, es)" by fastforce
        then have "reject reply_bytes d as e es None = Some z" using eq1 flags Inl by simp
        from reject_shape [OF this] show ?thesis using Inl y by (intro unspawned) auto
      next
        case sp: (Inr y)
        obtain r child es where y: "y = (r, child, es)" by (metis prod_cases3)
        show ?thesis
        proof (cases "handshake d (v_handshake env)")
          case None
          then show ?thesis using eq1 flags sp y by simp
        next
          case hs: (Some h)
          show ?thesis
          proof (cases h)
            case None
            then have "serve_running reply_bytes d as (v_wait env) child (es @ [Fd_Close r]) (Some helper) = Some z"
              using eq1 flags sp y hs by simp
            then show ?thesis using sp y rc Inr by (intro started) (simp_all add: d_def)
          next
            case (Some e)
            then have "reject reply_bytes d as e (es @ [Fd_Close r] @ kill_helper child) (Some helper) = Some z"
              using eq1 flags sp y hs by simp
            then have "z_events z = (es @ [Fd_Close r]) @ kill_helper child \<and> z_helper z = Some helper \<and>
                (z_replies z = [] \<or> z_replies z = [\<lparr>y_error = Some e, y_status = 0\<rparr>])"
              by (auto simp: reject_def dest!: send_reply_shape)
            then show ?thesis using sp y rc Inr by (intro failed) auto
          qed
        qed
      qed
    qed
  qed
qed

section \<open>Descriptors and the child\<close>

lemma job_fds_mem: "3 \<in> job_fds bits"
  by (auto simp: job_fds_def)

lemma close_stdio_fds:
  assumes "r \<notin> job_fds bits"
  shows "closes_held (insert r (job_fds bits)) (close_stdio bits r)"
    "open_after (insert r (job_fds bits)) (close_stdio bits r) = {r, 3}"
  using assms by (auto simp: job_fds_def close_stdio_def)

lemma child_run_closes: "child_run c (map Fd_Close fds) = Some c" "helper_run c (map Fd_Close fds) = Some c"
  by (induction fds) (cases c; simp)+

lemma helper_run_close_stdio: "helper_run c (close_stdio bits r) = Some c"
  by (simp add: close_stdio_def child_run_closes del: filter.simps)

lemma serve_spawn_fork:
  assumes sp: "serve_spawn bits env = Inr (r, child, es)" and fr: "fresh_opens (job_fds bits) es"
  shows "closes_held (job_fds bits) es" "open_after (job_fds bits) es = {r, 3}" "r \<noteq> 3"
    "helper_run No_Child es = Some (Live_Child child)" "Child_Spawned child \<in> set es"
proof -
  obtain w writer where es: "es = [Fd_Open r, Fd_Open w, Fd_Open writer, Fd_Close w, Child_Spawned child, Fd_Close writer] @
      close_stdio bits r"
    using sp by (auto simp: serve_spawn_def Let_def split: sum.splits prod.splits)
  have n: "r \<notin> job_fds bits" "w \<notin> insert r (job_fds bits)" "writer \<notin> {w, r} \<union> job_fds bits"
    using fr by (auto simp: es)
  have h: "insert writer (insert w (insert r (job_fds bits))) - {w} - {writer} = insert r (job_fds bits)"
    using n by auto
  note c = close_stdio_fds [OF n(1)]
  show "closes_held (job_fds bits) es" "open_after (job_fds bits) es = {r, 3}"
    using n c h by (auto simp: es insert_commute)
  show "r \<noteq> 3" using n(1) job_fds_mem by auto
  show "helper_run No_Child es = Some (Live_Child child)"
    by (simp add: es helper_run_close_stdio)
  show "Child_Spawned child \<in> set es" by (simp add: es)
qed

lemma serve_spawn_fail:
  assumes sp: "serve_spawn bits env = Inl (e, es)" and fr: "fresh_opens (job_fds bits) es"
  shows "closes_held (job_fds bits) es" "open_after (job_fds bits) es \<subseteq> job_fds bits"
    "helper_run No_Child es = Some No_Child" "\<forall>child. Child_Spawned child \<notin> set es"
proof -
  consider "es = []" | r w where "es = [Fd_Open r, Fd_Open w, Fd_Close w, Fd_Close r]"
    | r w writer where "es = [Fd_Open r, Fd_Open w, Fd_Open writer, Fd_Close w, Fd_Close writer] @ close_stdio bits r @ [Fd_Close r]"
    using sp by (auto simp: serve_spawn_def Let_def split: sum.splits prod.splits)
  then have "closes_held (job_fds bits) es \<and> open_after (job_fds bits) es \<subseteq> job_fds bits \<and>
    helper_run No_Child es = Some No_Child \<and> (\<forall>child. Child_Spawned child \<notin> set es)"
  proof cases
    case 2
    then show ?thesis using fr by auto
  next
    case (3 r w writer)
    have n: "r \<notin> job_fds bits" "w \<notin> insert r (job_fds bits)" "writer \<notin> {w, r} \<union> job_fds bits"
      using fr by (auto simp: 3)
    have h: "insert writer (insert w (insert r (job_fds bits))) - {w} - {writer} = insert r (job_fds bits)"
      using n by auto
    have "open_after (insert r (job_fds bits)) (close_stdio bits r @ [Fd_Close r]) \<subseteq> job_fds bits"
      "closes_held (insert r (job_fds bits)) (close_stdio bits r @ [Fd_Close r])"
      using close_stdio_fds [OF n(1)] job_fds_mem by (auto simp: open_after_append closes_held_append)
    moreover have "helper_run No_Child (close_stdio bits r @ [Fd_Close r]) = Some No_Child"
      by (simp add: helper_run_append helper_run_close_stdio)
    ultimately show ?thesis using n h by (auto simp: 3 insert_commute close_stdio_def simp del: filter.simps)
  qed simp
  then show "closes_held (job_fds bits) es" "open_after (job_fds bits) es \<subseteq> job_fds bits"
    "helper_run No_Child es = Some No_Child" "\<forall>child. Child_Spawned child \<notin> set es" by auto
qed

lemma ends_helper_run:
  "ends_helper child ks \<Longrightarrow> helper_run (Live_Child child) ks = Some Gone_Child \<and> Group_Killed child \<in> set ks \<and>
   open_after held ks = held \<and> closes_held held ks"
  by (auto simp: ends_helper_def kill_helper_def)

section \<open>From the stream to the helper\<close>

lemma serve_receive_sound:
  assumes "serve_receive frozen font_root bits env = Some (Inr (h, argv), as)"
  shows "\<exists>req path args rest. v_in env = put_request req @ packed (path # args) @ rest \<and>
    unat (r_bytes req) = length (packed (path # args)) \<and>
    authorised frozen font_root bits (v_regular env) path args = Inr (h, argv)"
proof -
  define d where "d = request_deadline (v_now env)"
  note eq = assms [unfolded serve_receive_def Let_def d_def [symmetric]]
  obtain r rest bs where t: "transfer_in d (v_io env) 8 (v_in env) = Some (r, rest, bs)"
    using eq by (cases "transfer_in d (v_io env) 8 (v_in env)") auto
  obtain header where r: "r = Inr header" using eq t by (cases r) auto
  from transfer_in_exact [OF t [unfolded r]] have h: "length header = 8" "v_in env = header @ rest" by auto
  define req where "req = get_request header"
  have hd: "put_request req = header" using put_get_request [OF h(1)] by (simp add: req_def)
  have ok: "request_ok req" using eq t r by (auto simp: req_def split: if_splits)
  note eq1 = eq [unfolded t r option.case prod.case sum.case req_def [symmetric]]
  obtain r2 rest2 cs where t2: "transfer_in d bs (unat (r_bytes req)) rest = Some (r2, rest2, cs)"
    using eq1 ok by (cases "transfer_in d bs (unat (r_bytes req)) rest") auto
  obtain bytes where r2: "r2 = Inr bytes" using eq1 ok t2 by (cases r2) auto
  from transfer_in_exact [OF t2 [unfolded r2]] have b: "length bytes = unat (r_bytes req)" "rest = bytes @ rest2" by auto
  have "parse_request frozen font_root bits (v_regular env) req bytes = Inr (h, argv)"
    using eq1 ok t2 r2 by simp
  from parse_request_sound [OF this b(1)] obtain path args where
    "bytes = packed (path # args)" "authorised frozen font_root bits (v_regular env) path args = Inr (h, argv)" by blast
  then show ?thesis using h(2) b hd by (intro exI [of _ req] exI [of _ path] exI [of _ args] exI [of _ rest2]) simp
qed

lemma serve_receive_complete:
  assumes inp: "v_in env = put_request req @ bytes" and ok: "request_ok req"
    and len: "length bytes = unat (r_bytes req)"
    and io: "\<forall>a\<in>set (v_io env). prompt (request_deadline (v_now env)) a" "8 + length bytes \<le> length (v_io env)"
  shows "\<exists>as. serve_receive frozen font_root bits env =
      Some (parse_request frozen font_root bits (v_regular env) req bytes, as) \<and>
    set as \<subseteq> set (v_io env) \<and> length (v_io env) \<le> length as + 8 + length bytes"
proof -
  define d where "d = request_deadline (v_now env)"
  have l8: "length (put_request req) = 8" by (rule request_codec.put_length)
  then have "8 \<le> length (v_in env)" "take 8 (v_in env) = put_request req" "drop 8 (v_in env) = bytes"
    by (simp_all add: inp)
  then obtain bs where t: "transfer_in d (v_io env) 8 (v_in env) = Some (Inr (put_request req), bytes, bs)"
    and bs: "set bs \<subseteq> set (v_io env)" "length (v_io env) \<le> length bs + 8"
    using transfer_in_progress [of "v_io env" d 8 "v_in env"] io by (auto simp: d_def)
  have "\<forall>a\<in>set bs. prompt d a" "unat (r_bytes req) \<le> length bytes" "unat (r_bytes req) \<le> length bs"
    using bs io len by (auto simp: d_def)
  from transfer_in_progress [OF this] obtain cs where
    t2: "transfer_in d bs (unat (r_bytes req)) bytes = Some (Inr bytes, [], cs)"
    and cs: "set cs \<subseteq> set bs" "length bs \<le> length cs + length bytes"
    by (auto simp: len [symmetric])
  have "serve_receive frozen font_root bits env =
      Some (parse_request frozen font_root bits (v_regular env) req bytes, cs)"
    using ok by (simp add: serve_receive_def Let_def d_def [symmetric] t t2 request_codec.get_put_alone)
  then show ?thesis using bs cs by auto
qed

lemma send_reply_progress:
  assumes "\<forall>a\<in>set as. prompt d a" "length (reply_bytes y) \<le> length as"
  shows "\<exists>as'. send_reply reply_bytes d as y = Some ([y], as') \<and> set as' \<subseteq> set as \<and>
    length as \<le> length as' + length (reply_bytes y)"
  using transfer_out_progress [OF assms] by (auto simp: send_reply_def)

section \<open>Properties\<close>

definition sample_busy :: io_round where "sample_busy = sample_round 1 (Io_Count 20)"

definition sample_serve :: serve_env where
  "sample_serve = \<lparr>v_now = 0, v_flags = True, v_io = replicate 30 sample_busy,
     v_in = put_request \<lparr>r_count = 0, r_bytes = 3\<rparr> @ [47, 120, 0], v_regular = False, v_pipe = Inr (0, 1),
     v_dup = Inr 7, v_fork = Inr 99,
     v_handshake = [\<lparr>k_stopping = False, k_now = 2, k_watch = Watch_Ready False True, k_read = Pipe_Eof\<rparr>],
     v_wait = [\<lparr>w_result = Wait_Running, w_now = 0, w_wake = Wake_Signal, w_stopping = False\<rparr>,
       \<lparr>w_result = Wait_Status 256, w_now = 5, w_wake = Wake_None, w_stopping = False\<rparr>]\<rparr>"

definition sample_decoder :: helper where
  "sample_decoder = \<lparr>h_requested = [47, 120], h_executable = [47, 121], h_kind = HELPER_DECODER\<rparr>"

lemma sample_serve_run:
  "serve_request (\<lambda>y. replicate 8 0) [sample_decoder] [] 0 sample_serve = Some
     \<lparr>z_replies = [\<lparr>y_error = None, y_status = 0\<rparr>, \<lparr>y_error = None, y_status = 256\<rparr>],
      z_events = [Fd_Open 0, Fd_Open 1, Fd_Open 7, Fd_Close 1, Child_Spawned 99, Fd_Close 7, Fd_Close 0, Child_Reaped 99, Group_Killed 99],
      z_helper = Some (sample_decoder, [[47, 121]])\<rparr>"
proof -
  have io: "broker_io_step d sample_busy = Io_Move 20" if "1 < d" for d
    using that by (simp add: sample_busy_def sample_round_def broker_io_step_def broker_call_step_def)
  have tin: "transfer_in d (sample_busy # as) n pending = Some (Inr (take n pending), drop n pending, as)"
    if "1 < d" "0 < n" "n \<le> 20" "n \<le> length pending" for d n pending as
    using that by (cases n) (auto simp: io Let_def min_def)
  have tout: "transfer_out d (sample_busy # as) bs = Some (Inr (), bs, as)"
    if "1 < d" "bs \<noteq> []" "length bs \<le> 20" for d bs as
    using that by (cases bs) (auto simp: io Let_def)
  have rs: "replicate 30 sample_busy = sample_busy # sample_busy # replicate 28 sample_busy"
    "replicate 28 sample_busy = sample_busy # sample_busy # replicate 26 sample_busy"
    by (simp_all add: numeral_eq_Suc)
  have req: "put_request \<lparr>r_count = 0, r_bytes = 3\<rparr> = [0, 0, 0, 0, 3, 0, 0, 0]"
    by (simp add: put_request_def wn_image_put_def)
  have "get_request [0, 0, 0, 0, 3, 0, 0, 0] = \<lparr>r_count = 0, r_bytes = 3\<rparr>"
    using request_codec.get_put_alone [of "\<lparr>r_count = 0, r_bytes = 3\<rparr>"] by (simp add: req)
  moreover have "request_ok \<lparr>r_count = 0, r_bytes = 3\<rparr>"
    by (simp add: request_ok_def ARG_COUNT_def ARG_BYTES_def)
  moreover have "parse_request [sample_decoder] [] 0 False \<lparr>r_count = 0, r_bytes = 3\<rparr> [47, 120, 0] =
      Inr (sample_decoder, [[47, 121]])"
    by (simp add: parse_request_def request_ok_def ARG_COUNT_def ARG_BYTES_def strnlen_def sample_decoder_def)
  ultimately have rc: "serve_receive [sample_decoder] [] 0 sample_serve =
      Some (Inr (sample_decoder, [[47, 121]]), replicate 28 sample_busy)"
    by (simp add: serve_receive_def sample_serve_def req request_deadline_def REQUEST_MS_def tin rs(1)
        )
  have flags: "v_flags sample_serve" "v_now sample_serve = 0"
    and spawn: "serve_spawn 0 sample_serve =
      Inr (0, 99, [Fd_Open 0, Fd_Open 1, Fd_Open 7, Fd_Close 1, Child_Spawned 99, Fd_Close 7])"
    and hs: "handshake 10000 (v_handshake sample_serve) = Some None"
    and sv: "supervise 99 (v_wait sample_serve) = Some (Some (256, 5), [Child_Reaped 99, Group_Killed 99])"
    by (simp_all add: sample_serve_def serve_spawn_def close_stdio_def wait_lost_def)
  show ?thesis
    by (simp add: serve_request_def rc flags spawn request_deadline_def REQUEST_MS_def hs
        serve_running_def sv send_reply_def tout rs(2))
qed




text \<open>
  C23. Faithful service: a helper is started only for a request that stands at the front of the
  channel's stream and that the specification authorises for this helper and these arguments; without
  a helper only errors are replied; and with one the replies are an error, or an acknowledgement, or
  an acknowledgement followed by the status with which \<open>waitpid\<close> collected the helper.
\<close>

theorem serve_request_faithful:
  assumes s: "serve_request reply_bytes frozen font_root bits env = Some z"
  shows "case z_helper z of
      None \<Rightarrow> \<forall>y\<in>set (z_replies z). y_error y \<noteq> None
    | Some (h, argv) \<Rightarrow>
        (\<exists>req path args rest. v_in env = put_request req @ packed (path # args) @ rest \<and>
           authorised frozen font_root bits (v_regular env) path args = Inr (h, argv)) \<and>
        (z_replies z = [] \<or> (\<exists>e. z_replies z = [\<lparr>y_error = Some e, y_status = 0\<rparr>]) \<or>
         z_replies z = [\<lparr>y_error = None, y_status = 0\<rparr>] \<or>
         (\<exists>a\<in>set (v_wait env). \<exists>status. w_result a = Wait_Status status \<and>
            z_replies z = [\<lparr>y_error = None, y_status = 0\<rparr>, \<lparr>y_error = None, y_status = status\<rparr>]))"
  using s
proof (cases rule: serve_request_cases)
  case (failed r child es e helper as)
  obtain h argv where "helper = (h, argv)" by fastforce
  then show ?thesis using failed serve_receive_sound [of frozen font_root bits env h argv as] by auto
next
  case (started r child es helper as)
  obtain h argv where h: "helper = (h, argv)" by fastforce
  have "\<exists>req path args rest. v_in env = put_request req @ packed (path # args) @ rest \<and>
      authorised frozen font_root bits (v_regular env) path args = Inr (h, argv)"
    using serve_receive_sound [of frozen font_root bits env h argv as] started(2) h by blast
  moreover have "z_helper z = Some (h, argv)" using serve_running_shape [OF started(3)] h by auto
  moreover have "z_replies z = [] \<or> z_replies z = [\<lparr>y_error = None, y_status = 0\<rparr>] \<or>
      (\<exists>a\<in>set (v_wait env). \<exists>status. w_result a = Wait_Status status \<and>
         z_replies z = [\<lparr>y_error = None, y_status = 0\<rparr>, \<lparr>y_error = None, y_status = status\<rparr>])"
    using serve_running_cases [OF started(3)]
  proof (elim disjE exE conjE)
    fix status now ks sent
    assume sv: "supervise child (v_wait env) = Some (Some (status, now), ks)"
    have "\<exists>a\<in>set (v_wait env). w_result a = Wait_Status status" using supervise_ends [OF sv] by auto
    moreover assume "z_replies z = \<lparr>y_error = None, y_status = 0\<rparr> # sent"
      and "sent = [\<lparr>y_error = None, y_status = status\<rparr>]"
    ultimately show ?thesis by auto
  qed simp_all
  ultimately show ?thesis by auto
qed simp_all

lemma serve_request_faithful_witness:
  "\<exists>z. serve_request (\<lambda>y. replicate 8 0) [sample_decoder] [] 0 sample_serve = Some z \<and>
     z_helper z = Some (sample_decoder, [[47, 121]]) \<and>
     (\<exists>req path args rest. v_in sample_serve = put_request req @ packed (path # args) @ rest \<and>
        authorised [sample_decoder] [] 0 False path args = Inr (sample_decoder, [[47, 121]]))"
proof -
  obtain z where z: "serve_request (\<lambda>y. replicate 8 0) [sample_decoder] [] 0 sample_serve = Some z"
    "z_helper z = Some (sample_decoder, [[47, 121]])"
    using sample_serve_run by auto
  have "v_regular sample_serve = False" by (simp add: sample_serve_def)
  then show ?thesis using serve_request_faithful [OF z(1)] z by auto
qed

text \<open>
  Service of a well-behaved caller: a request that \<open>wn_helper_execve\<close> packed, that is authorised
  and whose helper starts and ends while the sockets make progress before the deadlines, is answered
  by an acknowledgement and the helper's exit status.
\<close>

theorem serve_request_completes:
  assumes enc: "encode_request (Some path) (Some (program # args)) = Inr (req, bytes)"
    and cs: "is_cstring path" "\<forall>a\<in>set args. is_cstring a"
    and au: "authorised frozen font_root bits (v_regular env) path args = Inr (h, argv)"
    and inp: "v_in env = put_request req @ bytes" and fl: "v_flags env"
    and os: "v_pipe env = Inr fds" "v_dup env = Inr writer" "v_fork env = Inr child"
    and hs: "handshake (request_deadline (v_now env)) (v_handshake env) = Some None"
    and sv: "supervise child (v_wait env) = Some (Some (status, now), ks)"
    and io: "\<forall>a\<in>set (v_io env). prompt (request_deadline (v_now env)) a \<and> prompt (request_deadline now) a"
      "24 + length bytes \<le> length (v_io env)" and rb: "\<forall>y. length (reply_bytes y) = 8"
  shows "\<exists>z. serve_request reply_bytes frozen font_root bits env = Some z \<and> z_helper z = Some (h, argv) \<and>
    z_replies z = [\<lparr>y_error = None, y_status = 0\<rparr>, \<lparr>y_error = None, y_status = status\<rparr>]"
proof -
  define d where "d = request_deadline (v_now env)"
  have fits: "request_fits path args" and req:
    "req = \<lparr>r_count = of_nat (length args), r_bytes = of_nat (length (packed (path # args)))\<rparr>" "bytes = packed (path # args)"
    using enc unfolding encode_request_spec [OF cs] by (auto split: if_splits)
  have b: "length args < 64" "length (packed (path # args)) \<le> 16384" "0 < length (packed (path # args))"
    using fits by (auto simp: request_fits_def ARG_COUNT_def ARG_BYTES_def)
  then have u: "unat (r_count req) = length args" "unat (r_bytes req) = length bytes"
    unfolding req request.simps by (auto intro: unat_of_nat_u32 simp del: packed_simps)
  have ok: "request_ok req"
    using u b req(2) by (auto simp: request_ok_def ARG_COUNT_def ARG_BYTES_def simp del: packed_simps)
  have p: "parse_request frozen font_root bits (v_regular env) req bytes = Inr (h, argv)"
    using parse_request_spec [OF _ _ fits cs, of req] u au unfolding req(2) by simp
  obtain as where rc: "serve_receive frozen font_root bits env = Some (Inr (h, argv), as)"
    and as: "set as \<subseteq> set (v_io env)" "length (v_io env) \<le> length as + 8 + length bytes"
    using serve_receive_complete [OF inp ok u(2) [symmetric], of frozen font_root bits] io p by auto
  obtain r es where sp: "serve_spawn bits env = Inr (r, child, es)"
    using os by (cases fds) (simp add: serve_spawn_def Let_def)
  have "\<forall>a\<in>set as. prompt d a" "16 \<le> length as" using as io by (auto simp: d_def)
  then obtain as1 where s1: "send_reply reply_bytes d as \<lparr>y_error = None, y_status = 0\<rparr> =
      Some ([\<lparr>y_error = None, y_status = 0\<rparr>], as1)" and as1: "set as1 \<subseteq> set as" "length as \<le> length as1 + 8"
    using send_reply_progress [of as d reply_bytes "\<lparr>y_error = None, y_status = 0\<rparr>"] rb by auto
  have "\<forall>a\<in>set as1. prompt (request_deadline now) a" "8 \<le> length as1" using as1 as io by auto
  then obtain as2 where s2: "send_reply reply_bytes (request_deadline now) as1 \<lparr>y_error = None, y_status = status\<rparr> =
      Some ([\<lparr>y_error = None, y_status = status\<rparr>], as2)"
    using send_reply_progress [of as1 "request_deadline now" reply_bytes "\<lparr>y_error = None, y_status = status\<rparr>"] rb by auto
  show ?thesis
    by (simp add: serve_request_def Let_def d_def [symmetric] fl rc sp hs [folded d_def] serve_running_def s1 sv s2)
qed

lemma serve_request_completes_witness:
  "\<exists>z. serve_request (\<lambda>y. replicate 8 0) [sample_decoder] [] 0 sample_serve = Some z \<and>
     z_replies z = [\<lparr>y_error = None, y_status = 0\<rparr>, \<lparr>y_error = None, y_status = 256\<rparr>]"
proof -
  have enc: "encode_request (Some [47, 120]) (Some [[120]]) = Inr (\<lparr>r_count = 0, r_bytes = 3\<rparr>, [47, 120, 0])"
    by (simp add: encode_request_def strnlen_def ARG_BYTES_def ARG_COUNT_def)
  have cs: "is_cstring [47, 120]" "\<forall>a\<in>set []. is_cstring a" by (simp_all add: is_cstring_def)
  have au: "authorised [sample_decoder] [] 0 (v_regular sample_serve) [47, 120] [] = Inr (sample_decoder, [[47, 121]])"
    by (simp add: authorised_def sample_decoder_def)
  have inp: "v_in sample_serve = put_request \<lparr>r_count = 0, r_bytes = 3\<rparr> @ [47, 120, 0]" "v_flags sample_serve"
    and os: "v_pipe sample_serve = Inr (0, 1)" "v_dup sample_serve = Inr 7" "v_fork sample_serve = Inr 99"
    and hs: "handshake (request_deadline (v_now sample_serve)) (v_handshake sample_serve) = Some None"
    and sv: "supervise 99 (v_wait sample_serve) = Some (Some (256, 5), [Child_Reaped 99, Group_Killed 99])"
    and io: "\<forall>a\<in>set (v_io sample_serve). prompt (request_deadline (v_now sample_serve)) a \<and> prompt (request_deadline 5) a"
      "24 + length [47, 120, 0 :: byte] \<le> length (v_io sample_serve)"
    by (simp_all add: sample_serve_def request_deadline_def REQUEST_MS_def wait_lost_def prompt_def
        sample_busy_def sample_round_def broker_io_step_def broker_call_step_def)
  have rb: "\<forall>y. length ((\<lambda>y. replicate 8 0) (y :: reply)) = 8" by simp
  show ?thesis
    using serve_request_completes [OF enc cs au inp os hs sv io rb] by (elim exE conjE) (intro exI conjI)
qed

end
