(* ===== verification/Helper_Launcher.thy ===== *)
theory Helper_Launcher
  imports Helper_Serve "HOL-Library.Multiset"
begin

text \<open>
  The launcher process (\<open>launch_loop\<close> of \<open>app/helper_broker.c\<close>), its start and stop in the application
  (\<open>wn_helpers_start\<close>, \<open>wn_helpers_stop\<close>) and the proxy that stands in for a helper in the caller
  (\<open>wn_helper_execve\<close>, \<open>proxy_exit\<close>).
\<close>

section \<open>Several children\<close>

text \<open>
  The children alive after a trace: a child is signalled or collected only while it is alive, and at
  most \<open>limit\<close> are alive at any time.
\<close>

fun live_jobs :: "nat \<Rightarrow> int set \<Rightarrow> event list \<Rightarrow> int set option" where
  "live_jobs limit live [] = Some live"
| "live_jobs limit live (Child_Spawned p # es) =
     (if p \<in> live \<or> card live \<ge> limit then None else live_jobs limit (insert p live) es)"
| "live_jobs limit live (Child_Killed p # es) = (if p \<in> live then live_jobs limit live es else None)"
| "live_jobs limit live (Child_Reaped p # es) = (if p \<in> live then live_jobs limit (live - {p}) es else None)"
| "live_jobs limit live (e # es) = live_jobs limit live es"

lemma live_jobs_append:
  "live_jobs limit live (xs @ ys) =
     (case live_jobs limit live xs of None \<Rightarrow> None | Some live' \<Rightarrow> live_jobs limit live' ys)"
  by (induction limit live xs rule: live_jobs.induct) auto

lemma live_jobs_killed: "set js \<subseteq> live \<Longrightarrow> live_jobs limit live (map Child_Killed js) = Some live"
  by (induction js) auto

lemma live_jobs_reaped:
  "set js \<subseteq> live \<Longrightarrow> distinct js \<Longrightarrow> live_jobs limit live (map Child_Reaped js) = Some (live - set js)"
proof (induction js arbitrary: live)
  case (Cons a js)
  then have "set js \<subseteq> live - {a}" by auto
  then have "live_jobs limit (live - {a}) (map Child_Reaped js) = Some (live - {a} - set js)"
    using Cons by simp
  moreover have "live - {a} - set js = live - set (a # js)" by auto
  ultimately show ?case using Cons.prems(1) by simp
qed simp

section \<open>The launcher\<close>

definition JOB_COUNT :: nat where "JOB_COUNT = 128"

datatype launch_poll = Launch_Ready | Launch_Interrupted | Launch_Failed

text \<open>
  One iteration: which children have ended, the answer of \<open>ppoll\<close>, the message with the open files
  its descriptors refer to, the answers of \<open>F_DUPFD_CLOEXEC\<close> and of \<open>fork\<close>.
\<close>

record 'o launch_round =
  n_stopping :: bool
  n_exited :: "int \<Rightarrow> bool"
  n_poll :: launch_poll
  n_received :: received
  n_objects :: "'o list"
  n_dup :: "nat \<Rightarrow> int"
  n_fork :: int

record 'o launcher =
  j_jobs :: "int list"
  j_table :: "'o fd_table"
  j_served :: "(byte \<times> 'o fd_table option) list"
  j_events :: "event list"

text \<open>What the kernel adds to the table when a message is received.\<close>

definition install_fds :: "received \<Rightarrow> 'o list \<Rightarrow> 'o fd_table \<Rightarrow> 'o fd_table" where
  "install_fds r objects table =
     (case r of Channel_Message m \<Rightarrow> table ++ map_of (zip (rights_fds m) objects) | _ \<Rightarrow> table)"

definition received_mask :: "received \<Rightarrow> byte" where
  "received_mask r = (case r of Channel_Message m \<Rightarrow> m_mask m | _ \<Rightarrow> 0)"

text \<open>Collecting ended jobs, and the first free slot (\<open>JOB_COUNT\<close> when there is none).\<close>

definition reap_jobs :: "(int \<Rightarrow> bool) \<Rightarrow> int list \<Rightarrow> int list \<times> event list" where
  "reap_jobs exited jobs =
     (map (\<lambda>j. if j \<noteq> 0 \<and> exited j then 0 else j) jobs,
      map Child_Reaped (filter (\<lambda>j. j \<noteq> 0 \<and> exited j) jobs))"

definition free_slot :: "int list \<Rightarrow> nat" where
  "free_slot jobs = length (takeWhile (\<lambda>j. j \<noteq> 0) jobs)"

text \<open>A request: fork when there is a slot, and close the parent's copies in any case.\<close>

definition launch_job :: "'o launch_round \<Rightarrow> int list \<Rightarrow> 'o launcher \<Rightarrow> 'o launcher" where
  "launch_job r descriptors s =
     (let free = free_slot (j_jobs s);
          child = (if free = JOB_COUNT then -1 else n_fork r);
          bits = received_mask (n_received r);
          s = (if child > 0
               then s\<lparr>j_jobs := (j_jobs s)[free := child], j_events := j_events s @ [Child_Spawned child],
                      j_served := j_served s @ [(bits, job_table bits descriptors (j_table s))]\<rparr>
               else s)
      in s\<lparr>j_table := close_all descriptors (j_table s)\<rparr>)"

text \<open>\<open>Inl\<close>: the loop is left; \<open>Inr\<close>: the next iteration.\<close>

definition launch_step :: "'o launch_round \<Rightarrow> 'o launcher \<Rightarrow> 'o launcher + 'o launcher" where
  "launch_step r s =
     (if n_stopping r then Inl s
      else
        let (jobs, es) = reap_jobs (n_exited r) (j_jobs s);
            s = s\<lparr>j_jobs := jobs, j_events := j_events s @ es\<rparr>
        in case n_poll r of
             Launch_Interrupted \<Rightarrow> Inr s
           | Launch_Failed \<Rightarrow> Inl s
           | Launch_Ready \<Rightarrow>
               let (result, table) = receive_channel (n_dup r) (n_received r)
                     (install_fds (n_received r) (n_objects r) (j_table s));
                   s = s\<lparr>j_table := table\<rparr>
               in case result of
                    Channel_Lost \<Rightarrow> Inl s
                  | Channel_Ignored \<Rightarrow> Inr s
                  | Channel_Accepted descriptors \<Rightarrow> Inr (launch_job r descriptors s))"

text \<open>After the loop: terminate all jobs, then collect them.\<close>

definition launch_end :: "'o launcher \<Rightarrow> 'o launcher" where
  "launch_end s =
     (let live = filter (\<lambda>j. j \<noteq> 0) (j_jobs s)
      in s\<lparr>j_events := j_events s @ map Child_Killed live @ map Child_Reaped live\<rparr>)"

definition launch_loop :: "'o launch_round list \<Rightarrow> 'o fd_table \<Rightarrow> 'o launcher option" where
  "launch_loop rounds table =
     (case perform launch_step rounds
             \<lparr>j_jobs = replicate JOB_COUNT 0, j_table = table, j_served = [], j_events = []\<rparr> of
        Inl s \<Rightarrow> Some (launch_end s)
      | Inr s \<Rightarrow> None)"

text \<open>
  The launcher process between \<open>fork\<close> and its loop: it keeps nothing but its end of the socket pair.
  \<open>None\<close>: it exits before reporting.
\<close>

record launcher_answers =
  f_setsid :: bool
  f_signals :: bool
  f_sandbox :: bool
  f_report :: bool

definition launcher_start :: "launcher_answers \<Rightarrow> int \<Rightarrow> 'o fd_table \<Rightarrow> (errno option \<times> 'o fd_table) option" where
  "launcher_start ans socket table =
     (if \<not> f_setsid ans then None
      else
        (case dup2 socket 3 table of
           None \<Rightarrow> None
         | Some table \<Rightarrow>
             let table = close_all [0, 1, 2] (close_above 4 table) in
             if \<not> f_signals ans \<or> \<not> f_report ans then None
             else Some (if f_sandbox ans then None else Some EPERM, table)))"

section \<open>Starting and stopping\<close>

record broker =
  launch_fd :: int
  launch_pid :: int

record broker_env =
  b_rlimit :: "errno option"
  b_pair :: "errno + (int \<times> int)"
  b_dup0 :: "errno + int"
  b_dup1 :: "errno + int"
  b_fork :: "errno + int"
  b_ready :: "errno + errno option"

definition wn_helpers_stop :: "broker \<Rightarrow> broker \<times> event list" where
  "wn_helpers_stop st =
     (let (st, es) = (if launch_fd st \<ge> 0 then (st\<lparr>launch_fd := -1\<rparr>, [Fd_Close (launch_fd st)]) else (st, []))
      in if launch_pid st > 0 then (st\<lparr>launch_pid := -1\<rparr>, es @ [Child_Reaped (launch_pid st)]) else (st, es))"

definition wn_helpers_start ::
  "errno + (helper list \<times> cstring) \<Rightarrow> errno + cstring list \<Rightarrow> broker_env \<Rightarrow> broker \<Rightarrow>
   errno option \<times> broker \<times> event list" where
  "wn_helpers_start helpers environment env st =
     (if launch_fd st \<ge> 0 then (Some EALREADY, st, [])
      else
        (case (helpers, environment, b_rlimit env) of
           (Inl e, _, _) \<Rightarrow> (Some e, st, [])
         | (Inr _, Inl e, _) \<Rightarrow> (Some e, st, [])
         | (Inr _, Inr _, Some e) \<Rightarrow> (Some e, st, [])
         | (Inr _, Inr _, None) \<Rightarrow>
             (case socket_pair (b_pair env) (b_dup0 env) (b_dup1 env) of
                (Inl e, es) \<Rightarrow> (Some e, st, es)
              | (Inr (a, b), es) \<Rightarrow>
                  (case b_fork env of
                     Inl e \<Rightarrow> (Some e, st\<lparr>launch_pid := -1\<rparr>, es @ [Fd_Close a, Fd_Close b])
                   | Inr pid \<Rightarrow>
                       let st = \<lparr>launch_fd = a, launch_pid = pid\<rparr>;
                           es = es @ [Child_Spawned pid, Fd_Close b];
                           error = (case b_ready env of Inl _ \<Rightarrow> Some EIO | Inr e \<Rightarrow> e)
                       in if error \<noteq> None
                          then let (st, stopped) = wn_helpers_stop st in (error, st, es @ stopped)
                          else (None, st, es)))))"

section \<open>The proxy\<close>

text \<open>How the proxy process ends.\<close>

datatype proxy_end = Proxy_Exit nat | Proxy_Signal nat

text \<open>\<open>WIFEXITED\<close>, \<open>WEXITSTATUS\<close>, \<open>WIFSIGNALED\<close> and \<open>WTERMSIG\<close> on a wait status.\<close>

definition proxy_exit :: "nat \<Rightarrow> proxy_end" where
  "proxy_exit status =
     (if status mod 128 = 0 then Proxy_Exit (status div 256 mod 256)
      else if status mod 128 < 127 then Proxy_Signal (status mod 128)
      else Proxy_Exit 127)"

text \<open>The wait status by which its parent sees the proxy.\<close>

definition status_of :: "proxy_end \<Rightarrow> nat" where
  "status_of e = (case e of Proxy_Exit code \<Rightarrow> code * 256 | Proxy_Signal n \<Rightarrow> n)"

datatype execve_result = Execve_Failed errno | Execve_Proxy proxy_end

datatype sendmsg_answer = Sent | Send_Interrupted | Send_Error errno

fun send_rights :: "sendmsg_answer list \<Rightarrow> errno option option" where
  "send_rights [] = None"
| "send_rights (a # as) =
     (case a of Sent \<Rightarrow> Some None | Send_Interrupted \<Rightarrow> send_rights as | Send_Error e \<Rightarrow> Some (Some e))"

record client_env =
  g_pair :: "errno + (int \<times> int)"
  g_dup0 :: "errno + int"
  g_dup1 :: "errno + int"
  g_probe :: "int \<Rightarrow> probe"
  g_probe_error :: errno
  g_send :: "sendmsg_answer list"
  g_io :: "io_round list"
  g_in :: "byte list"
  g_dup2 :: bool

text \<open>
  The exchange with the job process; \<open>get_reply\<close> reads the object representation of \<open>struct reply\<close>.
  The second component is what was written to the channel.
\<close>

definition proxy_exchange ::
  "(byte list \<Rightarrow> reply) \<Rightarrow> request \<Rightarrow> byte list \<Rightarrow> client_env \<Rightarrow> (execve_result \<times> byte list) option" where
  "proxy_exchange get_reply req bytes env =
     (case transfer_out 0 (g_io env) (put_request req) of
        None \<Rightarrow> None
      | Some (Inl e, out, as) \<Rightarrow> Some (Execve_Failed e, out)
      | Some (Inr _, out, as) \<Rightarrow>
          (case transfer_out 0 as bytes of
             None \<Rightarrow> None
           | Some (Inl e, out1, as) \<Rightarrow> Some (Execve_Failed e, out @ out1)
           | Some (Inr _, out1, as) \<Rightarrow>
               (case transfer_in 0 as 8 (g_in env) of
                  None \<Rightarrow> None
                | Some (Inl e, rest, as) \<Rightarrow> Some (Execve_Failed e, out @ out1)
                | Some (Inr first, rest, as) \<Rightarrow>
                    (case y_error (get_reply first) of
                       Some e \<Rightarrow> Some (Execve_Failed e, out @ out1)
                     | None \<Rightarrow>
                         if \<not> g_dup2 env then Some (Execve_Proxy (Proxy_Exit 127), out @ out1)
                         else
                           (case transfer_in 0 as 8 rest of
                              None \<Rightarrow> None
                            | Some (Inl e, rest, as) \<Rightarrow> Some (Execve_Proxy (Proxy_Exit 127), out @ out1)
                            | Some (Inr second, rest, as) \<Rightarrow>
                                Some (Execve_Proxy (proxy_exit (nat (y_status (get_reply second)))), out @ out1))))))"

definition wn_helper_execve ::
  "(byte list \<Rightarrow> reply) \<Rightarrow> int \<Rightarrow> cstring option \<Rightarrow> cstring list option \<Rightarrow> client_env \<Rightarrow>
   (execve_result \<times> byte list) option" where
  "wn_helper_execve get_reply launch path argv env =
     (if launch < 0 then Some (Execve_Failed ENOSYS, [])
      else
        (case encode_request path argv of
           Inl e \<Rightarrow> Some (Execve_Failed e, [])
         | Inr (req, bytes) \<Rightarrow>
             (case socket_pair (g_pair env) (g_dup0 env) (g_dup1 env) of
                (Inl e, es) \<Rightarrow> Some (Execve_Failed e, [])
              | (Inr (a, b), es) \<Rightarrow>
                  (case send_channel (g_probe env) b of
                     None \<Rightarrow> Some (Execve_Failed (g_probe_error env), [])
                   | Some (descriptors, bits) \<Rightarrow>
                       (case send_rights (g_send env) of
                          None \<Rightarrow> None
                        | Some (Some e) \<Rightarrow> Some (Execve_Failed e, [])
                        | Some None \<Rightarrow> proxy_exchange get_reply req bytes env)))))"

section \<open>Lemmas on the launcher\<close>

abbreviation busy :: "int list \<Rightarrow> int list" where
  "busy jobs \<equiv> filter (\<lambda>j. j \<noteq> 0) jobs"

text \<open>The launcher between two iterations; \<open>table\<close> is its table at start.\<close>

definition launcher_inv :: "'o fd_table \<Rightarrow> 'o launcher \<Rightarrow> bool" where
  "launcher_inv table s \<longleftrightarrow>
     length (j_jobs s) = JOB_COUNT \<and> distinct (busy (j_jobs s)) \<and> j_table s = table \<and>
     live_jobs JOB_COUNT {} (j_events s) = Some (set (busy (j_jobs s)))"

text \<open>
  What the kernel guarantees in one iteration: a new child's id is not that of a child that has not
  been collected, and the descriptors of a message are new.
\<close>

definition message_ok :: "'o fd_table \<Rightarrow> 'o launch_round \<Rightarrow> bool" where
  "message_ok table r \<longleftrightarrow>
     (case n_received r of
        Channel_Message m \<Rightarrow>
          let fds = rights_fds m; installed = install_fds (n_received r) (n_objects r) table in
          distinct fds \<and> set fds \<inter> dom table = {} \<and> length (n_objects r) = length fds \<and>
          fresh_dups (n_dup r) 0 (take 4 fds) (close_all (drop 4 fds) installed)
      | _ \<Rightarrow> True)"

definition round_ok :: "'o fd_table \<Rightarrow> 'o launch_round \<Rightarrow> 'o launcher \<Rightarrow> bool" where
  "round_ok table r s \<longleftrightarrow>
     n_fork r \<notin> set (busy (fst (reap_jobs (n_exited r) (j_jobs s)))) \<and> message_ok table r"

fun rounds_ok :: "'o fd_table \<Rightarrow> 'o launch_round list \<Rightarrow> 'o launcher \<Rightarrow> bool" where
  "rounds_ok table [] s = True"
| "rounds_ok table (r # rs) s =
     (round_ok table r s \<and> (case launch_step r s of Inl _ \<Rightarrow> True | Inr s' \<Rightarrow> rounds_ok table rs s'))"

lemma busy_reaped: "busy (map (\<lambda>j. if j \<noteq> 0 \<and> P j then 0 else j) jobs) = filter (\<lambda>j. \<not> P j) (busy jobs)"
  by (induction jobs) auto

lemma reap_jobs_inv:
  assumes "launcher_inv table s" "reap_jobs exited (j_jobs s) = (jobs, es)"
  shows "launcher_inv table (s\<lparr>j_jobs := jobs, j_events := j_events s @ es\<rparr>)"
proof -
  have j: "jobs = map (\<lambda>j. if j \<noteq> 0 \<and> exited j then 0 else j) (j_jobs s)"
    and es: "es = map Child_Reaped (filter exited (busy (j_jobs s)))"
    using assms(2) by (auto simp: reap_jobs_def)
  have d: "distinct (busy (j_jobs s))" and l: "live_jobs JOB_COUNT {} (j_events s) = Some (set (busy (j_jobs s)))"
    using assms(1) by (simp_all add: launcher_inv_def)
  have "live_jobs JOB_COUNT (set (busy (j_jobs s))) es = Some (set (busy (j_jobs s)) - set (filter exited (busy (j_jobs s))))"
    unfolding es by (rule live_jobs_reaped [OF _ distinct_filter [OF d]]) auto
  moreover have "set (busy (j_jobs s)) - set (filter exited (busy (j_jobs s))) = set (busy jobs)"
    unfolding j busy_reaped by auto
  moreover have "distinct (busy jobs)" unfolding j busy_reaped using d by (rule distinct_filter)
  ultimately show ?thesis using assms(1) l by (simp add: launcher_inv_def live_jobs_append j)
qed

lemma free_slot_busy:
  "free_slot jobs < length jobs \<Longrightarrow> child \<noteq> 0 \<Longrightarrow>
   mset (busy (jobs[free_slot jobs := child])) = add_mset child (mset (busy jobs))"
proof (induction jobs)
  case (Cons j jobs)
  then show ?case by (cases "j = 0") (auto simp: free_slot_def)
qed (simp add: free_slot_def)

lemma free_slot_le: "free_slot jobs \<le> length jobs"
  by (simp add: free_slot_def length_takeWhile_le)

lemma busy_le_slots: "free_slot jobs < length jobs \<Longrightarrow> length (busy jobs) < length jobs"
proof (induction jobs)
  case (Cons j jobs)
  then show ?case by (cases "j = 0") (auto simp: free_slot_def le_imp_less_Suc)
qed (simp add: free_slot_def)

text \<open>A received message leaves the table as it was, apart from what is handed to the job.\<close>

lemma receive_installed:
  assumes "message_ok table r"
    and "receive_channel (n_dup r) (n_received r) (install_fds (n_received r) (n_objects r) table) = (result, table')"
  shows "(\<forall>ds. result \<noteq> Channel_Accepted ds) \<longrightarrow> table' = table"
    and "result = Channel_Accepted ds \<Longrightarrow> close_all ds table' = table"
proof -
  have "((\<forall>ds. result \<noteq> Channel_Accepted ds) \<and> table' = table) \<or> (\<exists>ds. result = Channel_Accepted ds \<and> close_all ds table' = table)"
  proof (cases "n_received r")
    case (Channel_Message m)
    define fds where "fds = rights_fds m"
    define t1 where "t1 = install_fds (n_received r) (n_objects r) table"
    have ok: "distinct fds" "set fds \<inter> dom table = {}" "length (n_objects r) = length fds"
      "fresh_dups (n_dup r) 0 (take 4 fds) (close_all (drop 4 fds) t1)"
      using assms(1) by (auto simp: message_ok_def Channel_Message Let_def fds_def t1_def)
    have m: "dom (map_of (zip fds (n_objects r))) = set fds" using ok(3) by (simp add: dom_map_of_zip)
    have t1: "t1 = table ++ map_of (zip fds (n_objects r))" by (simp add: t1_def install_fds_def Channel_Message fds_def)
    have sub: "set fds \<subseteq> dom t1" using m by (auto simp: t1)
    have off: "(if x \<in> set fds then None else t1 x) = table x" for x
    proof (cases "x \<in> set fds")
      case True
      then have "x \<notin> dom table" using ok(2) by blast
      then show ?thesis using True by (simp add: domIff)
    next
      case False
      then have "map_of (zip fds (n_objects r)) x = None" using m by (metis domIff)
      then show ?thesis using False by (simp add: t1 map_add_def)
    qed
    have r: "receive_message (n_dup r) m t1 = (result, table')"
      using assms(2) by (simp add: receive_channel_def Channel_Message t1_def)
    from receive_message_spec [OF ok(1) [unfolded fds_def] sub [unfolded fds_def] ok(4) [unfolded fds_def] r]
    show ?thesis
    proof (elim disjE exE conjE)
      assume "result = Channel_Ignored" "\<forall>x. table' x = (if x \<in> set (rights_fds m) then None else t1 x)"
      then show ?thesis using off by (auto simp: fds_def fun_eq_iff)
    next
      fix ds assume "result = Channel_Accepted ds" "distinct ds" "map table' ds = map t1 (rights_fds m)"
        and d: "\<forall>x. x \<notin> set ds \<longrightarrow> table' x = (if x \<in> set (rights_fds m) then None else t1 x)"
        and dt: "set ds \<inter> dom t1 \<subseteq> set (rights_fds m)"
      have "close_all ds table' x = table x" for x
      proof (cases "x \<in> set ds")
        case True
        then have "x \<notin> dom t1 \<or> x \<in> set fds" using dt by (auto simp: fds_def)
        then have "table x = None" using off [of x] by (auto simp: domIff split: if_splits)
        then show ?thesis using True by (simp add: close_all_apply)
      next
        case False
        then show ?thesis using d off [of x] by (simp add: close_all_apply fds_def)
      qed
      then show ?thesis using \<open>result = Channel_Accepted ds\<close> by (auto simp: fun_eq_iff)
    qed
  qed (use assms(2) in \<open>auto simp: receive_channel_def install_fds_def\<close>)
  then show "(\<forall>ds. result \<noteq> Channel_Accepted ds) \<longrightarrow> table' = table"
    and "result = Channel_Accepted ds \<Longrightarrow> close_all ds table' = table" by auto
qed

lemma launch_job_inv:
  assumes inv: "launcher_inv table (s\<lparr>j_table := table\<rparr>)" and cl: "close_all ds (j_table s) = table"
    and fork: "n_fork r \<notin> set (busy (j_jobs s))"
  shows "launcher_inv table (launch_job r ds s)"
proof -
  let ?free = "free_slot (j_jobs s)"
  have l: "length (j_jobs s) = JOB_COUNT" and d: "distinct (busy (j_jobs s))"
    and live: "live_jobs JOB_COUNT {} (j_events s) = Some (set (busy (j_jobs s)))"
    using inv by (simp_all add: launcher_inv_def)
  show ?thesis
  proof (cases "?free \<noteq> JOB_COUNT \<and> n_fork r > 0")
    case False
    then show ?thesis using inv cl by (auto simp: launch_job_def Let_def launcher_inv_def)
  next
    case True
    then have lt: "?free < length (j_jobs s)" using free_slot_le [of "j_jobs s"] l by simp
    have ne: "n_fork r \<noteq> 0" using True by simp
    note m = free_slot_busy [OF lt ne]
    have "card (set (busy (j_jobs s))) < JOB_COUNT"
      using busy_le_slots [OF lt] l card_length [of "busy (j_jobs s)"] by linarith
    then have ev: "live_jobs JOB_COUNT {} (j_events s @ [Child_Spawned (n_fork r)]) =
        Some (insert (n_fork r) (set (busy (j_jobs s))))"
      using fork by (simp add: live_jobs_append live)
    have st: "set (busy ((j_jobs s)[?free := n_fork r])) = insert (n_fork r) (set (busy (j_jobs s)))"
      using arg_cong [OF m, of set_mset] by (simp only: set_mset_mset set_mset_add_mset_insert)
    have "distinct (busy ((j_jobs s)[?free := n_fork r]))"
    proof -
      have "distinct (n_fork r # busy (j_jobs s))" using d fork by simp
      moreover have "mset (busy ((j_jobs s)[?free := n_fork r])) = mset (n_fork r # busy (j_jobs s))"
        unfolding m by simp
      ultimately show ?thesis by (metis mset_eq_imp_distinct_iff)
    qed
    then show ?thesis using True ev st l cl
      by (simp add: launch_job_def Let_def launcher_inv_def)
  qed
qed

lemma launch_step_inv:
  assumes inv: "launcher_inv table s" and ok: "round_ok table r s"
  shows "case launch_step r s of Inl s' \<Rightarrow> launcher_inv table s' | Inr s' \<Rightarrow> launcher_inv table s'"
proof (cases "n_stopping r")
  case True
  then show ?thesis using inv by (simp add: launch_step_def)
next
  case False
  obtain jobs es where rp: "reap_jobs (n_exited r) (j_jobs s) = (jobs, es)" by fastforce
  define s1 where "s1 = s\<lparr>j_jobs := jobs, j_events := j_events s @ es\<rparr>"
  have i1: "launcher_inv table s1" unfolding s1_def by (rule reap_jobs_inv [OF inv rp])
  have t1: "j_table s1 = table" using i1 by (simp add: launcher_inv_def)
  have fk: "n_fork r \<notin> set (busy (j_jobs s1))" and mo: "message_ok table r"
    using ok rp by (simp_all add: round_ok_def s1_def)
  note st = launch_step_def [of r s, unfolded Let_def rp prod.case s1_def [symmetric]]
  show ?thesis
  proof (cases "n_poll r")
    case Launch_Ready
    obtain result table' where rc: "receive_channel (n_dup r) (n_received r)
        (install_fds (n_received r) (n_objects r) (j_table s1)) = (result, table')" by fastforce
    note ri = receive_installed [OF mo rc [unfolded t1]]
    define s2 where "s2 = s1\<lparr>j_table := table'\<rparr>"
    have i2: "launcher_inv table (s2\<lparr>j_table := table\<rparr>)" using i1 by (simp add: s2_def launcher_inv_def)
    show ?thesis
    proof (cases result)
      case (Channel_Accepted ds)
      have "launcher_inv table (launch_job r ds s2)"
        by (rule launch_job_inv [OF i2]) (use ri(2) [OF Channel_Accepted] fk in \<open>simp_all add: s2_def\<close>)
      then show ?thesis unfolding st using False Launch_Ready rc Channel_Accepted by (simp add: s2_def)
    qed (use st False Launch_Ready rc ri(1) i2 in \<open>auto simp: s2_def\<close>)
  qed (use st False i1 in simp_all)
qed

lemma perform_launch_inv:
  "launcher_inv table s \<Longrightarrow> rounds_ok table rounds s \<Longrightarrow> perform launch_step rounds s = Inl s' \<Longrightarrow> launcher_inv table s'"
proof (induction rounds arbitrary: s)
  case (Cons r rounds)
  have ok: "round_ok table r s" using Cons.prems(2) by simp
  show ?case
  proof (cases "launch_step r s")
    case (Inl t)
    then show ?thesis using launch_step_inv [OF Cons.prems(1) ok] Cons.prems(3) by simp
  next
    case (Inr t)
    then show ?thesis using launch_step_inv [OF Cons.prems(1) ok] Cons.prems Cons.IH [of t] by simp
  qed
qed simp

section \<open>Lemmas on starting and stopping\<close>

definition dup_ok :: "errno + int \<Rightarrow> bool" where
  "dup_ok r = (case r of Inl _ \<Rightarrow> True | Inr fd \<Rightarrow> 3 \<le> fd)"

lemma move_end_fds:
  assumes "move_end dup fd = Inr (r, es)" "dup_ok dup" "fd \<in> held" "fresh_opens held es"
  shows "3 \<le> r" "closes_held held es" "open_after held es = insert r (held - {fd})" "r \<notin> held - {fd}"
    "live_jobs limit live es = Some live"
  using assms by (auto simp: move_end_def dup_ok_def split: if_splits sum.splits)

lemma socket_pair_fds:
  assumes sp: "socket_pair answer dup0 dup1 = (r, es)" and d: "dup_ok dup0" "dup_ok dup1" and fr: "fresh_opens {} es"
  shows "closes_held {} es" "live_jobs limit live es = Some live"
    "case r of Inl _ \<Rightarrow> open_after {} es = {} | Inr (a, b) \<Rightarrow> open_after {} es = {a, b} \<and> a \<noteq> b \<and> 3 \<le> a \<and> 3 \<le> b"
proof -
  have "closes_held {} es \<and> live_jobs limit live es = Some live \<and>
    (case r of Inl _ \<Rightarrow> open_after {} es = {} | Inr (a, b) \<Rightarrow> open_after {} es = {a, b} \<and> a \<noteq> b \<and> 3 \<le> a \<and> 3 \<le> b)"
  proof (cases answer)
    case (Inl e)
    then show ?thesis using sp by (auto simp: socket_pair_def)
  next
    case (Inr ab)
    obtain a b where ab: "ab = (a, b)" by fastforce
    note eq = sp [unfolded socket_pair_def Inr ab sum.case prod.case Let_def]
    show ?thesis
    proof (cases "move_end dup0 a")
      case m0: (Inl e)
      then show ?thesis using eq fr by auto
    next
      case m0: (Inr x)
      obtain a' es0 where x: "x = (a', es0)" by fastforce
      have f0: "a \<noteq> b" "fresh_opens {a, b} es0"
        using eq fr m0 x by (auto simp: fresh_opens_append insert_commute split: sum.splits)
      note M0 = move_end_fds [OF m0 [unfolded x] d(1) _ f0(2)]
      have h1: "open_after {a, b} es0 = {a', b}" "a' \<noteq> b" using M0(3,4) f0(1) by auto
      show ?thesis
      proof (cases "move_end dup1 b")
        case (Inl e)
        then show ?thesis using eq m0 x M0(1,2,5) h1 f0(1)
          by (auto simp: closes_held_append open_after_append live_jobs_append insert_commute)
      next
        case (Inr y)
        obtain b' es1 where y: "y = (b', es1)" by fastforce
        have f1: "fresh_opens {a', b} es1"
          using eq fr m0 x Inr y h1 by (auto simp: fresh_opens_append insert_commute)
        note M1 = move_end_fds [OF Inr [unfolded y] d(2) _ f1]
        have h2: "open_after {a', b} es1 = {a', b'}" "b' \<noteq> a'" using M1(3,4) h1(2) by auto
        show ?thesis using eq m0 x Inr y M0(1,2,5) M1(1,2,5) h1 h2 f0(1)
          by (auto simp: closes_held_append open_after_append live_jobs_append insert_commute)
      qed
    qed
  qed
  then show "closes_held {} es" "live_jobs limit live es = Some live"
    "case r of Inl _ \<Rightarrow> open_after {} es = {} | Inr (a, b) \<Rightarrow> open_after {} es = {a, b} \<and> a \<noteq> b \<and> 3 \<le> a \<and> 3 \<le> b"
    by blast+
qed

text \<open>A sequence of starts and stops in the application.\<close>

datatype broker_op =
  Op_Start "errno + (helper list \<times> cstring)" "errno + cstring list" broker_env | Op_Stop

definition broker_op :: "broker_op \<Rightarrow> broker \<Rightarrow> broker \<times> event list" where
  "broker_op op st =
     (case op of
        Op_Start helpers environment env \<Rightarrow> snd (wn_helpers_start helpers environment env st)
      | Op_Stop \<Rightarrow> wn_helpers_stop st)"

fun broker_run :: "broker_op list \<Rightarrow> broker \<Rightarrow> broker \<times> event list" where
  "broker_run [] st = (st, [])"
| "broker_run (op # ops) st =
     (let (st, es) = broker_op op st; (st, es') = broker_run ops st in (st, es @ es'))"

definition op_ok :: "broker_op \<Rightarrow> bool" where
  "op_ok op =
     (case op of
        Op_Start _ _ env \<Rightarrow> dup_ok (b_dup0 env) \<and> dup_ok (b_dup1 env) \<and>
          (case b_fork env of Inl _ \<Rightarrow> True | Inr pid \<Rightarrow> 0 < pid)
      | Op_Stop \<Rightarrow> True)"

definition idle_broker :: broker where
  "idle_broker = \<lparr>launch_fd = -1, launch_pid = -1\<rparr>"

definition broker_inv :: "broker \<Rightarrow> bool" where
  "broker_inv st \<longleftrightarrow> st = idle_broker \<or> (3 \<le> launch_fd st \<and> 0 < launch_pid st)"

definition broker_fds :: "broker \<Rightarrow> int set" where
  "broker_fds st = (if launch_fd st \<ge> 0 then {launch_fd st} else {})"

definition broker_children :: "broker \<Rightarrow> int set" where
  "broker_children st = (if launch_fd st \<ge> 0 then {launch_pid st} else {})"

lemma wn_helpers_stop_effect:
  assumes "broker_inv st" "wn_helpers_stop st = (st', es)"
  shows "st' = idle_broker \<and> closes_held (broker_fds st) es \<and> open_after (broker_fds st) es = {} \<and>
    live_jobs 1 (broker_children st) es = Some {} \<and> fresh_opens held es"
  using assms
  by (auto simp: wn_helpers_stop_def broker_inv_def idle_broker_def broker_fds_def broker_children_def Let_def)

lemma wn_helpers_start_effect:
  assumes ok: "op_ok (Op_Start helpers environment env)" and st: "wn_helpers_start helpers environment env idle_broker = (r, st', es)"
    and fr: "fresh_opens {} es"
  shows "broker_inv st' \<and> closes_held {} es \<and> open_after {} es = broker_fds st' \<and>
    live_jobs 1 {} es = Some (broker_children st') \<and> (r = None \<longleftrightarrow> 0 \<le> launch_fd st')"
proof -
  have d: "dup_ok (b_dup0 env)" "dup_ok (b_dup1 env)" using ok by (simp_all add: op_ok_def)
  have unchanged: ?thesis if "r \<noteq> None" "st' = idle_broker" "es = []"
    using that by (simp add: broker_inv_def broker_fds_def broker_children_def idle_broker_def)
  show ?thesis
  proof (cases "(\<exists>x y. helpers = Inr x \<and> environment = Inr y) \<and> b_rlimit env = None")
    case False
    then have "r \<noteq> None \<and> st' = idle_broker \<and> es = []"
      using st by (cases helpers; cases environment; cases "b_rlimit env")
        (simp_all add: wn_helpers_start_def idle_broker_def, auto)
    then show ?thesis by (elim conjE) (rule unchanged)
  next
    case True
    obtain q es0 where sp: "socket_pair (b_pair env) (b_dup0 env) (b_dup1 env) = (q, es0)" by fastforce
    have eq: "wn_helpers_start helpers environment env idle_broker =
      (case q of
         Inl e \<Rightarrow> (Some e, idle_broker, es0)
       | Inr (a, b) \<Rightarrow>
           (case b_fork env of
              Inl e \<Rightarrow> (Some e, idle_broker, es0 @ [Fd_Close a, Fd_Close b])
            | Inr pid \<Rightarrow>
                let es = es0 @ [Child_Spawned pid, Fd_Close b];
                    error = (case b_ready env of Inl _ \<Rightarrow> Some EIO | Inr e \<Rightarrow> e)
                in if error \<noteq> None
                   then (error, idle_broker, es @ [Fd_Close a] @ (if 0 < pid then [Child_Reaped pid] else []))
                   else (None, \<lparr>launch_fd = a, launch_pid = pid\<rparr>, es)))" if "\<forall>a b. q = Inr (a, b) \<longrightarrow> 3 \<le> a" "\<forall>pid. b_fork env = Inr pid \<longrightarrow> 0 < pid"
      using True that
      by (auto simp: wn_helpers_start_def idle_broker_def sp Let_def wn_helpers_stop_def split: sum.splits option.splits)
    have pid: "\<forall>pid. b_fork env = Inr pid \<longrightarrow> 0 < pid" using ok by (auto simp: op_ok_def)
    have es: "\<exists>more. es = es0 @ more"
      using True st by (auto simp: wn_helpers_start_def sp idle_broker_def Let_def split: sum.splits option.splits if_splits prod.splits)
    then have f0: "fresh_opens {} es0" using fr by (auto simp: fresh_opens_append)
    note P = socket_pair_fds(1) [OF sp d f0] socket_pair_fds(2) [OF sp d f0, where limit = 1 and live = "{}"]
      socket_pair_fds(3) [OF sp d f0]
    show ?thesis
    proof (cases q)
      case (Inl e)
      then show ?thesis using eq pid st P
        by (auto simp: broker_inv_def broker_fds_def broker_children_def idle_broker_def)
    next
      case (Inr ab)
      obtain a b where ab: "ab = (a, b)" by fastforce
      have P3: "open_after {} es0 = {a, b}" "a \<noteq> b" "3 \<le> a" "3 \<le> b" using P(3) Inr ab by auto
      show ?thesis
      proof (cases "b_fork env")
        case (Inl e)
        then show ?thesis using eq pid st P(1,2) P3 Inr ab \<open>q = Inr ab\<close>
          by (auto simp: broker_inv_def broker_fds_def broker_children_def idle_broker_def
              closes_held_append open_after_append live_jobs_append)
      next
        case fk: (Inr pid')
        define error where "error = (case b_ready env of Inl _ \<Rightarrow> Some EIO | Inr e \<Rightarrow> e)"
        have p0: "0 < pid'" using pid fk by simp
        have "wn_helpers_start helpers environment env idle_broker =
          (if error \<noteq> None
           then (error, idle_broker, (es0 @ [Child_Spawned pid', Fd_Close b]) @ [Fd_Close a] @ [Child_Reaped pid'])
           else (None, \<lparr>launch_fd = a, launch_pid = pid'\<rparr>, es0 @ [Child_Spawned pid', Fd_Close b]))"
          using eq [OF _ pid] P3 Inr ab fk p0 by (simp add: Let_def error_def)
        then show ?thesis using st P(1,2) P3 p0
          by (cases "error = None")
            (auto simp: broker_inv_def broker_fds_def broker_children_def idle_broker_def
              closes_held_append open_after_append live_jobs_append)
      qed
    qed
  qed
qed

lemma wn_helpers_start_running:
  "0 \<le> launch_fd st \<Longrightarrow> wn_helpers_start helpers environment env st = (Some EALREADY, st, [])"
  by (simp add: wn_helpers_start_def)

lemma broker_op_effect:
  assumes inv: "broker_inv st" and ok: "op_ok op" and st: "broker_op op st = (st', es)" and fr: "fresh_opens (broker_fds st) es"
  shows "broker_inv st' \<and> closes_held (broker_fds st) es \<and> open_after (broker_fds st) es = broker_fds st' \<and>
    live_jobs 1 (broker_children st) es = Some (broker_children st')"
proof (cases op)
  case (Op_Start helpers environment env)
  obtain r where s: "wn_helpers_start helpers environment env st = (r, st', es)"
    using st Op_Start by (cases "wn_helpers_start helpers environment env st") (auto simp: broker_op_def)
  show ?thesis
  proof (cases "0 \<le> launch_fd st")
    case True
    then show ?thesis using s wn_helpers_start_running [OF True] inv by simp
  next
    case False
    then have i: "st = idle_broker" using inv by (auto simp: broker_inv_def)
    have e: "broker_fds st = {}" "broker_children st = {}" by (simp_all add: i broker_fds_def broker_children_def idle_broker_def)
    show ?thesis using wn_helpers_start_effect [OF ok [unfolded Op_Start] s [unfolded i]] fr by (simp add: e)
  qed
next
  case Op_Stop
  have e: "broker_fds idle_broker = {}" "broker_children idle_broker = {}"
    by (simp_all add: broker_fds_def broker_children_def idle_broker_def)
  show ?thesis using wn_helpers_stop_effect [OF inv, of st' es] st
    by (simp add: Op_Stop broker_op_def broker_inv_def e)
qed

lemma broker_run_effect:
  "broker_inv st \<Longrightarrow> \<forall>op\<in>set ops. op_ok op \<Longrightarrow> broker_run ops st = (st', es) \<Longrightarrow> fresh_opens (broker_fds st) es \<Longrightarrow>
   broker_inv st' \<and> closes_held (broker_fds st) es \<and> open_after (broker_fds st) es = broker_fds st' \<and>
   live_jobs 1 (broker_children st) es = Some (broker_children st')"
proof (induction ops arbitrary: st es)
  case (Cons op ops)
  obtain st1 es1 where o: "broker_op op st = (st1, es1)" by fastforce
  obtain es2 where r: "broker_run ops st1 = (st', es2)" and es: "es = es1 @ es2"
    using Cons.prems(3) o by (cases "broker_run ops st1") auto
  have f: "fresh_opens (broker_fds st) es1" "fresh_opens (open_after (broker_fds st) es1) es2"
    using Cons.prems(4) by (simp_all add: es fresh_opens_append)
  have ok: "op_ok op" using Cons.prems(2) by simp
  note S = broker_op_effect [OF Cons.prems(1) ok o f(1)]
  then have "broker_inv st1" "fresh_opens (broker_fds st1) es2" using f(2) by auto
  with Cons.IH [OF _ _ r] Cons.prems(2) S show ?case
    by (simp add: es closes_held_append open_after_append live_jobs_append)
qed simp

section \<open>Properties\<close>


definition sample_rounds :: "string launch_round list" where
  "sample_rounds =
     [\<lparr>n_stopping = False, n_exited = (\<lambda>_. False), n_poll = Launch_Ready,
        n_received = Channel_Message (channel_byte 0 [4]), n_objects = [''channel''], n_dup = (\<lambda>_. 10), n_fork = 50\<rparr>,
      \<lparr>n_stopping = True, n_exited = (\<lambda>_. False), n_poll = Launch_Ready, n_received = Channel_Closed,
        n_objects = [], n_dup = (\<lambda>_. -1), n_fork = -1\<rparr>]"


text \<open>
  C26. Life cycle in the application: after any sequence of starts and stops, each of which may fail
  anywhere, the application holds exactly the launcher's socket if the broker runs and nothing
  otherwise, every other descriptor it opened has been closed exactly once, and the launcher is the
  only child that has not been collected.
\<close>

theorem broker_life_cycle:
  assumes "broker_run ops idle_broker = (st, es)" and "\<forall>op\<in>set ops. op_ok op" and "fresh_opens {} es"
  shows "closes_held {} es \<and> open_after {} es = (if launch_fd st \<ge> 0 then {launch_fd st} else {}) \<and>
    live_jobs 1 {} es = Some (if launch_fd st \<ge> 0 then {launch_pid st} else {})"
proof -
  have e: "broker_fds idle_broker = {}" "broker_children idle_broker = {}"
    by (simp_all add: broker_fds_def broker_children_def idle_broker_def)
  have "broker_inv idle_broker" by (simp add: broker_inv_def)
  from broker_run_effect [OF this assms(2,1)] assms(3) show ?thesis
    by (simp add: e) (simp add: broker_fds_def broker_children_def)
qed

lemma broker_life_cycle_witness:
  "\<exists>st es. broker_run
     [Op_Start (Inr ([], [])) (Inr []) \<lparr>b_rlimit = None, b_pair = Inr (0, 3), b_dup0 = Inr 4, b_dup1 = Inr 9, b_fork = Inr 70,
        b_ready = Inr (Some EPERM)\<rparr>,
      Op_Start (Inr ([], [])) (Inr []) \<lparr>b_rlimit = None, b_pair = Inr (3, 4), b_dup0 = Inr 5, b_dup1 = Inr 9, b_fork = Inr 71,
        b_ready = Inr None\<rparr>] idle_broker = (st, es) \<and>
     open_after {} es = {3} \<and> live_jobs 1 {} es = Some {71}"
proof -
  let ?ops = "[Op_Start (Inr ([], [])) (Inr []) \<lparr>b_rlimit = None, b_pair = Inr (0, 3), b_dup0 = Inr 4, b_dup1 = Inr 9, b_fork = Inr 70,
        b_ready = Inr (Some EPERM)\<rparr>,
      Op_Start (Inr ([], [])) (Inr []) \<lparr>b_rlimit = None, b_pair = Inr (3, 4), b_dup0 = Inr 5, b_dup1 = Inr 9, b_fork = Inr 71,
        b_ready = Inr None\<rparr>]"
  let ?es = "[Fd_Open 0, Fd_Open 3, Fd_Open 4, Fd_Close 0, Child_Spawned 70, Fd_Close 3, Fd_Close 4, Child_Reaped 70,
      Fd_Open 3, Fd_Open 4, Child_Spawned 71, Fd_Close 4]"
  have r: "broker_run ?ops idle_broker = (\<lparr>launch_fd = 3, launch_pid = 71\<rparr>, ?es)"
    by (simp add: broker_op_def wn_helpers_start_def wn_helpers_stop_def idle_broker_def socket_pair_def move_end_def)
  have "\<forall>op\<in>set ?ops. op_ok op" "fresh_opens {} ?es" by (simp_all add: op_ok_def dup_ok_def)
  from broker_life_cycle [OF r this] show ?thesis using r by auto
qed

lemma proxy_exit_status:
  "(0 < s \<and> s < 127) \<or> (s mod 256 = 0 \<and> s < 65536) \<Longrightarrow> status_of (proxy_exit s) = s"
proof -
  assume "(0 < s \<and> s < 127) \<or> (s mod 256 = 0 \<and> s < 65536)"
  then consider "0 < s" "s < 127" | k where "s = 256 * k" "k < 256" by (auto simp: mod_eq_0_iff_dvd elim!: dvdE)
  then show ?thesis
  proof cases
    case 2
    then have "s mod 128 = 0" "s div 256 mod 256 = k" by simp_all
    then show ?thesis using 2 by (simp add: proxy_exit_def status_of_def)
  qed (simp add: proxy_exit_def status_of_def)
qed

text \<open>The exchange up to the acknowledgement, and what follows it.\<close>

lemma proxy_exchange_sound:
  assumes "proxy_exchange get_reply req bytes env = Some (Execve_Proxy e, out)" and d: "g_dup2 env"
  shows "\<exists>first rest. out = put_request req @ bytes \<and> g_in env = first @ rest \<and> length first = 8 \<and>
    y_error (get_reply first) = None \<and>
    (e = Proxy_Exit 127 \<or> (\<exists>second rest'. rest = second @ rest' \<and> length second = 8 \<and>
       e = proxy_exit (nat (y_status (get_reply second)))))"
proof -
  note eq = assms(1) [unfolded proxy_exchange_def]
  obtain r0 out0 as0 where t0: "transfer_out 0 (g_io env) (put_request req) = Some (r0, out0, as0)"
    using eq by (cases "transfer_out 0 (g_io env) (put_request req)") auto
  then have r0: "r0 = Inr ()" using eq by (cases r0) auto
  obtain r1 out1 as1 where t1: "transfer_out 0 as0 bytes = Some (r1, out1, as1)"
    using eq t0 r0 by (cases "transfer_out 0 as0 bytes") auto
  then have r1: "r1 = Inr ()" using eq t0 r0 by (cases r1) auto
  have outs: "out0 = put_request req" "out1 = bytes"
    using transfer_out_exact [OF t0] transfer_out_exact [OF t1] r0 r1 by auto
  obtain r2 rest as2 where t2: "transfer_in 0 as1 8 (g_in env) = Some (r2, rest, as2)"
    using eq t0 r0 t1 r1 by (cases "transfer_in 0 as1 8 (g_in env)") auto
  then obtain first where r2: "r2 = Inr first" using eq t0 r0 t1 r1 by (cases r2) auto
  have f: "length first = 8" "g_in env = first @ rest" using transfer_in_exact [OF t2 [unfolded r2]] by auto
  note eq1 = eq [unfolded t0 r0 t1 r1 t2 r2 outs option.case prod.case sum.case]
  have ye: "y_error (get_reply first) = None" using eq1 by (cases "y_error (get_reply first)") auto
  obtain r3 rest3 as3 where t3: "transfer_in 0 as2 8 rest = Some (r3, rest3, as3)"
    using eq1 ye d by (cases "transfer_in 0 as2 8 rest") auto
  have out: "out = put_request req @ bytes" using eq1 ye d t3 by (cases r3) auto
  have "e = Proxy_Exit 127 \<or> (\<exists>second rest'. rest = second @ rest' \<and> length second = 8 \<and>
      e = proxy_exit (nat (y_status (get_reply second))))"
  proof (cases r3)
    case (Inr second)
    then show ?thesis using transfer_in_exact [OF t3 [unfolded Inr]] eq1 ye d t3 by auto
  qed (use eq1 ye d t3 in auto)
  then show ?thesis using out f ye by blast
qed

text \<open>
  The proxy is transparent: it ends only after it wrote exactly the packed request and read an
  acknowledgement; unless reading the second reply fails (then it exits with 127), its own exit
  status or fatal signal, as its parent sees it, is the status of the helper in that reply.
\<close>

theorem proxy_transparent:
  assumes run: "wn_helper_execve get_reply launch path argv env = Some (Execve_Proxy e, out)" and dup: "g_dup2 env"
  shows "\<exists>req bytes first rest. encode_request path argv = Inr (req, bytes) \<and> out = put_request req @ bytes \<and>
    g_in env = first @ rest \<and> length first = 8 \<and> y_error (get_reply first) = None \<and>
    (e = Proxy_Exit 127 \<or>
     (\<exists>second rest'. rest = second @ rest' \<and> length second = 8 \<and>
        (\<forall>s. nat (y_status (get_reply second)) = s \<and> ((0 < s \<and> s < 127) \<or> (s mod 256 = 0 \<and> s < 65536)) \<longrightarrow>
           status_of e = s)))"
proof -
  obtain req bytes where enc: "encode_request path argv = Inr (req, bytes)"
    using run by (cases "encode_request path argv") (auto simp: wn_helper_execve_def split: if_splits)
  have "proxy_exchange get_reply req bytes env = Some (Execve_Proxy e, out)"
    using run enc
    by (auto simp: wn_helper_execve_def split: if_splits sum.splits prod.splits option.splits)
  from proxy_exchange_sound [OF this dup] obtain first rest where
    s: "out = put_request req @ bytes" "g_in env = first @ rest" "length first = 8" "y_error (get_reply first) = None"
    and e: "e = Proxy_Exit 127 \<or> (\<exists>second rest'. rest = second @ rest' \<and> length second = 8 \<and>
       e = proxy_exit (nat (y_status (get_reply second))))" by blast
  from e have "e = Proxy_Exit 127 \<or>
     (\<exists>second rest'. rest = second @ rest' \<and> length second = 8 \<and>
        (\<forall>s. nat (y_status (get_reply second)) = s \<and> ((0 < s \<and> s < 127) \<or> (s mod 256 = 0 \<and> s < 65536)) \<longrightarrow>
           status_of e = s))"
    using proxy_exit_status by blast
  then show ?thesis using enc s by blast
qed

lemma proxy_transparent_witness:
  "\<exists>env :: client_env. wn_helper_execve (\<lambda>bs. \<lparr>y_error = None, y_status = int (unat (hd bs))\<rparr>) 3 (Some [47, 120])
       (Some [[120]]) env = Some (Execve_Proxy (Proxy_Signal 9), put_request \<lparr>r_count = 0, r_bytes = 3\<rparr> @ [47, 120, 0]) \<and>
     (\<exists>second. length second = 8 \<and> drop 8 (g_in env) = second \<and> status_of (Proxy_Signal 9) = unat (hd second))"
proof -
  define busy_io where "busy_io = sample_round 0 (Io_Count 20)"
  define env where "env = \<lparr>g_pair = Inr (4, 5), g_dup0 = Inr 3, g_dup1 = Inr 3, g_probe = (\<lambda>_. Probe_Absent), g_probe_error = EIO,
    g_send = [Send_Interrupted, Sent], g_io = [busy_io, busy_io, busy_io, busy_io],
    g_in = [0, 0, 0, 0, 0, 0, 0, 0, 9, 0, 0, 0, 0, 0, 0, 0], g_dup2 = True\<rparr>"
  define gr where "gr = (\<lambda>bs :: byte list. \<lparr>y_error = None, y_status = int (unat (hd bs))\<rparr>)"
  have io: "broker_io_step 0 busy_io = Io_Move 20"
    by (simp add: busy_io_def sample_round_def broker_io_step_def broker_call_step_def)
  have tin: "transfer_in 0 (busy_io # as) 8 (xs @ pending) = Some (Inr xs, pending, as)"
    if "length xs = 8" for xs pending as
    using that by (cases xs) (simp_all add: io Let_def numeral_eq_Suc)
  have tout: "transfer_out 0 (busy_io # as) bs = Some (Inr (), bs, as)" if "bs \<noteq> []" "length bs \<le> 20" for bs as
    using that by (cases bs) (simp_all add: io Let_def)
  have enc: "encode_request (Some [47, 120]) (Some [[120]]) = Inr (\<lparr>r_count = 0, r_bytes = 3\<rparr>, [47, 120, 0])"
    by (simp add: encode_request_def strnlen_def ARG_BYTES_def ARG_COUNT_def)
  have l8: "put_request r \<noteq> []" "length (put_request r) \<le> 20" for r
    using request_codec.put_length [of r] by auto
  have t1: "transfer_in 0 (busy_io # as) 8 [0, 0, 0, 0, 0, 0, 0, 0, 9, 0, 0, 0, 0, 0, 0, 0] =
      Some (Inr [0, 0, 0, 0, 0, 0, 0, 0], [9, 0, 0, 0, 0, 0, 0, 0], as)" for as
    using tin [of "[0, 0, 0, 0, 0, 0, 0, 0]" as "[9, 0, 0, 0, 0, 0, 0, 0]"] by simp
  have t2: "transfer_in 0 (busy_io # as) 8 [9, 0, 0, 0, 0, 0, 0, 0] = Some (Inr [9, 0, 0, 0, 0, 0, 0, 0], [], as)" for as
    using tin [of "[9, 0, 0, 0, 0, 0, 0, 0]" as "[]"] by simp
  have run: "wn_helper_execve gr 3 (Some [47, 120]) (Some [[120]]) env =
      Some (Execve_Proxy (Proxy_Signal 9), put_request \<lparr>r_count = 0, r_bytes = 3\<rparr> @ [47, 120, 0])"
    by (simp add: wn_helper_execve_def enc env_def socket_pair_def move_end_def send_channel_def stdio_fds_def
        proxy_exchange_def tout l8 t1 t2 gr_def proxy_exit_def del: transfer_out.simps transfer_in.simps)
  have "g_dup2 env" by (simp add: env_def)
  from proxy_transparent [OF run this] obtain first rest where
    fr: "g_in env = first @ rest" "length first = 8"
    and e: "\<exists>second rest'. rest = second @ rest' \<and> length second = 8 \<and>
        (\<forall>s. nat (y_status (gr second)) = s \<and> ((0 < s \<and> s < 127) \<or> (s mod 256 = 0 \<and> s < 65536)) \<longrightarrow>
           status_of (Proxy_Signal 9) = s)" by auto
  have "rest = drop 8 (g_in env)" using fr by simp
  then have rest: "rest = [9, 0, 0, 0, 0, 0, 0, 0]" by (simp add: env_def)
  from e obtain second rest' where s: "rest = second @ rest'" "length second = 8"
    and st: "\<forall>s. nat (y_status (gr second)) = s \<and> ((0 < s \<and> s < 127) \<or> (s mod 256 = 0 \<and> s < 65536)) \<longrightarrow>
           status_of (Proxy_Signal 9) = s" by blast
  have "second = take 8 rest" using s by simp
  then have "second = rest" by (simp add: rest)
  then have "status_of (Proxy_Signal 9) = unat (hd rest)" using st by (simp add: rest gr_def)
  then show ?thesis using run fr(1,2) rest
    unfolding gr_def by (intro exI [of _ env]) (simp add: env_def)
qed

end
