(* ===== verification/Tool_Dialog.thy ===== *)
theory Tool_Dialog
  imports Tool_Broker Helper_Launcher
begin

text \<open>
  The file chooser over the tool broker (\<open>dialog_worker\<close>, \<open>wn_tools_dialog\<close> of \<open>app/tool_broker.c\<close>) and
  the broker's start and stop (\<open>wn_tools_start\<close>, \<open>wn_tools_stop\<close>, \<open>receive_channel\<close>).
\<close>

section \<open>Selected paths\<close>

text \<open>One trailing newline of the chooser's output is dropped.\<close>

definition strip_newline :: "byte list \<Rightarrow> byte list" where
  "strip_newline output = (if output \<noteq> [] \<and> last output = 10 then butlast output else output)"

text \<open>The scan for two adjacent slashes; \<open>current\<close> is the path being read.\<close>

fun split_separator :: "byte list \<Rightarrow> byte list \<Rightarrow> byte list list" where
  "split_separator current [] = [current]"
| "split_separator current [c] = [current @ [c]]"
| "split_separator current (c # d # rest) =
     (if c = 47 \<and> d = 47 then current # split_separator [] rest
      else split_separator (current @ [c]) (d # rest))"

text \<open>A pointer into the text is a C string: it ends at the first zero byte.\<close>

definition c_string :: "byte list \<Rightarrow> cstring" where
  "c_string bs = takeWhile (\<lambda>b. b \<noteq> 0) bs"

definition selected_paths :: "bool \<Rightarrow> byte list \<Rightarrow> cstring list" where
  "selected_paths multiple output =
     (let text = strip_newline output in
      if text = [] then []
      else map c_string (if multiple then split_separator [] text else [text]))"

section \<open>The worker\<close>

definition dialog_arguments :: "bool \<Rightarrow> bool \<Rightarrow> cstring \<Rightarrow> cstring \<Rightarrow> cstring list" where
  "dialog_arguments save multiple downloads name =
     [ascii ''--file-selection'', ascii ''--filename='' @ downloads @ [47] @ name] @
     (if save then [ascii ''--save'']
      else if multiple then [ascii ''--multiple'', ascii ''--separator=//''] else [])"

text \<open>
  What the callback receives: the paths and 0, or an error. \<open>run\<close> stands for \<open>wn_tools_run\<close> (error,
  exit status, output); \<open>memory\<close> for the two allocations.
\<close>

definition dialog_worker ::
  "bool \<Rightarrow> bool \<Rightarrow> cstring \<Rightarrow> cstring \<Rightarrow> bool \<Rightarrow> (nat \<Rightarrow> cstring list \<Rightarrow> errno option \<times> int \<times> byte list) \<Rightarrow>
   errno + cstring list" where
  "dialog_worker save multiple downloads name memory run =
     (let arguments = dialog_arguments save multiple downloads name in
      if length (arguments ! 1) \<ge> PATH_MAX then Inl ENAMETOOLONG
      else
        let (error, status, output) =
              run (if save then WN_TOOL_SAVE_DIALOG else WN_TOOL_OPEN_DIALOG) arguments
        in case error of
             Some e \<Rightarrow> Inl e
           | None \<Rightarrow>
               if status = 0 then
                 if memory then Inr (selected_paths (multiple \<and> \<not> save) output) else Inl ENOMEM
               else if status \<noteq> 1 then Inl EIO
               else Inr [])"

section \<open>One dialog at a time\<close>

record dialog =
  dialog_running :: bool
  dialog_joinable :: bool

text \<open>The result, the new state, the name handed to the worker (None: no worker), and the join.\<close>

definition wn_tools_dialog ::
  "bool \<Rightarrow> cstring option \<Rightarrow> bool \<Rightarrow> errno option \<Rightarrow> dialog \<Rightarrow> errno option \<times> dialog \<times> cstring option \<times> bool" where
  "wn_tools_dialog callback name memory create d =
     (if \<not> callback then (Some EINVAL, d, None, False)
      else if dialog_running d then (Some EBUSY, d, None, False)
      else
        let joined = dialog_joinable d; d = (if joined then d\<lparr>dialog_joinable := False\<rparr> else d) in
        if \<not> memory then (Some ENOMEM, d, None, joined)
        else
          (case name of
             Some n \<Rightarrow>
               if length n \<ge> PATH_MAX then (Some ENAMETOOLONG, d, None, joined)
               else
                 (case create of
                    Some e \<Rightarrow> (Some e, d\<lparr>dialog_running := False\<rparr>, None, joined)
                  | None \<Rightarrow> (None, \<lparr>dialog_running = True, dialog_joinable = True\<rparr>, Some (base_name n), joined))
           | None \<Rightarrow>
               (case create of
                  Some e \<Rightarrow> (Some e, d\<lparr>dialog_running := False\<rparr>, None, joined)
                | None \<Rightarrow> (None, \<lparr>dialog_running = True, dialog_joinable = True\<rparr>, Some [], joined))))"

text \<open>The end of the worker, and the application's stop.\<close>

definition dialog_done :: "dialog \<Rightarrow> dialog" where
  "dialog_done d = d\<lparr>dialog_running := False\<rparr>"

definition dialog_stop :: "dialog \<Rightarrow> dialog" where
  "dialog_stop d = (if dialog_joinable d then d\<lparr>dialog_joinable := False\<rparr> else d)"

text \<open>A suggested name cannot redirect the chooser to another directory.\<close>

lemma dialog_name_is_base:
  "wn_tools_dialog callback name memory create d = (r, d', Some n, joined) \<Longrightarrow>
   47 \<notin> set n \<and> \<not> dialog_running d \<and> dialog_running d' \<and> dialog_joinable d'"
  using base_name_no_slash
  by (auto simp: wn_tools_dialog_def Let_def split: if_splits option.splits)

section \<open>Starting and stopping the broker\<close>

definition tool_paths :: "cstring list" where
  "tool_paths = map ascii
     [''/usr/local/bin/curl'', ''/usr/local/bin/notify-send'', ''/usr/local/bin/zenity'', ''/usr/local/bin/zenity'']"

text \<open>\<open>tools[operation]\<close>: the resolved path when it exists and is executable, else empty.\<close>

definition resolve_tools :: "(cstring \<Rightarrow> errno + cstring) \<Rightarrow> (cstring \<Rightarrow> bool) \<Rightarrow> nat \<Rightarrow> cstring" where
  "resolve_tools realpath executable operation =
     (if operation < WN_TOOL_CURL \<or> operation > WN_TOOL_SAVE_DIALOG then []
      else
        (case realpath (tool_paths ! (operation - 1)) of
           Inl e \<Rightarrow> []
         | Inr path \<Rightarrow> if executable path then path else []))"

record tools_broker =
  broker_fd :: int
  broker_pid :: int

record tools_env =
  h_pair :: "errno + (int \<times> int)"
  h_cloexec :: "errno option"
  h_fork :: "errno + int"
  h_setpgid :: "errno option"
  h_ready :: "errno + errno option"

definition wn_tools_stop :: "tools_broker \<Rightarrow> tools_broker \<times> event list" where
  "wn_tools_stop st =
     (let (st, es) = (if broker_fd st \<ge> 0 then (st\<lparr>broker_fd := -1\<rparr>, [Fd_Close (broker_fd st)]) else (st, []))
      in if broker_pid st > 0
         then (st\<lparr>broker_pid := -1\<rparr>, es @ [Group_Killed (broker_pid st), Child_Reaped (broker_pid st)])
         else (st, es))"

definition wn_tools_start ::
  "(nat \<Rightarrow> cstring) \<Rightarrow> tools_env \<Rightarrow> tools_broker \<Rightarrow> errno option \<times> tools_broker \<times> event list" where
  "wn_tools_start tools env st =
     (if broker_fd st \<ge> 0 then (Some EALREADY, st, [])
      else if tools WN_TOOL_CURL = [] then (Some ENOENT, st, [])
      else
        (case h_pair env of
           Inl e \<Rightarrow> (Some e, st, [])
         | Inr (a, b) \<Rightarrow>
             let es = [Fd_Open a, Fd_Open b] in
             (case (h_cloexec env, h_fork env) of
                (Some e, _) \<Rightarrow> (Some e, st, es @ [Fd_Close a, Fd_Close b])
              | (None, Inl e) \<Rightarrow> (Some e, st\<lparr>broker_pid := -1\<rparr>, es @ [Fd_Close a, Fd_Close b])
              | (None, Inr pid) \<Rightarrow>
                  let st = \<lparr>broker_fd = a, broker_pid = pid\<rparr>;
                      es = es @ [Child_Spawned pid, Fd_Close b];
                      error = (case h_setpgid env of
                                 Some e \<Rightarrow> if e \<noteq> EACCES \<and> e \<noteq> ESRCH then Some e
                                   else (case h_ready env of Inl _ \<Rightarrow> Some EIO | Inr r \<Rightarrow> r)
                               | None \<Rightarrow> (case h_ready env of Inl _ \<Rightarrow> Some EIO | Inr r \<Rightarrow> r))
                  in if error \<noteq> None then let (st, stopped) = wn_tools_stop st in (error, st, es @ stopped)
                     else (None, st, es))))"

text \<open>The broker takes one descriptor per message; anything else ends it.\<close>

definition tool_receive_channel :: "channel_message \<Rightarrow> int option" where
  "tool_receive_channel m =
     (if m_bytes m \<noteq> 1 \<or> m_truncated m then None
      else
        (case m_controls m of
           [] \<Rightarrow> None
         | c # _ \<Rightarrow> if q_rights c \<and> length (q_fds c) = 1 \<and> \<not> q_odd c then Some (hd (q_fds c)) else None))"

lemma wn_tools_start_effect:
  assumes "wn_tools_start tools env \<lparr>broker_fd = -1, broker_pid = -1\<rparr> = (r, st, es)" "fresh_opens {} es"
    and "\<forall>a b. h_pair env = Inr (a, b) \<longrightarrow> 0 \<le> a \<and> 0 \<le> b" "\<forall>pid. h_fork env = Inr pid \<longrightarrow> 0 < pid"
  shows "closes_held {} es \<and> open_after {} es = (if r = None then {broker_fd st} else {}) \<and>
    live_jobs 1 {} es = Some (if r = None then {broker_pid st} else {})"
proof (cases "tools WN_TOOL_CURL = []")
  case True
  then show ?thesis using assms(1) by (auto simp: wn_tools_start_def)
next
  case curl: False
  show ?thesis
  proof (cases "h_pair env")
    case (Inl e)
    then show ?thesis using assms(1) curl by (auto simp: wn_tools_start_def)
  next
    case (Inr x)
    obtain a b where x: "x = (a, b)" by fastforce
    have ge: "0 \<le> a" "0 \<le> b" using assms(3) Inr x by auto
    show ?thesis
    proof (cases "h_cloexec env = None \<and> (\<exists>pid. h_fork env = Inr pid)")
      case False
      then consider (cloexec) e where "h_cloexec env = Some e" | (fork) e where "h_cloexec env = None" "h_fork env = Inl e"
        by (cases "h_cloexec env"; cases "h_fork env") auto
      then have "es = [Fd_Open a, Fd_Open b, Fd_Close a, Fd_Close b] \<and> r \<noteq> None"
      proof cases
        case cloexec
        show ?thesis using assms(1) curl unfolding wn_tools_start_def Inr x cloexec by auto
      next
        case fork
        show ?thesis using assms(1) curl unfolding wn_tools_start_def Inr x fork by auto
      qed
      then show ?thesis using assms(2) by auto
    next
      case True
      then obtain pid where pid: "h_fork env = Inr pid" and c: "h_cloexec env = None" by blast
      have p0: "0 < pid" using assms(4) pid by simp
      have "(r = None \<and> es = [Fd_Open a, Fd_Open b, Child_Spawned pid, Fd_Close b] \<and> st = \<lparr>broker_fd = a, broker_pid = pid\<rparr>) \<or>
        (r \<noteq> None \<and> es = [Fd_Open a, Fd_Open b, Child_Spawned pid, Fd_Close b, Fd_Close a, Group_Killed pid, Child_Reaped pid])"
        using assms(1) curl unfolding wn_tools_start_def Inr x c pid
        by (auto simp: Let_def wn_tools_stop_def ge p0 split: if_splits)
      then show ?thesis using assms(2) by (auto simp: insert_Diff_if)
    qed
  qed
qed

section \<open>Lemmas on splitting\<close>

text \<open>Canonical paths: no two adjacent slashes and no slash at the end.\<close>

fun no_separator :: "byte list \<Rightarrow> bool" where
  "no_separator (c # d # rest) = (\<not> (c = 47 \<and> d = 47) \<and> no_separator (d # rest))"
| "no_separator _ = True"

definition canonical_path :: "cstring \<Rightarrow> bool" where
  "canonical_path p \<longleftrightarrow> p \<noteq> [] \<and> is_cstring p \<and> no_separator p \<and> last p \<noteq> 47"

lemma split_separator_last: "no_separator p \<Longrightarrow> split_separator current p = [current @ p]"
  by (induction current p rule: split_separator.induct) auto

lemma split_separator_next:
  "p \<noteq> [] \<Longrightarrow> no_separator p \<Longrightarrow> last p \<noteq> 47 \<Longrightarrow>
   split_separator current (p @ [47, 47] @ rest) = (current @ p) # split_separator [] rest"
proof (induction p arbitrary: current rule: no_separator.induct)
  case (1 c d p)
  then show ?case by auto
qed auto

fun join_paths :: "cstring list \<Rightarrow> byte list" where
  "join_paths [] = []"
| "join_paths [p] = p"
| "join_paths (p # q # ps) = p @ [47, 47] @ join_paths (q # ps)"

lemma split_join: "ps \<noteq> [] \<Longrightarrow> \<forall>p\<in>set ps. canonical_path p \<Longrightarrow> split_separator [] (join_paths ps) = ps"
proof (induction ps rule: join_paths.induct)
  case (3 p q ps)
  then have "split_separator [] (join_paths (q # ps)) = q # ps" by auto
  then show ?case using 3(3) split_separator_next [of p "[]" "join_paths (q # ps)"]
    by (auto simp: canonical_path_def)
qed (auto simp: canonical_path_def split_separator_last)

lemma join_paths_nonempty: "ps \<noteq> [] \<Longrightarrow> \<forall>p\<in>set ps. canonical_path p \<Longrightarrow> join_paths ps \<noteq> []"
  by (induction ps rule: join_paths.induct) (auto simp: canonical_path_def)

lemma c_string_is_cstring: "is_cstring p \<Longrightarrow> c_string p = p"
  by (auto simp: c_string_def is_cstring_def takeWhile_eq_all_conv)

section \<open>Properties\<close>

text \<open>
  Selections round trip: the paths the user chose, printed by the chooser one after the other with
  the separator the application asked for and a final newline, reach the callback unchanged and
  complete; in a single selection or a save dialog the path is taken literally, separators included;
  a cancelled dialog selects nothing.
\<close>

theorem dialog_selection:
  assumes ps: "ps \<noteq> []" "\<forall>p\<in>set ps. canonical_path p"
    and len: "length (ascii ''--filename='' @ downloads @ [47] @ name) < PATH_MAX"
    and run: "\<And>operation arguments. run operation arguments = (None, status, join_paths ps @ [10])"
    and p: "is_cstring p" "p \<noteq> []"
    and one: "save \<or> \<not> multiple"
    and run_one: "\<And>operation arguments. run_one operation arguments = (None, 0, p @ [10])"
  shows "dialog_worker False True downloads name True run =
      (if status = 0 then Inr ps else if status = 1 then Inr [] else Inl EIO) \<and>
    dialog_worker save multiple downloads name True run_one = Inr [p]"
proof
  have "map c_string ps = ps" using ps(2) by (intro map_idI) (auto simp: canonical_path_def c_string_is_cstring)
  moreover have "strip_newline (join_paths ps @ [10]) = join_paths ps" by (simp add: strip_newline_def)
  ultimately have "selected_paths True (join_paths ps @ [10]) = ps"
    using split_join [OF ps] join_paths_nonempty [OF ps] by (simp add: selected_paths_def)
  then show "dialog_worker False True downloads name True run =
      (if status = 0 then Inr ps else if status = 1 then Inr [] else Inl EIO)"
    using len run by (simp add: dialog_worker_def dialog_arguments_def Let_def)
  have "selected_paths False (p @ [10]) = [p]"
    using p by (simp add: selected_paths_def strip_newline_def c_string_is_cstring)
  moreover have "(multiple \<and> \<not> save) = False" using one by auto
  ultimately show "dialog_worker save multiple downloads name True run_one = Inr [p]"
    using len run_one by (simp only: dialog_worker_def dialog_arguments_def Let_def) simp
qed

lemma dialog_selection_witness:
  "dialog_worker False True (ascii ''/dl'') [] True (\<lambda>_ _. (None, 0, ascii ''/a/b///c'' @ [10])) =
     Inr [ascii ''/a/b'', ascii ''/c''] \<and>
   dialog_worker True True (ascii ''/dl'') [] True (\<lambda>_ _. (None, 0, ascii ''/a//b'' @ [10])) = Inr [ascii ''/a//b'']"
proof -
  have c: "\<forall>p\<in>set [ascii ''/a/b'', ascii ''/c'']. canonical_path p" by (simp add: canonical_path_def) (simp add: ascii_def)
  have l: "length (ascii ''--filename='' @ ascii ''/dl'' @ [47] @ []) < PATH_MAX" by (simp add: PATH_MAX_def)
  have "join_paths [ascii ''/a/b'', ascii ''/c''] = ascii ''/a/b///c''" by (simp add: ascii_def)
  then show ?thesis
    using dialog_selection [OF _ c l, where status = 0 and run = "\<lambda>_ _. (None, 0, ascii ''/a/b///c'' @ [10])"
      and p = "ascii ''/a//b''" and run_one = "\<lambda>_ _. (None, 0, ascii ''/a//b'' @ [10])" and save = True and multiple = True]
    by simp
qed

end
