(* ===== verification/Sandbox_Trust.thy ===== *)
theory Sandbox_Trust
  imports Helper_Request
begin

text \<open>
  Paths of the main sandbox (\<open>app/main_sandbox.c\<close>): joining and containment of C string paths, and the
  route check \<open>trusted_ancestors\<close> with its callers \<open>trusted_tree\<close> and \<open>trusted_rule\<close>. What the kernel
  answers (\<open>lstat\<close>, \<open>readlink\<close>, the traversal of \<open>fts\<close>) is a parameter; \<open>kernel_walk\<close> is the reference
  path resolution the route check is compared with. A failure is None or False; the message text that
  \<open>fail\<close> formats is left out.
\<close>

section \<open>Paths\<close>

definition join :: "cstring \<Rightarrow> cstring \<Rightarrow> cstring option" where
  "join base name = (let out = base @ [47] @ name in if length out \<ge> PATH_MAX then None else Some out)"

definition within :: "cstring \<Rightarrow> cstring \<Rightarrow> bool" where
  "within path directory \<longleftrightarrow>
     (let n = length directory in
      directory = [47] \<or>
      (take n path = directory \<and> (length path = n \<or> path ! n = 47)))"

text \<open>Splitting at a separator, and the name components of a path: what \<open>strtok_r(path, "/", ...)\<close> yields.\<close>

fun split_on :: "byte \<Rightarrow> cstring \<Rightarrow> cstring list" where
  "split_on sep [] = [[]]"
| "split_on sep (c # s) =
     (if c = sep then [] # split_on sep s
      else (case split_on sep s of [] \<Rightarrow> [[c]] | x # xs \<Rightarrow> (c # x) # xs))"

definition components :: "cstring \<Rightarrow> cstring list" where
  "components s = filter (\<lambda>c. c \<noteq> []) (split_on 47 s)"

section \<open>Files\<close>

datatype file_kind = Regular | Directory | Symlink | Socket | Other_Kind

record stat =
  st_kind :: file_kind
  st_uid :: nat
  st_mode :: u32
  st_nlink :: nat
  st_length :: nat

text \<open>\<open>st_mode & 0022\<close>.\<close>

definition others_write :: "stat \<Rightarrow> bool" where
  "others_write st \<longleftrightarrow> st_mode st AND 18 \<noteq> 0"

section \<open>The route check\<close>

text \<open>\<open>strrchr(current, '/')\<close> and the cut before it, which keeps the root.\<close>

definition parent :: "cstring \<Rightarrow> cstring" where
  "parent current =
     (let prefix = rev (drop 1 (dropWhile (\<lambda>b. b \<noteq> 47) (rev current)))
      in if prefix = [] then [47] else prefix)"

text \<open>
  The loop: \<open>part\<close> is what is left of the path, \<open>current\<close> the location reached. Every symbolic link is
  expanded in place, at most 40 times.
\<close>

function trusted_walk ::
  "(cstring \<Rightarrow> errno + stat) \<Rightarrow> (cstring \<Rightarrow> errno + cstring) \<Rightarrow> nat \<Rightarrow> cstring \<Rightarrow> cstring \<Rightarrow> bool" where
  "trusted_walk lstat readlink links current path =
     (let part = dropWhile (\<lambda>b. b = 47) path in
      if part = [] then True
      else
        let component = takeWhile (\<lambda>b. b \<noteq> 47) part; rest = drop (length component + 1) part in
        if component = ascii ''.'' then trusted_walk lstat readlink links current rest
        else if component = ascii ''..'' then trusted_walk lstat readlink links (parent current) rest
        else
          (case join current component of
             None \<Rightarrow> False
           | Some next \<Rightarrow>
               (case lstat next of
                  Inl e \<Rightarrow> False
                | Inr st \<Rightarrow>
                    if st_uid st \<noteq> 0 \<or> (st_kind st \<noteq> Symlink \<and> others_write st) then False
                    else if st_kind st = Symlink then
                      (if links + 1 > 40 then False
                       else
                         (case readlink next of
                            Inl e \<Rightarrow> False
                          | Inr target \<Rightarrow>
                              if length target \<ge> PATH_MAX - 1 then False
                              else
                                (case join target rest of
                                   None \<Rightarrow> False
                                 | Some expanded \<Rightarrow>
                                     trusted_walk lstat readlink (links + 1)
                                       (if target \<noteq> [] \<and> hd target = 47 then [47] else current) expanded)))
                    else if (st_kind st \<noteq> Regular \<and> st_kind st \<noteq> Directory) \<or>
                            (rest \<noteq> [] \<and> st_kind st \<noteq> Directory) then False
                    else trusted_walk lstat readlink links next rest)))"
  by pat_completeness auto

lemma rest_shorter:
  assumes "dropWhile (\<lambda>b. b = (47 :: byte)) path \<noteq> []"
  shows "length (drop (length (takeWhile (\<lambda>b. b \<noteq> 47) (dropWhile (\<lambda>b. b = 47) path)) + 1)
      (dropWhile (\<lambda>b. b = 47) path)) < length path"
proof -
  have "length (dropWhile (\<lambda>b. b = (47 :: byte)) path) \<le> length path" by (rule length_dropWhile_le)
  then show ?thesis using assms by (cases "dropWhile (\<lambda>b. b = (47 :: byte)) path") auto
qed

termination trusted_walk
  by (relation "measures [\<lambda>(lstat, readlink, links, current, path). 40 - links,
      \<lambda>(lstat, readlink, links, current, path). length path]")
    (use rest_shorter in \<open>auto simp: Let_def\<close>)

declare trusted_walk.simps [simp del]

definition trusted_ancestors ::
  "(cstring \<Rightarrow> errno + stat) \<Rightarrow> (cstring \<Rightarrow> errno + cstring) \<Rightarrow> (errno + cstring) \<Rightarrow> cstring \<Rightarrow> bool" where
  "trusted_ancestors lstat readlink getcwd path =
     (if path = [] \<or> length path \<ge> PATH_MAX then False
      else
        (case (if hd path = 47 then Some path
               else (case getcwd of Inl e \<Rightarrow> None | Inr working \<Rightarrow> join working path)) of
           None \<Rightarrow> False
         | Some pending \<Rightarrow>
             (case lstat [47] of
                Inl e \<Rightarrow> False
              | Inr st \<Rightarrow>
                  if st_uid st \<noteq> 0 \<or> others_write st then False
                  else trusted_walk lstat readlink 0 [47] pending)))"


section \<open>Reference resolution\<close>

text \<open>
  The kernel's walk from the location \<open>cur\<close> (names from the root) along the names \<open>cs\<close>, where \<open>nodes\<close>
  are the inodes by location and \<open>links\<close> the targets of the symbolic links: the inodes it looks up on
  the way, in order, and where it ends.
\<close>

inductive kernel_walk ::
  "(cstring list \<Rightarrow> errno + stat) \<Rightarrow> (cstring list \<Rightarrow> errno + cstring) \<Rightarrow>
   cstring list \<Rightarrow> cstring list \<Rightarrow> cstring list list \<Rightarrow> cstring list \<Rightarrow> bool"
  for nodes links where
  nil: "kernel_walk nodes links cur [] [] cur"
| dot: "kernel_walk nodes links cur cs visited final \<Longrightarrow>
    kernel_walk nodes links cur (ascii ''.'' # cs) visited final"
| dotdot: "kernel_walk nodes links (butlast cur) cs visited final \<Longrightarrow>
    kernel_walk nodes links cur (ascii ''..'' # cs) visited final"
| link: "c \<noteq> ascii ''.'' \<Longrightarrow> c \<noteq> ascii ''..'' \<Longrightarrow> nodes (cur @ [c]) = Inr st \<Longrightarrow> st_kind st = Symlink \<Longrightarrow>
    links (cur @ [c]) = Inr target \<Longrightarrow>
    kernel_walk nodes links (if target \<noteq> [] \<and> hd target = 47 then [] else cur) (components target @ cs) visited final \<Longrightarrow>
    kernel_walk nodes links cur (c # cs) ((cur @ [c]) # visited) final"
| enter: "c \<noteq> ascii ''.'' \<Longrightarrow> c \<noteq> ascii ''..'' \<Longrightarrow> nodes (cur @ [c]) = Inr st \<Longrightarrow> st_kind st \<noteq> Symlink \<Longrightarrow>
    cs = [] \<or> st_kind st = Directory \<Longrightarrow>
    kernel_walk nodes links (cur @ [c]) cs visited final \<Longrightarrow>
    kernel_walk nodes links cur (c # cs) ((cur @ [c]) # visited) final"

inductive_cases walk_doneE: "kernel_walk nodes links cur [] visited final"
inductive_cases walk_stepE: "kernel_walk nodes links cur (c # cs) visited final"

text \<open>An inode nobody but root can redirect or replace.\<close>

definition trusted_node :: "errno + stat \<Rightarrow> bool" where
  "trusted_node node =
     (case node of
        Inl e \<Rightarrow> False
      | Inr st \<Rightarrow> st_uid st = 0 \<and> st_kind st \<in> {Regular, Directory, Symlink} \<and> (st_kind st = Symlink \<or> \<not> others_write st))"

lemma kernel_walk_deterministic:
  "kernel_walk nodes links cur cs visited final \<Longrightarrow> kernel_walk nodes links cur cs visited' final' \<Longrightarrow>
   visited' = visited \<and> final' = final"
proof (induction arbitrary: visited' final' rule: kernel_walk.induct)
  case (nil cur)
  then show ?case by (auto elim: walk_doneE)
next
  case (dot cur cs visited final)
  from dot.prems have "kernel_walk nodes links cur cs visited' final'"
    by (rule walk_stepE) simp_all
  then show ?case by (rule dot.IH)
next
  case (dotdot cur cs visited final)
  from dotdot.prems have "kernel_walk nodes links (butlast cur) cs visited' final'"
    by (rule walk_stepE) simp_all
  then show ?case by (rule dotdot.IH)
next
  case (link c cur st target cs visited final)
  from link.prems obtain vs where "visited' = (cur @ [c]) # vs"
    "kernel_walk nodes links (if target \<noteq> [] \<and> hd target = 47 then [] else cur) (components target @ cs) vs final'"
    by (rule walk_stepE) (use link.hyps in simp_all)
  then show ?case using link.IH by blast
next
  case (enter c cur st cs visited final)
  from enter.prems obtain vs where "visited' = (cur @ [c]) # vs" "kernel_walk nodes links (cur @ [c]) cs vs final'"
    by (rule walk_stepE) (use enter.hyps in simp_all)
  then show ?case using enter.IH by blast
qed

section \<open>Lemmas on components\<close>

lemma split_on_not_Nil [simp]: "split_on sep s \<noteq> []"
  by (induction s) (auto split: list.splits)

lemma split_on_append: "split_on sep (s @ sep # t) = split_on sep s @ split_on sep t"
proof (induction s)
  case (Cons c s)
  then show ?case by (cases "split_on sep s") auto
qed simp

lemma split_on_plain: "sep \<notin> set s \<Longrightarrow> split_on sep s = [s]"
  by (induction s) auto

lemma components_append: "components (s @ 47 # t) = components s @ components t"
  by (simp add: components_def split_on_append)

lemma components_plain: "47 \<notin> set s \<Longrightarrow> components s = (if s = [] then [] else [s])"
  by (simp add: components_def split_on_plain)

lemma components_Nil [simp]: "components [] = []"
  by (simp add: components_plain)

lemma components_slash [simp]: "components (47 # s) = components s"
  using components_append [of "[]" s] by simp

lemma components_skip: "components (dropWhile (\<lambda>b. b = 47) s) = components s"
  by (induction s) simp_all

lemma components_next:
  assumes "part = dropWhile (\<lambda>b. b = 47) path" "part \<noteq> []" "c = takeWhile (\<lambda>b. b \<noteq> 47) part"
  shows "components path = c # components (drop (length c + 1) part) \<and> c \<noteq> [] \<and> 47 \<notin> set c"
proof -
  have hd: "hd part \<noteq> 47" using assms(1, 2) hd_dropWhile [of "\<lambda>b. b = 47" path] by simp
  then have ne: "c \<noteq> []" using assms(2, 3) by (cases part) auto
  have ns: "47 \<notin> set c" using assms(3) by (auto dest: set_takeWhileD)
  have part: "part = c @ dropWhile (\<lambda>b. b \<noteq> 47) part" using assms(3) by simp
  have "components part = c # components (drop (length c + 1) part)"
  proof (cases "dropWhile (\<lambda>b. b \<noteq> 47) part")
    case Nil
    then have "part = c" using part by (metis append_Nil2)
    then show ?thesis using ne ns components_plain [of c] by simp
  next
    case (Cons b rest)
    then have "b = 47" using hd_dropWhile [of "\<lambda>b. b \<noteq> 47" part] by simp
    then have p: "part = c @ 47 # rest" using part Cons by simp
    then have "drop (length c + 1) part = rest" by simp
    then show ?thesis using p ne ns components_plain [of c] by (simp add: components_append)
  qed
  then show ?thesis using ne ns components_skip [of path] assms(1) by simp
qed

text \<open>A location string: the root, or a name appended to a location.\<close>

inductive location :: "cstring \<Rightarrow> bool" where
  root: "location [47]"
| name: "location p \<Longrightarrow> c \<noteq> [] \<Longrightarrow> 47 \<notin> set c \<Longrightarrow> location (p @ 47 # c)"

lemma location_parent: "location p \<Longrightarrow> location (parent p) \<and> components (parent p) = butlast (components p)"
proof (induction rule: location.induct)
  case root
  then show ?case by (simp add: parent_def location.root)
next
  case (name p c)
  have "dropWhile (\<lambda>b. b \<noteq> 47) (rev (p @ 47 # c)) = 47 # rev p"
    using name by (simp add: dropWhile_append)
  moreover have "p \<noteq> []" using name(1) by (cases rule: location.cases) auto
  ultimately have "parent (p @ 47 # c) = p" by (simp add: parent_def)
  then show ?case using name by (simp add: components_append components_plain)
qed

lemma join_location:
  "join base c = Some next \<Longrightarrow> location base \<Longrightarrow> c \<noteq> [] \<Longrightarrow> 47 \<notin> set c \<Longrightarrow>
   location next \<and> components next = components base @ [c]"
  by (auto simp: join_def Let_def components_append components_plain location.name split: if_splits)

section \<open>The route check is sound\<close>

lemma trusted_walk_sound:
  assumes "trusted_walk (\<lambda>s. nodes (components s)) (\<lambda>s. links (components s)) n current path" "location current"
  shows "\<exists>visited final. kernel_walk nodes links (components current) (components path) visited final \<and>
    (\<forall>node\<in>set visited. trusted_node (nodes node))"
  using assms
proof (induction "\<lambda>s. nodes (components s)" "\<lambda>s. links (components s)" n current path rule: trusted_walk.induct)
  case (1 n current path)
  define part where "part = dropWhile (\<lambda>b. b = 47) path"
  define c where "c = takeWhile (\<lambda>b. b \<noteq> 47) part"
  define rest where "rest = drop (length c + 1) part"
  show ?case
  proof (cases "part = []")
    case True
    then have "components path = []" using components_skip [of path] unfolding part_def [symmetric] by simp
    then show ?thesis by (intro exI [of _ "[]"] exI [of _ "components current"]) (simp add: kernel_walk.nil)
  next
    case False
    have split: "components path = c # components rest" and c: "c \<noteq> []" "47 \<notin> set c"
      using components_next [OF part_def False c_def] by (simp_all add: rest_def)
    note step = 1(5) [unfolded trusted_walk.simps [of _ _ n current path] Let_def, folded part_def, folded c_def, folded rest_def]
    note IH = 1(1-4) [OF part_def False c_def rest_def]
    show ?thesis
    proof (cases "c = ascii ''.'' \<or> c = ascii ''..''")
      case True
      then consider (dot) "c = ascii ''.''" | (dotdot) "c = ascii ''..''" by blast
      then show ?thesis
      proof cases
        case dot
        have "trusted_walk (\<lambda>s. nodes (components s)) (\<lambda>s. links (components s)) n current rest"
          using step False dot by simp
        then obtain visited final where "kernel_walk nodes links (components current) (components rest) visited final"
          "\<forall>node\<in>set visited. trusted_node (nodes node)"
          using IH(1) dot 1(6) by blast
        then show ?thesis using split dot by (metis kernel_walk.dot)
      next
        case dotdot
        have "trusted_walk (\<lambda>s. nodes (components s)) (\<lambda>s. links (components s)) n (parent current) rest"
          using step False dotdot by simp
        then obtain visited final where "kernel_walk nodes links (butlast (components current)) (components rest) visited final"
          "\<forall>node\<in>set visited. trusted_node (nodes node)"
          using IH(2) dotdot location_parent [OF 1(6)] by auto
        then show ?thesis using split dotdot by (metis kernel_walk.dotdot)
      qed
    next
      case named: False
      then have plain: "c \<noteq> ascii ''.''" "c \<noteq> ascii ''..''" by simp_all
      obtain nxt st where nxt: "join current c = Some nxt" and node: "nodes (components nxt) = Inr st"
        using step False plain by (auto split: option.splits sum.splits)
      have loc: "location nxt" "components nxt = components current @ [c]"
        using join_location [OF nxt 1(6) c] by simp_all
      note step' = step [unfolded nxt option.case node sum.case if_not_P [OF False] if_not_P [OF plain(1)] if_not_P [OF plain(2)]]
      have guard: "\<not> (st_uid st \<noteq> 0 \<or> st_kind st \<noteq> Symlink \<and> others_write st)"
        using step' by (auto split: if_splits)
      have trusted: "trusted_node (nodes (components current @ [c]))"
        using step' node loc(2) by (auto simp: trusted_node_def split: if_splits)
      show ?thesis
      proof (cases "st_kind st = Symlink")
        case True
        obtain target expanded where target: "links (components nxt) = Inr target"
          and bounds: "\<not> 40 < n + 1" "\<not> PATH_MAX - 1 \<le> length target"
          and expanded: "join target rest = Some expanded"
          and walk: "trusted_walk (\<lambda>s. nodes (components s)) (\<lambda>s. links (components s)) (n + 1)
            (if target \<noteq> [] \<and> hd target = 47 then [47] else current) expanded"
          using step' True by (auto split: option.splits sum.splits if_splits)
        define start where "start = (if target \<noteq> [] \<and> hd target = 47 then [47] else current)"
        have start: "location start"
          "components start = (if target \<noteq> [] \<and> hd target = 47 then [] else components current)"
          using 1(6) by (simp_all add: start_def location.root)
        have "components expanded = components target @ components rest"
          using expanded by (auto simp: join_def Let_def components_append split: if_splits)
        moreover have "\<exists>visited final. kernel_walk nodes links (components start) (components expanded) visited final \<and>
            (\<forall>node\<in>set visited. trusted_node (nodes node))"
          unfolding start_def
          by (rule IH(3) [OF plain nxt node guard True bounds(1) target bounds(2) expanded walk])
            (simp add: location.root 1(6))
        ultimately obtain visited final
          where w: "kernel_walk nodes links (components start) (components target @ components rest) visited final"
            and t: "\<forall>node\<in>set visited. trusted_node (nodes node)"
          by auto
        have "kernel_walk nodes links (components current) (components path) ((components current @ [c]) # visited) final"
          unfolding split using node target w start(2) plain True loc(2) by (intro kernel_walk.link) simp_all
        then show ?thesis using t trusted by (intro exI conjI) (assumption, simp)
      next
        case False
        have walk: "trusted_walk (\<lambda>s. nodes (components s)) (\<lambda>s. links (components s)) n nxt rest"
          and kind: "rest = [] \<or> st_kind st = Directory"
          using step' False by (auto split: if_splits)
        have "\<exists>visited final. kernel_walk nodes links (components nxt) (components rest) visited final \<and>
            (\<forall>node\<in>set visited. trusted_node (nodes node))"
          using IH(4) [OF plain nxt node guard False _ walk loc(1)] kind step' False by (auto split: if_splits)
        then obtain visited final where w: "kernel_walk nodes links (components current @ [c]) (components rest) visited final"
            and t: "\<forall>node\<in>set visited. trusted_node (nodes node)"
          using loc(2) by auto
        have "kernel_walk nodes links (components current) (components path) ((components current @ [c]) # visited) final"
          unfolding split using node w plain False loc(2) kind by (intro kernel_walk.enter) auto
        then show ?thesis using t trusted by (intro exI conjI) (assumption, simp)
      qed
    qed
  qed
qed


section \<open>Trusted trees and rules\<close>

text \<open>
  One entry of the logical traversal by \<open>fts_read\<close>: whether it is the second visit of a directory,
  an entry that could not be inspected, its path and the status of what it leads to.
\<close>

datatype fts_info = FTS_DP | FTS_Failed | FTS_Other

record fts_entry =
  fts_info :: fts_info
  fts_path :: cstring
  fts_stat :: stat

fun trusted_entries ::
  "(cstring \<Rightarrow> errno + stat) \<Rightarrow> (cstring \<Rightarrow> bool) \<Rightarrow> fts_entry list \<Rightarrow> bool" where
  "trusted_entries lstat ancestors [] = True"
| "trusted_entries lstat ancestors (entry # entries) =
     (if fts_info entry = FTS_DP then trusted_entries lstat ancestors entries
      else if fts_info entry = FTS_Failed then False
      else
        (case lstat (fts_path entry) of
           Inl e \<Rightarrow> False
         | Inr link \<Rightarrow>
             let st = fts_stat entry in
             if st_uid link \<noteq> 0 \<or> st_uid st \<noteq> 0 \<or> others_write st \<or> (st_kind st \<noteq> Regular \<and> st_kind st \<noteq> Directory)
             then False
             else if st_kind link = Symlink \<and> \<not> ancestors (fts_path entry) then False
             else trusted_entries lstat ancestors entries))"

text \<open>\<open>fts path\<close>: None when \<open>fts_open\<close> fails, else the entries and whether the traversal ended cleanly.\<close>

definition trusted_tree ::
  "(cstring \<Rightarrow> errno + stat) \<Rightarrow> (cstring \<Rightarrow> bool) \<Rightarrow> (cstring \<Rightarrow> (fts_entry list \<times> bool) option) \<Rightarrow> cstring \<Rightarrow> bool" where
  "trusted_tree lstat ancestors fts path =
     (if \<not> ancestors path then False
      else (case fts path of None \<Rightarrow> False | Some (entries, clean) \<Rightarrow> trusted_entries lstat ancestors entries \<and> clean))"

lemma trusted_entries_all:
  "trusted_entries lstat ancestors entries \<Longrightarrow>
   \<forall>entry\<in>set entries. fts_info entry \<noteq> FTS_DP \<longrightarrow>
     (\<exists>link. lstat (fts_path entry) = Inr link \<and> st_uid link = 0 \<and> (st_kind link = Symlink \<longrightarrow> ancestors (fts_path entry))) \<and>
     trusted_node (Inr (fts_stat entry)) \<and> st_kind (fts_stat entry) \<noteq> Symlink"
proof (induction entries)
  case (Cons entry entries)
  show ?case
  proof (cases "lstat (fts_path entry)")
    case (Inl e)
    then show ?thesis using Cons by (auto split: if_splits)
  next
    case (Inr link)
    then show ?thesis using Cons by (cases "fts_info entry") (auto simp: Let_def trusted_node_def split: if_splits)
  qed
qed simp

section \<open>Properties\<close>

text \<open>
  C34. A trusted route really is one: when \<open>trusted_ancestors\<close> accepts a path, the kernel's own resolution
  of that path - every name from the root on, symbolic links and their targets included - succeeds, and
  every inode it looks up belongs to root and is a link or not writable by group or others; the walk is
  the only one, so no component outside root's control can redirect it.
\<close>

theorem trusted_route:
  assumes "trusted_ancestors (\<lambda>s. nodes (components s)) (\<lambda>s. links (components s)) (Inr working) path"
  shows "\<exists>visited final.
    kernel_walk nodes links [] ((if hd path = 47 then [] else components working) @ components path) visited final \<and>
    (\<exists>st. nodes [] = Inr st \<and> st_uid st = 0 \<and> \<not> others_write st) \<and>
    (\<forall>node\<in>set visited. trusted_node (nodes node)) \<and>
    (\<forall>visited' final'.
       kernel_walk nodes links [] ((if hd path = 47 then [] else components working) @ components path) visited' final' \<longrightarrow>
       visited' = visited \<and> final' = final)"
proof -
  obtain pending where pending: "(if hd path = 47 then Some path else join working path) = Some pending"
    and root: "\<exists>st. nodes [] = Inr st \<and> st_uid st = 0 \<and> \<not> others_write st"
    and walk: "trusted_walk (\<lambda>s. nodes (components s)) (\<lambda>s. links (components s)) 0 [47] pending"
    using assms by (auto simp: trusted_ancestors_def split: if_splits option.splits sum.splits)
  have "components pending = (if hd path = 47 then [] else components working) @ components path"
    using pending by (auto simp: join_def Let_def components_append split: if_splits)
  then obtain visited final where
    w: "kernel_walk nodes links [] ((if hd path = 47 then [] else components working) @ components path) visited final"
    and t: "\<forall>node\<in>set visited. trusted_node (nodes node)"
    using trusted_walk_sound [OF walk location.root] by auto
  then show ?thesis using t root kernel_walk_deterministic [OF w] by blast
qed


definition sample_nodes :: "cstring list \<Rightarrow> errno + stat" where
  "sample_nodes loc =
     (let st = (\<lambda>k. Inr \<lparr>st_kind = k, st_uid = 0, st_mode = 0, st_nlink = 1, st_length = 0\<rparr>) in
      if loc = [] then st Directory
      else if loc = [[108]] then st Symlink
      else if loc = [[100]] then st Directory
      else Inl ENOENT)"

lemma sample_nodes_at:
  "sample_nodes [] = Inr \<lparr>st_kind = Directory, st_uid = 0, st_mode = 0, st_nlink = 1, st_length = 0\<rparr>"
  "sample_nodes [[108]] = Inr \<lparr>st_kind = Symlink, st_uid = 0, st_mode = 0, st_nlink = 1, st_length = 0\<rparr>"
  "sample_nodes [[100]] = Inr \<lparr>st_kind = Directory, st_uid = 0, st_mode = 0, st_nlink = 1, st_length = 0\<rparr>"
  by (simp_all add: sample_nodes_def)

lemma sample_components: "components [108] = [[108]]" "components [100] = [[100]]"
  by (simp_all add: components_def)

lemmas sample_walk_simps = ascii_def join_def PATH_MAX_def sample_components sample_nodes_at others_write_def Let_def

lemma sample_walk: "trusted_walk (\<lambda>s. sample_nodes (components s)) (\<lambda>s. Inr [100]) n [47] [100, 47]"
  by (subst trusted_walk.simps) (simp add: sample_walk_simps trusted_walk.simps [of _ _ n "[47, 47, 100]" "[]"])

lemma trusted_route_witness:
  "\<exists>visited final. kernel_walk sample_nodes (\<lambda>_. Inr [100]) [] [[108]] visited final \<and> (\<forall>node\<in>set visited. trusted_node (sample_nodes node))"
proof -
  have "trusted_walk (\<lambda>s. sample_nodes (components s)) (\<lambda>s. Inr [100]) 0 [47] [47, 108]"
    by (subst trusted_walk.simps) (simp add: sample_walk_simps sample_walk)
  then have "trusted_ancestors (\<lambda>s. sample_nodes (components s)) (\<lambda>s. (\<lambda>_. Inr [100]) (components s)) (Inr [47]) [47, 108]"
    by (simp add: trusted_ancestors_def sample_walk_simps)
  from trusted_route [OF this] show ?thesis by (auto simp: sample_components)
qed

end
