(* ===== verification/Sandbox_Rules.thy ===== *)
theory Sandbox_Rules
  imports Sandbox_Trust
begin

text \<open>
  The rule table of the main sandbox (\<open>app/main_sandbox.c\<close>: \<open>add\<close>, \<open>trusted_rule\<close>, \<open>socket_rule\<close>,
  \<open>writable\<close>) and \<open>directory\<close>. The operating system is a record of functions over a state of its own
  type; \<open>directory\<close> changes that state by creating missing directories. An operation that fails is
  \<open>Inl\<close> with the table as it leaves it.
\<close>

section \<open>The operating system\<close>

record 'w os =
  os_stat :: "'w \<Rightarrow> cstring \<Rightarrow> errno + stat"
  os_lstat :: "'w \<Rightarrow> cstring \<Rightarrow> errno + stat"
  os_readlink :: "'w \<Rightarrow> cstring \<Rightarrow> errno + cstring"
  os_realpath :: "'w \<Rightarrow> cstring \<Rightarrow> errno + cstring"
  os_getcwd :: "'w \<Rightarrow> errno + cstring"
  os_fts :: "'w \<Rightarrow> cstring \<Rightarrow> (fts_entry list \<times> bool) option"
  os_mkdir :: "'w \<Rightarrow> cstring \<Rightarrow> errno option \<times> 'w"

definition os_trusted_tree :: "('w, 'a) os_scheme \<Rightarrow> 'w \<Rightarrow> cstring \<Rightarrow> bool" where
  "os_trusted_tree os w =
     trusted_tree (os_lstat os w) (trusted_ancestors (os_lstat os w) (os_readlink os w) (os_getcwd os w)) (os_fts os w)"

section \<open>Directories\<close>

text \<open>One name after the other: created when missing, then resolved.\<close>

fun directory_parts :: "('w, 'a) os_scheme \<Rightarrow> cstring \<Rightarrow> cstring list \<Rightarrow> 'w \<Rightarrow> cstring option \<times> 'w" where
  "directory_parts os current [] w = (Some current, w)"
| "directory_parts os current (part # parts) w =
     (case join current part of
        None \<Rightarrow> (None, w)
      | Some next \<Rightarrow>
          (let (exists, w) =
             (case os_stat os w next of
                Inl e \<Rightarrow> if e \<noteq> ENOENT then (False, w)
                  else (case os_mkdir os w next of (Some e, w) \<Rightarrow> (False, w) | (None, w) \<Rightarrow> (True, w))
              | Inr st \<Rightarrow> (st_kind st = Directory, w))
           in if \<not> exists then (None, w)
              else
                (case os_realpath os w next of
                   Inl e \<Rightarrow> (None, w)
                 | Inr resolved \<Rightarrow> directory_parts os resolved parts w)))"

definition directory :: "('w, 'a) os_scheme \<Rightarrow> cstring \<Rightarrow> 'w \<Rightarrow> cstring option \<times> 'w" where
  "directory os input w =
     (if input = [] \<or> length input \<ge> PATH_MAX then (None, w)
      else if hd input = 47 then directory_parts os [47] (components input) w
      else
        (case os_getcwd os w of
           Inl e \<Rightarrow> (None, w)
         | Inr working \<Rightarrow> directory_parts os working (components input) w))"

section \<open>The table\<close>

record rule =
  r_path :: cstring
  r_permissions :: string

definition RULE_LIMIT :: nat where "RULE_LIMIT = 128"

definition permits :: "char \<Rightarrow> rule \<Rightarrow> bool" where
  "permits c r \<longleftrightarrow> c \<in> set (r_permissions r)"

text \<open>The scan of the table: Some True when the rule is already there, None on a conflict.\<close>

fun check_rules :: "cstring \<Rightarrow> string \<Rightarrow> rule list \<Rightarrow> bool option" where
  "check_rules resolved permissions [] = Some False"
| "check_rules resolved permissions (r # rs) =
     (if r_path r = resolved then (if r_permissions r = permissions then Some True else None)
      else if (CHR ''w'' \<in> set permissions) \<noteq> permits CHR ''w'' r \<and>
              (within resolved (r_path r) \<or> within (r_path r) resolved) then None
      else check_rules resolved permissions rs)"

definition add :: "(cstring \<Rightarrow> errno + cstring) \<Rightarrow> cstring \<Rightarrow> string \<Rightarrow> bool \<Rightarrow> rule list \<Rightarrow> rule list + rule list" where
  "add realpath path permissions optional rules =
     (case realpath path of
        Inl e \<Rightarrow> if optional \<and> e = ENOENT then Inr rules else Inl rules
      | Inr resolved \<Rightarrow>
          (case check_rules resolved permissions rules of
             None \<Rightarrow> Inl rules
           | Some True \<Rightarrow> Inr rules
           | Some False \<Rightarrow>
               if length rules = RULE_LIMIT then Inl rules
               else Inr (rules @ [\<lparr>r_path = resolved, r_permissions = permissions\<rparr>])))"

datatype trust_presence = TRUST_REQUIRED | TRUST_OPTIONAL

definition trusted_rule ::
  "('w, 'a) os_scheme \<Rightarrow> 'w \<Rightarrow> cstring \<Rightarrow> string \<Rightarrow> trust_presence \<Rightarrow> rule list \<Rightarrow> rule list + rule list" where
  "trusted_rule os w path permissions presence rules =
     (case os_lstat os w path of
        Inl e \<Rightarrow> if presence = TRUST_OPTIONAL \<and> e = ENOENT then Inr rules else Inl rules
      | Inr st \<Rightarrow>
          if \<not> os_trusted_tree os w path then Inl rules
          else add (os_realpath os w) path permissions False rules)"

definition socket_rule :: "('w, 'a) os_scheme \<Rightarrow> 'w \<Rightarrow> cstring \<Rightarrow> bool \<Rightarrow> rule list \<Rightarrow> rule list + rule list" where
  "socket_rule os w path optional rules =
     (case os_stat os w path of
        Inl e \<Rightarrow> if optional \<and> e = ENOENT then Inr rules else Inl rules
      | Inr st \<Rightarrow> if st_kind st \<noteq> Socket then Inl rules else add (os_realpath os w) path ''rw'' False rules)"

definition protected_paths :: "cstring list" where
  "protected_paths = map ascii
     [''/'', ''/tmp'', ''/var/tmp'', ''/usr'', ''/etc'', ''/bin'', ''/sbin'', ''/dev'', ''/var'', ''/home'']"

definition writable :: "('w, 'a) os_scheme \<Rightarrow> 'w \<Rightarrow> cstring \<Rightarrow> cstring \<Rightarrow> rule list \<Rightarrow> rule list + rule list" where
  "writable os w path home rules =
     (if within home path then Inl rules
      else if path \<in> set protected_paths then Inl rules
      else add (os_realpath os w) path ''rwc'' False rules)"

section \<open>Grants\<close>

text \<open>The four ways to enter a rule, so that a sequence of them is a list.\<close>

datatype grant =
  Add cstring string bool
| Trusted cstring string trust_presence
| Socket_At cstring bool
| Writable cstring cstring

fun do_grant :: "('w, 'a) os_scheme \<Rightarrow> 'w \<Rightarrow> grant \<Rightarrow> rule list \<Rightarrow> rule list + rule list" where
  "do_grant os w (Add path permissions optional) = add (os_realpath os w) path permissions optional"
| "do_grant os w (Trusted path permissions presence) = trusted_rule os w path permissions presence"
| "do_grant os w (Socket_At path optional) = socket_rule os w path optional"
| "do_grant os w (Writable path home) = writable os w path home"

fun grant_permissions :: "grant \<Rightarrow> string" where
  "grant_permissions (Add path permissions optional) = permissions"
| "grant_permissions (Trusted path permissions presence) = permissions"
| "grant_permissions (Socket_At path optional) = ''rw''"
| "grant_permissions (Writable path home) = ''rwc''"

section \<open>Invariant\<close>

text \<open>Distinct paths, and no writable tree inside, above or equal to one that is not writable.\<close>

definition separated :: "rule list \<Rightarrow> bool" where
  "separated rules \<longleftrightarrow>
     length rules \<le> RULE_LIMIT \<and> distinct (map r_path rules) \<and>
     (\<forall>a\<in>set rules. \<forall>b\<in>set rules.
        permits CHR ''w'' a \<noteq> permits CHR ''w'' b \<longrightarrow> \<not> within (r_path a) (r_path b))"

lemma check_rules_new:
  "check_rules resolved permissions rules = Some False \<Longrightarrow>
   resolved \<notin> set (map r_path rules) \<and>
   (\<forall>r\<in>set rules. (CHR ''w'' \<in> set permissions) \<noteq> permits CHR ''w'' r \<longrightarrow>
      \<not> within resolved (r_path r) \<and> \<not> within (r_path r) resolved)"
  by (induction rules) (auto split: if_splits)

lemma add_cases:
  assumes "add realpath path permissions optional rules = Inr rules'"
  shows "rules' = rules \<or>
    (\<exists>resolved. realpath path = Inr resolved \<and> check_rules resolved permissions rules = Some False \<and>
       length rules \<noteq> RULE_LIMIT \<and> rules' = rules @ [\<lparr>r_path = resolved, r_permissions = permissions\<rparr>])"
  using assms by (auto simp: add_def split: sum.splits if_splits option.splits bool.splits)

lemma add_separated: "separated rules \<Longrightarrow> add realpath path permissions optional rules = Inr rules' \<Longrightarrow> separated rules'"
proof -
  assume sep: "separated rules" and "add realpath path permissions optional rules = Inr rules'"
  from add_cases [OF this(2)] show "separated rules'"
  proof
    assume "\<exists>resolved. realpath path = Inr resolved \<and> check_rules resolved permissions rules = Some False \<and>
       length rules \<noteq> RULE_LIMIT \<and> rules' = rules @ [\<lparr>r_path = resolved, r_permissions = permissions\<rparr>]"
    then obtain resolved where new: "check_rules resolved permissions rules = Some False"
      and limit: "length rules \<noteq> RULE_LIMIT" and rules': "rules' = rules @ [\<lparr>r_path = resolved, r_permissions = permissions\<rparr>]"
      by blast
    show ?thesis using sep limit check_rules_new [OF new] unfolding rules' separated_def
      by (auto simp: permits_def)
  qed (use sep in simp)
qed

lemma do_grant_cases:
  assumes "do_grant os w g rules = Inr rules'"
  shows "rules' = rules \<or> (\<exists>path optional. add (os_realpath os w) path (grant_permissions g) optional rules = Inr rules')"
  using assms
  by (cases g) (auto simp: trusted_rule_def socket_rule_def writable_def split: sum.splits if_splits)

interpretation grants: guarded_machine "do_grant os w" separated for os w
proof unfold_locales
  fix s x s'
  assume "separated s" "do_grant os w x s = Inr s'"
  then show "separated s'" using do_grant_cases [of os w x s s'] add_separated by blast
qed

lemma separated_empty [simp]: "separated []"
  by (simp add: separated_def)

section \<open>Containment\<close>

lemma within_refl [simp]: "within p p"
  by (simp add: within_def Let_def)

text \<open>Two directories above the same path are one above the other.\<close>

lemma within_comparable:
  assumes "within p a" "within p b"
  shows "within a b \<or> within b a"
proof -
  have *: "within b a" if ab: "length a \<le> length b" and a: "within p a" and b: "within p b" and root: "b \<noteq> [47]" for a b
  proof (cases "a = [47]")
    case True
    then show ?thesis by (simp add: within_def)
  next
    case False
    have pa: "take (length a) p = a" "length p = length a \<or> p ! length a = 47"
      and pb: "take (length b) p = b" using a b False root by (auto simp: within_def Let_def)
    have "take (length a) b = a" using pa(1) pb ab by (metis min.absorb1 take_take)
    moreover have "length b = length a \<or> b ! length a = 47"
    proof (cases "length a = length b")
      case less: False
      then have "length a < length b" using ab by simp
      moreover have "length b \<le> length p" using pb by (metis length_take min.bounded_iff order_refl)
      ultimately have "p ! length a = 47" using pa(2) by auto
      then show ?thesis using pb less ab by (metis le_neq_implies_less nth_take)
    qed simp
    ultimately show ?thesis by (simp add: within_def Let_def)
  qed
  show ?thesis
  proof (cases "a = [47] \<or> b = [47]")
    case True
    then show ?thesis by (auto simp: within_def)
  next
    case False
    then show ?thesis using * [of a b] * [of b a] assms by (cases "length a \<le> length b") auto
  qed
qed

text \<open>No path lies both in a writable tree and in one that is not.\<close>

lemma separated_no_mixed:
  assumes "separated rules" "a \<in> set rules" "b \<in> set rules" "permits CHR ''w'' a" "\<not> permits CHR ''w'' b"
  shows "\<not> (within p (r_path a) \<and> within p (r_path b))"
  using assms within_comparable [of p "r_path a" "r_path b"] by (auto simp: separated_def)

end
