(* ===== verification/Sandbox_Config.thy ===== *)
theory Sandbox_Config
  imports Sandbox_Rules
begin

text \<open>
  What the main sandbox reads from its surroundings (\<open>app/main_sandbox.c\<close>): the Downloads entry of
  \<open>user-dirs.dirs\<close> (\<open>downloads\<close>), the socket paths of the session bus address (\<open>desktop_bus\<close>) and
  the local display number. Strings are C strings; a pointer into a line is the rest of the line.
\<close>

section \<open>The Downloads directory\<close>

text \<open>The lines \<open>fgets\<close> returns with a buffer of \<open>size\<close> bytes.\<close>

function fgets_lines :: "nat \<Rightarrow> byte list \<Rightarrow> byte list list" where
  "fgets_lines n bs =
     (if bs = [] \<or> n \<le> 1 then []
      else
        let line = takeWhile (\<lambda>b. b \<noteq> 10) bs; chunk = take (n - 1) (take (length line + 1) bs)
        in chunk # fgets_lines n (drop (length chunk) bs))"
  by pat_completeness auto

termination by (relation "measure (\<lambda>(n, bs). length bs)") (auto simp: Let_def)

declare fgets_lines.simps [simp del]

definition LINE_SIZE :: nat where "LINE_SIZE = PATH_MAX + 64"

definition downloads_key :: cstring where "downloads_key = ascii ''XDG_DOWNLOAD_DIR=''"

definition blank :: "byte \<Rightarrow> bool" where "blank b \<longleftrightarrow> b = 32 \<or> b = 9"

text \<open>The loop over the quoted value: the value so far and the rest of the line where the loop stops.\<close>

fun read_value :: "cstring \<Rightarrow> cstring \<Rightarrow> cstring \<times> cstring" where
  "read_value value [] = (value, [])"
| "read_value value (c # p) =
     (if c = 34 \<or> c = 10 then (value, c # p)
      else if length value \<ge> PATH_MAX - 1 then (value, c # p)
      else if c = 92 then
        (case p of
           [] \<Rightarrow> (value, [])
         | d # q \<Rightarrow>
             if d \<noteq> 92 \<and> d \<noteq> 34 \<and> d \<noteq> 36 \<and> d \<noteq> 96 then (value, d # q)
             else read_value (value @ [d]) q)
      else if c = 36 \<or> c = 96 then (value, c # p)
      else read_value (value @ [c]) p)"

text \<open>One line: unchanged when it is another setting, None when it is malformed.\<close>

definition downloads_line :: "cstring \<Rightarrow> cstring \<Rightarrow> cstring option \<Rightarrow> cstring option option" where
  "downloads_line home line found =
     (let p = dropWhile blank line in
      if \<not> (take (length downloads_key) p = downloads_key) then Some found
      else
        let p = drop (length downloads_key) p in
        if found \<noteq> None \<or> p = [] \<or> hd p \<noteq> 34 then None
        else
          let p = tl p;
              (value, p) =
                (if take 5 p = ascii ''$HOME'' \<and> 5 < length p \<and> (p ! 5 = 47 \<or> p ! 5 = 34)
                 then (home, drop 5 p) else ([], p));
              (value, p) = read_value value p
          in if p = [] \<or> hd p \<noteq> 34 \<or> length value \<ge> PATH_MAX - 1 then None
             else
               let p = dropWhile (\<lambda>b. blank b \<or> b = 13) (tl p) in
               if (p \<noteq> [] \<and> hd p \<noteq> 10 \<and> hd p \<noteq> 35) \<or> value = [] \<or> hd value \<noteq> 47 then None
               else Some (Some value))"

fun downloads_lines :: "cstring \<Rightarrow> cstring list \<Rightarrow> cstring option \<Rightarrow> cstring option option" where
  "downloads_lines home [] found = Some found"
| "downloads_lines home (line # lines) found =
     (case downloads_line home line found of
        None \<Rightarrow> None
      | Some found \<Rightarrow> downloads_lines home lines found)"

text \<open>\<open>text\<close> answers \<open>fopen\<close>: the file's bytes and whether reading them ended in an error.\<close>

definition downloads ::
  "('w, 'a) os_scheme \<Rightarrow> ('w \<Rightarrow> cstring \<Rightarrow> errno + (byte list \<times> bool)) \<Rightarrow> cstring \<Rightarrow> cstring \<Rightarrow> 'w \<Rightarrow> cstring option \<times> 'w" where
  "downloads os text config home w =
     (case join config (ascii ''user-dirs.dirs'') of
        None \<Rightarrow> (None, w)
      | Some file \<Rightarrow>
          (let found =
             (case text w file of
                Inl e \<Rightarrow> if e \<noteq> ENOENT then None else Some None
              | Inr (bytes, bad) \<Rightarrow>
                  (case downloads_lines home (map (takeWhile (\<lambda>b. b \<noteq> 0)) (fgets_lines LINE_SIZE bytes)) None of
                     None \<Rightarrow> None
                   | Some found \<Rightarrow> if bad then None else Some found))
           in case found of
                None \<Rightarrow> (None, w)
              | Some (Some value) \<Rightarrow> directory os value w
              | Some None \<Rightarrow>
                  (case join home (ascii ''Downloads'') of None \<Rightarrow> (None, w) | Some value \<Rightarrow> directory os value w)))"

section \<open>The session bus\<close>

definition hex_digit :: "byte \<Rightarrow> nat option" where
  "hex_digit b =
     (if 48 \<le> b \<and> b \<le> 57 then Some (unat b - 48)
      else if 65 \<le> b \<and> b \<le> 70 then Some (unat b - 55)
      else if 97 \<le> b \<and> b \<le> 102 then Some (unat b - 87)
      else None)"

text \<open>The percent decoding of a socket path.\<close>

fun bus_decode :: "cstring \<Rightarrow> cstring \<Rightarrow> cstring option" where
  "bus_decode path [] = Some path"
| "bus_decode path (c # p) =
     (if c = 37 then
        (case p of
           h # l # q \<Rightarrow>
             (case (hex_digit h, hex_digit l) of
                (Some x, Some y) \<Rightarrow>
                  let byte = of_nat (16 * x + y) in
                  if byte = 0 \<or> length path = PATH_MAX - 1 then None else bus_decode (path @ [byte]) q
              | _ \<Rightarrow> None)
         | _ \<Rightarrow> None)
      else if c = 0 \<or> length path = PATH_MAX - 1 then None
      else bus_decode (path @ [c]) p)"

definition bus_field :: "('w, 'a) os_scheme \<Rightarrow> 'w \<Rightarrow> cstring \<Rightarrow> rule list \<Rightarrow> rule list + rule list" where
  "bus_field os w field rules =
     (if length field > 5 \<and> take 5 field = ascii ''path='' then
        (case bus_decode [] (drop 5 field) of
           None \<Rightarrow> Inl rules
         | Some path \<Rightarrow>
             if path = [] \<or> hd path \<noteq> 47 then Inl rules else do_grant os w (Socket_At path False) rules)
      else Inr rules)"

definition bus_fields :: "cstring \<Rightarrow> cstring list" where
  "bus_fields address =
     concat (map (\<lambda>entry. if take 5 entry = ascii ''unix:'' then split_on 44 (drop 5 entry) else []) (split_on 59 address))"

definition desktop_bus :: "('w, 'a) os_scheme \<Rightarrow> 'w \<Rightarrow> cstring option \<Rightarrow> rule list \<Rightarrow> rule list + rule list" where
  "desktop_bus os w address rules =
     (case address of None \<Rightarrow> Inr rules | Some address \<Rightarrow> perform (bus_field os w) (bus_fields address) rules)"

section \<open>The display\<close>

text \<open>\<open>strtoul(s, &end, 10)\<close> with a 64-bit \<open>unsigned long\<close>: the value, the rest and the range error.\<close>

definition isspace :: "byte \<Rightarrow> bool" where
  "isspace b \<longleftrightarrow> b = 32 \<or> (9 \<le> b \<and> b \<le> 13)"

definition isdigit :: "byte \<Rightarrow> bool" where
  "isdigit b \<longleftrightarrow> 48 \<le> b \<and> b \<le> 57"

definition digits_value :: "cstring \<Rightarrow> nat" where
  "digits_value ds = foldl (\<lambda>n d. 10 * n + (unat d - 48)) 0 ds"

definition strtoul :: "cstring \<Rightarrow> u64 \<times> cstring \<times> bool" where
  "strtoul s =
     (let p = dropWhile isspace s;
          negative = (p \<noteq> [] \<and> hd p = 45);
          q = (if p \<noteq> [] \<and> (hd p = 45 \<or> hd p = 43) then tl p else p);
          ds = takeWhile isdigit q; n = digits_value ds
      in if ds = [] then (0, s, False)
         else if n > 18446744073709551615 then (18446744073709551615, drop (length ds) q, True)
         else (if negative then - of_nat n else of_nat n, drop (length ds) q, False))"

text \<open>The decimal notation \<open>%u\<close> and \<open>%lu\<close> print.\<close>

fun decimal :: "nat \<Rightarrow> cstring" where
  "decimal n = (if n < 10 then [of_nat (48 + n)] else decimal (n div 10) @ [of_nat (48 + n mod 10)])"

declare decimal.simps [simp del]

definition display_rule :: "('w, 'a) os_scheme \<Rightarrow> 'w \<Rightarrow> cstring option \<Rightarrow> rule list \<Rightarrow> rule list + rule list" where
  "display_rule os w display rules =
     (case display of
        None \<Rightarrow> Inr rules
      | Some display \<Rightarrow>
          if (display \<noteq> [] \<and> hd display = 58) \<or> take 5 display = ascii ''unix:'' then
            (let number = drop 1 (dropWhile (\<lambda>b. b \<noteq> 58) display); (index, end, range) = strtoul number
             in if range \<or> end = number \<or> (end \<noteq> [] \<and> hd end \<noteq> 46) \<or> unat index > 65535 then Inl rules
                else do_grant os w (Socket_At (ascii ''/tmp/.X11-unix/X'' @ decimal (unat index)) False) rules)
          else Inr rules)"

section \<open>Lemmas\<close>

text \<open>The reference notation: how \<open>xdg-user-dirs\<close> writes a path between double quotes.\<close>

definition special :: "byte \<Rightarrow> bool" where
  "special b \<longleftrightarrow> b = 92 \<or> b = 34 \<or> b = 36 \<or> b = 96"

definition quoted :: "cstring \<Rightarrow> cstring" where
  "quoted path = concat (map (\<lambda>b. if special b then [92, b] else [b]) path)"

lemma read_value_quoted:
  "10 \<notin> set path \<Longrightarrow> length v + length path \<le> PATH_MAX - 1 \<Longrightarrow>
   read_value v (quoted path @ 34 # rest) = (v @ path, 34 # rest)"
proof (induction path arbitrary: v)
  case (Cons c path)
  then show ?case by (auto simp: quoted_def special_def)
qed (simp add: quoted_def)

text \<open>Every socket the bus address names is entered as a socket, and nothing else is.\<close>

lemma bus_field_cases:
  "bus_field os w field rules = Inr rules' \<Longrightarrow>
   rules' = rules \<or> (\<exists>path. do_grant os w (Socket_At path False) rules = Inr rules')"
  by (auto simp: bus_field_def split: if_splits option.splits)

interpretation bus: guarded_machine "bus_field os w" separated for os w
proof unfold_locales
  fix s x s'
  assume "separated s" "bus_field os w x s = Inr s'"
  then show "separated s'"
    using bus_field_cases [of os w x s s'] by (auto intro: grants.step_inv simp del: do_grant.simps)
qed

lemma desktop_bus_separated: "separated rules \<Longrightarrow> desktop_bus os w address rules = Inr rules' \<Longrightarrow> separated rules'"
  using bus.perform_inv by (auto simp: desktop_bus_def split: option.splits)

lemma display_rule_separated: "separated rules \<Longrightarrow> display_rule os w display rules = Inr rules' \<Longrightarrow> separated rules'"
  using grants.step_inv by (fastforce simp: display_rule_def Let_def simp del: do_grant.simps split: option.splits if_splits prod.splits)

end
