(* ===== verification/Sandbox_Authority.thy ===== *)
theory Sandbox_Authority
  imports Sandbox_Trust Broker_Io
begin

text \<open>
  The private runtime home of the sandbox (\<open>app/main_sandbox.c\<close>): copying an authority file
  (\<open>copy_authority\<close>), emptying the home (\<open>clear_runtime_dir\<close>) and removing it
  (\<open>wn_main_sandbox_cleanup\<close>). The system calls answer from a record; descriptors are events.
\<close>

section \<open>Copying an authority file\<close>

definition AUTHORITY_LIMIT :: nat where "AUTHORITY_LIMIT = 1024 * 1024"

text \<open>The inner loop: the chunk is written completely, or an error ends it.\<close>

fun write_chunk :: "io_answer list \<Rightarrow> byte list \<Rightarrow> byte list \<Rightarrow> (bool \<times> byte list \<times> io_answer list) option" where
  "write_chunk as [] written = Some (True, written, as)"
| "write_chunk [] (b # bs) written = None"
| "write_chunk (Io_Error e # as) (b # bs) written =
     (if e = EINTR then write_chunk as (b # bs) written else Some (False, written, as))"
| "write_chunk (Io_Count n # as) (b # bs) written =
     (if n = 0 then Some (False, written, as)
      else write_chunk as (drop n (b # bs)) (written @ take n (b # bs)))"

lemma write_chunk_shorter: "write_chunk as bs w = Some (r, w', as') \<Longrightarrow> length as' \<le> length as"
  by (induction as bs w rule: write_chunk.induct) (auto split: if_splits)

text \<open>
  The copy loop: \<open>read\<close> delivers some of the file's remaining bytes, and 0 only at its end. The result
  is whether it succeeded and what was written; None while answers are missing.
\<close>

function copy_loop :: "io_answer list \<Rightarrow> byte list \<Rightarrow> nat \<Rightarrow> byte list \<Rightarrow> (bool \<times> byte list) option" where
  "copy_loop as file count written =
     (case as of
        [] \<Rightarrow> None
      | Io_Error e # as \<Rightarrow> if e = EINTR then copy_loop as file count written else Some (False, written)
      | Io_Count n # as \<Rightarrow>
          let bs = take (min (max 1 n) 4096) file; count = count + length bs in
          if count > AUTHORITY_LIMIT then Some (False, written)
          else if bs = [] then Some (True, written)
          else
            (case write_chunk as bs written of
               None \<Rightarrow> None
             | Some (False, written, as) \<Rightarrow> Some (False, written)
             | Some (True, written, as) \<Rightarrow> copy_loop as (drop (length bs) file) count written))"
  by pat_completeness auto

termination
  by (relation "measure (\<lambda>(as, _). length as)") (auto dest!: write_chunk_shorter)

declare copy_loop.simps [simp del]

record copy_env =
  k_open :: "errno + int"
  k_fstat :: "stat option"
  k_mkstemp :: "errno + int"
  k_io :: "io_answer list"
  k_file :: "byte list"
  k_close :: "errno option"
  k_rename :: "errno option"
  k_unlink :: "errno option"

text \<open>
  Whether it succeeded, what the destination holds now (None: untouched), the content of the temporary
  file if one is left, and the descriptors.
\<close>

record copied =
  d_ok :: bool
  d_installed :: "byte list option"
  d_temporary :: "byte list option"
  d_trace :: "event list"

definition copy_failed :: "bool \<Rightarrow> event list \<Rightarrow> copied" where
  "copy_failed ok es = \<lparr>d_ok = ok, d_installed = None, d_temporary = None, d_trace = es\<rparr>"

definition copy_authority :: "cstring \<Rightarrow> copy_env \<Rightarrow> copied option" where
  "copy_authority destination env =
     (case k_open env of
        Inl e \<Rightarrow> Some (copy_failed (e = ENOENT) [])
      | Inr input \<Rightarrow>
          let closed = [Fd_Open input, Fd_Close input] in
          (case k_fstat env of
             None \<Rightarrow> Some (copy_failed False closed)
           | Some st \<Rightarrow>
               if st_kind st \<noteq> Regular \<or> st_length st > AUTHORITY_LIMIT then Some (copy_failed False closed)
               else if length (destination @ ascii ''.XXXXXX'') \<ge> PATH_MAX then Some (copy_failed False closed)
               else
                 (case k_mkstemp env of
                    Inl e \<Rightarrow> Some (copy_failed False closed)
                  | Inr output \<Rightarrow>
                      (case copy_loop (k_io env) (k_file env) 0 [] of
                         None \<Rightarrow> None
                       | Some (ok, written) \<Rightarrow>
                           let ok = (ok \<and> k_close env = None);
                               installed = (ok \<and> k_rename env = None)
                           in Some \<lparr>d_ok = installed,
                                d_installed = (if installed then Some written else None),
                                d_temporary = (if installed \<or> k_unlink env = None then None else Some written),
                                d_trace = [Fd_Open input, Fd_Open output, Fd_Close input, Fd_Close output]\<rparr>))))"

section \<open>Emptying the runtime home\<close>

text \<open>The entries of a directory; a symbolic link is a leaf.\<close>

datatype node = Leaf | Dir "(cstring \<times> node) list"

text \<open>What fails, by the path from the home; \<open>v_readdir\<close> also by the number of entries read so far.\<close>

record clear_env =
  v_dup :: "cstring list \<Rightarrow> errno option"
  v_readdir :: "cstring list \<Rightarrow> nat \<Rightarrow> errno option"
  v_stat :: "cstring list \<Rightarrow> errno option"
  v_open :: "cstring list \<Rightarrow> errno option"
  v_unlink :: "cstring list \<Rightarrow> errno option"

definition dot_name :: "cstring \<Rightarrow> bool" where
  "dot_name name \<longleftrightarrow> name = ascii ''.'' \<or> name = ascii ''..''"

definition emptied :: "(cstring \<times> node) list \<Rightarrow> bool" where
  "emptied entries \<longleftrightarrow> (\<forall>(name, node)\<in>set entries. dot_name name)"

definition entries_size :: "(cstring \<times> node) list \<Rightarrow> nat" where
  "entries_size = size_list (size_prod (\<lambda>_. 0) size)"

text \<open>The error (None: 0) and the entries that are left.\<close>

function (sequential) clear_runtime_dir ::
  "clear_env \<Rightarrow> cstring list \<Rightarrow> nat \<Rightarrow> (cstring \<times> node) list \<Rightarrow> errno option \<times> (cstring \<times> node) list"
  and clear_entries ::
  "clear_env \<Rightarrow> cstring list \<Rightarrow> nat \<Rightarrow> nat \<Rightarrow> errno option \<Rightarrow> (cstring \<times> node) list \<Rightarrow> errno option \<times> (cstring \<times> node) list"
  where
  "clear_runtime_dir env path depth entries =
     (if depth > 64 then (Some ELOOP, entries)
      else (case v_dup env path of
              Some e \<Rightarrow> (Some e, entries)
            | None \<Rightarrow> clear_entries env path depth 0 None entries))"
| "clear_entries env path depth i error [] =
     (case v_readdir env path i of Some e \<Rightarrow> (Some e, []) | None \<Rightarrow> (error, []))"
| "clear_entries env path depth i error ((name, node) # rest) =
     (case v_readdir env path i of
        Some e \<Rightarrow> (Some e, (name, node) # rest)
      | None \<Rightarrow>
          let here = path @ [name];
              (error, kept) =
                (if dot_name name then (error, [(name, node)])
                 else
                   (case v_stat env here of
                      Some e \<Rightarrow> (Some e, [(name, node)])
                    | None \<Rightarrow>
                        (case node of
                           Leaf \<Rightarrow> (case v_unlink env here of Some e \<Rightarrow> (Some e, [(name, Leaf)]) | None \<Rightarrow> (error, []))
                         | Dir children \<Rightarrow>
                             (case v_open env here of
                                Some e \<Rightarrow> (Some e, [(name, node)])
                              | None \<Rightarrow>
                                  let (child_error, children) = clear_runtime_dir env here (depth + 1) children;
                                      error = (if child_error \<noteq> None then child_error else error)
                                  in if \<not> emptied children then (Some ENOTEMPTY, [(name, Dir children)])
                                     else (case v_unlink env here of
                                             Some e \<Rightarrow> (Some e, [(name, Dir children)])
                                           | None \<Rightarrow> (error, []))))));
              (error, left) = clear_entries env path depth (i + 1) error rest
          in (error, kept @ left))"
  by pat_completeness auto

termination
  by (relation "measure (case_sum (\<lambda>(env, path, depth, entries). 2 * entries_size entries + 1)
      (\<lambda>(env, path, depth, i, error, entries). 2 * entries_size entries))")
    (auto simp: entries_size_def)

declare clear_runtime_dir.simps [simp del] clear_entries.simps [simp del]

fun nesting :: "(cstring \<times> node) list \<Rightarrow> nat" where
  "nesting [] = 0"
| "nesting ((name, Leaf) # rest) = nesting rest"
| "nesting ((name, Dir children) # rest) = max (nesting children + 1) (nesting rest)"

section \<open>Removing the runtime home\<close>

record runtime_home =
  n_home :: cstring
  n_home_fd :: int
  n_sndio_fd :: int
  n_entries :: "(cstring \<times> node) list"

definition unlink_in :: "cstring \<Rightarrow> (cstring \<times> node) list \<Rightarrow> (cstring \<times> node) list" where
  "unlink_in name entries = filter (\<lambda>(n, node). n \<noteq> name) entries"

definition sndio_name :: cstring where "sndio_name = ascii ''.sndio''"

definition in_sndio :: "((cstring \<times> node) list \<Rightarrow> (cstring \<times> node) list) \<Rightarrow> (cstring \<times> node) list \<Rightarrow> (cstring \<times> node) list" where
  "in_sndio f entries =
     map (\<lambda>(n, node). if n = sndio_name then (n, case node of Dir es \<Rightarrow> Dir (f es) | Leaf \<Rightarrow> Leaf) else (n, node)) entries"

record cleanup_env =
  u_cookie :: "errno option"
  u_authority :: "errno option"
  u_clear :: clear_env
  u_rmdir :: "errno option"

definition keep_error :: "errno option \<Rightarrow> errno option \<Rightarrow> errno option" where
  "keep_error new old = (case new of Some e \<Rightarrow> if e \<noteq> ENOENT then Some e else old | None \<Rightarrow> old)"

definition cleanup_sndio :: "cleanup_env \<Rightarrow> runtime_home \<Rightarrow> errno option \<times> runtime_home \<times> event list" where
  "cleanup_sndio env h =
     (if n_sndio_fd h < 0 then (None, h, [])
      else
        (keep_error (u_cookie env) None,
         h\<lparr>n_sndio_fd := -1,
           n_entries := (if u_cookie env = None then in_sndio (unlink_in (ascii ''cookie'')) (n_entries h) else n_entries h)\<rparr>,
         [Fd_Close (n_sndio_fd h)]))"

definition cleanup_home :: "cleanup_env \<Rightarrow> errno option \<Rightarrow> runtime_home \<Rightarrow> errno option \<times> runtime_home \<times> event list" where
  "cleanup_home env error h =
     (if n_home_fd h < 0 then (error, h, [])
      else
        let error = keep_error (u_authority env) error;
            entries = (if u_authority env = None then unlink_in (ascii ''.Xauthority'') (n_entries h) else n_entries h);
            (tree_error, entries) = clear_runtime_dir (u_clear env) [] 0 entries
        in (if tree_error \<noteq> None then tree_error else error,
            h\<lparr>n_home_fd := -1, n_entries := entries\<rparr>, [Fd_Close (n_home_fd h)]))"

text \<open>\<open>rmdir\<close> of the home fails with \<open>ENOTEMPTY\<close> while entries are left.\<close>

definition cleanup_rmdir :: "cleanup_env \<Rightarrow> errno option \<Rightarrow> runtime_home \<Rightarrow> errno option \<times> runtime_home" where
  "cleanup_rmdir env error h =
     (if n_home h = [] then (error, h)
      else (keep_error (if emptied (n_entries h) then u_rmdir env else Some ENOTEMPTY) error, h\<lparr>n_home := []\<rparr>))"

definition wn_main_sandbox_cleanup :: "cleanup_env \<Rightarrow> runtime_home \<Rightarrow> errno option \<times> runtime_home \<times> event list" where
  "wn_main_sandbox_cleanup env h =
     (let (error, h, es1) = cleanup_sndio env h;
          (error, h, es2) = cleanup_home env error h;
          (error, h) = cleanup_rmdir env error h
      in (error, h, es1 @ es2))"


section \<open>Lemmas on copying\<close>

lemma write_chunk_prefix:
  "write_chunk as bs written = Some (r, out, as') \<Longrightarrow>
   \<exists>k. out = written @ take k bs \<and> (r \<longrightarrow> out = written @ bs)"
proof (induction as bs written rule: write_chunk.induct)
  case (4 n as b bs written)
  show ?case
  proof (cases "n = 0")
    case True
    then show ?thesis using 4(2) by (intro exI [of _ 0]) simp
  next
    case False
    then obtain k where "out = (written @ take n (b # bs)) @ take k (drop n (b # bs))"
      "r \<longrightarrow> out = (written @ take n (b # bs)) @ drop n (b # bs)"
      using 4 by auto
    then show ?thesis by (intro exI [of _ "n + k"]) (simp add: take_add)
  qed
qed (auto split: if_splits intro: exI [of _ 0])

lemma write_chunk_progress:
  "\<forall>a\<in>set as. a \<noteq> Io_Error EINTR \<Longrightarrow> length bs \<le> length as \<Longrightarrow>
   \<exists>r out as'. write_chunk as bs written = Some (r, out, as') \<and> set as' \<subseteq> set as \<and> length as \<le> length as' + length bs"
proof (induction as bs written rule: write_chunk.induct)
  case (4 n as b bs written)
  then show ?case by (cases "n = 0") fastforce+
qed auto

lemma copy_loop_Cons:
  "copy_loop (Io_Error e # as) src m written =
     (if e = EINTR then copy_loop as src m written else Some (False, written))"
  "copy_loop (Io_Count n # as) src m written =
     (let bs = take (min (max 1 n) 4096) src in
      if m + length bs > AUTHORITY_LIMIT then Some (False, written)
      else if bs = [] then Some (True, written)
      else
        (case write_chunk as bs written of
           None \<Rightarrow> None
         | Some (False, written, as) \<Rightarrow> Some (False, written)
         | Some (True, written, as) \<Rightarrow> copy_loop as (drop (length bs) src) (m + length bs) written))"
  by (subst copy_loop.simps, simp add: Let_def)+

lemma copy_loop_sound:
  "copy_loop as src m written = Some (ok, out) \<Longrightarrow> m \<le> AUTHORITY_LIMIT \<Longrightarrow>
   (\<exists>k. out = written @ take k src \<and> m + length (take k src) \<le> AUTHORITY_LIMIT) \<and>
   (ok \<longrightarrow> out = written @ src \<and> m + length src \<le> AUTHORITY_LIMIT)"
proof (induction as src m written rule: copy_loop.induct)
  case (1 as src m written)
  consider (none) "as = []" | (error) e rest where "as = Io_Error e # rest" | (counted) n rest where "as = Io_Count n # rest"
    by (metis io_answer.exhaust list.exhaust)
  then show ?case
  proof cases
    case none
    then show ?thesis using 1(3) by (simp add: copy_loop.simps)
  next
    case error
    show ?thesis
    proof (cases "e = EINTR")
      case True
      then show ?thesis using 1(2) [OF error] 1(3,4) error by (simp add: copy_loop_Cons)
    next
      case False
      then show ?thesis using 1(3,4) error by (intro conjI exI [of _ 0]) (simp_all add: copy_loop_Cons)
    qed
  next
    case (counted n rest)
    define bs where "bs = take (min (max 1 n) 4096) src"
    note run = 1(3) [unfolded counted copy_loop_Cons Let_def, folded bs_def]
    show ?thesis
    proof (cases "m + length bs > AUTHORITY_LIMIT \<or> bs = []")
      case True
      then have "out = written" "ok \<longrightarrow> bs = []" using run by (auto split: if_splits)
      moreover have "bs = [] \<Longrightarrow> src = []" by (auto simp: bs_def)
      ultimately show ?thesis using 1(4) by (intro conjI exI [of _ 0]) simp_all
    next
      case False
      then obtain r w rest' where chunk: "write_chunk rest bs written = Some (r, w, rest')"
        using run by (auto split: option.splits)
      obtain k where k: "w = written @ take k bs" "r \<longrightarrow> w = written @ bs" using write_chunk_prefix [OF chunk] by blast
      have prefix: "take k bs = take (min k (min (max 1 n) 4096)) src" for k by (simp add: bs_def)
      show ?thesis
      proof (cases r)
        case False
        then have "out = w" "\<not> ok" using run chunk \<open>\<not> (m + length bs > AUTHORITY_LIMIT \<or> bs = [])\<close> by auto
        moreover have "m + length (take k bs) \<le> AUTHORITY_LIMIT"
          using \<open>\<not> (m + length bs > AUTHORITY_LIMIT \<or> bs = [])\<close> by auto
        ultimately show ?thesis using k(1) prefix [of k] by auto
      next
        case r: True
        then have "copy_loop rest' (drop (length bs) src) (m + length bs) w = Some (ok, out)"
          using run chunk False by simp
        moreover have src: "src = bs @ drop (length bs) src" unfolding bs_def by (rule take_drop_length [symmetric])
        ultimately have "(\<exists>j. out = w @ take j (drop (length bs) src) \<and>
              m + length bs + length (take j (drop (length bs) src)) \<le> AUTHORITY_LIMIT) \<and>
            (ok \<longrightarrow> out = w @ drop (length bs) src \<and> m + length bs + length (drop (length bs) src) \<le> AUTHORITY_LIMIT)"
          using 1(1) [OF counted refl bs_def refl _ _ chunk refl _ refl] False r by simp
        then obtain j where j: "out = w @ take j (drop (length bs) src)"
            "m + length bs + length (take j (drop (length bs) src)) \<le> AUTHORITY_LIMIT"
          and ok: "ok \<longrightarrow> out = w @ drop (length bs) src \<and> m + length bs + length (drop (length bs) src) \<le> AUTHORITY_LIMIT"
          by blast
        have w: "w = written @ bs" using k r by simp
        have t: "take (length bs + j) src = bs @ take j (drop (length bs) src)"
          by (subst src) simp
        have "out = written @ take (length bs + j) src" "m + length (take (length bs + j) src) \<le> AUTHORITY_LIMIT"
          unfolding t using j w by simp_all
        moreover have "ok \<longrightarrow> out = written @ src \<and> m + length src \<le> AUTHORITY_LIMIT"
          using ok w by (subst (1 2) src) (simp add: add.assoc)
        ultimately show ?thesis by blast
      qed
    qed
  qed
qed

lemma copy_loop_progress:
  "\<forall>a\<in>set as. a \<noteq> Io_Error EINTR \<Longrightarrow> 2 * length src < length as \<Longrightarrow> copy_loop as src m written \<noteq> None"
proof (induction as src m written rule: copy_loop.induct)
  case (1 as src m written)
  obtain a rest where as: "as = a # rest" using 1(4) by (cases as) auto
  have "a \<noteq> Io_Error EINTR" using 1(3) as by simp
  then consider (error) e where "as = Io_Error e # rest" "e \<noteq> EINTR" | (counted) n where "as = Io_Count n # rest"
    using as by (cases a) simp_all
  then show ?case
  proof cases
    case error
    then show ?thesis by (simp add: copy_loop_Cons)
  next
    case (counted n)
    define bs where "bs = take (min (max 1 n) 4096) src"
    show ?thesis
    proof (cases "m + length bs > AUTHORITY_LIMIT \<or> bs = []")
      case True
      then show ?thesis unfolding counted copy_loop_Cons Let_def bs_def [symmetric] by auto
    next
      case False
      have len: "length bs \<le> length src" by (simp add: bs_def)
      then have "length bs \<le> length rest" using 1(4) counted by simp
      then obtain r w rest' where chunk: "write_chunk rest bs written = Some (r, w, rest')"
        and rest': "set rest' \<subseteq> set rest" "length rest \<le> length rest' + length bs"
        using write_chunk_progress [of rest bs written] 1(3) counted by auto
      show ?thesis
      proof (cases r)
        case False
        then show ?thesis using \<open>\<not> (m + length bs > AUTHORITY_LIMIT \<or> bs = [])\<close> chunk
          unfolding counted copy_loop_Cons Let_def bs_def [symmetric] by simp
      next
        case r: True
        have "\<forall>a\<in>set rest'. a \<noteq> Io_Error EINTR" using rest'(1) 1(3) counted by auto
        moreover have "0 < length bs" "2 * length src \<le> length rest" using False 1(4) counted by simp_all
        then have "2 * (length src - length bs) < length rest'" using rest'(2) len by linarith
        then have "2 * length (drop (length bs) src) < length rest'" by simp
        ultimately have "copy_loop rest' (drop (length bs) src) (m + length bs) w \<noteq> None"
          using 1(1) [OF counted refl bs_def refl _ _ chunk refl _ refl] False r by simp
        then show ?thesis using False r chunk
          unfolding counted copy_loop_Cons Let_def bs_def [symmetric] by simp
      qed
    qed
  qed
qed

section \<open>Lemmas on emptying\<close>

text \<open>What one entry leaves, with the error after it.\<close>

definition clear_entry ::
  "clear_env \<Rightarrow> cstring list \<Rightarrow> nat \<Rightarrow> errno option \<Rightarrow> cstring \<Rightarrow> node \<Rightarrow> errno option \<times> (cstring \<times> node) list" where
  "clear_entry env here depth error name node =
     (if dot_name name then (error, [(name, node)])
      else
        (case v_stat env here of
           Some e \<Rightarrow> (Some e, [(name, node)])
         | None \<Rightarrow>
             (case node of
                Leaf \<Rightarrow> (case v_unlink env here of Some e \<Rightarrow> (Some e, [(name, Leaf)]) | None \<Rightarrow> (error, []))
              | Dir children \<Rightarrow>
                  (case v_open env here of
                     Some e \<Rightarrow> (Some e, [(name, node)])
                   | None \<Rightarrow>
                       let (child_error, children) = clear_runtime_dir env here (depth + 1) children;
                           error = (if child_error \<noteq> None then child_error else error)
                       in if \<not> emptied children then (Some ENOTEMPTY, [(name, Dir children)])
                          else (case v_unlink env here of
                                  Some e \<Rightarrow> (Some e, [(name, Dir children)])
                                | None \<Rightarrow> (error, []))))))"

lemma clear_entries_Cons:
  "clear_entries env path depth i error ((name, node) # rest) =
     (case v_readdir env path i of
        Some e \<Rightarrow> (Some e, (name, node) # rest)
      | None \<Rightarrow>
          let (error, kept) = clear_entry env (path @ [name]) depth error name node;
              (error, left) = clear_entries env path depth (i + 1) error rest
          in (error, kept @ left))"
  by (simp only: clear_entries.simps(2) clear_entry_def Let_def)

lemma emptied_append [simp]: "emptied (xs @ ys) \<longleftrightarrow> emptied xs \<and> emptied ys"
  by (auto simp: emptied_def)

lemma clear_entry_complete:
  "clear_entry env here depth error name node = (None, kept) \<Longrightarrow> error = None \<and> emptied kept"
  by (auto simp: clear_entry_def emptied_def Let_def split: if_splits option.splits node.splits prod.splits)

lemma clear_entries_complete:
  "clear_entries env path depth i error entries = (None, left) \<Longrightarrow> error = None \<and> emptied left"
proof (induction entries arbitrary: i error left)
  case Nil
  then show ?case by (auto simp: clear_entries.simps emptied_def split: option.splits)
next
  case (Cons entry rest)
  obtain name node where entry: "entry = (name, node)" by fastforce
  obtain error1 kept where one: "clear_entry env (path @ [name]) depth error name node = (error1, kept)" by fastforce
  obtain error2 more where two: "clear_entries env path depth (i + 1) error1 rest = (error2, more)" by fastforce
  have "v_readdir env path i = None" "error2 = None" "left = kept @ more"
    using Cons.prems one two by (auto simp: entry clear_entries_Cons split: option.splits)
  moreover from this(2) have "error1 = None \<and> emptied more" using Cons.IH two by blast
  moreover from this have "error = None \<and> emptied kept" using clear_entry_complete one by blast
  ultimately show ?case by simp
qed

lemma clear_complete: "clear_runtime_dir env path depth entries = (None, left) \<Longrightarrow> emptied left"
  using clear_entries_complete by (auto simp: clear_runtime_dir.simps split: if_splits option.splits)

definition nothing_fails :: "clear_env \<Rightarrow> bool" where
  "nothing_fails env \<longleftrightarrow>
     (\<forall>path. v_dup env path = None \<and> (\<forall>i. v_readdir env path i = None) \<and> v_stat env path = None \<and>
        v_open env path = None \<and> v_unlink env path = None)"

lemma clear_succeeds:
  "nothing_fails env \<longrightarrow> depth + nesting entries \<le> 64 \<longrightarrow> fst (clear_runtime_dir env path depth entries) = None"
  "nothing_fails env \<longrightarrow> depth + nesting entries \<le> 64 \<longrightarrow> fst (clear_entries env path depth i error entries) = error"
proof (induction env path depth entries and env path depth i error entries rule: clear_runtime_dir_clear_entries.induct)
  case (1 env path depth entries)
  then show ?case by (auto simp: clear_runtime_dir.simps nothing_fails_def)
next
  case (2 env path depth i error)
  then show ?case by (auto simp: clear_entries.simps nothing_fails_def)
next
  case (3 env path depth i error name node rest)
  show ?case
  proof (intro impI)
    assume ok: "nothing_fails env" and depth: "depth + nesting ((name, node) # rest) \<le> 64"
    let ?here = "path @ [name]"
    have free: "v_readdir env path i = None" "v_stat env ?here = None" "v_open env ?here = None" "v_unlink env ?here = None"
      using ok by (simp_all add: nothing_fails_def)
    obtain error1 kept where one: "clear_entry env ?here depth error name node = (error1, kept)" by fastforce
    have "error1 = error"
    proof (cases node)
      case Leaf
      then show ?thesis using one free by (auto simp: clear_entry_def split: if_splits)
    next
      case (Dir children)
      obtain e left where clear: "clear_runtime_dir env ?here (depth + 1) children = (e, left)" by fastforce
      show ?thesis
      proof (cases "dot_name name")
        case True
        then show ?thesis using one by (simp add: clear_entry_def)
      next
        case False
        have "e = None" using 3(1) [OF free(1) refl False free(2) Dir free(3)] ok depth Dir clear by auto
        then show ?thesis using one False clear clear_complete [of env ?here "depth + 1" children left]
          by (simp add: clear_entry_def free Dir)
      qed
    qed
    moreover have "fst (clear_entries env path depth (i + 1) error1 rest) = error1"
    proof -
      have "nesting rest \<le> nesting ((name, node) # rest)" by (cases node) simp_all
      then show ?thesis
        using 3(2) [OF free(1) refl refl, folded clear_entry_def, OF one [symmetric]] ok depth by auto
    qed
    ultimately show "fst (clear_entries env path depth i error ((name, node) # rest)) = error"
      by (cases "clear_entries env path depth (i + 1) error1 rest") (simp add: clear_entries_Cons free one)
  qed
qed


lemma nesting_filter: "nesting (filter P entries) \<le> nesting entries"
  by (induction entries rule: nesting.induct) auto

lemma nesting_in_sndio: "(\<And>es. nesting (f es) \<le> nesting es) \<Longrightarrow> nesting (in_sndio f entries) \<le> nesting entries"
  by (induction entries rule: nesting.induct) (auto simp: in_sndio_def intro: order_trans le_max_iff_disj [THEN iffD2])

section \<open>Properties\<close>


lemma cleanup_home_effect:
  assumes "cleanup_home env e1 h1 = (e2, h2, es2)"
  shows "n_home h2 = n_home h1 \<and> n_home_fd h2 < 0 \<and> n_sndio_fd h2 = n_sndio_fd h1 \<and>
    es2 = (if n_home_fd h1 < 0 then [] else [Fd_Close (n_home_fd h1)]) \<and>
    (e2 = None \<and> 0 \<le> n_home_fd h1 \<longrightarrow> emptied (n_entries h2)) \<and>
    (nothing_fails (u_clear env) \<and> u_authority env = None \<and> e1 = None \<and> nesting (n_entries h1) \<le> 64 \<longrightarrow> e2 = None)"
proof (cases "n_home_fd h1 < 0")
  case True
  then show ?thesis using assms by (simp add: cleanup_home_def)
next
  case False
  define entries where "entries = (if u_authority env = None then unlink_in (ascii ''.Xauthority'') (n_entries h1) else n_entries h1)"
  obtain e left where clear: "clear_runtime_dir (u_clear env) [] 0 entries = (e, left)" by fastforce
  have h2: "h2 = h1\<lparr>n_home_fd := -1, n_entries := left\<rparr>" "es2 = [Fd_Close (n_home_fd h1)]"
    "e2 = (if e \<noteq> None then e else keep_error (u_authority env) e1)"
    using assms False clear by (auto simp: cleanup_home_def entries_def [symmetric] Let_def)
  have "nesting entries \<le> nesting (n_entries h1)" by (simp add: entries_def unlink_in_def nesting_filter)
  then have "nothing_fails (u_clear env) \<and> nesting (n_entries h1) \<le> 64 \<longrightarrow> e = None"
    using clear_succeeds(1) [of "u_clear env" 0 entries "[]"] clear by auto
  moreover have "e = None \<longrightarrow> emptied left" using clear_complete clear by blast
  ultimately show ?thesis using False by (auto simp: h2 keep_error_def)
qed

definition sample_copy :: copy_env where
  "sample_copy = \<lparr>k_open = Inr 5, k_fstat = Some \<lparr>st_kind = Regular, st_uid = 1000, st_mode = 384, st_nlink = 1, st_length = 2\<rparr>,
     k_mkstemp = Inr 6, k_io = [Io_Count 9, Io_Count 1, Io_Count 1, Io_Count 0, Io_Count 0], k_file = [1, 2],
     k_close = None, k_rename = None, k_unlink = None\<rparr>"


text \<open>
  C38. Removing the runtime home is complete or reported: whatever fails, \<open>wn_main_sandbox_cleanup\<close> forgets
  the home and closes each of its descriptors exactly once; when it reports success on an open home,
  nothing but the directory's own dot entries was left in it before it was removed; and it does report
  success when no call fails and the tree is at most 64 directories deep.
\<close>

theorem cleanup_complete:
  assumes run: "wn_main_sandbox_cleanup env h = (error, h', es)"
    and fds: "n_home_fd h \<noteq> n_sndio_fd h \<or> n_home_fd h < 0"
  shows "n_home h' = [] \<and> n_home_fd h' < 0 \<and> n_sndio_fd h' < 0 \<and>
    closes_held ({n_home_fd h, n_sndio_fd h} \<inter> {0..}) es \<and> open_after ({n_home_fd h, n_sndio_fd h} \<inter> {0..}) es = {} \<and>
    (error = None \<and> (n_home_fd h \<ge> 0 \<or> n_home h \<noteq> []) \<longrightarrow> emptied (n_entries h')) \<and>
    (nothing_fails (u_clear env) \<and> u_cookie env = None \<and> u_authority env = None \<and> u_rmdir env = None \<and>
       n_home_fd h \<ge> 0 \<and> nesting (n_entries h) \<le> 64 \<longrightarrow> error = None)"
proof -
  obtain e1 h1 es1 where s1: "cleanup_sndio env h = (e1, h1, es1)" by (cases "cleanup_sndio env h") auto
  obtain e2 h2 es2 where s2: "cleanup_home env e1 h1 = (e2, h2, es2)" by (cases "cleanup_home env e1 h1") auto
  have s3: "cleanup_rmdir env e2 h2 = (error, h')" and es: "es = es1 @ es2"
    using run s1 s2 by (auto simp: wn_main_sandbox_cleanup_def split: prod.splits)
  have keep: "keep_error None None = None" by (simp add: keep_error_def)
  have a: "n_home h1 = n_home h" "n_home_fd h1 = n_home_fd h" "n_sndio_fd h1 < 0"
    "es1 = (if n_sndio_fd h < 0 then [] else [Fd_Close (n_sndio_fd h)])" "u_cookie env = None \<longrightarrow> e1 = None"
    "nesting (n_entries h1) \<le> nesting (n_entries h)"
    using s1 nesting_in_sndio [of "unlink_in (ascii ''cookie'')" "n_entries h"]
    by (auto simp: cleanup_sndio_def keep_error_def unlink_in_def nesting_filter split: if_splits)
  note b = cleanup_home_effect [OF s2]
  have c: "n_home h' = []" "n_home_fd h' = n_home_fd h2" "n_sndio_fd h' = n_sndio_fd h2" "n_entries h' = n_entries h2"
    "error = None \<longrightarrow> e2 = None \<or> n_home h2 \<noteq> []" "error = None \<and> n_home h2 \<noteq> [] \<longrightarrow> emptied (n_entries h2)"
    "e2 = None \<and> emptied (n_entries h2) \<and> u_rmdir env = None \<longrightarrow> error = None"
    using s3 by (auto simp: cleanup_rmdir_def keep_error_def split: if_splits option.splits)
  show ?thesis
  proof (intro conjI)
    show "closes_held ({n_home_fd h, n_sndio_fd h} \<inter> {0..}) es" "open_after ({n_home_fd h, n_sndio_fd h} \<inter> {0..}) es = {}"
      using a b fds unfolding es by auto
  qed (use a b c in auto)
qed

definition sample_home :: runtime_home where
  "sample_home = \<lparr>n_home = [47, 104], n_home_fd = 7, n_sndio_fd = 8,
     n_entries = [(sndio_name, Dir [(ascii ''cookie'', Leaf)]), (ascii ''.cache'', Dir [])]\<rparr>"

definition sample_cleanup :: cleanup_env where
  "sample_cleanup = \<lparr>u_cookie = None, u_authority = None,
     u_clear = \<lparr>v_dup = \<lambda>_. None, v_readdir = \<lambda>_ _. None, v_stat = \<lambda>_. None, v_open = \<lambda>_. None, v_unlink = \<lambda>_. None\<rparr>,
     u_rmdir = None\<rparr>"

lemma cleanup_complete_witness:
  "fst (wn_main_sandbox_cleanup sample_cleanup sample_home) = None"
proof -
  obtain error h' es where run: "wn_main_sandbox_cleanup sample_cleanup sample_home = (error, h', es)"
    by (cases "wn_main_sandbox_cleanup sample_cleanup sample_home") auto
  show ?thesis using cleanup_complete [OF run]
    by (simp add: run) (simp add: sample_home_def sample_cleanup_def nothing_fails_def)
qed

end
