(* ===== verification/Sandbox_Prepare.thy ===== *)
theory Sandbox_Prepare
  imports Sandbox_Config Sandbox_Authority
begin

text \<open>
  Preparing the main sandbox (\<open>app/main_sandbox.c\<close>): the private environment and authorities, and
  \<open>wn_main_sandbox_prepare\<close>, which fills the rule table. A step maps the sandbox and the operating
  system's state to \<open>Inr\<close> (it returned 0), \<open>Inl\<close> (it failed) or None (it has not returned);
  \<open>attempt\<close> is the chain of calls joined by \<open>||\<close>.
\<close>

section \<open>Chained calls\<close>

fun attempt :: "('s \<Rightarrow> ('s + 's) option) list \<Rightarrow> 's \<Rightarrow> ('s + 's) option" where
  "attempt [] s = Some (Inr s)"
| "attempt (f # fs) s =
     (case f s of
        None \<Rightarrow> None
      | Some (Inl s) \<Rightarrow> Some (Inl s)
      | Some (Inr s) \<Rightarrow> attempt fs s)"

lemma attempt_inv:
  "(\<And>f s s'. f \<in> set fs \<Longrightarrow> I s \<Longrightarrow> f s = Some (Inr s') \<Longrightarrow> I s') \<Longrightarrow> I s \<Longrightarrow> attempt fs s = Some (Inr s') \<Longrightarrow> I s'"
proof (induction fs arbitrary: s)
  case (Cons f fs)
  then obtain s1 where one: "f s = Some (Inr s1)" and rest: "attempt fs s1 = Some (Inr s')"
    by (auto split: option.splits sum.splits)
  have "I s1" using Cons.prems(1) [of f s s1] Cons.prems(2) one by simp
  moreover have "\<And>g t t'. g \<in> set fs \<Longrightarrow> I t \<Longrightarrow> g t = Some (Inr t') \<Longrightarrow> I t'"
    using Cons.prems(1) by (meson list.set_intros(2))
  ultimately show ?case using Cons.IH rest by blast
qed simp

lemma attempt_append:
  "attempt (fs @ gs) s = Some (Inr s') \<Longrightarrow> \<exists>t. attempt fs s = Some (Inr t) \<and> attempt gs t = Some (Inr s')"
  by (induction fs arbitrary: s) (auto split: option.splits sum.splits)

section \<open>State\<close>

record sandbox =
  sb_rules :: "rule list"
  sb_data :: cstring
  sb_settings :: cstring
  sb_downloads :: cstring
  sb_prepared :: bool
  sb_home :: runtime_home
  sb_environment :: "cstring \<Rightarrow> cstring option"

record 'w desktop = "'w os" +
  os_text :: "'w \<Rightarrow> cstring \<Rightarrow> errno + (byte list \<times> bool)"
  os_executable :: "'w \<Rightarrow> cstring \<Rightarrow> bool"
  os_mkdtemp :: "'w \<Rightarrow> cstring \<Rightarrow> (errno + cstring) \<times> 'w"
  os_open_dir :: "'w \<Rightarrow> cstring \<Rightarrow> errno + int"
  os_copy :: "'w \<Rightarrow> cstring \<Rightarrow> copy_env"
  os_copied :: "'w \<Rightarrow> cstring \<Rightarrow> copied \<Rightarrow> 'w"
  os_setenv :: "'w \<Rightarrow> cstring \<Rightarrow> cstring \<Rightarrow> bool"
  os_entries :: "'w \<Rightarrow> (cstring \<times> node) list"
  os_cleanup :: "'w \<Rightarrow> cleanup_env"
  os_cleaned :: "'w \<Rightarrow> (cstring \<times> node) list \<Rightarrow> 'w"

type_synonym 'w step = "sandbox \<times> 'w \<Rightarrow> ((sandbox \<times> 'w) + (sandbox \<times> 'w)) option"

definition rules_step :: "('w \<Rightarrow> sandbox \<Rightarrow> rule list \<Rightarrow> rule list + rule list) \<Rightarrow> 'w step" where
  "rules_step f sw =
     (let (s, w) = sw in
      Some (case f w s (sb_rules s) of
              Inl rules \<Rightarrow> Inl (s\<lparr>sb_rules := rules\<rparr>, w)
            | Inr rules \<Rightarrow> Inr (s\<lparr>sb_rules := rules\<rparr>, w)))"

definition grants_step :: "('w, 'a) os_scheme \<Rightarrow> (sandbox \<Rightarrow> grant list) \<Rightarrow> 'w step" where
  "grants_step os grants = rules_step (\<lambda>w s. perform (do_grant os w) (grants s))"

definition setenv_step :: "('w, 'a) desktop_scheme \<Rightarrow> cstring \<Rightarrow> cstring \<Rightarrow> 'w step" where
  "setenv_step os variable text sw =
     (let (s, w) = sw in
      Some (if os_setenv os w variable text
            then Inr (s\<lparr>sb_environment := (sb_environment s)(variable := Some text)\<rparr>, w) else Inl (s, w)))"

definition joined :: "cstring \<Rightarrow> cstring \<Rightarrow> (cstring \<Rightarrow> 'w step) \<Rightarrow> 'w step" where
  "joined base name step sw = (case join base name of None \<Rightarrow> Some (Inl sw) | Some path \<Rightarrow> step path sw)"

definition directory_step :: "('w, 'a) os_scheme \<Rightarrow> cstring \<Rightarrow> (cstring \<Rightarrow> sandbox \<Rightarrow> sandbox) \<Rightarrow> 'w step" where
  "directory_step os input put sw =
     (let (s, w) = sw in
      Some (case directory os input w of (None, w) \<Rightarrow> Inl (s, w) | (Some path, w) \<Rightarrow> Inr (put path s, w)))"

section \<open>The private home\<close>

definition private_paths :: "(cstring \<times> cstring) list" where
  "private_paths =
     [(ascii ''XDG_CONFIG_HOME'', ascii ''.config''), (ascii ''XDG_CACHE_HOME'', ascii ''.cache''),
      (ascii ''XDG_DATA_HOME'', ascii ''.local/share'')]"

definition private_variable :: "('w, 'a) desktop_scheme \<Rightarrow> cstring \<times> cstring \<Rightarrow> 'w step" where
  "private_variable os entry sw =
     (let (variable, name) = entry; (s, w) = sw; home = n_home (sb_home s) in
      (case join home name of
         None \<Rightarrow> Some (Inl (s, w))
       | Some path \<Rightarrow>
           (case directory os path w of
              (None, w) \<Rightarrow> Some (Inl (s, w))
            | (Some resolved, w) \<Rightarrow>
                if \<not> within resolved home then Some (Inl (s, w)) else setenv_step os variable resolved (s, w))))"

definition private_environment :: "('w, 'a) desktop_scheme \<Rightarrow> 'w step" where
  "private_environment os =
     attempt (map (private_variable os) private_paths @
       [\<lambda>(s, w). setenv_step os (ascii ''HOME'') (n_home (sb_home s)) (s, w)])"

definition copy_step :: "('w, 'a) desktop_scheme \<Rightarrow> cstring \<Rightarrow> cstring \<Rightarrow> 'w step" where
  "copy_step os source target sw =
     (let (s, w) = sw in
      map_option (\<lambda>r. if d_ok r then Inr (s, os_copied os w target r) else Inl (s, os_copied os w target r))
        (copy_authority target (os_copy os w source)))"

definition mkdir_step :: "('w, 'a) os_scheme \<Rightarrow> cstring \<Rightarrow> 'w step" where
  "mkdir_step os path sw =
     (let (s, w) = sw in
      Some (case os_mkdir os w path of (Some e, w) \<Rightarrow> Inl (s, w) | (None, w) \<Rightarrow> Inr (s, w)))"

definition open_sndio :: "('w, 'a) desktop_scheme \<Rightarrow> cstring \<Rightarrow> 'w step" where
  "open_sndio os path sw =
     (let (s, w) = sw in
      Some (case os_open_dir os w path of
              Inl e \<Rightarrow> Inl (s, w)
            | Inr fd \<Rightarrow> Inr (s\<lparr>sb_home := (sb_home s)\<lparr>n_sndio_fd := fd\<rparr>\<rparr>, w)))"

text \<open>The call of \<open>wn_main_sandbox_cleanup\<close> on a failure.\<close>

definition undo :: "('w, 'a) desktop_scheme \<Rightarrow> sandbox \<times> 'w \<Rightarrow> sandbox \<times> 'w" where
  "undo os sw =
     (let (s, w) = sw;
          (error, h, es) = wn_main_sandbox_cleanup (os_cleanup os w) ((sb_home s)\<lparr>n_entries := os_entries os w\<rparr>)
      in (s\<lparr>sb_home := h\<rparr>, os_cleaned os w (n_entries h)))"

definition fill_home :: "('w, 'a) desktop_scheme \<Rightarrow> cstring \<Rightarrow> cstring \<Rightarrow> cstring \<Rightarrow> 'w step" where
  "fill_home os home private authority =
     attempt
       [joined private (ascii ''.Xauthority'') (\<lambda>target.
          attempt [copy_step os authority target, setenv_step os (ascii ''XAUTHORITY'') target]),
        joined private sndio_name (\<lambda>sndio.
          attempt
            [mkdir_step os sndio, open_sndio os sndio,
             joined home (ascii ''.sndio/cookie'') (\<lambda>source.
               joined sndio (ascii ''cookie'') (\<lambda>target. copy_step os source target))]),
        private_environment os]"

definition private_authorities :: "('w, 'a) desktop_scheme \<Rightarrow> cstring \<Rightarrow> 'w step" where
  "private_authorities os home sw =
     (let (s, w) = sw; forget = (\<lambda>s. s\<lparr>sb_home := (sb_home s)\<lparr>n_home := []\<rparr>\<rparr>) in
      case join (sb_data s) (ascii ''runtime-home.XXXXXX'') of
        None \<Rightarrow> Some (Inl (forget s, w))
      | Some template \<Rightarrow>
          (case os_mkdtemp os w template of
             (Inl e, w) \<Rightarrow> Some (Inl (forget s, w))
           | (Inr private, w) \<Rightarrow>
               let s = s\<lparr>sb_home := (sb_home s)\<lparr>n_home := private\<rparr>\<rparr> in
               (case os_open_dir os w private of
                  Inl e \<Rightarrow> Some (Inl (undo os (s, w)))
                | Inr fd \<Rightarrow>
                    let s = s\<lparr>sb_home := (sb_home s)\<lparr>n_home_fd := fd\<rparr>\<rparr>;
                        authority =
                          (case sb_environment s (ascii ''XAUTHORITY'') of
                             Some (c # cs) \<Rightarrow> Some (c # cs)
                           | _ \<Rightarrow> join home (ascii ''.Xauthority''))
                    in case authority of
                         None \<Rightarrow> Some (Inl (undo os (s, w)))
                       | Some authority \<Rightarrow>
                           (case fill_home os home private authority (s, w) of
                              None \<Rightarrow> None
                            | Some (Inl sw) \<Rightarrow> Some (Inl (undo os sw))
                            | Some (Inr sw) \<Rightarrow> Some (Inr sw)))))"

section \<open>Preparation\<close>

text \<open>The directory part of the settings path.\<close>

definition config_directory :: "cstring \<Rightarrow> cstring" where
  "config_directory settings =
     (if 47 \<notin> set settings then ascii ''.'' else parent settings)"

definition downloads_step :: "('w, 'a) desktop_scheme \<Rightarrow> cstring \<Rightarrow> cstring \<Rightarrow> 'w step" where
  "downloads_step os config home sw =
     (let (s, w) = sw in
      Some (case downloads os (os_text os) config home w of
              (None, w) \<Rightarrow> Inl (s, w) | (Some path, w) \<Rightarrow> Inr (s\<lparr>sb_downloads := path\<rparr>, w)))"

definition helper_step :: "('w, 'a) desktop_scheme \<Rightarrow> cstring option \<Rightarrow> 'w step" where
  "helper_step os helper sw =
     (let (s, w) = sw in
      case helper of
        None \<Rightarrow> Some (Inl (s, w))
      | Some path \<Rightarrow>
          (case os_stat os w path of
             Inl e \<Rightarrow> Some (Inl (s, w))
           | Inr st \<Rightarrow>
               if st_kind st \<noteq> Regular \<or> \<not> os_executable os w path then Some (Inl (s, w))
               else if st_nlink st \<noteq> 1 then Some (Inl (s, w))
               else grants_step os (\<lambda>_. [Trusted path ''x'' TRUST_REQUIRED]) (s, w)))"

definition readonly_paths :: "cstring list" where
  "readonly_paths = map ascii
     [''/usr/lib'', ''/usr/libexec/ld.so'', ''/usr/local/lib'', ''/usr/X11R6/lib'', ''/var/run/ld.so.hints'',
      ''/usr/share/fonts'', ''/usr/local/share/fonts'', ''/usr/X11R6/lib/X11/fonts'', ''/etc/fonts'',
      ''/usr/local/etc/fonts'', ''/usr/X11R6/share/X11'', ''/usr/share/X11'', ''/usr/share/locale'',
      ''/usr/share/zoneinfo'', ''/etc/localtime'', ''/etc/ssl/cert.pem'', ''/etc/ssl/certs'', ''/etc/resolv.conf'',
      ''/etc/hosts'', ''/etc/services'', ''/etc/protocols'', ''/usr/local/share/glib-2.0/schemas'',
      ''/usr/local/share/icons'', ''/usr/local/share/mime'', ''/usr/local/share/themes'', ''/usr/local/share/locale'',
      ''/usr/local/etc/gtk-4.0'', ''/etc/machine-id'', ''/var/lib/dbus/machine-id'']"

definition device_grants :: "grant list" where
  "device_grants =
     concat (map (\<lambda>i. [Add (ascii ''/dev/dri/card'' @ decimal i) ''rw'' True,
                       Add (ascii ''/dev/dri/renderD'' @ decimal (128 + i)) ''rw'' True,
                       Socket_At (ascii ''/tmp/sndio/sock'' @ decimal i) True]) [0..<16])"

definition prepare_temporary :: "('w, 'a) desktop_scheme \<Rightarrow> 'w step" where
  "prepare_temporary os sw =
     (let (s, w) = sw in
      case join (sb_data s) (ascii ''tmp'') of
        None \<Rightarrow> Some (Inl (s, w))
      | Some path \<Rightarrow>
          (case directory os path w of
             (None, w) \<Rightarrow> Some (Inl (s, w))
           | (Some temporary, w) \<Rightarrow>
               (case join (sb_data s) (ascii ''mesa-cache'') of
                  None \<Rightarrow> Some (Inl (s, w))
                | Some path \<Rightarrow>
                    (case directory os path w of
                       (None, w) \<Rightarrow> Some (Inl (s, w))
                     | (Some cache, w) \<Rightarrow>
                         if \<not> within temporary (sb_data s) \<or> \<not> within cache (sb_data s) then Some (Inl (s, w))
                         else attempt [setenv_step os (ascii ''TMPDIR'') temporary,
                                       setenv_step os (ascii ''SQLITE_TMPDIR'') temporary,
                                       setenv_step os (ascii ''MESA_SHADER_CACHE_DIR'') cache] (s, w)))))"

definition prepare_directories :: "('w, 'a) desktop_scheme \<Rightarrow> cstring \<Rightarrow> cstring \<Rightarrow> cstring \<Rightarrow> 'w step" where
  "prepare_directories os home data settings =
     attempt
       [directory_step os data (\<lambda>path s. s\<lparr>sb_data := path\<rparr>),
        directory_step os settings (\<lambda>path s. s\<lparr>sb_settings := path\<rparr>),
        downloads_step os (config_directory settings) home]"

definition prepare_rules :: "('w, 'a) desktop_scheme \<Rightarrow> cstring \<Rightarrow> cstring \<Rightarrow> cstring option list \<Rightarrow> 'w step" where
  "prepare_rules os home resources helpers =
     attempt
       ([grants_step os (\<lambda>s. [Writable (sb_data s) home, Writable (sb_settings s) home, Writable (sb_downloads s) home,
                             Trusted resources ''r'' TRUST_REQUIRED])] @
        map (helper_step os) helpers @
        [grants_step os (\<lambda>_. map (\<lambda>path. Trusted path ''r'' TRUST_OPTIONAL) readonly_paths),
         grants_step os (\<lambda>_. [Add (ascii ''/dev/null'') ''rw'' False, Add (ascii ''/dev/urandom'') ''r'' True]),
         rules_step (\<lambda>w s. display_rule os w (sb_environment s (ascii ''DISPLAY''))),
         private_authorities os home,
         rules_step (\<lambda>w s. desktop_bus os w (sb_environment s (ascii ''DBUS_SESSION_BUS_ADDRESS''))),
         grants_step os (\<lambda>_. device_grants)])"

definition wn_main_sandbox_prepare ::
  "('w, 'a) desktop_scheme \<Rightarrow> nat \<times> nat \<Rightarrow> cstring \<Rightarrow> cstring \<Rightarrow> cstring \<Rightarrow> cstring option list \<Rightarrow> 'w step" where
  "wn_main_sandbox_prepare os uids data settings resources helpers sw =
     (let (s, w) = sw in
      if sb_prepared s then Some (Inl (s, w))
      else if fst uids = 0 \<or> snd uids = 0 then Some (Inl (s, w))
      else
        let s = s\<lparr>sb_rules := []\<rparr> in
        (case sb_environment s (ascii ''HOME'') of
           None \<Rightarrow> Some (Inl (s, w))
         | Some env_home \<Rightarrow>
             (case os_realpath os w env_home of
                Inl e \<Rightarrow> Some (Inl (s, w))
              | Inr home \<Rightarrow>
                  attempt
                    [prepare_directories os home data settings,
                     prepare_rules os home resources helpers,
                     prepare_temporary os,
                     \<lambda>(s, w). Some (Inr (s\<lparr>sb_prepared := True\<rparr>, w))] (s, w))))"


section \<open>Steps that leave the policy alone\<close>

text \<open>The part of the state the rule table depends on.\<close>

definition policy :: "sandbox \<Rightarrow> rule list \<times> cstring \<times> cstring \<times> cstring" where
  "policy s = (sb_rules s, sb_data s, sb_settings s, sb_downloads s)"

definition keeps_policy :: "'w step \<Rightarrow> bool" where
  "keeps_policy f \<longleftrightarrow> (\<forall>s w s' w'. f (s, w) = Some (Inr (s', w')) \<longrightarrow> policy s' = policy s)"

lemma keeps_policy_attempt: "\<forall>f\<in>set fs. keeps_policy f \<Longrightarrow> keeps_policy (attempt fs)"
proof -
  assume fs: "\<forall>f\<in>set fs. keeps_policy f"
  have "policy s' = policy s" if run: "attempt fs (s, w) = Some (Inr (s', w'))" for s w s' w'
  proof -
    have "case (s', w') of (t, _) \<Rightarrow> policy t = policy s"
    proof (rule attempt_inv [OF _ _ run])
      fix f u v
      assume "f \<in> set fs" "case u of (t, _) \<Rightarrow> policy t = policy s" "f u = Some (Inr v)"
      then show "case v of (t, _) \<Rightarrow> policy t = policy s"
        using fs by (cases u; cases v) (fastforce simp: keeps_policy_def)
    qed simp
    then show ?thesis by simp
  qed
  then show ?thesis by (simp add: keeps_policy_def)
qed

lemma keeps_policy_basic [simp]:
  "keeps_policy (setenv_step os variable text)" "keeps_policy (copy_step os source target)"
  "keeps_policy (mkdir_step os path)" "keeps_policy (open_sndio os path)"
  by (auto simp: keeps_policy_def setenv_step_def copy_step_def mkdir_step_def open_sndio_def policy_def
      split: if_splits prod.splits option.splits sum.splits)

lemma keeps_policy_joined: "(\<And>path. keeps_policy (step path)) \<Longrightarrow> keeps_policy (joined base name step)"
  by (auto simp: keeps_policy_def joined_def split: option.splits)

lemma keeps_policy_variable: "keeps_policy (private_variable os entry)"
proof -
  have "policy s' = policy s" if "private_variable os entry (s, w) = Some (Inr (s', w'))" for s w s' w'
    using that keeps_policy_basic(1) [of os, unfolded keeps_policy_def]
    by (fastforce simp: private_variable_def Let_def split: prod.splits option.splits if_splits)
  then show ?thesis by (simp add: keeps_policy_def)
qed

lemma keeps_policy_environment: "keeps_policy (private_environment os)"
proof -
  have "keeps_policy (\<lambda>(s, w). setenv_step os (ascii ''HOME'') (n_home (sb_home s)) (s, w))"
    by (auto simp: keeps_policy_def setenv_step_def policy_def split: if_splits)
  then show ?thesis unfolding private_environment_def
    by (intro keeps_policy_attempt) (auto intro: keeps_policy_variable)
qed

lemma keeps_policy_fill: "keeps_policy (fill_home os home path authority)"
  unfolding fill_home_def
  by (intro keeps_policy_attempt) (auto intro!: keeps_policy_joined keeps_policy_attempt keeps_policy_environment)

lemma keeps_policy_authorities: "keeps_policy (private_authorities os home)"
proof -
  have "policy s' = policy s" if run: "private_authorities os home (s, w) = Some (Inr (s', w'))" for s w s' w'
  proof -
    obtain h prv authority w1 where "fill_home os home prv authority (s\<lparr>sb_home := h\<rparr>, w1) = Some (Inr (s', w'))"
      using run by (auto simp: private_authorities_def Let_def split: option.splits prod.splits sum.splits)
    then have "policy s' = policy (s\<lparr>sb_home := h\<rparr>)" 
      by (rule keeps_policy_fill [unfolded keeps_policy_def, rule_format])
    then show ?thesis by (simp add: policy_def)
  qed
  then show ?thesis by (simp add: keeps_policy_def)
qed

lemma keeps_policy_temporary: "keeps_policy (prepare_temporary os)"
proof -
  have "policy s' = policy s" if run: "prepare_temporary os (s, w) = Some (Inr (s', w'))" for s w s' w'
  proof -
    obtain temporary cache w1 where "attempt [setenv_step os (ascii ''TMPDIR'') temporary,
        setenv_step os (ascii ''SQLITE_TMPDIR'') temporary,
        setenv_step os (ascii ''MESA_SHADER_CACHE_DIR'') cache] (s, w1) = Some (Inr (s', w'))"
      using run by (auto simp: prepare_temporary_def Let_def simp del: attempt.simps split: option.splits prod.splits if_splits)
    moreover have "keeps_policy (attempt [setenv_step os (ascii ''TMPDIR'') temporary,
        setenv_step os (ascii ''SQLITE_TMPDIR'') temporary, setenv_step os (ascii ''MESA_SHADER_CACHE_DIR'') cache])"
      by (rule keeps_policy_attempt) simp
    ultimately show ?thesis unfolding keeps_policy_def by blast
  qed
  then show ?thesis by (simp add: keeps_policy_def)
qed


section \<open>Where the rules come from\<close>

text \<open>What held when the rule \<open>r\<close> was entered by the grant \<open>g\<close>.\<close>

definition granted :: "('w, 'a) os_scheme \<Rightarrow> 'w \<Rightarrow> grant \<Rightarrow> rule \<Rightarrow> bool" where
  "granted os w g r \<longleftrightarrow>
     r_permissions r = grant_permissions g \<and>
     (case g of
        Add path permissions optional \<Rightarrow> os_realpath os w path = Inr (r_path r)
      | Trusted path permissions presence \<Rightarrow> os_realpath os w path = Inr (r_path r) \<and> os_trusted_tree os w path
      | Socket_At path optional \<Rightarrow>
          os_realpath os w path = Inr (r_path r) \<and> (\<exists>st. os_stat os w path = Inr st \<and> st_kind st = Socket)
      | Writable path home \<Rightarrow>
          os_realpath os w path = Inr (r_path r) \<and> \<not> within home path \<and> path \<notin> set protected_paths)"

lemma add_entered:
  "add realpath path permissions optional rules = Inr rules' \<Longrightarrow> r \<in> set rules' \<Longrightarrow>
   r \<in> set rules \<or> (r_permissions r = permissions \<and> realpath path = Inr (r_path r))"
  using add_cases [of realpath path permissions optional rules rules'] by auto

lemma trusted_rule_cases:
  "trusted_rule os w path permissions presence rules = Inr rules' \<Longrightarrow>
   rules' = rules \<or> (os_trusted_tree os w path \<and> add (os_realpath os w) path permissions False rules = Inr rules')"
  by (cases "os_lstat os w path") (auto simp: trusted_rule_def split: if_splits)

lemma do_grant_granted:
  assumes run: "do_grant os w g rules = Inr rules'" and r: "r \<in> set rules'"
  shows "r \<in> set rules \<or> granted os w g r"
proof (cases g)
  case (Add path permissions optional)
  then have "add (os_realpath os w) path permissions optional rules = Inr rules'" using run by simp
  from add_entered [OF this r] show ?thesis by (simp add: granted_def Add)
next
  case (Trusted path permissions presence)
  then consider "rules' = rules" | "add (os_realpath os w) path permissions False rules = Inr rules'" "os_trusted_tree os w path"
    using trusted_rule_cases run by (metis do_grant.simps(2))
  then show ?thesis
  proof cases
    case 2
    from add_entered [OF 2(1) r] show ?thesis by (simp add: granted_def Trusted 2(2))
  qed (use r in simp)
next
  case (Socket_At path optional)
  then consider "rules' = rules" | st where "add (os_realpath os w) path ''rw'' False rules = Inr rules'"
      "os_stat os w path = Inr st" "st_kind st = Socket"
    using run by (auto simp: socket_rule_def split: sum.splits if_splits)
  then show ?thesis
  proof cases
    case 2
    from add_entered [OF 2(1) r] show ?thesis by (simp add: granted_def Socket_At 2)
  qed (use r in simp)
next
  case (Writable path home)
  then have "add (os_realpath os w) path ''rwc'' False rules = Inr rules'" "\<not> within home path" "path \<notin> set protected_paths"
    using run by (simp_all add: writable_def split: if_splits)
  from add_entered [OF this(1) r] this(2,3) show ?thesis by (simp add: granted_def Writable)
qed

text \<open>The grants preparation may perform.\<close>

fun allowed :: "cstring \<Rightarrow> cstring list \<Rightarrow> cstring option list \<Rightarrow> grant \<Rightarrow> bool" where
  "allowed home roots helpers (Add path permissions optional) \<longleftrightarrow> permissions \<in> {''r'', ''rw''}"
| "allowed home roots helpers (Trusted path permissions presence) \<longleftrightarrow>
     permissions = ''r'' \<or> (permissions = ''x'' \<and> Some path \<in> set helpers)"
| "allowed home roots helpers (Socket_At path optional) \<longleftrightarrow> True"
| "allowed home roots helpers (Writable path h) \<longleftrightarrow> h = home \<and> path \<in> set roots"

definition from_grants :: "('w, 'a) os_scheme \<Rightarrow> (grant \<Rightarrow> bool) \<Rightarrow> rule list \<Rightarrow> bool" where
  "from_grants os ok rules \<longleftrightarrow> separated rules \<and> (\<forall>r\<in>set rules. \<exists>w g. ok g \<and> granted os w g r)"

interpretation sourced: guarded_machine
  "\<lambda>g rules. if ok g then do_grant os w g rules else Inl rules" "from_grants os ok" for os ok w
proof unfold_locales
  fix s x s'
  assume inv: "from_grants os ok s" and "(if ok x then do_grant os w x s else Inl s) = Inr s'"
  then have "ok x" "do_grant os w x s = Inr s'" by (simp_all split: if_splits)
  note sep = grants.step_inv [OF _ this(2)] and new = do_grant_granted [OF this(2)] and ok = this(1)
  show "from_grants os ok s'" unfolding from_grants_def
  proof (intro conjI ballI)
    show "separated s'" using sep inv by (simp add: from_grants_def)
    fix r
    assume "r \<in> set s'"
    then consider "r \<in> set s" | "granted os w x r" using new by blast
    then show "\<exists>w g. ok g \<and> granted os w g r" by cases (use inv ok in \<open>auto simp: from_grants_def\<close>)
  qed
qed

lemma perform_grants_sourced:
  assumes "\<forall>g\<in>set gs. ok g" "from_grants os ok rules" "perform (do_grant os w) gs rules = Inr rules'"
  shows "from_grants os ok rules'"
proof -
  have "perform (\<lambda>g rules. if ok g then do_grant os w g rules else Inl rules) gs rules = Inr rules'"
    using assms(1,3) perform_cong [of gs "\<lambda>g rules. if ok g then do_grant os w g rules else Inl rules" "do_grant os w" rules]
    by simp
  from sourced.perform_inv [OF assms(2) this] show ?thesis .
qed


lemma do_grant_sourced:
  "ok g \<Longrightarrow> from_grants os ok rules \<Longrightarrow> do_grant os w g rules = Inr rules' \<Longrightarrow> from_grants os ok rules'"
  using perform_grants_sourced [of "[g]" ok os rules w rules'] by simp

lemma bus_sourced:
  assumes sockets: "\<And>path. ok (Socket_At path False)"
  shows "from_grants os ok rules \<Longrightarrow> desktop_bus os w address rules = Inr rules' \<Longrightarrow> from_grants os ok rules'"
proof (cases address)
  case (Some a)
  assume "from_grants os ok rules" "desktop_bus os w address rules = Inr rules'"
  moreover have "from_grants os ok rs \<Longrightarrow> perform (bus_field os w) fields rs = Inr rs' \<Longrightarrow> from_grants os ok rs'" for fields rs rs'
  proof (induction fields arbitrary: rs)
    case (Cons field fields)
    then obtain rs1 where one: "bus_field os w field rs = Inr rs1" and rest: "perform (bus_field os w) fields rs1 = Inr rs'"
      by (auto split: sum.splits)
    have "from_grants os ok rs1"
      using bus_field_cases [OF one] do_grant_sourced [of ok "Socket_At _ False", OF sockets Cons.prems(1)] Cons.prems(1) by blast
    then show ?case using rest by (rule Cons.IH)
  qed simp
  ultimately show ?thesis by (simp add: desktop_bus_def Some)
qed (simp add: desktop_bus_def)

lemma display_cases:
  "display_rule os w display rules = Inr rules' \<Longrightarrow>
   rules' = rules \<or> (\<exists>path. do_grant os w (Socket_At path False) rules = Inr rules')"
  by (cases display) (auto simp: display_rule_def Let_def simp del: do_grant.simps split: if_splits prod.splits)

section \<open>The prepared table\<close>

definition roots :: "sandbox \<Rightarrow> cstring list" where
  "roots s = [sb_data s, sb_settings s, sb_downloads s]"

text \<open>The invariant of the rule-entering part of the preparation.\<close>

definition table_ok :: "('w, 'a) desktop_scheme \<Rightarrow> cstring \<Rightarrow> cstring option list \<Rightarrow> cstring list \<Rightarrow> sandbox \<times> 'w \<Rightarrow> bool" where
  "table_ok os home helpers dirs sw \<longleftrightarrow>
     roots (fst sw) = dirs \<and> from_grants os (allowed home dirs helpers) (sb_rules (fst sw))"

definition enters_rules :: "('w, 'a) desktop_scheme \<Rightarrow> cstring \<Rightarrow> cstring option list \<Rightarrow> cstring list \<Rightarrow> 'w step \<Rightarrow> bool" where
  "enters_rules os home helpers dirs f \<longleftrightarrow>
     (\<forall>sw sw'. table_ok os home helpers dirs sw \<longrightarrow> f sw = Some (Inr sw') \<longrightarrow> table_ok os home helpers dirs sw')"

lemma enters_rules_attempt:
  "\<forall>f\<in>set fs. enters_rules os home helpers dirs f \<Longrightarrow> enters_rules os home helpers dirs (attempt fs)"
  unfolding enters_rules_def by (metis attempt_inv [of fs "table_ok os home helpers dirs"])

lemma enters_rules_step:
  assumes "\<And>w s rules rules'. roots s = dirs \<Longrightarrow> from_grants os (allowed home dirs helpers) rules \<Longrightarrow>
    f w s rules = Inr rules' \<Longrightarrow> from_grants os (allowed home dirs helpers) rules'"
  shows "enters_rules os home helpers dirs (rules_step f)"
  unfolding enters_rules_def
proof (intro allI impI)
  fix sw sw'
  assume ok: "table_ok os home helpers dirs sw" and run: "rules_step f sw = Some (Inr sw')"
  obtain s w where sw: "sw = (s, w)" by fastforce
  obtain rules' where "f w s (sb_rules s) = Inr rules'" "sw' = (s\<lparr>sb_rules := rules'\<rparr>, w)"
    using run by (auto simp: rules_step_def sw split: sum.splits)
  moreover have "roots s = dirs" "from_grants os (allowed home dirs helpers) (sb_rules s)"
    using ok by (simp_all add: table_ok_def sw)
  ultimately show "table_ok os home helpers dirs sw'"
    using assms by (auto simp: table_ok_def roots_def)
qed

lemma enters_rules_grants:
  "(\<And>s. roots s = dirs \<Longrightarrow> \<forall>g\<in>set (gs s). allowed home dirs helpers g) \<Longrightarrow>
   enters_rules os home helpers dirs (grants_step os gs)"
  unfolding grants_step_def by (rule enters_rules_step) (blast intro: perform_grants_sourced)

lemma enters_rules_keeps: "keeps_policy f \<Longrightarrow> enters_rules os home helpers dirs f"
  by (auto simp: enters_rules_def keeps_policy_def table_ok_def roots_def policy_def)

lemma enters_rules_helper: "helper \<in> set helpers \<Longrightarrow> enters_rules os home helpers dirs (helper_step os helper)"
proof -
  assume mem: "helper \<in> set helpers"
  show ?thesis
  proof (cases helper)
    case None
    then show ?thesis by (auto simp: enters_rules_def helper_step_def)
  next
    case (Some path)
    have "enters_rules os home helpers dirs (grants_step os (\<lambda>_. [Trusted path ''x'' TRUST_REQUIRED]))"
      by (rule enters_rules_grants) (use mem Some in simp)
    then show ?thesis unfolding enters_rules_def
      by (auto simp: helper_step_def Some split: sum.splits if_splits)
  qed
qed

lemma device_grants_allowed: "\<forall>g\<in>set device_grants. allowed home dirs helpers g"
  by (auto simp: device_grants_def)

lemma enters_rules_prepare: "enters_rules os home helpers dirs (prepare_rules os home resources helpers)"
  unfolding prepare_rules_def
proof (rule enters_rules_attempt, unfold set_append, intro ballI)
  let ?E = "enters_rules os home helpers dirs"
  have 1: "?E (grants_step os (\<lambda>s. [Writable (sb_data s) home, Writable (sb_settings s) home,
      Writable (sb_downloads s) home, Trusted resources ''r'' TRUST_REQUIRED]))"
    by (rule enters_rules_grants) (auto simp: roots_def)
  have 2: "?E (grants_step os (\<lambda>_. map (\<lambda>path. Trusted path ''r'' TRUST_OPTIONAL) readonly_paths))"
    by (rule enters_rules_grants) auto
  have 3: "?E (grants_step os (\<lambda>_. [Add (ascii ''/dev/null'') ''rw'' False, Add (ascii ''/dev/urandom'') ''r'' True]))"
    by (rule enters_rules_grants) auto
  have 4: "?E (rules_step (\<lambda>w s. display_rule os w (sb_environment s (ascii ''DISPLAY''))))"
    by (rule enters_rules_step)
      (metis (no_types, lifting) allowed.simps(3) display_cases do_grant_sourced)
  have 5: "?E (private_authorities os home)" by (rule enters_rules_keeps [OF keeps_policy_authorities])
  have 6: "?E (rules_step (\<lambda>w s. desktop_bus os w (sb_environment s (ascii ''DBUS_SESSION_BUS_ADDRESS''))))"
    by (rule enters_rules_step) (rule bus_sourced, auto)
  have 7: "?E (grants_step os (\<lambda>_. device_grants))"
    by (rule enters_rules_grants) (rule device_grants_allowed)
  fix f
  assume "f \<in> set [grants_step os (\<lambda>s. [Writable (sb_data s) home, Writable (sb_settings s) home,
      Writable (sb_downloads s) home, Trusted resources ''r'' TRUST_REQUIRED])] \<union>
    (set (map (helper_step os) helpers) \<union> set
       [grants_step os (\<lambda>_. map (\<lambda>path. Trusted path ''r'' TRUST_OPTIONAL) readonly_paths),
        grants_step os (\<lambda>_. [Add (ascii ''/dev/null'') ''rw'' False, Add (ascii ''/dev/urandom'') ''r'' True]),
        rules_step (\<lambda>w s. display_rule os w (sb_environment s (ascii ''DISPLAY''))),
        private_authorities os home,
        rules_step (\<lambda>w s. desktop_bus os w (sb_environment s (ascii ''DBUS_SESSION_BUS_ADDRESS''))),
        grants_step os (\<lambda>_. device_grants)])"
  then show "?E f" using 1 2 3 4 5 6 7 enters_rules_helper by (auto simp del: attempt.simps)
qed

lemma prepare_directories_rules:
  "prepare_directories os home data settings (s, w) = Some (Inr (s', w')) \<Longrightarrow> sb_rules s' = sb_rules s"
proof -
  assume run: "prepare_directories os home data settings (s, w) = Some (Inr (s', w'))"
  have "sb_rules (fst (s', w')) = sb_rules s"
  proof (rule attempt_inv [OF _ _ run [unfolded prepare_directories_def]])
    fix f u v
    assume "f \<in> set [directory_step os data (\<lambda>path s. s\<lparr>sb_data := path\<rparr>),
        directory_step os settings (\<lambda>path s. s\<lparr>sb_settings := path\<rparr>),
        downloads_step os (config_directory settings) home]"
      "sb_rules (fst u) = sb_rules s" "f u = Some (Inr v)"
    then show "sb_rules (fst v) = sb_rules s"
      by (auto simp: directory_step_def downloads_step_def split: prod.splits option.splits)
  qed simp
  then show ?thesis by simp
qed


lemma prepare_temporary_environment:
  assumes run: "prepare_temporary os (s, w) = Some (Inr (s', w'))"
  shows "\<exists>temporary cache. within temporary (sb_data s) \<and> within cache (sb_data s) \<and>
    sb_environment s' (ascii ''TMPDIR'') = Some temporary \<and> sb_environment s' (ascii ''SQLITE_TMPDIR'') = Some temporary \<and>
    sb_environment s' (ascii ''MESA_SHADER_CACHE_DIR'') = Some cache"
proof -
  obtain temporary cache w1 where tail: "attempt [setenv_step os (ascii ''TMPDIR'') temporary,
      setenv_step os (ascii ''SQLITE_TMPDIR'') temporary,
      setenv_step os (ascii ''MESA_SHADER_CACHE_DIR'') cache] (s, w1) = Some (Inr (s', w'))"
    and in_data: "within temporary (sb_data s)" "within cache (sb_data s)"
    using run by (auto simp: prepare_temporary_def Let_def simp del: attempt.simps split: option.splits prod.splits if_splits)
  then have "s' = s\<lparr>sb_environment := (sb_environment s)(ascii ''TMPDIR'' := Some temporary,
      ascii ''SQLITE_TMPDIR'' := Some temporary, ascii ''MESA_SHADER_CACHE_DIR'' := Some cache)\<rparr>"
    by (auto simp: setenv_step_def split: if_splits)
  then show ?thesis using in_data by simp
qed

lemma wn_main_sandbox_prepare_stages:
  assumes run: "wn_main_sandbox_prepare os uids data settings resources helpers (s, w) = Some (Inr (s', w'))"
  obtains home s1 w1 s2 w2 s3 where
    "\<not> sb_prepared s" "fst uids \<noteq> 0" "snd uids \<noteq> 0"
    "prepare_directories os home data settings (s\<lparr>sb_rules := []\<rparr>, w) = Some (Inr (s1, w1))"
    "prepare_rules os home resources helpers (s1, w1) = Some (Inr (s2, w2))"
    "prepare_temporary os (s2, w2) = Some (Inr (s3, w'))"
    "s' = s3\<lparr>sb_prepared := True\<rparr>"
proof -
  obtain home where guards: "\<not> sb_prepared s" "fst uids \<noteq> 0" "snd uids \<noteq> 0"
    and chain: "attempt [prepare_directories os home data settings, prepare_rules os home resources helpers,
      prepare_temporary os, \<lambda>(s, w). Some (Inr (s\<lparr>sb_prepared := True\<rparr>, w))] (s\<lparr>sb_rules := []\<rparr>, w) = Some (Inr (s', w'))"
    using run by (auto simp: wn_main_sandbox_prepare_def Let_def simp del: attempt.simps split: if_splits option.splits sum.splits)
  obtain s1 w1 where 1: "prepare_directories os home data settings (s\<lparr>sb_rules := []\<rparr>, w) = Some (Inr (s1, w1))"
    using chain by (auto split: option.splits sum.splits)
  obtain s2 w2 where 2: "prepare_rules os home resources helpers (s1, w1) = Some (Inr (s2, w2))"
    using chain 1 by (auto split: option.splits sum.splits)
  obtain s3 w3 where 3: "prepare_temporary os (s2, w2) = Some (Inr (s3, w3))"
    using chain 1 2 by (auto split: option.splits sum.splits)
  have "s' = s3\<lparr>sb_prepared := True\<rparr>" "w3 = w'" using chain 1 2 3 by simp_all
  then show ?thesis using that guards 1 2 3 by blast
qed

lemma prepared_table:
  assumes run: "wn_main_sandbox_prepare os uids data settings resources helpers (s, w) = Some (Inr (s', w'))"
  obtains home where "from_grants os (allowed home (roots s') helpers) (sb_rules s')"
proof -
  from run obtain home s1 w1 s2 w2 s3 where
    1: "prepare_directories os home data settings (s\<lparr>sb_rules := []\<rparr>, w) = Some (Inr (s1, w1))" and
    2: "prepare_rules os home resources helpers (s1, w1) = Some (Inr (s2, w2))" and
    3: "prepare_temporary os (s2, w2) = Some (Inr (s3, w'))" and s': "s' = s3\<lparr>sb_prepared := True\<rparr>"
    by (rule wn_main_sandbox_prepare_stages)
  have "table_ok os home helpers (roots s1) (s1, w1)"
    using prepare_directories_rules [OF 1] by (simp add: table_ok_def from_grants_def)
  then have "table_ok os home helpers (roots s1) (s2, w2)"
    using enters_rules_prepare [of os home helpers "roots s1" resources] 2 unfolding enters_rules_def by blast
  moreover have "policy s3 = policy s2" using keeps_policy_temporary [of os] 3 unfolding keeps_policy_def by blast
  ultimately have "from_grants os (allowed home (roots s') helpers) (sb_rules s')"
    by (auto simp: table_ok_def policy_def roots_def s')
  then show ?thesis by (rule that)
qed

end
