(* ===== verification/Sandbox_Sample.thy ===== *)
theory Sandbox_Sample
  imports Sandbox_Prepare
begin

text \<open>
  A concrete desktop on which the preparation of the main sandbox succeeds: the directories \<open>/a\<close>, \<open>/s\<close>
  and \<open>/h\<close>, the resources \<open>/r\<close> and \<open>/dev/null\<close> exist, no other path does. The witnesses use it.
\<close>


definition sample_norm :: "cstring \<Rightarrow> cstring" where
  "sample_norm p = (if take 2 p = [47, 47] then tl p else p)"

definition sample_there :: "cstring \<Rightarrow> bool" where
  "sample_there p \<longleftrightarrow> length p < PATH_MAX \<and>
     (take 2 (sample_norm p) \<in> {[47, 97], [47, 115], [47, 114], [47, 104]} \<or> p = ascii ''/dev/null'')"

definition sample_stat :: "cstring \<Rightarrow> errno + stat" where
  "sample_stat p =
     (if sample_there p \<or> p = [47] then Inr \<lparr>st_kind = Directory, st_uid = 0, st_mode = 0, st_nlink = 1, st_length = 0\<rparr>
      else Inl ENOENT)"

definition sample_copying :: copy_env where
  "sample_copying = \<lparr>k_open = Inl ENOENT, k_fstat = None, k_mkstemp = Inl EIO, k_io = [], k_file = [],
     k_close = None, k_rename = None, k_unlink = None\<rparr>"

definition sample_desktop :: "unit desktop" where
  "sample_desktop =
     \<lparr>os_stat = \<lambda>_. sample_stat, os_lstat = \<lambda>_. sample_stat, os_readlink = \<lambda>_ _. Inl EINVAL,
      os_realpath = \<lambda>_ p. if sample_there p then Inr (sample_norm p) else Inl ENOENT,
      os_getcwd = \<lambda>_. Inr [47], os_fts = \<lambda>_ _. Some ([], True), os_mkdir = \<lambda>_ _. (None, ()),
      os_text = \<lambda>_ _. Inl ENOENT, os_executable = \<lambda>_ _. True, os_mkdtemp = \<lambda>_ _. (Inr [47, 97, 47, 120], ()),
      os_open_dir = \<lambda>_ p. Inr (int (length p)), os_copy = \<lambda>_ _. sample_copying, os_copied = \<lambda>_ _ _. (), os_setenv = \<lambda>_ _ _. True,
      os_entries = \<lambda>_. [], os_cleanup = \<lambda>_. sample_cleanup, os_cleaned = \<lambda>_ _. ()\<rparr>"

definition sample_sandbox :: sandbox where
  "sample_sandbox = \<lparr>sb_rules = [], sb_data = [], sb_settings = [], sb_downloads = [], sb_prepared = False,
     sb_home = \<lparr>n_home = [], n_home_fd = -1, n_sndio_fd = -1, n_entries = []\<rparr>,
     sb_environment = [ascii ''HOME'' \<mapsto> [47, 104]]\<rparr>"

lemma sample_realpath:
  "os_realpath sample_desktop v path = Inr r \<Longrightarrow> r \<noteq> [] \<and> hd r = 47 \<and> length r < PATH_MAX"
  by (cases path rule: list.exhaust; cases "tl path")
    (auto simp: sample_desktop_def sample_there_def sample_norm_def ascii_def split: if_splits)

definition sample_downloads :: cstring where
  "sample_downloads = [47, 104, 47, 68, 111, 119, 110, 108, 111, 97, 100, 115]"

lemmas sample_path_simps = directory_def components_def PATH_MAX_def join_def sample_desktop_def sample_stat_def sample_there_def
  sample_norm_def ascii_def

lemma sample_directory:
  "directory sample_desktop [47, 97] () = (Some [47, 97], ())"
  "directory sample_desktop [47, 115] () = (Some [47, 115], ())"
  "downloads sample_desktop (os_text sample_desktop) [47] [47, 104] () = (Some sample_downloads, ())"
  "directory sample_desktop [47, 97, 47, 120, 47, 46, 99] () = (Some [47, 97, 47, 120, 47, 46, 99], ())"
  by (simp_all add: downloads_def sample_path_simps sample_downloads_def)

definition sample_table :: "rule list" where
  "sample_table = [\<lparr>r_path = [47, 97], r_permissions = ''rwc''\<rparr>, \<lparr>r_path = [47, 115], r_permissions = ''rwc''\<rparr>,
     \<lparr>r_path = sample_downloads, r_permissions = ''rwc''\<rparr>, \<lparr>r_path = [47, 114], r_permissions = ''r''\<rparr>]"

lemma sample_trusted: "os_trusted_tree sample_desktop () [47, 114]"
proof -
  have "trusted_walk sample_stat (\<lambda>_. Inl EINVAL) 0 [47] [47, 114]"
    by (subst trusted_walk.simps)
      (simp add: Let_def sample_path_simps others_write_def trusted_walk.simps [of _ _ 0 "[47, 47, 114]" "[]"])
  then show ?thesis
    by (simp add: os_trusted_tree_def trusted_tree_def trusted_ancestors_def sample_path_simps others_write_def)
qed

lemma sample_roots:
  "perform (do_grant sample_desktop ()) [Writable [47, 97] [47, 104], Writable [47, 115] [47, 104],
     Writable sample_downloads [47, 104], Trusted [47, 114] ''r'' TRUST_REQUIRED] [] = Inr sample_table"
proof -
  have "os_lstat sample_desktop () [47, 114] = sample_stat [47, 114]" by (simp add: sample_desktop_def)
  moreover have "sample_stat [47, 114] = Inr \<lparr>st_kind = Directory, st_uid = 0, st_mode = 0, st_nlink = 1, st_length = 0\<rparr>"
    by (simp add: sample_path_simps)
  moreover have "os_realpath sample_desktop () p = (if sample_there p then Inr (sample_norm p) else Inl ENOENT)" for p
    by (simp add: sample_desktop_def)
  moreover have "sample_there [47, 97]" "sample_there [47, 115]" "sample_there [47, 114]" "sample_there sample_downloads"
    by (simp_all add: sample_there_def sample_norm_def PATH_MAX_def sample_downloads_def)
  moreover have "sample_norm [47, 97] = [47, 97]" "sample_norm [47, 115] = [47, 115]" "sample_norm [47, 114] = [47, 114]"
    "sample_norm sample_downloads = sample_downloads"
    by (simp_all add: sample_norm_def sample_downloads_def)
  ultimately show ?thesis using sample_trusted
    by (simp add: writable_def trusted_rule_def add_def within_def Let_def protected_paths_def ascii_def sample_downloads_def
        permits_def RULE_LIMIT_def sample_table_def)
qed

text \<open>Grants of paths that do not exist change nothing.\<close>

fun skipped :: "grant \<Rightarrow> bool" where
  "skipped (Add path permissions optional) \<longleftrightarrow> optional \<and> \<not> sample_there path \<and> path \<noteq> [47]"
| "skipped (Trusted path permissions presence) \<longleftrightarrow> presence = TRUST_OPTIONAL \<and> \<not> sample_there path \<and> path \<noteq> [47]"
| "skipped (Socket_At path optional) \<longleftrightarrow> optional \<and> \<not> sample_there path \<and> path \<noteq> [47]"
| "skipped (Writable path home) \<longleftrightarrow> False"

lemma perform_skipped: "\<forall>g\<in>set gs. skipped g \<Longrightarrow> perform (do_grant sample_desktop ()) gs rules = Inr rules"
proof (induction gs)
  case (Cons g gs)
  have "do_grant sample_desktop () g rules = Inr rules"
    using Cons.prems
    by (cases g) (auto simp: add_def trusted_rule_def socket_rule_def sample_desktop_def sample_stat_def)
  then show ?case using Cons by simp
qed simp

lemma sample_devices: "\<forall>g\<in>set device_grants. skipped g"
  by (auto simp: device_grants_def sample_there_def sample_norm_def ascii_def)

lemma sample_readonly: "\<forall>g\<in>set (map (\<lambda>path. Trusted path ''r'' TRUST_OPTIONAL) readonly_paths). skipped g"
  by (auto simp: readonly_paths_def sample_there_def sample_norm_def ascii_def)


definition sample_rules :: "rule list" where
  "sample_rules = sample_table @ [\<lparr>r_path = ascii ''/dev/null'', r_permissions = ''rw''\<rparr>]"

lemma sample_null:
  "perform (do_grant sample_desktop ()) [Add (ascii ''/dev/null'') ''rw'' False, Add (ascii ''/dev/urandom'') ''r'' True] sample_table =
   Inr sample_rules"
  by (simp add: add_def sample_desktop_def sample_there_def sample_norm_def PATH_MAX_def sample_table_def within_def Let_def ascii_def
      permits_def RULE_LIMIT_def sample_rules_def sample_downloads_def)

lemma sample_private:
  "directory sample_desktop (47 # 97 # 47 # 120 # 47 # ascii ''.config'') () = (Some (47 # 97 # 47 # 120 # 47 # ascii ''.config''), ())"
  "directory sample_desktop (47 # 97 # 47 # 120 # 47 # ascii ''.cache'') () = (Some (47 # 97 # 47 # 120 # 47 # ascii ''.cache''), ())"
  "directory sample_desktop (47 # 97 # 47 # 120 # 47 # ascii ''.local/share'') () =
     (Some (47 # 97 # 47 # 120 # 47 # ascii ''.local/share''), ())"
  "directory sample_desktop (47 # 97 # 47 # ascii ''tmp'') () = (Some (47 # 97 # 47 # ascii ''tmp''), ())"
  "directory sample_desktop (47 # 97 # 47 # ascii ''mesa-cache'') () = (Some (47 # 97 # 47 # ascii ''mesa-cache''), ())"
  by (simp_all add: sample_path_simps)

lemma sample_desktop_simps:
  "os_setenv sample_desktop w v t" "os_mkdir sample_desktop w p = (None, ())" "os_open_dir sample_desktop w p = Inr (int (length p))"
  "os_copy sample_desktop w p = sample_copying" "os_mkdtemp sample_desktop w p = (Inr [47, 97, 47, 120], ())"
  by (simp_all add: sample_desktop_def)

definition bus_variable :: cstring where "bus_variable = ascii ''DBUS_SESSION_BUS_ADDRESS''"

lemma sample_environment:
  "n_home (sb_home s) = [47, 97, 47, 120] \<Longrightarrow>
   \<exists>s'. private_environment sample_desktop (s, ()) = Some (Inr (s', ())) \<and>
     sb_environment s' bus_variable = sb_environment s bus_variable"
  by (simp add: private_environment_def private_paths_def private_variable_def join_def PATH_MAX_def setenv_step_def within_def Let_def
      sample_private sample_desktop_simps bus_variable_def)

lemma sample_copy_runs: "copy_authority p sample_copying = Some (copy_failed True [])"
  by (simp add: copy_authority_def sample_copying_def)

lemma sample_authorities:
  assumes "sb_data s = [47, 97]" "sb_environment s (ascii ''XAUTHORITY'') = None"
  shows "\<exists>s'. private_authorities sample_desktop [47, 104] (s, ()) = Some (Inr (s', ())) \<and>
    sb_environment s' bus_variable = sb_environment s bus_variable"
proof -
  obtain s' where "private_environment sample_desktop
      (s\<lparr>sb_environment := (sb_environment s)(ascii ''XAUTHORITY'' \<mapsto> 47 # 97 # 47 # 120 # 47 # ascii ''.Xauthority''),
         sb_home := sb_home s\<lparr>n_home := [47, 97, 47, 120], n_home_fd := 4, n_sndio_fd := 11\<rparr>\<rparr>, ()) = Some (Inr (s', ()))"
    "sb_environment s' bus_variable = sb_environment s bus_variable"
    using sample_environment [of "s\<lparr>sb_environment := (sb_environment s)(ascii ''XAUTHORITY'' \<mapsto> 47 # 97 # 47 # 120 # 47 # ascii ''.Xauthority''),
         sb_home := sb_home s\<lparr>n_home := [47, 97, 47, 120], n_home_fd := 4, n_sndio_fd := 11\<rparr>\<rparr>"]
    by (auto simp: bus_variable_def)
  then show ?thesis using assms
    by (simp add: private_authorities_def Let_def join_def PATH_MAX_def sample_desktop_simps fill_home_def joined_def copy_step_def
        sample_copy_runs copy_failed_def setenv_step_def mkdir_step_def open_sndio_def sndio_name_def)
qed

lemma sample_prepare:
  "\<exists>s'. wn_main_sandbox_prepare sample_desktop (1000, 1000) [47, 97] [47, 115] [47, 114] [] (sample_sandbox, ()) = Some (Inr (s', ())) \<and>
     sb_rules s' = sample_rules \<and> sb_prepared s'"
proof -
  define s1 where "s1 = sample_sandbox\<lparr>sb_data := [47, 97], sb_settings := [47, 115], sb_downloads := sample_downloads\<rparr>"
  have dirs: "prepare_directories sample_desktop [47, 104] [47, 97] [47, 115] (sample_sandbox\<lparr>sb_rules := []\<rparr>, ()) = Some (Inr (s1, ()))"
    by (simp add: prepare_directories_def directory_step_def downloads_step_def sample_directory config_directory_def parent_def
        s1_def sample_sandbox_def)
  define s2 where "s2 = s1\<lparr>sb_rules := sample_rules\<rparr>"
  obtain s3 where auth: "private_authorities sample_desktop [47, 104] (s2, ()) = Some (Inr (s3, ()))"
    "sb_environment s3 bus_variable = sb_environment s2 bus_variable"
    using sample_authorities [of s2] by (auto simp: s2_def s1_def sample_sandbox_def)
  have keep: "policy s3 = policy s2" by (rule keeps_policy_authorities [unfolded keeps_policy_def, rule_format, OF auth(1)])
  have rules: "prepare_rules sample_desktop [47, 104] [47, 114] [] (s1, ()) = Some (Inr (s3, ()))"
  proof -
    have step: "grants_step sample_desktop gs (s, ()) = Some (Inr (s\<lparr>sb_rules := rules\<rparr>, ()))"
      if "perform (do_grant sample_desktop ()) (gs s) (sb_rules s) = Inr rules" for gs s rules
      using that by (simp add: grants_step_def rules_step_def)
    have 1: "grants_step sample_desktop (\<lambda>s. [Writable (sb_data s) [47, 104], Writable (sb_settings s) [47, 104],
        Writable (sb_downloads s) [47, 104], Trusted [47, 114] ''r'' TRUST_REQUIRED]) (s1, ()) =
        Some (Inr (s1\<lparr>sb_rules := sample_table\<rparr>, ()))"
      by (rule step) (simp add: sample_roots s1_def sample_sandbox_def del: perform.simps do_grant.simps)
    have 2: "grants_step sample_desktop (\<lambda>_. map (\<lambda>path. Trusted path ''r'' TRUST_OPTIONAL) readonly_paths)
        (s1\<lparr>sb_rules := sample_table\<rparr>, ()) = Some (Inr (s1\<lparr>sb_rules := sample_table\<rparr>, ()))"
      using step [OF perform_skipped [OF sample_readonly]] by simp
    have 3: "grants_step sample_desktop (\<lambda>_. [Add (ascii ''/dev/null'') ''rw'' False, Add (ascii ''/dev/urandom'') ''r'' True])
        (s1\<lparr>sb_rules := sample_table\<rparr>, ()) = Some (Inr (s2, ()))"
      using step [of "\<lambda>_. [Add (ascii ''/dev/null'') ''rw'' False, Add (ascii ''/dev/urandom'') ''r'' True]" "s1\<lparr>sb_rules := sample_table\<rparr>"]
        sample_null by (simp add: s2_def del: perform.simps do_grant.simps)
    have 4: "rules_step (\<lambda>w s. display_rule sample_desktop () (sb_environment s (ascii ''DISPLAY''))) (s2, ()) = Some (Inr (s2, ()))"
      by (simp add: rules_step_def display_rule_def s2_def s1_def sample_sandbox_def)
    have 5: "rules_step (\<lambda>w s. desktop_bus sample_desktop () (sb_environment s (ascii ''DBUS_SESSION_BUS_ADDRESS''))) (s3, ()) =
        Some (Inr (s3, ()))"
      using auth(2) by (simp add: rules_step_def desktop_bus_def s2_def s1_def sample_sandbox_def bus_variable_def)
    have 6: "grants_step sample_desktop (\<lambda>_. device_grants) (s3, ()) = Some (Inr (s3, ()))"
      using step [OF perform_skipped [OF sample_devices]] by simp
    show ?thesis by (simp add: prepare_rules_def 1 2 3 4 5 6 auth(1))
  qed
  have "\<exists>s4. prepare_temporary sample_desktop (s3, ()) = Some (Inr (s4, ()))"
    using keep by (simp add: prepare_temporary_def policy_def s2_def s1_def join_def PATH_MAX_def sample_private within_def Let_def
        setenv_step_def sample_desktop_simps)
  then obtain s4 where temporary: "prepare_temporary sample_desktop (s3, ()) = Some (Inr (s4, ()))" ..
  have "policy s4 = policy s3" by (rule keeps_policy_temporary [unfolded keeps_policy_def, rule_format, OF temporary])
  then have "sb_rules s4 = sample_rules" using keep by (simp add: policy_def s2_def)
  moreover have "os_realpath sample_desktop () [47, 104] = Inr [47, 104]"
    by (simp add: sample_desktop_def sample_there_def sample_norm_def PATH_MAX_def)
  ultimately show ?thesis using dirs rules temporary
    by (simp add: wn_main_sandbox_prepare_def Let_def) (simp add: sample_sandbox_def)
qed

end
