(* ===== verification/Sandbox_Policy.thy ===== *)
theory Sandbox_Policy
  imports Sandbox_Sample
begin

text \<open>
  Entering the sandbox (\<open>app/main_sandbox.c\<close>): \<open>enter_policy\<close> for the main process and its launcher,
  \<open>wn_main_sandbox_keep_exec\<close>, \<open>wn_main_sandbox_prepare_tools\<close> and \<open>wn_main_sandbox_enter_tool\<close>.
  \<open>unveil\<close> and \<open>pledge\<close> exist on OpenBSD only; elsewhere every entry fails. The calls are a list, issued
  up to the first that fails.
\<close>

section \<open>Kernel policy calls\<close>

datatype policy_call = Unveil cstring string | Unveil_Lock | Pledge string "string option"

text \<open>The calls that took effect, and whether all of them did.\<close>

fun issue :: "(policy_call \<Rightarrow> errno option) \<Rightarrow> policy_call list \<Rightarrow> policy_call list \<times> bool" where
  "issue answer [] = ([], True)"
| "issue answer (c # cs) =
     (case answer c of Some e \<Rightarrow> ([], False) | None \<Rightarrow> (case issue answer cs of (cs, ok) \<Rightarrow> (c # cs, ok)))"

definition MAIN_PROMISES :: string where
  "MAIN_PROMISES =
     ''stdio rpath wpath cpath inet dns unix proc fattr flock drm prot_exec sendfd recvfd audio '' @ ''getpw''"

definition LAUNCH_PROMISES :: string where "LAUNCH_PROMISES = MAIN_PROMISES @ '' exec''"

definition TOOL_PROMISES :: string where "TOOL_PROMISES = MAIN_PROMISES @ '' exec''"

datatype sandbox_role = SANDBOX_MAIN | SANDBOX_LAUNCHER

definition rule_call :: "rule \<Rightarrow> policy_call" where
  "rule_call r = Unveil (r_path r) (r_permissions r)"

definition enter_policy ::
  "bool \<Rightarrow> (policy_call \<Rightarrow> errno option) \<Rightarrow> sandbox_role \<Rightarrow> sandbox \<Rightarrow> policy_call list \<times> bool" where
  "enter_policy openbsd answer role s =
     (if \<not> sb_prepared s then ([], False)
      else if openbsd then
        issue answer (map rule_call (sb_rules s) @
          [Unveil_Lock, Pledge (if role = SANDBOX_MAIN then MAIN_PROMISES else LAUNCH_PROMISES) None])
      else ([], False))"

definition wn_main_sandbox_enter :: "bool \<Rightarrow> (policy_call \<Rightarrow> errno option) \<Rightarrow> sandbox \<Rightarrow> policy_call list \<times> bool" where
  "wn_main_sandbox_enter openbsd answer = enter_policy openbsd answer SANDBOX_MAIN"

definition wn_main_sandbox_enter_launcher ::
  "bool \<Rightarrow> (policy_call \<Rightarrow> errno option) \<Rightarrow> sandbox \<Rightarrow> policy_call list \<times> bool" where
  "wn_main_sandbox_enter_launcher openbsd answer = enter_policy openbsd answer SANDBOX_LAUNCHER"

definition wn_main_sandbox_keep_exec :: "bool \<Rightarrow> (policy_call \<Rightarrow> errno option) \<Rightarrow> policy_call list \<times> bool" where
  "wn_main_sandbox_keep_exec openbsd answer =
     (if openbsd then issue answer [Pledge LAUNCH_PROMISES (Some LAUNCH_PROMISES)] else ([], False))"

section \<open>The tool broker\<close>

text \<open>The executables one after the other: the rules, the resolved paths, and whether all were accepted.\<close>

fun tool_rules ::
  "('w, 'a) os_scheme \<Rightarrow> 'w \<Rightarrow> cstring option list \<Rightarrow> rule list \<Rightarrow> rule list \<times> cstring list \<times> bool" where
  "tool_rules os w [] rules = (rules, [], True)"
| "tool_rules os w (None # rest) rules = (rules, [], False)"
| "tool_rules os w (Some path # rest) rules =
     (case trusted_rule os w path ''x'' TRUST_REQUIRED rules of
        Inl rules \<Rightarrow> (rules, [], False)
      | Inr rules \<Rightarrow>
          (case os_realpath os w path of
             Inl e \<Rightarrow> (rules, [], False)
           | Inr resolved \<Rightarrow>
               (case tool_rules os w rest rules of (rules, paths, ok) \<Rightarrow> (rules, resolved # paths, ok))))"

text \<open>\<open>tools\<close> are the frozen paths, none before the broker is prepared.\<close>

definition wn_main_sandbox_prepare_tools ::
  "bool \<Rightarrow> (policy_call \<Rightarrow> errno option) \<Rightarrow> ('w, 'a) os_scheme \<Rightarrow> 'w \<Rightarrow> cstring option list \<Rightarrow>
   sandbox \<times> cstring list \<Rightarrow> (sandbox \<times> cstring list) \<times> policy_call list \<times> bool" where
  "wn_main_sandbox_prepare_tools openbsd answer os w executables st =
     (let (s, tools) = st in
      if \<not> sb_prepared s \<or> tools \<noteq> [] \<or> length executables > 4 then ((s, tools), [], False)
      else
        let base = sb_rules s; (rules, paths, ok) = tool_rules os w executables (sb_rules s); s = s\<lparr>sb_rules := rules\<rparr> in
        if \<not> ok then ((s, tools), [], False)
        else if openbsd then
          let (calls, ok) =
                issue answer (map rule_call (filter (\<lambda>r. \<not> permits CHR ''x'' r) base) @ map (\<lambda>p. Unveil p ''x'') paths @
                  [Pledge (TOOL_PROMISES @ '' unveil'') (Some TOOL_PROMISES)])
          in ((s, if ok then paths else tools), calls, ok)
        else ((s, tools), [], False))"

definition wn_main_sandbox_enter_tool ::
  "bool \<Rightarrow> (policy_call \<Rightarrow> errno option) \<Rightarrow> cstring list \<Rightarrow> cstring \<Rightarrow> policy_call list \<times> bool" where
  "wn_main_sandbox_enter_tool openbsd answer tools executable =
     (if tools = [] then ([], False)
      else if executable \<notin> set tools then ([], False)
      else if openbsd then
        issue answer (map (\<lambda>p. Unveil p '''') (filter (\<lambda>p. p \<noteq> executable) tools) @
          [Unveil_Lock, Pledge TOOL_PROMISES (Some TOOL_PROMISES)])
      else ([], False))"

section \<open>The policy in effect\<close>

text \<open>The permissions a path was last unveiled with.\<close>

fun in_effect :: "(cstring \<Rightarrow> string option) \<Rightarrow> policy_call list \<Rightarrow> cstring \<Rightarrow> string option" where
  "in_effect view [] = view"
| "in_effect view (Unveil path permissions # cs) = in_effect (view(path := Some permissions)) cs"
| "in_effect view (c # cs) = in_effect view cs"

lemma in_effect_append: "in_effect view (xs @ ys) = in_effect (in_effect view xs) ys"
  by (induction view xs rule: in_effect.induct) (simp_all del: fun_upd_apply)

lemma issue_all: "issue answer cs = (issued, True) \<Longrightarrow> issued = cs"
  by (induction cs arbitrary: issued) (auto split: option.splits prod.splits)

lemma in_effect_rules:
  "in_effect view (map rule_call rules) p =
     (if p \<in> set (map r_path rules) then Some (r_permissions (last (filter (\<lambda>r. r_path r = p) rules))) else view p)"
  by (induction rules arbitrary: view) (auto simp: rule_call_def filter_empty_conv)

lemma in_effect_paths:
  "in_effect view (map (\<lambda>p. Unveil p permissions) ps) p = (if p \<in> set ps then Some permissions else view p)"
  by (induction ps arbitrary: view) auto

lemma check_rules_there:
  "check_rules resolved permissions rules = Some True \<Longrightarrow> \<lparr>r_path = resolved, r_permissions = permissions\<rparr> \<in> set rules"
  by (induction rules) (auto split: if_splits)

lemma add_present:
  assumes "add realpath path permissions optional rules = Inr rules'" "realpath path = Inr resolved"
  shows "set rules \<subseteq> set rules' \<and> \<lparr>r_path = resolved, r_permissions = permissions\<rparr> \<in> set rules'"
  using assms check_rules_there [of resolved permissions rules]
  by (auto simp: add_def split: option.splits bool.splits if_splits)

lemma tool_rules_sound:
  "tool_rules os w executables rules = (rules', paths, True) \<Longrightarrow> separated rules \<Longrightarrow>
   separated rules' \<and> set rules \<subseteq> set rules' \<and>
   (\<forall>p\<in>set paths. \<exists>e. Some e \<in> set executables \<and> os_realpath os w e = Inr p \<and> os_trusted_tree os w e \<and>
      \<lparr>r_path = p, r_permissions = ''x''\<rparr> \<in> set rules')"
proof (induction os w executables rules arbitrary: rules' paths rule: tool_rules.induct)
  case (3 os w path rest rules)
  obtain rules1 where one: "trusted_rule os w path ''x'' TRUST_REQUIRED rules = Inr rules1"
    using 3(2) by (auto split: sum.splits)
  obtain resolved where resolved: "os_realpath os w path = Inr resolved"
    using 3(2) one by (auto split: sum.splits)
  obtain paths1 where tail: "tool_rules os w rest rules1 = (rules', paths1, True)" and paths: "paths = resolved # paths1"
    using 3(2) one resolved by (auto split: prod.splits)
  have sep1: "separated rules1"
    using grants.step_inv [of rules os w "Trusted path ''x'' TRUST_REQUIRED" rules1] one 3(3) by simp
  have trusted: "os_trusted_tree os w path" and added: "add (os_realpath os w) path ''x'' False rules = Inr rules1"
    using one by (cases "os_lstat os w path"; auto simp: trusted_rule_def split: if_splits)+
  have new: "set rules \<subseteq> set rules1 \<and> \<lparr>r_path = resolved, r_permissions = ''x''\<rparr> \<in> set rules1"
    using add_present [OF added resolved] .
  show ?case using 3(1) [OF one resolved tail sep1] new trusted resolved unfolding paths by auto
qed auto

section \<open>Properties\<close>



text \<open>
  C36. A confined tool can execute nothing but itself: once the broker has been prepared from a prepared
  sandbox and a child has entered the policy of one tool, that tool is one of the broker's executables
  with a trusted tree, no path in effect is executable except it, every writable path in effect carries
  the permissions of a rule of the prepared table, the tool lies under no writable rule, and the policy
  is locked before the last pledge.
\<close>

theorem tool_confinement:
  assumes prepared: "wn_main_sandbox_prepare os uids data settings resources helpers (s, w) = Some (Inr (s', w'))"
    and broker: "wn_main_sandbox_prepare_tools True answer os v executables (s', []) = ((s'', tools), calls, True)"
    and enter: "wn_main_sandbox_enter_tool True answer' tools executable = (calls', True)"
  shows "(\<exists>e. Some e \<in> set executables \<and> os_realpath os v e = Inr executable \<and> os_trusted_tree os v e) \<and>
    (\<forall>path permissions. in_effect (\<lambda>_. None) (calls @ calls') path = Some permissions \<longrightarrow>
       (CHR ''x'' \<in> set permissions \<longrightarrow> path = executable) \<and>
       (CHR ''w'' \<in> set permissions \<longrightarrow> (\<exists>r\<in>set (sb_rules s'). r_path r = path \<and> r_permissions r = permissions))) \<and>
    (\<forall>r\<in>set (sb_rules s'). permits CHR ''w'' r \<longrightarrow> \<not> within executable (r_path r)) \<and>
    (\<exists>before. calls' = before @ [Unveil_Lock, Pledge TOOL_PROMISES (Some TOOL_PROMISES)])"
proof -
  from prepared obtain home where "from_grants os (allowed home (roots s') helpers) (sb_rules s')" by (rule prepared_table)
  then have sep: "separated (sb_rules s')" by (simp add: from_grants_def)
  let ?base = "filter (\<lambda>r. \<not> permits CHR ''x'' r) (sb_rules s')"
  obtain rules where rules: "tool_rules os v executables (sb_rules s') = (rules, tools, True)"
    and calls: "calls = map rule_call ?base @ map (\<lambda>p. Unveil p ''x'') tools @
      [Pledge (TOOL_PROMISES @ '' unveil'') (Some TOOL_PROMISES)]"
    using broker by (auto simp: wn_main_sandbox_prepare_tools_def Let_def dest: issue_all split: if_splits prod.splits)
  have calls': "executable \<in> set tools"
    "calls' = map (\<lambda>p. Unveil p '''') (filter (\<lambda>p. p \<noteq> executable) tools) @ [Unveil_Lock, Pledge TOOL_PROMISES (Some TOOL_PROMISES)]"
    using enter by (auto simp: wn_main_sandbox_enter_tool_def dest: issue_all split: if_splits)
  have sound: "separated rules" "set (sb_rules s') \<subseteq> set rules"
    "\<forall>p\<in>set tools. \<exists>e. Some e \<in> set executables \<and> os_realpath os v e = Inr p \<and> os_trusted_tree os v e \<and>
      \<lparr>r_path = p, r_permissions = ''x''\<rparr> \<in> set rules"
    using tool_rules_sound [OF rules sep] by blast+
  have effect: "in_effect (\<lambda>_. None) (calls @ calls') path =
      (if path \<in> set tools \<and> path \<noteq> executable then Some ''''
       else if path \<in> set tools then Some ''x''
       else if path \<in> set (map r_path ?base) then Some (r_permissions (last (filter (\<lambda>r. r_path r = path) ?base)))
       else None)" for path
    by (simp add: calls calls' in_effect_append in_effect_rules in_effect_paths del: map_map filter_filter set_map)
  have base: "\<exists>r\<in>set (sb_rules s'). r_path r = path \<and> r_permissions r = permissions \<and> \<not> permits CHR ''x'' r"
    if "path \<in> set (map r_path ?base)" "permissions = r_permissions (last (filter (\<lambda>r. r_path r = path) ?base))" for path permissions
  proof -
    have "filter (\<lambda>r. r_path r = path) ?base \<noteq> []" using that(1) by (auto simp: filter_empty_conv)
    then have "last (filter (\<lambda>r. r_path r = path) ?base) \<in> set (filter (\<lambda>r. r_path r = path) ?base)" by (rule last_in_set)
    then show ?thesis using that(2) by auto
  qed
  have view: "(CHR ''x'' \<in> set permissions \<longrightarrow> path = executable) \<and>
       (CHR ''w'' \<in> set permissions \<longrightarrow> (\<exists>r\<in>set (sb_rules s'). r_path r = path \<and> r_permissions r = permissions))"
    if "in_effect (\<lambda>_. None) (calls @ calls') path = Some permissions" for path permissions
    using that base [of path permissions] unfolding effect by (auto simp: permits_def split: if_splits)
  have apart: "\<not> within executable (r_path r)" if "r \<in> set (sb_rules s')" "permits CHR ''w'' r" for r
  proof -
    have "\<lparr>r_path = executable, r_permissions = ''x''\<rparr> \<in> set rules" using sound(3) calls'(1) by blast
    then show ?thesis
      using separated_no_mixed [OF sound(1), of r "\<lparr>r_path = executable, r_permissions = ''x''\<rparr>" executable] that sound(2)
      by (auto simp: permits_def)
  qed
  show ?thesis using sound(3) calls' view apart by blast
qed


lemma sample_tool_trusted: "os_trusted_tree sample_desktop () [47, 114, 47, 120]"
proof -
  have "trusted_walk sample_stat (\<lambda>_. Inl EINVAL) 0 [47, 47, 114] [120]"
    by (subst trusted_walk.simps)
      (simp add: Let_def sample_path_simps others_write_def trusted_walk.simps [of _ _ 0 "[47, 47, 114, 47, 120]" "[]"])
  then have "trusted_walk sample_stat (\<lambda>_. Inl EINVAL) 0 [47] [47, 114, 47, 120]"
    by (subst trusted_walk.simps) (simp add: Let_def sample_path_simps others_write_def)
  then show ?thesis
    by (simp add: os_trusted_tree_def trusted_tree_def trusted_ancestors_def sample_path_simps others_write_def)
qed

lemma sample_tool_rules:
  "tool_rules sample_desktop () [Some [47, 114, 47, 120]] sample_rules =
   (sample_rules @ [\<lparr>r_path = [47, 114, 47, 120], r_permissions = ''x''\<rparr>], [[47, 114, 47, 120]], True)"
proof -
  have "os_realpath sample_desktop () [47, 114, 47, 120] = Inr [47, 114, 47, 120]"
    "os_lstat sample_desktop () [47, 114, 47, 120] =
      Inr \<lparr>st_kind = Directory, st_uid = 0, st_mode = 0, st_nlink = 1, st_length = 0\<rparr>"
    by (simp_all add: sample_path_simps)
  then show ?thesis using sample_tool_trusted
    by (simp add: trusted_rule_def add_def sample_rules_def sample_table_def sample_downloads_def within_def Let_def permits_def
        RULE_LIMIT_def ascii_def)
qed

lemma tool_confinement_witness:
  "\<exists>calls calls'. in_effect (\<lambda>_. None) (calls @ calls') [47, 114, 47, 120] = Some ''x'' \<and>
     (\<forall>path permissions. in_effect (\<lambda>_. None) (calls @ calls') path = Some permissions \<longrightarrow>
        CHR ''x'' \<in> set permissions \<longrightarrow> path = [47, 114, 47, 120])"
proof -
  obtain s' where run: "wn_main_sandbox_prepare sample_desktop (1000, 1000) [47, 97] [47, 115] [47, 114] [] (sample_sandbox, ()) =
      Some (Inr (s', ()))" and s': "sb_rules s' = sample_rules" "sb_prepared s'"
    using sample_prepare by blast
  obtain s'' calls where broker: "wn_main_sandbox_prepare_tools True (\<lambda>_. None) sample_desktop () [Some [47, 114, 47, 120]] (s', []) =
      ((s'', [[47, 114, 47, 120]]), calls, True)"
    and calls: "calls = map rule_call (filter (\<lambda>r. \<not> permits CHR ''x'' r) sample_rules) @
      [Unveil [47, 114, 47, 120] ''x'', Pledge (TOOL_PROMISES @ '' unveil'') (Some TOOL_PROMISES)]"
    using s' sample_tool_rules by (simp add: wn_main_sandbox_prepare_tools_def sample_rules_def sample_table_def permits_def)
  have enter: "wn_main_sandbox_enter_tool True (\<lambda>_. None) [[47, 114, 47, 120]] [47, 114, 47, 120] =
      ([Unveil_Lock, Pledge TOOL_PROMISES (Some TOOL_PROMISES)], True)"
    by (simp add: wn_main_sandbox_enter_tool_def)
  have "in_effect (\<lambda>_. None) (calls @ [Unveil_Lock, Pledge TOOL_PROMISES (Some TOOL_PROMISES)]) [47, 114, 47, 120] = Some ''x''"
    by (simp add: calls in_effect_append)
  then show ?thesis using tool_confinement [OF run broker enter] by blast
qed

end
