(* ===== verification/Ws_Frames.thy ===== *)
theory Ws_Frames
  imports Frames
begin

text \<open>
  The websocket client's transport (\<open>app/ws_shim.c\<close>): \<open>wait_sock\<close>, \<open>send_all\<close>, \<open>recv_all\<close>, and the frame
  codec \<open>send_text\<close> and \<open>recv_message\<close>. libcurl answers each call from a list; what the peer has sent is
  a stream. None: the list is used up, the call is still waiting.
\<close>

section \<open>The socket\<close>

record wait_answer =
  w_socket :: bool
  w_now :: int
  w_poll :: bool

definition wait_sock :: "int \<Rightarrow> wait_answer \<Rightarrow> bool" where
  "wait_sock deadline a =
     (if \<not> w_socket a then False
      else let left = deadline - w_now a in if left \<le> 0 then False else w_poll a)"

datatype curl_answer = Curl_Again wait_answer | Curl_Moved nat | Curl_Failed

text \<open>Whether everything was sent, what reached the wire, the answers left.\<close>

fun send_all :: "int \<Rightarrow> curl_answer list \<Rightarrow> byte list \<Rightarrow> (bool \<times> byte list \<times> curl_answer list) option" where
  "send_all deadline as [] = Some (True, [], as)"
| "send_all deadline [] (b # bs) = None"
| "send_all deadline (Curl_Again a # as) (b # bs) =
     (if wait_sock deadline a then send_all deadline as (b # bs) else Some (False, [], as))"
| "send_all deadline (Curl_Failed # as) (b # bs) = Some (False, [], as)"
| "send_all deadline (Curl_Moved n # as) (b # bs) =
     map_option (\<lambda>(ok, wire, as). (ok, take n (b # bs) @ wire, as)) (send_all deadline as (drop n (b # bs)))"

text \<open>The bytes read (None: -1), the stream left, the answers left. No bytes is the end of the connection.\<close>

fun recv_all ::
  "int \<Rightarrow> curl_answer list \<Rightarrow> nat \<Rightarrow> byte list \<Rightarrow> (byte list option \<times> byte list \<times> curl_answer list) option" where
  "recv_all deadline as 0 stream = Some (Some [], stream, as)"
| "recv_all deadline [] (Suc n) stream = None"
| "recv_all deadline (Curl_Again a # as) (Suc n) stream =
     (if wait_sock deadline a then recv_all deadline as (Suc n) stream else Some (None, stream, as))"
| "recv_all deadline (Curl_Failed # as) (Suc n) stream = Some (None, stream, as)"
| "recv_all deadline (Curl_Moved k # as) (Suc n) stream =
     (let bs = take (min k (Suc n)) stream in
      if bs = [] then Some (None, stream, as)
      else map_option (\<lambda>(r, rest, as). (map_option ((@) bs) r, rest, as))
             (recv_all deadline as (Suc n - length bs) (drop (length bs) stream)))"

lemma recv_all_exact:
  "recv_all deadline as n stream = Some (Some bs, rest, as') \<Longrightarrow> length bs = n \<and> stream = bs @ rest"
proof (induction deadline as n stream arbitrary: bs rule: recv_all.induct)
  case (5 deadline k as n stream)
  define xs where "xs = take (min k (Suc n)) stream"
  have "xs \<noteq> []" using 5(2) by (auto simp: xs_def [symmetric] Let_def)
  then obtain r where r: "recv_all deadline as (Suc n - length xs) (drop (length xs) stream) = Some (Some r, rest, as')"
    and bs: "bs = xs @ r"
    using 5(2) by (auto simp: xs_def [symmetric] Let_def)
  have "length r = Suc n - length xs \<and> drop (length xs) stream = r @ rest"
    using 5(1) [OF xs_def \<open>xs \<noteq> []\<close> r] .
  moreover have "length xs \<le> Suc n" "xs @ drop (length xs) stream = stream"
    by (simp add: xs_def) (simp only: xs_def take_drop_length)
  ultimately show ?case using bs by (metis append.assoc le_add_diff_inverse length_append)
qed (auto split: if_splits)

lemma recv_all_answers:
  "recv_all deadline as n stream = Some (r, rest, as') \<Longrightarrow> length as' \<le> length as \<and> (0 < n \<longrightarrow> length as' < length as)"
  by (induction deadline as n stream arbitrary: r rule: recv_all.induct)
    (fastforce simp: Let_def split: if_splits)+

interpretation ws_reader: exact_reader
  "\<lambda>(as, stream) n. case recv_all deadline as n stream of
     Some (Some bs, rest, as') \<Rightarrow> Some (bs, (as', rest)) | _ \<Rightarrow> None"
  "snd" for deadline
  by unfold_locales (auto split: option.splits prod.splits dest!: recv_all_exact)

text \<open>A peer that answers every call with some bytes.\<close>

definition flowing :: "curl_answer list \<Rightarrow> bool" where
  "flowing as \<longleftrightarrow> (\<forall>a\<in>set as. \<exists>k. a = Curl_Moved (Suc k))"

lemma recv_all_flowing:
  "flowing as \<Longrightarrow> n \<le> length stream \<Longrightarrow> n \<le> length as \<Longrightarrow>
   \<exists>as'. recv_all deadline as n stream = Some (Some (take n stream), drop n stream, as') \<and>
     flowing as' \<and> length as \<le> length as' + n"
proof (induction deadline as n stream rule: recv_all.induct)
  case (5 deadline k as n stream)
  define xs where "xs = take (min k (Suc n)) stream"
  have k: "0 < k" "flowing as" using 5(2) by (auto simp: flowing_def)
  then have len: "length xs = min k (Suc n)" "xs \<noteq> []" using 5(3) by (auto simp: xs_def)
  then obtain as' where "recv_all deadline as (Suc n - length xs) (drop (length xs) stream) =
      Some (Some (take (Suc n - length xs) (drop (length xs) stream)), drop (Suc n) stream, as')"
    "flowing as'" "length as \<le> length as' + (Suc n - length xs)"
    using 5(1) [OF xs_def len(2) k(2)] 5(3,4) len(1) k(1) by fastforce
  moreover have "xs @ take (Suc n - length xs) (drop (length xs) stream) = take (Suc n) stream"
    using len(1) by (simp add: xs_def take_add [symmetric])
  ultimately show ?case using len k(1) by (auto simp: xs_def [symmetric] Let_def)
qed (auto simp: flowing_def)


section \<open>Sending a frame\<close>

fun mask_from :: "byte list \<Rightarrow> nat \<Rightarrow> byte list \<Rightarrow> byte list" where
  "mask_from key i [] = []"
| "mask_from key i (b # bs) = (b XOR key ! (i mod 4)) # mask_from key (i + 1) bs"

text \<open>The big-endian bytes of a length, as the shifts and casts produce them.\<close>

definition be_bytes :: "nat \<Rightarrow> nat \<Rightarrow> byte list" where
  "be_bytes count n = map (\<lambda>i. of_nat (n div 2 ^ (8 * (count - 1 - i)))) [0..<count]"

definition text_header :: "nat \<Rightarrow> byte list" where
  "text_header n =
     129 #
     (if n < 126 then [128 OR of_nat n]
      else if n < 65536 then (128 OR 126) # be_bytes 2 n
      else (128 OR 127) # be_bytes 8 n)"

definition send_text ::
  "int \<Rightarrow> curl_answer list \<Rightarrow> byte list \<Rightarrow> bool \<Rightarrow> cstring \<Rightarrow> (bool \<times> byte list \<times> curl_answer list) option" where
  "send_text deadline as key malloc msg =
     (if \<not> malloc then Some (False, [], as)
      else
        (case send_all deadline as (text_header (length msg) @ key) of
           None \<Rightarrow> None
         | Some (False, wire, as) \<Rightarrow> Some (False, wire, as)
         | Some (True, wire, as) \<Rightarrow>
             map_option (\<lambda>(ok, wire1, as). (ok, wire @ wire1, as)) (send_all deadline as (mask_from key 0 msg))))"

section \<open>Receiving a message\<close>

text \<open>\<open>n = n << 8 | e[i]\<close> over at most eight bytes, which cannot overflow the 64-bit length.\<close>

definition be_value :: "byte list \<Rightarrow> nat" where
  "be_value bs = foldl (\<lambda>n b. 256 * n + unat b) 0 bs"

definition recv_length ::
  "int \<Rightarrow> curl_answer list \<Rightarrow> nat \<Rightarrow> byte list \<Rightarrow> (nat option \<times> byte list \<times> curl_answer list) option" where
  "recv_length deadline as n stream =
     (if n = 126 then map_option (\<lambda>(r, rest, as). (map_option be_value r, rest, as)) (recv_all deadline as 2 stream)
      else if n = 127 then map_option (\<lambda>(r, rest, as). (map_option be_value r, rest, as)) (recv_all deadline as 8 stream)
      else Some (Some n, stream, as))"

text \<open>What the buffer cannot hold is read in chunks of at most 4096 bytes and dropped.\<close>

function drain ::
  "int \<Rightarrow> curl_answer list \<Rightarrow> nat \<Rightarrow> byte list \<Rightarrow> (bool \<times> byte list \<times> curl_answer list) option" where
  "drain deadline as n stream =
     (if n = 0 then Some (True, stream, as)
      else
        let chunk = (if n < 4096 then n else 4096) in
        (case recv_all deadline as chunk stream of
           None \<Rightarrow> None
         | Some (None, rest, as) \<Rightarrow> Some (False, rest, as)
         | Some (Some bs, rest, as) \<Rightarrow> drain deadline as (n - chunk) rest))"
  by pat_completeness auto

termination
  by (relation "measure (\<lambda>(deadline, as, n, stream). n)") (auto simp: Let_def split: if_splits)

declare drain.simps [simp del]

record frame_head =
  g_fin :: bool
  g_op :: nat
  g_length :: nat
  g_key :: "byte list"

text \<open>The frame head: two bytes, the extended length, the key of a masked frame (zero otherwise).\<close>

definition recv_head ::
  "int \<Rightarrow> curl_answer list \<Rightarrow> byte list \<Rightarrow> (frame_head option \<times> byte list \<times> curl_answer list) option" where
  "recv_head deadline as stream =
     (case recv_all deadline as 2 stream of
        None \<Rightarrow> None
      | Some (None, rest, as) \<Rightarrow> Some (None, rest, as)
      | Some (Some h, rest, as) \<Rightarrow>
          let fin = (h ! 0 AND 128 \<noteq> 0); op = unat (h ! 0 AND 15); masked = (h ! 1 AND 128 \<noteq> 0) in
          (case recv_length deadline as (unat (h ! 1 AND 127)) rest of
             None \<Rightarrow> None
           | Some (None, rest, as) \<Rightarrow> Some (None, rest, as)
           | Some (Some n, rest, as) \<Rightarrow>
               if \<not> masked then Some (Some \<lparr>g_fin = fin, g_op = op, g_length = n, g_key = [0, 0, 0, 0]\<rparr>, rest, as)
               else map_option (\<lambda>(key, rest, as).
                      (map_option (\<lambda>key. \<lparr>g_fin = fin, g_op = op, g_length = n, g_key = key\<rparr>) key, rest, as))
                      (recv_all deadline as 4 rest)))"

lemma recv_head_answers:
  "recv_head deadline as stream = Some (r, rest, as') \<Longrightarrow> length as' < length as"
proof -
  assume run: "recv_head deadline as stream = Some (r, rest, as')"
  obtain r1 rest1 as1 where first: "recv_all deadline as 2 stream = Some (r1, rest1, as1)" and less: "length as1 < length as"
    using run by (auto simp: recv_head_def split: option.splits dest: recv_all_answers)
  show ?thesis
  proof (cases r1)
    case None
    then show ?thesis using run first less by (simp add: recv_head_def)
  next
    case (Some h)
    obtain r2 rest2 as2 where second: "recv_length deadline as1 (unat (h ! 1 AND 127)) rest1 = Some (r2, rest2, as2)"
      using run first Some by (auto simp: recv_head_def Let_def split: option.splits)
    then have "length as2 \<le> length as1"
      by (auto simp: recv_length_def split: if_splits dest!: recv_all_answers)
    moreover have "length as' \<le> length as2"
      using run first second Some
      by (auto simp: recv_head_def Let_def split: option.splits if_splits dest!: recv_all_answers)
    ultimately show ?thesis using less by simp
  qed
qed

lemma drain_answers: "drain deadline as n stream = Some (r, rest, as') \<Longrightarrow> length as' \<le> length as"
proof (induction deadline as n stream rule: drain.induct)
  case (1 deadline as n stream)
  show ?case
  proof (cases "n = 0")
    case True
    then show ?thesis using 1(2) by (simp add: drain.simps)
  next
    case False
    define chunk where "chunk = (if n < 4096 then n else 4096)"
    obtain r1 rest1 as1 where first: "recv_all deadline as chunk stream = Some (r1, rest1, as1)"
      using 1(2) False by (auto simp: drain.simps [of _ _ n] chunk_def [symmetric] Let_def split: option.splits)
    note le = recv_all_answers [OF first]
    show ?thesis
    proof (cases r1)
      case None
      then show ?thesis using 1(2) False first le by (simp add: drain.simps [of _ _ n] chunk_def [symmetric] Let_def)
    next
      case (Some bs)
      then have "drain deadline as1 (n - chunk) rest1 = Some (r, rest, as')"
        using 1(2) False first by (simp add: drain.simps [of _ _ n] chunk_def [symmetric] Let_def)
      then show ?thesis using 1(1) [OF False chunk_def first refl Some refl] le by simp
    qed
  qed
qed

text \<open>
  The loop; \<open>kept\<close> is \<open>out[0..len)\<close>. Unmasking with the zero key of an unmasked frame changes nothing,
  so the \<open>if (masked)\<close> around it is left out. None as the message is -1.
\<close>

function recv_message ::
  "int \<Rightarrow> nat \<Rightarrow> curl_answer list \<Rightarrow> byte list \<Rightarrow> byte list \<Rightarrow> (byte list option \<times> byte list \<times> curl_answer list) option" where
  "recv_message deadline cap as stream kept =
     (case recv_head deadline as stream of
        None \<Rightarrow> None
      | Some (None, rest, as1) \<Rightarrow> Some (None, rest, as1)
      | Some (Some h, rest, as1) \<Rightarrow>
          if g_op h = 8 then Some (None, rest, as1)
          else if (g_op h = 1 \<or> g_op h = 0) \<and> g_length h \<le> cap - length kept then
            (case recv_all deadline as1 (g_length h) rest of
               None \<Rightarrow> None
             | Some (None, rest, as2) \<Rightarrow> Some (None, rest, as2)
             | Some (Some bs, rest, as2) \<Rightarrow>
                 let kept = kept @ mask_from (g_key h) 0 bs in
                 if g_fin h then Some (Some kept, rest, as2) else recv_message deadline cap as2 rest kept)
          else
            (case drain deadline as1 (g_length h) rest of
               None \<Rightarrow> None
             | Some (False, rest, as2) \<Rightarrow> Some (None, rest, as2)
             | Some (True, rest, as2) \<Rightarrow>
                 if g_fin h then Some (Some [], rest, as2) else recv_message deadline cap as2 rest []))"
  by pat_completeness auto

termination
  by (relation "measure (\<lambda>(deadline, cap, as, stream, kept). length as)")
    (auto dest!: recv_head_answers recv_all_answers drain_answers)

declare recv_message.simps [simp del]


section \<open>Reference encoding\<close>

text \<open>A frame of RFC 6455, and a message as a sequence of fragments, each masked or not.\<close>

definition frame_bytes :: "bool \<Rightarrow> nat \<Rightarrow> byte list option \<Rightarrow> byte list \<Rightarrow> byte list" where
  "frame_bytes fin op key bs =
     (let n = length bs; masked = (if key = None then 0 else 128); first = (if fin then 128 else 0) OR of_nat op in
      [first, masked OR of_nat (if n < 126 then n else if n < 65536 then 126 else 127)] @
      (if n < 126 then [] else if n < 65536 then be_bytes 2 n else be_bytes 8 n) @
      (case key of None \<Rightarrow> bs | Some key \<Rightarrow> key @ mask_from key 0 bs))"

fun message_bytes :: "nat \<Rightarrow> (byte list option \<times> byte list) list \<Rightarrow> byte list" where
  "message_bytes op [] = []"
| "message_bytes op [(key, bs)] = frame_bytes True op key bs"
| "message_bytes op ((key, bs) # f # fs) = frame_bytes False op key bs @ message_bytes 0 (f # fs)"

section \<open>Lemmas on the encoding\<close>

lemma length_mask_from [simp]: "length (mask_from key i bs) = length bs"
  by (induction bs arbitrary: i) simp_all

lemma mask_from_twice [simp]: "mask_from key i (mask_from key i bs) = bs"
  by (induction bs arbitrary: i) (simp_all add: xor.assoc)

lemma mask_from_zero [simp]: "mask_from [0, 0, 0, 0] i bs = bs"
proof (induction bs arbitrary: i)
  case (Cons b bs)
  have "i mod 4 < 4" by simp
  then consider "i mod 4 = 0" | "i mod 4 = 1" | "i mod 4 = 2" | "i mod 4 = 3" by linarith
  then have "[0, 0, 0, 0 :: byte] ! (i mod 4) = 0" by cases simp_all
  then show ?case using Cons by simp
qed simp

lemma length_be_bytes [simp]: "length (be_bytes k n) = k"
  by (simp add: be_bytes_def)

lemma be_value_Cons: "be_value (b # bs) = unat b * 256 ^ length bs + be_value bs"
proof -
  have "foldl (\<lambda>n b. 256 * n + unat b) m bs = m * 256 ^ length bs + be_value bs" for m bs
  proof (induction bs arbitrary: m)
    case (Cons b bs)
    show ?case using Cons [of "256 * m + unat b"] Cons [of "unat b"] by (simp add: be_value_def algebra_simps)
  qed (simp add: be_value_def)
  from this [of "unat b" bs] show ?thesis by (simp add: be_value_def)
qed

lemma be_bytes_Suc: "be_bytes (Suc k) n = of_nat (n div 256 ^ k) # be_bytes k n"
proof -
  have "(2 :: nat) ^ (8 * j) = 256 ^ j" for j by (simp add: power_mult)
  then show ?thesis by (auto simp: be_bytes_def upt_conv_Cons map_Suc_upt [symmetric] simp del: upt_Suc)
qed

lemma be_value_be_bytes: "be_value (be_bytes k n) = n mod 256 ^ k"
proof (induction k)
  case 0
  then show ?case by (simp add: be_bytes_def be_value_def)
next
  case (Suc k)
  have "unat (of_nat (n div 256 ^ k) :: byte) = n div 256 ^ k mod 256" by (simp add: unat_of_nat)
  then show ?case
    using Suc by (simp add: be_bytes_Suc be_value_Cons mod_mult2_eq [of n "256 ^ k" 256, simplified mult.commute] algebra_simps)
qed

lemma take_bit_byte: "n < 128 \<Longrightarrow> take_bit 7 (of_nat n :: byte) = of_nat n"
proof -
  assume n: "n < 128"
  then have "unat (take_bit 7 (of_nat n :: byte)) = unat (of_nat n :: byte)"
    by (simp add: unsigned_take_bit_eq unat_of_nat take_bit_nat_eq_self)
  then show ?thesis by (rule word_unat_eq_iff [THEN iffD2])
qed

lemma head_byte:
  assumes n: "n < 128"
  shows "unat ((128 OR of_nat n :: byte) AND 127) = n" "(128 OR of_nat n :: byte) AND 128 \<noteq> 0"
    "unat ((0 OR of_nat n :: byte) AND 127) = n" "(0 OR of_nat n :: byte) AND 128 = 0"
proof -
  have low: "w AND 127 = take_bit 7 w" for w :: byte by (simp add: take_bit_eq_mask mask_eq_exp_minus_1)
  have high: "w AND 128 = 0 \<longleftrightarrow> \<not> bit w 7" for w :: byte using and_exp_eq_0_iff_not_bit [of w 7] by simp
  have nat: "unat (take_bit 7 (of_nat n :: byte)) = n"
    using n by (simp add: unsigned_take_bit_eq unat_of_nat take_bit_nat_eq_self)
  show "unat ((0 OR of_nat n :: byte) AND 127) = n" using nat by (simp add: low)
  show "unat ((128 OR of_nat n :: byte) AND 127) = n" using nat by (simp add: low)
  have "\<not> bit (take_bit 7 (of_nat n :: byte)) 7" by (simp add: bit_take_bit_iff)
  then show "(0 OR of_nat n :: byte) AND 128 = 0" unfolding high take_bit_byte [OF n] by simp
  have "bit (128 :: byte) 7" by (simp add: bit_iff_odd)
  then show "(128 OR of_nat n :: byte) AND 128 \<noteq> 0" unfolding high by (simp add: bit_or_iff)
qed

lemma op_byte:
  assumes "op = 0 \<or> op = 1"
  shows "unat (((if fin then 128 else 0) OR of_nat op :: byte) AND 15) = op"
    "((if fin then 128 else 0) OR of_nat op :: byte) AND 128 \<noteq> 0 \<longleftrightarrow> fin"
  using assms by (auto split: if_splits)

section \<open>Reading a frame\<close>

lemma recv_all_append:
  "flowing as \<Longrightarrow> length xs \<le> length as \<Longrightarrow>
   \<exists>as'. recv_all deadline as (length xs) (xs @ ys) = Some (Some xs, ys, as') \<and> flowing as' \<and> length as \<le> length as' + length xs"
  using recv_all_flowing [of as "length xs" "xs @ ys" deadline] by simp

definition length_code :: "nat \<Rightarrow> nat" where
  "length_code n = (if n < 126 then n else if n < 65536 then 126 else 127)"

definition length_ext :: "nat \<Rightarrow> byte list" where
  "length_ext n = (if n < 126 then [] else if n < 65536 then be_bytes 2 n else be_bytes 8 n)"

lemma recv_length_ext:
  assumes "flowing as" "length (length_ext n) \<le> length as" "n < 2 ^ 64"
  shows "\<exists>as'. recv_length deadline as (length_code n) (length_ext n @ rest) = Some (Some n, rest, as') \<and>
    flowing as' \<and> length as \<le> length as' + length (length_ext n)"
proof -
  have "be_value (length_ext n) = n" if "\<not> n < 126"
    using assms(3) that by (auto simp: length_ext_def be_value_be_bytes)
  then show ?thesis
    using recv_all_append [OF assms(1,2), of deadline rest] assms(1)
    by (auto simp: recv_length_def length_code_def length_ext_def split: if_splits)
qed

lemma frame_bytes_eq:
  "frame_bytes fin op key bs =
     [(if fin then 128 else 0) OR of_nat op, (if key = None then 0 else 128) OR of_nat (length_code (length bs))] @
     length_ext (length bs) @
     (case key of None \<Rightarrow> bs | Some key \<Rightarrow> key @ mask_from key 0 bs)"
  by (simp add: frame_bytes_def Let_def length_code_def length_ext_def)

lemma length_code_bound: "length_code n < 128"
  by (simp add: length_code_def)

lemma recv_head_frame:
  assumes flow: "flowing as" and enough: "length (frame_bytes fin op key bs) \<le> length as + length bs"
    and op: "op = 0 \<or> op = 1" and key: "\<And>k. key = Some k \<Longrightarrow> length k = 4" and n: "length bs < 2 ^ 64"
  shows "\<exists>as'. recv_head deadline as (frame_bytes fin op key bs @ rest) =
      Some (Some \<lparr>g_fin = fin, g_op = op, g_length = length bs, g_key = (case key of None \<Rightarrow> [0, 0, 0, 0] | Some k \<Rightarrow> k)\<rparr>,
        (case key of None \<Rightarrow> bs | Some k \<Rightarrow> mask_from k 0 bs) @ rest, as') \<and>
    flowing as' \<and> length as + length bs \<le> length as' + length (frame_bytes fin op key bs)"
proof -
  define h where "h = [(if fin then 128 else 0) OR of_nat op, (if key = None then 0 else 128) OR of_nat (length_code (length bs)) :: byte]"
  define tail where "tail = (case key of None \<Rightarrow> bs | Some key \<Rightarrow> key @ mask_from key 0 bs) @ rest"
  have frame: "frame_bytes fin op key bs @ rest = h @ length_ext (length bs) @ tail"
    by (simp add: frame_bytes_eq h_def tail_def)
  have len: "length (frame_bytes fin op key bs) = 2 + length (length_ext (length bs)) + (if key = None then 0 else 4) + length bs"
    using key by (auto simp: frame_bytes_eq split: option.splits)
  have two: "length h = 2" by (simp add: h_def)
  obtain as1 where 1: "recv_all deadline as 2 (h @ length_ext (length bs) @ tail) = Some (Some h, length_ext (length bs) @ tail, as1)"
    and flow1: "flowing as1" "length as \<le> length as1 + 2"
    using recv_all_append [OF flow, of h deadline] enough len two by force
  have second: "unat (h ! 1 AND 127) = length_code (length bs)" "(h ! 1 AND 128 \<noteq> 0) = (key \<noteq> None)"
    using head_byte [OF length_code_bound] by (simp_all add: h_def)
  have first: "unat (h ! 0 AND 15) = op" "(h ! 0 AND 128 \<noteq> 0) = fin"
    using op_byte [OF op, of fin] by (simp_all add: h_def)
  obtain as2 where 2: "recv_length deadline as1 (length_code (length bs)) (length_ext (length bs) @ tail) = Some (Some (length bs), tail, as2)"
    and flow2: "flowing as2" "length as1 \<le> length as2 + length (length_ext (length bs))"
    using recv_length_ext [OF flow1(1) _ n, of deadline tail] enough len flow1(2) by force
  show ?thesis
  proof (cases key)
    case None
    then show ?thesis unfolding frame
      using 1 2 flow1 flow2 len by (simp add: recv_head_def Let_def second first tail_def del: One_nat_def)
  next
    case (Some k)
    then have "length k = 4" using key by simp
    then obtain as3 where 3: "recv_all deadline as2 4 (k @ mask_from k 0 bs @ rest) = Some (Some k, mask_from k 0 bs @ rest, as3)"
      and flow3: "flowing as3" "length as2 \<le> length as3 + 4"
      using recv_all_append [OF flow2(1), of k deadline] enough len flow1(2) flow2(2) Some by force
    show ?thesis unfolding frame
      using 1 2 3 flow1 flow2 flow3 len Some by (simp add: recv_head_def Let_def second first tail_def del: One_nat_def)
  qed
qed


section \<open>Properties\<close>

lemma send_all_wire: "send_all deadline as bs = Some (ok, wire, as') \<Longrightarrow> (\<exists>k. wire = take k bs) \<and> (ok \<longrightarrow> wire = bs)"
proof (induction deadline as bs arbitrary: wire rule: send_all.induct)
  case (5 deadline n as b bs)
  then obtain wire1 where "send_all deadline as (drop n (b # bs)) = Some (ok, wire1, as')" "wire = take n (b # bs) @ wire1"
    by auto
  moreover from this(1) have "(\<exists>k. wire1 = take k (drop n (b # bs))) \<and> (ok \<longrightarrow> wire1 = drop n (b # bs))"
    by (rule 5(1))
  ultimately show ?case by (metis append_take_drop_id take_add)
qed (auto split: if_splits)

lemma send_text_frame:
  assumes "send_text deadline as key malloc msg = Some (True, wire, as')"
  shows "wire = frame_bytes True 1 (Some key) msg"
proof -
  obtain w1 as1 w2 where w: "send_all deadline as (text_header (length msg) @ key) = Some (True, w1, as1)"
    "send_all deadline as1 (mask_from key 0 msg) = Some (True, w2, as')" "wire = w1 @ w2"
    using assms by (auto simp: send_text_def split: if_splits option.splits bool.splits)
  then have "wire = text_header (length msg) @ key @ mask_from key 0 msg"
    using send_all_wire [OF w(1)] send_all_wire [OF w(2)] by simp
  then show ?thesis by (simp add: text_header_def frame_bytes_def Let_def)
qed

lemma recv_message_frame:
  assumes flow: "flowing as" and enough: "length (frame_bytes fin op key bs) \<le> length as" and op: "op = 0 \<or> op = 1"
    and key: "\<And>k. key = Some k \<Longrightarrow> length k = 4" and fits: "length kept + length bs \<le> cap" "cap < 2 ^ 64"
  obtains as' where "flowing as'" "length as \<le> length as' + length (frame_bytes fin op key bs)"
    "recv_message deadline cap as (frame_bytes fin op key bs @ rest) kept =
       (if fin then Some (Some (kept @ bs), rest, as') else recv_message deadline cap as' rest (kept @ bs))"
proof -
  define data where "data = (case key of None \<Rightarrow> bs | Some k \<Rightarrow> mask_from k 0 bs)"
  define k where "k = (case key of None \<Rightarrow> [0, 0, 0, 0] | Some k \<Rightarrow> k)"
  have data: "length data = length bs" "mask_from k 0 data = bs"
    by (simp_all add: data_def k_def split: option.splits)
  obtain as1 where head: "recv_head deadline as (frame_bytes fin op key bs @ rest) =
      Some (Some \<lparr>g_fin = fin, g_op = op, g_length = length bs, g_key = k\<rparr>, data @ rest, as1)"
    and flow1: "flowing as1" "length as + length bs \<le> length as1 + length (frame_bytes fin op key bs)"
    using recv_head_frame [OF flow _ op key, where fin = fin and bs = bs and deadline = deadline and rest = rest] enough fits unfolding data_def k_def by force
  have "length data \<le> length as1" using flow1(2) enough data(1) by simp
  then obtain as2 where body: "recv_all deadline as1 (length bs) (data @ rest) = Some (Some data, rest, as2)"
    and flow2: "flowing as2" "length as1 \<le> length as2 + length bs"
    using recv_all_append [OF flow1(1), of data deadline rest] data(1) by auto
  have "op \<noteq> 8" using op by auto
  then have "recv_message deadline cap as (frame_bytes fin op key bs @ rest) kept =
      (if fin then Some (Some (kept @ bs), rest, as2) else recv_message deadline cap as2 rest (kept @ bs))"
    using op fits by (subst recv_message.simps) (auto simp: head body data(2) Let_def)
  moreover have "length as \<le> length as2 + length (frame_bytes fin op key bs)" using flow1(2) flow2(2) by linarith
  ultimately show ?thesis using that flow2(1) by blast
qed

lemma recv_message_fragments:
  assumes "flowing as" "length (message_bytes op fs) \<le> length as" "op = 0 \<or> op = 1" "fs \<noteq> []"
    "\<forall>(key, bs)\<in>set fs. \<forall>k. key = Some k \<longrightarrow> length k = 4"
    "length kept + length (concat (map snd fs)) \<le> cap" "cap < 2 ^ 64"
  shows "\<exists>as'. recv_message deadline cap as (message_bytes op fs @ rest) kept = Some (Some (kept @ concat (map snd fs)), rest, as')"
  using assms
proof (induction op fs arbitrary: as kept rule: message_bytes.induct)
  case (2 op key bs)
  have key: "\<And>k. key = Some k \<Longrightarrow> length k = 4" using 2(5) by simp
  show ?case
    by (rule recv_message_frame [OF 2(1) _ 2(3) key, where fin = True and bs = bs and kept = kept and cap = cap and deadline = deadline and rest = rest]) (use 2(2,6,7) in auto)
next
  case (3 op key bs f fs)
  have key: "\<And>k. key = Some k \<Longrightarrow> length k = 4" using 3(6) by simp
  obtain as' where step: "flowing as'" "length as \<le> length as' + length (frame_bytes False op key bs)"
    "recv_message deadline cap as (frame_bytes False op key bs @ message_bytes 0 (f # fs) @ rest) kept =
       recv_message deadline cap as' (message_bytes 0 (f # fs) @ rest) (kept @ bs)"
    by (rule recv_message_frame [OF 3(2) _ 3(4) key, where fin = False and bs = bs and kept = kept and cap = cap and deadline = deadline
        and rest = "message_bytes 0 (f # fs) @ rest"])
      (use 3(3,7,8) in auto)
  have "\<exists>as''. recv_message deadline cap as' (message_bytes 0 (f # fs) @ rest) (kept @ bs) =
      Some (Some ((kept @ bs) @ concat (map snd (f # fs))), rest, as'')"
    by (rule 3(1) [OF step(1)]) (use 3(3,6,7,8) step(2) in auto)
  then show ?case using step(3) by simp
qed simp

text \<open>
  C39. Messages round trip: what \<open>send_text\<close> writes when it succeeds is the text as one final frame masked
  with the key; and a message the peer sends, in any number of fragments, masked or not, that fits the
  buffer is what \<open>recv_message\<close> returns, with the rest of the stream untouched, however the bytes
  arrive.
\<close>

theorem ws_message_roundtrip:
  assumes key: "length key = 4"
    and sent: "send_text deadline as key malloc msg = Some (True, wire, as')"
    and flow: "flowing as1" "length (message_bytes 1 fs) \<le> length as1" "flowing as2" "length wire \<le> length as2"
    and fs: "fs \<noteq> []" "\<forall>(k, bs)\<in>set fs. \<forall>key. k = Some key \<longrightarrow> length key = 4"
    and fits: "length (concat (map snd fs)) \<le> cap" "length msg \<le> cap" "cap < 2 ^ 64"
  shows "wire = message_bytes 1 [(Some key, msg)] \<and>
    (\<exists>left. recv_message deadline' cap as2 (wire @ rest) [] = Some (Some msg, rest, left)) \<and>
    (\<exists>left. recv_message deadline' cap as1 (message_bytes 1 fs @ rest) [] = Some (Some (concat (map snd fs)), rest, left))"
proof -
  have wire: "wire = message_bytes 1 [(Some key, msg)]" using send_text_frame [OF sent] by simp
  then show ?thesis
    using recv_message_fragments [of as2 1 "[(Some key, msg)]" "[]" cap deadline' rest]
      recv_message_fragments [of as1 1 fs "[]" cap deadline' rest] flow fs fits key by auto
qed

lemma sample_send: "send_text 0 [Curl_Moved 9, Curl_Moved 9] [1, 2, 3, 4] True [104] = Some (True, [129, 129, 1, 2, 3, 4, 105], [])"
  by (simp add: send_text_def text_header_def)

lemma ws_message_roundtrip_witness:
  "(\<exists>left. recv_message 0 5 (replicate 7 (Curl_Moved 1)) [129, 129, 1, 2, 3, 4, 105] [] = Some (Some [104], [], left)) \<and>
   (\<exists>left. recv_message 0 5 (replicate 6 (Curl_Moved 3)) (message_bytes 1 [(None, [7]), (None, [8])]) [] = Some (Some [7, 8], [], left))"
  using ws_message_roundtrip [OF _ sample_send, of "replicate 6 (Curl_Moved 3)" "[(None, [7]), (None, [8])]"
      "replicate 7 (Curl_Moved 1)" 5 0 "[]"]
  by (simp add: flowing_def frame_bytes_def Let_def)

end
