(* ===== verification/Ws_Query.thy ===== *)
theory Ws_Query
  imports Ws_Frames
begin

text \<open>
  One request over a websocket (\<open>app/ws_shim.c\<close>): \<open>ws_key\<close>, \<open>ws_compact_json\<close>, \<open>ws_query\<close> with its two
  callers, and the bounded download \<open>wn_https_get\<close> with its write callback \<open>sticker_write\<close>. libcurl's
  connection (proxy, TLS, HTTP) is an answer; its options other than the URL are not modelled.
\<close>

section \<open>The key\<close>

definition B64 :: cstring where
  "B64 = ascii ''ABCDEFGHIJKLMNOPQRSTUVWXYZabcdefghijklmnopqrstuvwxyz0123456789+/''"

definition b64_char :: "u32 \<Rightarrow> nat \<Rightarrow> byte" where
  "b64_char v shift = B64 ! unat (drop_bit shift v AND 63)"

definition b64_group :: "byte \<Rightarrow> byte \<Rightarrow> byte \<Rightarrow> u32" where
  "b64_group a b c = push_bit 16 (ucast a) OR push_bit 8 (ucast b) OR ucast c"

text \<open>Three bytes at a time; the missing ones of the last group are padding.\<close>

fun ws_key :: "byte list \<Rightarrow> cstring" where
  "ws_key [] = []"
| "ws_key [a] = (let v = b64_group a 0 0 in [b64_char v 18, b64_char v 12, 61, 61])"
| "ws_key [a, b] = (let v = b64_group a b 0 in [b64_char v 18, b64_char v 12, b64_char v 6, 61])"
| "ws_key (a # b # c # raw) =
     (let v = b64_group a b c in [b64_char v 18, b64_char v 12, b64_char v 6, b64_char v 0] @ ws_key raw)"

lemma ws_key_length: "length (ws_key raw) = 4 * ((length raw + 2) div 3)"
  by (induction raw rule: ws_key.induct) (simp_all add: Let_def, presburger)

section \<open>Compacting\<close>

text \<open>White space outside strings goes; \<open>quoted\<close> and \<open>escaped\<close> are the scanner's state.\<close>

definition json_space :: "byte \<Rightarrow> bool" where
  "json_space b \<longleftrightarrow> b = 32 \<or> b = 9 \<or> b = 13 \<or> b = 10"

fun compact_from :: "bool \<Rightarrow> bool \<Rightarrow> byte list \<Rightarrow> byte list" where
  "compact_from quoted escaped [] = []"
| "compact_from quoted escaped (b # bs) =
     (if \<not> quoted \<and> json_space b then compact_from quoted escaped bs
      else b #
        (if escaped then compact_from quoted False bs
         else if quoted \<and> b = 92 then compact_from quoted True bs
         else if b = 34 then compact_from (\<not> quoted) escaped bs
         else compact_from quoted escaped bs))"

definition ws_compact_json :: "byte list \<Rightarrow> byte list" where
  "ws_compact_json message = compact_from False False message"

section \<open>The query\<close>

datatype ws_result_format = WS_SINGLE_EVENT | WS_EVENT_LINES

text \<open>\<open>strstr(url, "://")\<close>, moved past the separator.\<close>

fun after_scheme :: "cstring \<Rightarrow> cstring option" where
  "after_scheme [] = None"
| "after_scheme (c # s) = (if take 3 (c # s) = ascii ''://'' then Some (drop 3 (c # s)) else after_scheme s)"

text \<open>Host and path of the URL; None when it is rejected.\<close>

definition ws_url :: "cstring \<Rightarrow> (cstring \<times> cstring) option" where
  "ws_url url =
     (case after_scheme url of
        None \<Rightarrow> None
      | Some rest \<Rightarrow>
          let host = takeWhile (\<lambda>b. b \<noteq> 47) rest;
              path = (if 47 \<in> set rest then drop (length host) rest else [47])
          in if host = [] \<or> length host > 250 then None else Some (host, path))"

text \<open>\<open>snprintf\<close> into \<open>http_url\<close> keeps at most 1023 bytes.\<close>

definition ws_http_url :: "cstring \<Rightarrow> cstring \<Rightarrow> cstring \<Rightarrow> cstring" where
  "ws_http_url url host path =
     take 1023 ((if take 6 url = ascii ''wss://'' then ascii ''https'' else ascii ''http'') @ ascii ''://'' @ host @ path)"

definition crlf :: cstring where "crlf = [13, 10]"

definition ws_handshake :: "cstring \<Rightarrow> cstring \<Rightarrow> cstring \<Rightarrow> cstring" where
  "ws_handshake host path key =
     ascii ''GET '' @ path @ ascii '' HTTP/1.1'' @ crlf @ ascii ''Host: '' @ host @ crlf @ ascii ''Upgrade: websocket'' @ crlf @
     ascii ''Connection: Upgrade'' @ crlf @ ascii ''Sec-WebSocket-Key: '' @ key @ crlf @ ascii ''Sec-WebSocket-Version: 13'' @
     crlf @ crlf"

definition HANDSHAKE_SIZE :: nat where "HANDSHAKE_SIZE = 1536"

definition RESPONSE_SIZE :: nat where "RESPONSE_SIZE = 4096"

text \<open>The response head, one byte at a time up to the blank line.\<close>

function recv_response ::
  "int \<Rightarrow> curl_answer list \<Rightarrow> byte list \<Rightarrow> byte list \<Rightarrow> (byte list option \<times> byte list \<times> curl_answer list) option" where
  "recv_response deadline as stream resp =
     (if length resp + 1 \<ge> RESPONSE_SIZE then Some (None, stream, as)
      else
        (case recv_all deadline as 1 stream of
           None \<Rightarrow> None
         | Some (None, rest, as) \<Rightarrow> Some (None, rest, as)
         | Some (Some bs, rest, as) \<Rightarrow>
             let resp = resp @ bs in
             if length resp \<ge> 4 \<and> drop (length resp - 4) resp = crlf @ crlf then Some (Some resp, rest, as)
             else recv_response deadline as rest resp))"
  by pat_completeness auto

termination
  by (relation "measure (\<lambda>(deadline, as, stream, resp). length as)") (auto dest!: recv_all_answers)

declare recv_response.simps [simp del]

definition starts :: "cstring \<Rightarrow> byte list \<Rightarrow> bool" where
  "starts p message \<longleftrightarrow> length message \<ge> length p \<and> take (length p) message = p"

definition event_tag :: cstring where
  "event_tag = [91, 34] @ ascii ''EVENT'' @ [34]"

definition eose_tag :: cstring where
  "eose_tag = [91, 34] @ ascii ''EOSE'' @ [34]"

definition closed_tag :: cstring where
  "closed_tag = [91, 34] @ ascii ''CLOSED'' @ [34]"

lemma recv_message_answers: "recv_message deadline cap as stream kept = Some (r, rest, as') \<Longrightarrow> length as' < length as"
proof (induction deadline cap as stream kept rule: recv_message.induct)
  case (1 deadline cap as stream kept)
  obtain r1 rest1 as1 where first: "recv_head deadline as stream = Some (r1, rest1, as1)" and less: "length as1 < length as"
    using 1(3) by (auto simp: recv_message.simps [of _ _ as] split: option.splits dest: recv_head_answers)
  show ?case
  proof (cases r1)
    case None
    then show ?thesis using 1(3) first less by (simp add: recv_message.simps [of _ _ as])
  next
    case h: (Some h)
    consider (close) "g_op h = 8"
      | (keep) "g_op h \<noteq> 8" "(g_op h = 1 \<or> g_op h = 0) \<and> g_length h \<le> cap - length kept"
      | (drop) "g_op h \<noteq> 8" "\<not> ((g_op h = 1 \<or> g_op h = 0) \<and> g_length h \<le> cap - length kept)"
      by satx
    then show ?thesis
    proof cases
      case close
      then show ?thesis using 1(3) first h less by (simp add: recv_message.simps [of _ _ as])
    next
      case keep
      then show ?thesis
        using 1(3) first h less 1(1) [OF first refl h refl keep]
        by (auto simp: recv_message.simps [of _ _ as] Let_def split: option.splits if_splits dest!: recv_all_answers)
          force+
    next
      case drop
      then show ?thesis
        using 1(3) first h less 1(2) [OF first refl h refl drop]
        by (auto simp: recv_message.simps [of _ _ as] Let_def split: option.splits if_splits bool.splits dest!: drain_answers)
          force+
    qed
  qed
qed

text \<open>
  The collecting loop: \<open>used\<close> is \<open>out[0..used)\<close>. The result and the bytes it counts; the answers come
  from the list, and None is a loop that still waits.
\<close>

function ws_collect ::
  "int \<Rightarrow> nat \<Rightarrow> nat \<Rightarrow> ws_result_format \<Rightarrow> curl_answer list \<Rightarrow> byte list \<Rightarrow> nat \<Rightarrow> byte list \<Rightarrow> int \<Rightarrow> (int \<times> byte list) option" where
  "ws_collect deadline cap max_events format as stream events used result =
     (let available = cap - length used in
      if format = WS_EVENT_LINES \<and> available \<le> 1 then Some (result, used)
      else
        (case recv_message deadline (if format = WS_EVENT_LINES then available - 1 else available) as stream [] of
           None \<Rightarrow> None
         | Some (None, rest, as) \<Rightarrow> Some (result, used)
         | Some (Some message, rest, as) \<Rightarrow>
             let message = (if format = WS_EVENT_LINES then ws_compact_json message else message);
                 event = starts event_tag message in
             if event \<and> format = WS_SINGLE_EVENT then Some (int (length message), message)
             else
               let used = (if event then used @ message @ [10] else used);
                   result = (if event then int (length used) else result);
                   events = (if event then events + 1 else events) in
               if event \<and> events = max_events then Some (result, used)
               else if starts eose_tag message then Some (int (length used), used)
               else if starts closed_tag message then Some (result, used)
               else ws_collect deadline cap max_events format as rest events used result))"
  by pat_completeness auto

termination
  by (relation "measure (\<lambda>(deadline, cap, max_events, format, as, stream, events, used, result). length as)")
    (auto dest!: recv_message_answers)

declare ws_collect.simps [simp del]

record ws_env =
  x_now :: int
  x_init :: bool
  x_connect :: "cstring \<Rightarrow> bool"
  x_random :: "byte list"
  x_mask :: "byte list"
  x_malloc :: bool
  x_answers :: "curl_answer list"
  x_stream :: "byte list"

definition INT_MAX :: nat where "INT_MAX = 2147483647"

definition ws_query ::
  "cstring \<Rightarrow> cstring \<Rightarrow> nat \<Rightarrow> int \<Rightarrow> nat \<Rightarrow> ws_result_format \<Rightarrow> ws_env \<Rightarrow> (int \<times> byte list) option" where
  "ws_query url req cap timeout_ms max_events format env =
     (if cap = 0 \<or> cap > INT_MAX \<or> max_events = 0 then Some (-1, [])
      else
        let deadline = x_now env + timeout_ms in
        (case ws_url url of
           None \<Rightarrow> Some (-1, [])
         | Some (host, path) \<Rightarrow>
             if \<not> x_init env then Some (-1, [])
             else if \<not> x_connect env (ws_http_url url host path) then Some (-1, [])
             else
               let hs = ws_handshake host path (ws_key (x_random env)) in
               if length hs \<ge> HANDSHAKE_SIZE then Some (-1, [])
               else
                 (case send_all deadline (x_answers env) hs of
                    None \<Rightarrow> None
                  | Some (False, wire, as) \<Rightarrow> Some (-1, [])
                  | Some (True, wire, as) \<Rightarrow>
                      (case recv_response deadline as (x_stream env) [] of
                         None \<Rightarrow> None
                       | Some (None, rest, as) \<Rightarrow> Some (-1, [])
                       | Some (Some resp, rest, as) \<Rightarrow>
                           if take 12 resp \<noteq> ascii ''HTTP/1.1 101'' then Some (-1, [])
                           else
                             (case send_text deadline as (x_mask env) (x_malloc env) req of
                                None \<Rightarrow> None
                              | Some (False, wire, as) \<Rightarrow> Some (-1, [])
                              | Some (True, wire, as) \<Rightarrow>
                                  ws_collect deadline cap max_events format as rest 0 []
                                    (if format = WS_SINGLE_EVENT then 0 else -1))))))"

definition wn_ws_fetch :: "cstring \<Rightarrow> cstring \<Rightarrow> nat \<Rightarrow> int \<Rightarrow> ws_env \<Rightarrow> (int \<times> byte list) option" where
  "wn_ws_fetch url req cap timeout_ms = ws_query url req cap timeout_ms 1 WS_SINGLE_EVENT"

definition wn_ws_fetch_many :: "cstring \<Rightarrow> cstring \<Rightarrow> nat \<Rightarrow> int \<Rightarrow> nat \<Rightarrow> ws_env \<Rightarrow> (int \<times> byte list) option" where
  "wn_ws_fetch_many url req cap timeout_ms max_events = ws_query url req cap timeout_ms max_events WS_EVENT_LINES"

section \<open>Bounded downloads\<close>

record sticker_buffer =
  sticker_bytes :: "byte list"
  sticker_cap :: nat

text \<open>\<open>data\<close> holds \<open>width * count\<close> bytes. The returned count and the buffer.\<close>

definition sticker_write :: "byte list \<Rightarrow> nat \<Rightarrow> nat \<Rightarrow> sticker_buffer \<Rightarrow> nat \<times> sticker_buffer" where
  "sticker_write data width count buffer =
     (if width \<noteq> 0 \<and> count > (sticker_cap buffer - length (sticker_bytes buffer)) div width then (0, buffer)
      else let bytes = width * count in (bytes, buffer\<lparr>sticker_bytes := sticker_bytes buffer @ take bytes data\<rparr>))"

text \<open>libcurl's side of the callback: elements of one byte, and another count than offered aborts.\<close>

definition sticker_feed :: "sticker_buffer \<Rightarrow> byte list \<Rightarrow> sticker_buffer option" where
  "sticker_feed buffer chunk =
     (case sticker_write chunk 1 (length chunk) buffer of
        (n, buffer) \<Rightarrow> if n = length chunk then Some buffer else None)"

definition wn_https_get :: "nat \<Rightarrow> bool \<Rightarrow> bool \<Rightarrow> byte list list \<Rightarrow> int \<times> byte list" where
  "wn_https_get cap init status chunks =
     (if \<not> init then (-1, [])
      else
        (case feed_chunks sticker_feed \<lparr>sticker_bytes = [], sticker_cap = cap\<rparr> chunks of
           None \<Rightarrow> (-1, [])
         | Some buffer \<Rightarrow> if status then (sint (of_nat (length (sticker_bytes buffer)) :: 32 word), sticker_bytes buffer) else (-1, [])))"

interpretation sticker: chunk_sink sticker_feed
  by unfold_locales (auto simp: sticker_feed_def sticker_write_def Let_def split: if_splits)

lemma sticker_feed_fits: "sticker_feed buffer chunk = Some buffer' \<longleftrightarrow>
  length chunk \<le> sticker_cap buffer - length (sticker_bytes buffer) \<and>
  buffer' = buffer\<lparr>sticker_bytes := sticker_bytes buffer @ chunk\<rparr>"
  by (auto simp: sticker_feed_def sticker_write_def Let_def)

lemma wn_https_get_body:
  "wn_https_get cap True True chunks =
     (if length (concat chunks) \<le> cap
      then (sint (of_nat (length (concat chunks)) :: 32 word), concat chunks) else (-1, []))"
  by (auto simp: wn_https_get_def sticker.feed_chunks_concat sticker_feed_fits split: option.splits)
    (auto simp: sticker_feed_def sticker_write_def Let_def split: if_splits)

section \<open>Bounds\<close>

lemma compact_length: "length (compact_from quoted escaped bs) \<le> length bs"
  by (induction bs arbitrary: quoted escaped) (simp_all add: le_SucI)

lemma compact_idem: "compact_from quoted escaped (compact_from quoted escaped bs) = compact_from quoted escaped bs"
  by (induction bs arbitrary: quoted escaped) simp_all

lemma compact_nonspace: "filter (\<lambda>b. \<not> json_space b) (compact_from quoted escaped bs) = filter (\<lambda>b. \<not> json_space b) bs"
  by (induction bs arbitrary: quoted escaped) simp_all

text \<open>A message never exceeds the capacity it was read into.\<close>

lemma recv_message_fits:
  "recv_message deadline cap as stream kept = Some (Some m, rest, as') \<Longrightarrow> length kept \<le> cap \<Longrightarrow> length m \<le> cap"
proof (induction deadline cap as stream kept rule: recv_message.induct)
  case (1 deadline cap as stream kept)
  obtain h rest1 as1 where first: "recv_head deadline as stream = Some (Some h, rest1, as1)"
    using 1(3) by (auto simp: recv_message.simps [of _ _ as] split: option.splits)
  have open_frame: "g_op h \<noteq> 8"
    using 1(3) first by (auto simp: recv_message.simps [of _ _ as])
  show ?case
  proof (cases "(g_op h = 1 \<or> g_op h = 0) \<and> g_length h \<le> cap - length kept")
    case keep: True
    then obtain bs rest2 as2 where body: "recv_all deadline as1 (g_length h) rest1 = Some (Some bs, rest2, as2)"
      using 1(3) first open_frame by (auto simp: recv_message.simps [of _ _ as] split: option.splits)
    have kept: "length (kept @ mask_from (g_key h) 0 bs) \<le> cap"
      using recv_all_exact [OF body] keep 1(4) by (simp del: One_nat_def) linarith
    show ?thesis
    proof (cases "g_fin h")
      case True
      then show ?thesis
        using 1(3) first open_frame keep body kept by (auto simp: recv_message.simps [of _ _ as] Let_def)
    next
      case False
      then have "recv_message deadline cap as2 rest2 (kept @ mask_from (g_key h) 0 bs) = Some (Some m, rest, as')"
        using 1(3) first open_frame keep body by (simp add: recv_message.simps [of _ _ as] Let_def)
      then show ?thesis
        by (rule 1(1) [OF first refl refl refl open_frame keep body refl refl refl refl False _ kept])
    qed
  next
    case drop: False
    obtain rest2 as2 where body: "drain deadline as1 (g_length h) rest1 = Some (True, rest2, as2)"
      using 1(3) first open_frame drop by (auto simp: recv_message.simps [of _ _ as] split: option.splits bool.splits)
    show ?thesis
    proof (cases "g_fin h")
      case True
      have "m = []"
        using 1(3) first open_frame drop body True by (subst (asm) recv_message.simps) auto
      then show ?thesis by simp
    next
      case False
      then have "recv_message deadline cap as2 rest2 [] = Some (Some m, rest, as')"
        using 1(3) first open_frame drop body by (subst (asm) recv_message.simps) auto
      then show ?thesis
        using 1(2) [OF first refl refl refl open_frame drop body refl] False by simp
    qed
  qed
qed

text \<open>What the loop has collected: complete event lines, within the buffer and the limit.\<close>

definition event_lines :: "nat \<Rightarrow> byte list \<Rightarrow> bool" where
  "event_lines events used \<longleftrightarrow>
     (\<exists>ms. used = concat (map (\<lambda>m. m @ [10]) ms) \<and> length ms = events \<and>
        (\<forall>m\<in>set ms. starts event_tag m \<and> ws_compact_json m = m))"

lemma event_lines_snoc:
  "event_lines events used \<Longrightarrow> starts event_tag m \<Longrightarrow> ws_compact_json m = m \<Longrightarrow> event_lines (events + 1) (used @ m @ [10])"
  unfolding event_lines_def
proof (elim exE)
  fix ms
  assume "starts event_tag m" "ws_compact_json m = m"
    "used = concat (map (\<lambda>m. m @ [10]) ms) \<and> length ms = events \<and> (\<forall>m\<in>set ms. starts event_tag m \<and> ws_compact_json m = m)"
  then show "\<exists>ms. used @ m @ [10] = concat (map (\<lambda>m. m @ [10]) ms) \<and> length ms = events + 1 \<and>
      (\<forall>m\<in>set ms. starts event_tag m \<and> ws_compact_json m = m)"
    by (intro exI [of _ "ms @ [m]"]) auto
qed

definition collecting :: "nat \<Rightarrow> nat \<Rightarrow> nat \<Rightarrow> byte list \<Rightarrow> int \<Rightarrow> bool" where
  "collecting cap max_events events used result \<longleftrightarrow>
     length used \<le> cap \<and> events \<le> max_events \<and> event_lines events used \<and> (result = -1 \<and> used = [] \<or> result = int (length used))"

lemma collecting_event:
  assumes "collecting cap max_events events used result" "events < max_events" "starts event_tag m" "ws_compact_json m = m"
    "length m + 1 \<le> cap - length used"
  shows "collecting cap max_events (events + 1) (used @ m @ [10]) (int (length (used @ m @ [10])))"
  using assms event_lines_snoc [of events used m] by (auto simp: collecting_def)

lemma ws_collect_lines:
  "ws_collect deadline cap max_events WS_EVENT_LINES as stream events used result = Some (res, out) \<Longrightarrow>
   collecting cap max_events events used result \<Longrightarrow> events < max_events \<Longrightarrow>
   \<exists>n. collecting cap max_events n out res"
proof (induction as arbitrary: stream events used result rule: length_induct)
  case (1 as)
  note run = 1(2) and inv = 1(3) and few = 1(4)
  show ?case
  proof (cases "cap - length used \<le> 1")
    case True
    then show ?thesis using run inv by (auto simp: ws_collect.simps [of _ _ _ _ as])
  next
    case False
    then obtain r rest as1 where read: "recv_message deadline (cap - length used - 1) as stream [] = Some (r, rest, as1)"
      using run by (auto simp: ws_collect.simps [of _ _ _ _ as] Let_def split: option.splits)
    show ?thesis
    proof (cases r)
      case None
      then show ?thesis using run inv False read by (auto simp: ws_collect.simps [of _ _ _ _ as])
    next
      case (Some m0)
      define m where "m = ws_compact_json m0"
      have m: "ws_compact_json m = m" "length m + 1 \<le> cap - length used"
        using recv_message_fits [OF read [unfolded Some]] compact_length [of False False m0] False
        by (simp_all add: m_def ws_compact_json_def compact_idem)
      define event where "event = starts event_tag m"
      define used1 where "used1 = (if event then used @ m @ [10] else used)"
      define result1 where "result1 = (if event then int (length used1) else result)"
      define events1 where "events1 = (if event then events + 1 else events)"
      have inv1: "collecting cap max_events events1 used1 result1"
        using inv collecting_event [OF inv few _ m] by (auto simp: used1_def result1_def events1_def event_def)
      then have eose: "collecting cap max_events events1 used1 (int (length used1))"
        by (auto simp: collecting_def)
      have step: "(if event \<and> events1 = max_events then Some (result1, used1)
          else if starts eose_tag m then Some (int (length used1), used1)
          else if starts closed_tag m then Some (result1, used1)
          else ws_collect deadline cap max_events WS_EVENT_LINES as1 rest events1 used1 result1) = Some (res, out)"
        using run unfolding m_def event_def used1_def result1_def events1_def
        by (subst (asm) ws_collect.simps) (simp add: False read Some Let_def del: One_nat_def diff_diff_left)
      have again: "\<exists>n. collecting cap max_events n out res"
        if "ws_collect deadline cap max_events WS_EVENT_LINES as1 rest events1 used1 result1 = Some (res, out)"
          "\<not> (event \<and> events1 = max_events)"
      proof -
        have "events1 < max_events" using that(2) few by (auto simp: events1_def)
        then show ?thesis using 1(1) recv_message_answers [OF read] that(1) inv1 by blast
      qed
      show ?thesis using step inv1 eose again by (auto split: if_splits)
    qed
  qed
qed

lemma ws_collect_single:
  "ws_collect deadline cap max_events WS_SINGLE_EVENT as stream events [] 0 = Some (res, out) \<Longrightarrow>
   res = int (length out) \<and> length out \<le> cap \<and> (out = [] \<or> starts event_tag out)"
proof (induction as arbitrary: stream events rule: length_induct)
  case (1 as)
  note run = 1(2)
  obtain r rest as1 where read: "recv_message deadline cap as stream [] = Some (r, rest, as1)"
    using run by (auto simp: ws_collect.simps [of _ _ _ _ as] Let_def split: option.splits)
  show ?case
  proof (cases r)
    case None
    then show ?thesis using run read by (auto simp: ws_collect.simps [of _ _ _ _ as])
  next
    case (Some m)
    have fits: "length m \<le> cap" using recv_message_fits [OF read [unfolded Some]] by simp
    have step: "(if starts event_tag m then Some (int (length m), m)
        else if starts eose_tag m \<or> starts closed_tag m then Some (0, [])
        else ws_collect deadline cap max_events WS_SINGLE_EVENT as1 rest events [] 0) = Some (res, out)"
      using run read Some by (simp add: ws_collect.simps [of _ _ _ _ as] Let_def split: if_splits) auto
    then show ?thesis using fits 1(1) recv_message_answers [OF read] by (auto split: if_splits)
  qed
qed

lemma ws_query_run:
  assumes "ws_query url req cap timeout_ms max_events format env = Some (result, out)"
  shows "result = -1 \<and> out = [] \<or>
    0 < max_events \<and> (\<exists>deadline as rest.
      ws_collect deadline cap max_events format as rest 0 [] (if format = WS_SINGLE_EVENT then 0 else -1) = Some (result, out))"
  using assms unfolding ws_query_def Let_def
  by (simp split: if_split_asm option.split_asm prod.split_asm bool.split_asm) (blast+)?

text \<open>
  C40. What \<open>ws_query\<close> returns is the count of the bytes it wrote or -1, and never more than the buffer
  holds. A single-event query yields nothing or one message that starts as an event; a collecting query
  yields at most \<open>max_events\<close> compacted messages that start as events, each followed by a newline, and -1
  only with none.
\<close>

theorem ws_query_bounds:
  assumes "ws_query url req cap timeout_ms max_events format env = Some (result, out)"
  shows "(result = -1 \<and> out = [] \<or> result = int (length out)) \<and> length out \<le> cap \<and>
    (case format of
       WS_SINGLE_EVENT \<Rightarrow> out = [] \<or> starts event_tag out
     | WS_EVENT_LINES \<Rightarrow>
         (\<exists>ms. out = concat (map (\<lambda>m. m @ [10]) ms) \<and> length ms \<le> max_events \<and>
            (\<forall>m\<in>set ms. starts event_tag m \<and> ws_compact_json m = m)))"
  using assms
proof (cases "result = -1 \<and> out = []")
  case True
  then show ?thesis by (cases format) (auto intro: exI [of _ "[]"])
next
  case False
  then obtain deadline as rest where 2: "0 < max_events"
    "ws_collect deadline cap max_events format as rest 0 [] (if format = WS_SINGLE_EVENT then 0 else -1) = Some (result, out)"
    using ws_query_run [OF assms] by blast
  show ?thesis
  proof (cases format)
    case WS_SINGLE_EVENT
    then show ?thesis using ws_collect_single 2(2) by fastforce
  next
    case WS_EVENT_LINES
    have start: "collecting cap max_events 0 [] (-1)" by (simp add: collecting_def event_lines_def)
    obtain n where "collecting cap max_events n out result"
      using ws_collect_lines [OF _ start 2(1)] 2(2) WS_EVENT_LINES by force
    then show ?thesis using WS_EVENT_LINES by (auto simp: collecting_def event_lines_def)
  qed
qed

text \<open>A relay that accepts, sends one event pretty-printed and then the end of what it stores.\<close>

definition sample_relay :: ws_env where
  "sample_relay = \<lparr>x_now = 0, x_init = True, x_connect = (\<lambda>u. u = ascii ''https://r/''), x_random = replicate 16 7,
     x_mask = [1, 2, 3, 4], x_malloc = True, x_answers = replicate 30 (Curl_Moved 999),
     x_stream = ascii ''HTTP/1.1 101'' @ crlf @ crlf @ [129, 10] @ [91, 34] @ ascii ''EVENT'' @ [34, 32, 93] @
       [129, 8] @ [91, 34] @ ascii ''EOSE'' @ [34, 93]\<rparr>"

lemma send_all_once: "0 < n \<Longrightarrow> length bs \<le> n \<Longrightarrow> bs \<noteq> [] \<Longrightarrow> send_all deadline (Curl_Moved n # as) bs = Some (True, bs, as)"
  by (cases bs) auto

lemma sample_host: "ws_url (ascii ''wss://r'') = Some ([114], [47])" "ws_http_url (ascii ''wss://r'') [114] [47] = ascii ''https://r/''"
  by (simp_all add: ws_url_def ws_http_url_def ascii_def Let_def)

lemma sample_key: "length (ws_handshake [114] [47] (ws_key (replicate 16 7))) = 140"
  by (simp add: ws_handshake_def crlf_def ws_key_length)

lemma replicate_more: "replicate (numeral k) x = x # replicate (pred_numeral k) x"
  by (simp add: numeral_eq_Suc)

lemma sample_response:
  "recv_response 1000 (replicate 29 (Curl_Moved 999)) (ascii ''HTTP/1.1 101'' @ crlf @ crlf @ rest) [] =
     Some (Some (ascii ''HTTP/1.1 101'' @ crlf @ crlf), rest, replicate 13 (Curl_Moved 999))"
  by (simp add: recv_response.simps ascii_def crlf_def RESPONSE_SIZE_def replicate_more)
lemma recv_all_once:
  "0 < n \<Longrightarrow> n \<le> k \<Longrightarrow> n \<le> length stream \<Longrightarrow>
   recv_all deadline (Curl_Moved k # as) n stream = Some (Some (take n stream), drop n stream, as)"
  by (cases n; cases stream) auto

text \<open>
  A message too long for the buffer is dropped frame by frame: the fragments after the dropped one are
  still collected, and the tail is returned as a message.
\<close>

lemma oversized_fragment_tail:
  "recv_message deadline 1 (replicate 4 (Curl_Moved 9)) [1, 2, 65, 66, 128, 1, 67] [] = Some (Some [67], [], [])"
  by (simp add: recv_message.simps recv_head_def recv_length_def recv_all_once drain.simps Let_def replicate_more)

lemma sample_collect:
  "ws_collect 1000 100 5 WS_EVENT_LINES (replicate 11 (Curl_Moved 999))
     ([129, 10] @ [91, 34] @ ascii ''EVENT'' @ [34, 32, 93] @ [129, 8] @ [91, 34] @ ascii ''EOSE'' @ [34, 93]) 0 [] (-1) =
   Some (10, event_tag @ [93, 10])"
  by (simp add: ws_collect.simps recv_message.simps recv_head_def recv_length_def recv_all_once Let_def replicate_more ascii_def
      ws_compact_json_def json_space_def starts_def event_tag_def eose_tag_def closed_tag_def)

lemma sample_query: "wn_ws_fetch_many (ascii ''wss://r'') (ascii ''[]'') 100 1000 5 sample_relay =
  Some (10, event_tag @ [93, 10])"
proof -
  have send: "send_text 1000 (replicate 13 (Curl_Moved 999)) [1, 2, 3, 4] True (ascii ''[]'') =
      Some (True, [129, 130, 1, 2, 3, 4, 90, 95], replicate 11 (Curl_Moved 999))"
    by (simp add: send_text_def text_header_def send_all_once replicate_more ascii_def)
  have shake: "send_all 1000 (replicate 30 (Curl_Moved 999)) (ws_handshake [114] [47] (ws_key (replicate 16 7))) =
      Some (True, ws_handshake [114] [47] (ws_key (replicate 16 7)), replicate 29 (Curl_Moved 999))"
    using sample_key send_all_once [of 999 "ws_handshake [114] [47] (ws_key (replicate 16 7))" 1000 "replicate 29 (Curl_Moved 999)"]
    by (simp add: replicate_more [of _ "Curl_Moved 999"] ws_handshake_def ascii_def)
  show ?thesis
    using sample_collect
    by (simp add: wn_ws_fetch_many_def ws_query_def sample_relay_def INT_MAX_def HANDSHAKE_SIZE_def sample_host sample_key
        shake sample_response send)
qed

lemma ws_query_bounds_witness: "length (event_tag @ [93, 10]) \<le> 100"
  using ws_query_bounds [OF sample_query [unfolded wn_ws_fetch_many_def]] by simp

end
