(* ===== verification/Update_Policy.thy ===== *)
theory Update_Policy
  imports Sandbox_Trust "HOL-Library.Product_Lexorder"
begin

text \<open>
  The rules of the AppImage updater: release versions, their order and the test feed
  (\<open>app/appimage_update_policy.h\<close>), and the directory check before staging executables
  (\<open>app/appimage_update_directory.h\<close>). A null pointer is None; the end of a C string is the end of the list.
\<close>

section \<open>Versions\<close>

definition UINT64_MAX :: u64 where
  "UINT64_MAX = 18446744073709551615"

definition numeric :: "byte \<Rightarrow> bool" where
  "numeric c \<longleftrightarrow> 48 \<le> c \<and> c \<le> 57"

text \<open>The inner loop, which has seen that the first character is a digit.\<close>

fun version_number :: "u64 \<Rightarrow> cstring \<Rightarrow> (u64 \<times> cstring) option" where
  "version_number number [] = Some (number, [])"
| "version_number number (c # text) =
     (if \<not> numeric c then Some (number, c # text)
      else
        let digit = ucast (c - 48) in
        if number > (UINT64_MAX - digit) div 10 then None else version_number (number * 10 + digit) text)"

definition version_field :: "cstring \<Rightarrow> (u64 \<times> cstring) option" where
  "version_field text = (if text = [] \<or> \<not> numeric (hd text) then None else version_number 0 text)"

text \<open>The separator after a field: None is a refusal, the flag is the end of the loop.\<close>

definition version_separator :: "nat \<Rightarrow> cstring \<Rightarrow> (bool \<times> cstring) option" where
  "version_separator field text =
     (if field < 2 then (if text \<noteq> [] \<and> hd text = 46 then Some (False, tl text) else None)
      else if field = 2 then
        (if text = [] then Some (True, [])
         else if hd text = 43 then Some (False, tl text)
         else if take 7 text = ascii ''-build.'' then Some (False, drop 7 text)
         else None)
      else if text \<noteq> [] then None
      else Some (False, text))"

function version_fields :: "nat \<Rightarrow> u64 list \<Rightarrow> cstring \<Rightarrow> u64 list option" where
  "version_fields field out text =
     (if field \<ge> 4 then Some out
      else
        (case version_field text of
           None \<Rightarrow> None
         | Some (number, text) \<Rightarrow>
             (case version_separator field text of
                None \<Rightarrow> None
              | Some (True, text) \<Rightarrow> Some (out @ [number, 0])
              | Some (False, text) \<Rightarrow> version_fields (field + 1) (out @ [number]) text)))"
  by pat_completeness auto

termination
  by (relation "measure (\<lambda>(field, out, text). 4 - field)") auto

declare version_fields.simps [simp del]

definition wn_appimage_version :: "cstring option \<Rightarrow> u64 list option" where
  "wn_appimage_version text =
     (case text of
        None \<Rightarrow> None
      | Some text \<Rightarrow>
          if text = [] then None
          else
            (case version_fields 0 [] text of
               None \<Rightarrow> None
             | Some out \<Rightarrow>
                 if out ! 0 \<ge> 2000 \<and> out ! 1 \<ge> 1 \<and> out ! 1 \<le> 12 \<and> out ! 2 \<ge> 1 \<and> out ! 2 \<le> 31 then Some out else None))"

fun newer_fields :: "u64 list \<Rightarrow> u64 list \<Rightarrow> bool" where
  "newer_fields (old # old_fields) (new # new_fields) = (if new \<noteq> old then new > old else newer_fields old_fields new_fields)"
| "newer_fields old_fields new_fields = False"

definition wn_appimage_newer :: "cstring option \<Rightarrow> cstring option \<Rightarrow> bool" where
  "wn_appimage_newer old_version new_version =
     (case (wn_appimage_version old_version, wn_appimage_version new_version) of
        (Some old_fields, Some new_fields) \<Rightarrow> newer_fields old_fields new_fields
      | _ \<Rightarrow> False)"

section \<open>The test feed\<close>

text \<open>The port loop: digits counted, the port, the rest; the sixth digit is a refusal.\<close>

fun feed_port :: "nat \<Rightarrow> u32 \<Rightarrow> cstring \<Rightarrow> (nat \<times> u32 \<times> cstring) option" where
  "feed_port digits port [] = Some (digits, port, [])"
| "feed_port digits port (c # tail) =
     (if \<not> numeric c then Some (digits, port, c # tail)
      else if digits + 1 > 5 then None
      else feed_port (digits + 1) (port * 10 + ucast (c - 48)) tail)"

definition one_line :: "cstring \<Rightarrow> bool" where
  "one_line s \<longleftrightarrow> 10 \<notin> set s \<and> 13 \<notin> set s \<and> 124 \<notin> set s"

definition feed_host :: "cstring \<Rightarrow> cstring option" where
  "feed_host url =
     (if take 17 url = ascii ''http://127.0.0.1:'' then Some (drop 17 url)
      else if take 13 url = ascii ''http://[::1]:'' then Some (drop 13 url)
      else None)"

definition wn_appimage_test_feed :: "cstring option \<Rightarrow> bool" where
  "wn_appimage_test_feed url =
     (case url of
        None \<Rightarrow> False
      | Some url \<Rightarrow>
          (if url = [] then False
           else
             (case feed_host url of
                Some tail \<Rightarrow>
                  (case feed_port 0 0 tail of
                     None \<Rightarrow> False
                   | Some (digits, port, tail) \<Rightarrow>
                       digits \<noteq> 0 \<and> port \<noteq> 0 \<and> port \<le> 65535 \<and> tail \<noteq> [] \<and> hd tail = 47 \<and> one_line tail)
              | None \<Rightarrow> if take 8 url = ascii ''file:///'' then one_line url else False)))"

section \<open>The directory check\<close>

text \<open>\<open>canonical[0..end)\<close> for every \<open>end\<close> from 1 at which a name ends; bit 01000 is the sticky bit.\<close>

definition ancestors :: "cstring \<Rightarrow> cstring list" where
  "ancestors canonical =
     map (\<lambda>n. take n canonical)
       (filter (\<lambda>n. n = length canonical \<or> canonical ! n = 47) [1..<length canonical + 1])"

definition private_ancestor :: "nat \<Rightarrow> stat \<Rightarrow> bool" where
  "private_ancestor uid st \<longleftrightarrow>
     st_kind st = Directory \<and> (st_uid st = 0 \<or> st_uid st = uid) \<and> (\<not> others_write st \<or> st_mode st AND 512 \<noteq> 0)"

definition wn_appimage_private_directory ::
  "nat \<Rightarrow> (cstring \<Rightarrow> errno + cstring) \<Rightarrow> (cstring \<Rightarrow> errno + stat) \<Rightarrow> cstring option \<Rightarrow> bool" where
  "wn_appimage_private_directory uid realpath lstat path =
     (case path of
        None \<Rightarrow> False
      | Some path \<Rightarrow>
          if path = [] \<or> hd path \<noteq> 47 then False
          else
            (case realpath path of
               Inl e \<Rightarrow> False
             | Inr canonical \<Rightarrow>
                 path = canonical \<and>
                 list_all (\<lambda>directory. case lstat directory of Inl e \<Rightarrow> False | Inr st \<Rightarrow> private_ancestor uid st)
                   (ancestors canonical)))"

section \<open>The version grammar\<close>

text \<open>The number a string of digits denotes, and the texts that denote four numbers.\<close>

definition digits_number :: "nat \<Rightarrow> cstring \<Rightarrow> nat" where
  "digits_number start ds = foldl (\<lambda>n c. n * 10 + unat (c - 48)) start ds"

definition digits :: "cstring \<Rightarrow> nat \<Rightarrow> bool" where
  "digits ds n \<longleftrightarrow> ds \<noteq> [] \<and> (\<forall>c\<in>set ds. numeric c) \<and> digits_number 0 ds = n \<and> n < 2 ^ 64"

definition release :: "cstring \<Rightarrow> nat \<times> nat \<times> nat \<times> nat \<Rightarrow> bool" where
  "release text = (\<lambda>(year, month, day, build).
     \<exists>y m d. digits y year \<and> digits m month \<and> digits d day \<and>
       2000 \<le> year \<and> 1 \<le> month \<and> month \<le> 12 \<and> 1 \<le> day \<and> day \<le> 31 \<and>
       (text = y @ [46] @ m @ [46] @ d \<and> build = 0 \<or>
        (\<exists>b. digits b build \<and>
           (text = y @ [46] @ m @ [46] @ d @ [43] @ b \<or> text = y @ [46] @ m @ [46] @ d @ ascii ''-build.'' @ b))))"

lemma digit_bound: "numeric c \<Longrightarrow> unat (c - 48) < 10"
  unfolding numeric_def by (auto simp: word_le_nat_alt unat_sub)

lemma digits_number_Cons: "digits_number n (c # ds) = digits_number (n * 10 + unat (c - 48)) ds"
  by (simp add: digits_number_def)

lemma digits_number_mono: "n \<le> digits_number n ds"
proof (induction ds arbitrary: n)
  case (Cons c ds)
  have "n \<le> n * 10 + unat (c - 48)" by simp
  also have "\<dots> \<le> digits_number n (c # ds)" using Cons by (simp add: digits_number_Cons)
  finally show ?case .
qed (simp add: digits_number_def)

text \<open>The guard is exact: it refuses just the numbers that do not fit 64 bits.\<close>

lemma overflow_guard:
  assumes "numeric c"
  shows "number > (UINT64_MAX - ucast (c - 48)) div 10 \<longleftrightarrow> unat number * 10 + unat (c - 48) \<ge> 2 ^ 64"
    and "unat number * 10 + unat (c - 48) < 2 ^ 64 \<Longrightarrow>
      unat (number * 10 + ucast (c - 48) :: u64) = unat number * 10 + unat (c - 48)"
proof -
  define d where "d = unat (c - 48)"
  have d: "d < 10" "unat (ucast (c - 48) :: u64) = d"
    using digit_bound [OF assms] by (simp_all add: d_def unsigned_ucast_eq take_bit_nat_eq_self)
  have sub: "unat (UINT64_MAX - ucast (c - 48)) = 18446744073709551615 - d"
    using d by (simp add: UINT64_MAX_def unat_sub word_le_nat_alt)
  show "number > (UINT64_MAX - ucast (c - 48)) div 10 \<longleftrightarrow> unat number * 10 + unat (c - 48) \<ge> 2 ^ 64"
    using d(1) by (simp add: word_less_nat_alt unat_div sub d_def [symmetric]) linarith
  assume "unat number * 10 + unat (c - 48) < 2 ^ 64"
  then show "unat (number * 10 + ucast (c - 48) :: u64) = unat number * 10 + unat (c - 48)"
    using d by (simp add: unat_word_ariths d_def [symmetric])
qed

lemma unat_u64_bound: "unat (w :: u64) < 18446744073709551616"
  using unsigned_less [of w] by simp

lemma version_number_spec:
  "version_number number s =
     (let n = digits_number (unat number) (takeWhile numeric s) in
      if n < 2 ^ 64 then Some (of_nat n, dropWhile numeric s) else None)"
proof (induction number s rule: version_number.induct)
  case (1 number)
  show ?case using unat_u64_bound [of number] by (simp add: digits_number_def Let_def)
next
  case (2 number c s)
  show ?case
  proof (cases "numeric c")
    case False
    then show ?thesis using unat_u64_bound [of number] by (simp add: digits_number_def Let_def)
  next
    case True
    note guard = overflow_guard [OF True, of number]
    show ?thesis
    proof (cases "unat number * 10 + unat (c - 48) < 2 ^ 64")
      case False
      have "2 ^ 64 \<le> digits_number (unat number * 10 + unat (c - 48)) (takeWhile numeric s)"
        using False digits_number_mono [of "unat number * 10 + unat (c - 48)" "takeWhile numeric s"] by linarith
      then show ?thesis using True guard(1) False by (simp add: digits_number_Cons Let_def)
    next
      case fits: True
      then have "\<not> number > (UINT64_MAX - ucast (c - 48)) div 10" using guard(1) by linarith
      then show ?thesis using 2 [OF _ refl] True guard(2) [OF fits] by (simp add: digits_number_Cons Let_def)
    qed
  qed
qed

lemma version_field_spec:
  "version_field s = Some (n, rest) \<longleftrightarrow>
   (\<exists>ds m. digits ds m \<and> s = ds @ rest \<and> (rest = [] \<or> \<not> numeric (hd rest)) \<and> n = of_nat m)"
proof
  assume "version_field s = Some (n, rest)"
  then have "s \<noteq> []" "numeric (hd s)" and fit: "digits_number 0 (takeWhile numeric s) < 2 ^ 64"
    and n: "n = of_nat (digits_number 0 (takeWhile numeric s))" and rest: "rest = dropWhile numeric s"
    by (auto simp: version_field_def version_number_spec Let_def split: if_splits)
  then have "digits (takeWhile numeric s) (digits_number 0 (takeWhile numeric s))"
    by (cases s) (auto simp: digits_def dest: set_takeWhileD)
  moreover have "s = takeWhile numeric s @ rest" by (simp add: rest)
  moreover have "rest = [] \<or> \<not> numeric (hd rest)" using hd_dropWhile [of numeric s] by (auto simp: rest)
  ultimately show "\<exists>ds m. digits ds m \<and> s = ds @ rest \<and> (rest = [] \<or> \<not> numeric (hd rest)) \<and> n = of_nat m"
    using n by blast
next
  assume "\<exists>ds m. digits ds m \<and> s = ds @ rest \<and> (rest = [] \<or> \<not> numeric (hd rest)) \<and> n = of_nat m"
  then obtain ds m where s: "digits ds m" "s = ds @ rest" "rest = [] \<or> \<not> numeric (hd rest)" "n = of_nat m" by blast
  then have "takeWhile numeric s = ds" "dropWhile numeric s = rest"
    by (cases rest; simp add: digits_def)+
  then show "version_field s = Some (n, rest)"
    using s by (cases ds) (auto simp: version_field_def version_number_spec digits_def)
qed

lemma take_prefix_iff: "take (length p) s = p \<longleftrightarrow> (\<exists>r. s = p @ r)"
  by (metis append_eq_conv_conj append_take_drop_id)

lemma version_fields_unroll:
  "version_fields 0 [] s = Some fs \<longleftrightarrow>
   (\<exists>y s1 m s2 d s3. version_field s = Some (y, 46 # s1) \<and> version_field s1 = Some (m, 46 # s2) \<and>
      version_field s2 = Some (d, s3) \<and>
      (s3 = [] \<and> fs = [y, m, d, 0] \<or>
       (\<exists>s4 b. (s3 = [43] @ s4 \<or> s3 = ascii ''-build.'' @ s4) \<and> version_field s4 = Some (b, []) \<and> fs = [y, m, d, b])))"
  (is "?l \<longleftrightarrow> ?r")
proof
  assume l: ?l
  then obtain y s1 m s2 d s3 where "version_field s = Some (y, 46 # s1)" "version_field s1 = Some (m, 46 # s2)"
    "version_field s2 = Some (d, s3)"
    by (auto simp: version_fields.simps version_separator_def neq_Nil_conv split: option.splits if_splits)
  with l show ?r
    by (auto simp: version_fields.simps version_separator_def neq_Nil_conv split: option.splits if_splits)
      (metis append_Cons append_take_drop_id list.exhaust)+
next
  assume ?r
  then show ?l
    by (elim exE conjE disjE) (simp_all add: version_fields.simps version_separator_def ascii_def)
qed

lemma unat_of_nat_u64: "n < 2 ^ 64 \<Longrightarrow> unat (of_nat n :: u64) = n"
  by (simp add: unat_of_nat)

lemma digits_small: "digits ds n \<Longrightarrow> n < 2 ^ 64"
  by (simp add: digits_def)

lemma digits_facts:
  "digits ds n \<Longrightarrow> unat (of_nat n :: u64) = n" "digits ds n \<Longrightarrow> ds \<noteq> []"
  by (simp_all add: digits_def unat_of_nat_u64)

lemma separators: "\<not> numeric 46" "\<not> numeric 43" "\<not> numeric (hd (ascii ''-build.'' @ s))"
  by (simp_all add: numeric_def ascii_def)

lemma version_field_digits: "digits ds n \<Longrightarrow> rest = [] \<or> \<not> numeric (hd rest) \<Longrightarrow> version_field (ds @ rest) = Some (of_nat n, rest)"
  using version_field_spec by blast

lemma version_fields_release:
  "version_fields 0 [] s = Some fs \<longleftrightarrow>
   (\<exists>y m d b ys ms ds. digits ys y \<and> digits ms m \<and> digits ds d \<and> fs = [of_nat y, of_nat m, of_nat d, of_nat b] \<and>
      (s = ys @ [46] @ ms @ [46] @ ds \<and> b = 0 \<or>
       (\<exists>bs. digits bs b \<and> (s = ys @ [46] @ ms @ [46] @ ds @ [43] @ bs \<or> s = ys @ [46] @ ms @ [46] @ ds @ ascii ''-build.'' @ bs))))"
  (is "?l \<longleftrightarrow> ?r")
proof
  assume ?l
  then obtain y s1 m s2 d s3 where "version_field s = Some (y, 46 # s1)" "version_field s1 = Some (m, 46 # s2)"
    "version_field s2 = Some (d, s3)"
    and last: "s3 = [] \<and> fs = [y, m, d, 0] \<or>
       (\<exists>s4 b. (s3 = [43] @ s4 \<or> s3 = ascii ''-build.'' @ s4) \<and> version_field s4 = Some (b, []) \<and> fs = [y, m, d, b])"
    unfolding version_fields_unroll by blast
  then obtain ys ny ms nm ds nd where front: "digits ys ny" "digits ms nm" "digits ds nd"
    "s = ys @ [46] @ ms @ [46] @ ds @ s3" "y = of_nat ny" "m = of_nat nm" "d = of_nat nd"
    by (auto simp: version_field_spec)
  from last show ?r
  proof (elim disjE exE conjE)
    assume "s3 = []" "fs = [y, m, d, 0]"
    then show ?r using front by (intro exI [of _ ny] exI [of _ nm] exI [of _ nd] exI [of _ 0]) auto
  next
    fix s4 b
    assume tail: "s3 = [43] @ s4" "version_field s4 = Some (b, [])" "fs = [y, m, d, b]"
    then obtain nb where "digits s4 nb" "b = of_nat nb" by (auto simp: version_field_spec)
    then show ?r using front tail by (intro exI [of _ ny] exI [of _ nm] exI [of _ nd] exI [of _ nb]) auto
  next
    fix s4 b
    assume tail: "s3 = ascii ''-build.'' @ s4" "version_field s4 = Some (b, [])" "fs = [y, m, d, b]"
    then obtain nb where "digits s4 nb" "b = of_nat nb" by (auto simp: version_field_spec)
    then show ?r using front tail by (intro exI [of _ ny] exI [of _ nm] exI [of _ nd] exI [of _ nb]) auto
  qed
next
  assume ?r
  then obtain y m d b ys ms ds where f: "digits ys y" "digits ms m" "digits ds d"
    and fs: "fs = [of_nat y, of_nat m, of_nat d, of_nat b]"
    and s: "s = ys @ [46] @ ms @ [46] @ ds \<and> b = 0 \<or>
       (\<exists>bs. digits bs b \<and> (s = ys @ [46] @ ms @ [46] @ ds @ [43] @ bs \<or> s = ys @ [46] @ ms @ [46] @ ds @ ascii ''-build.'' @ bs))"
    by blast
  then obtain s3 where s3: "s = ys @ 46 # ms @ 46 # ds @ s3" "s3 = [] \<or> \<not> numeric (hd s3)"
    and last: "s3 = [] \<and> b = 0 \<or> (\<exists>bs. digits bs b \<and> (s3 = [43] @ bs \<or> s3 = ascii ''-build.'' @ bs))"
    using separators by fastforce
  have "version_field s = Some (of_nat y, 46 # ms @ 46 # ds @ s3)" "version_field (ms @ 46 # ds @ s3) = Some (of_nat m, 46 # ds @ s3)"
    "version_field (ds @ s3) = Some (of_nat d, s3)"
    using f s3 separators by (auto intro!: version_field_digits)
  moreover have "version_field bs = Some (of_nat b, [])" if "digits bs b" for bs
    using version_field_digits [OF that, of "[]"] by simp
  ultimately show ?l unfolding version_fields_unroll using last fs by fastforce
qed

lemma wn_appimage_version_release:
  "wn_appimage_version (Some s) = Some fs \<longleftrightarrow>
   (\<exists>y m d b. release s (y, m, d, b) \<and> fs = [of_nat y, of_nat m, of_nat d, of_nat b])"
proof -
  have range: "(of_nat y :: u64) \<ge> 2000 \<longleftrightarrow> 2000 \<le> y" "(of_nat y :: u64) \<ge> 1 \<longleftrightarrow> 1 \<le> y" "(of_nat y :: u64) \<le> 12 \<longleftrightarrow> y \<le> 12"
    "(of_nat y :: u64) \<le> 31 \<longleftrightarrow> y \<le> 31" if "digits ys y" for ys y
    using digits_facts(1) [OF that] by (simp_all add: word_le_nat_alt)
  have checks: "[of_nat y, of_nat m, of_nat d, of_nat b] ! 0 \<ge> (2000 :: u64) \<and> [of_nat y, of_nat m, of_nat d, of_nat b] ! 1 \<ge> (1 :: u64) \<and>
      [of_nat y, of_nat m, of_nat d, of_nat b] ! 1 \<le> (12 :: u64) \<and> [of_nat y, of_nat m, of_nat d, of_nat b] ! 2 \<ge> (1 :: u64) \<and>
      [of_nat y, of_nat m, of_nat d, of_nat b] ! 2 \<le> (31 :: u64) \<longleftrightarrow>
      2000 \<le> y \<and> 1 \<le> m \<and> m \<le> 12 \<and> 1 \<le> d \<and> d \<le> 31"
    if "digits ys y" "digits ms m" "digits ds d" for ys y ms m ds d b
    using range [OF that(1)] range [OF that(2)] range [OF that(3)] by (simp add: numeral_2_eq_2)
  have unfold: "wn_appimage_version (Some s) = Some fs \<longleftrightarrow>
      version_fields 0 [] s = Some fs \<and> fs ! 0 \<ge> 2000 \<and> fs ! 1 \<ge> 1 \<and> fs ! 1 \<le> 12 \<and> fs ! 2 \<ge> 1 \<and> fs ! 2 \<le> 31"
  proof (cases "s = []")
    case True
    then show ?thesis by (simp add: wn_appimage_version_def version_fields.simps version_field_def)
  qed (auto simp: wn_appimage_version_def split: option.splits)
  show ?thesis
  proof
    assume "wn_appimage_version (Some s) = Some fs"
    then obtain y m d b ys ms ds where f: "digits ys y" "digits ms m" "digits ds d"
      "fs = [of_nat y, of_nat m, of_nat d, of_nat b]"
      "s = ys @ [46] @ ms @ [46] @ ds \<and> b = 0 \<or>
       (\<exists>bs. digits bs b \<and> (s = ys @ [46] @ ms @ [46] @ ds @ [43] @ bs \<or> s = ys @ [46] @ ms @ [46] @ ds @ ascii ''-build.'' @ bs))"
      and ok: "fs ! 0 \<ge> 2000 \<and> fs ! 1 \<ge> 1 \<and> fs ! 1 \<le> 12 \<and> fs ! 2 \<ge> 1 \<and> fs ! 2 \<le> 31"
      unfolding unfold version_fields_release by blast
    have "release s (y, m, d, b)"
      unfolding release_def prod.case using f(1,2,3,5) ok [unfolded f(4) checks [OF f(1,2,3)]] by blast
    then show "\<exists>y m d b. release s (y, m, d, b) \<and> fs = [of_nat y, of_nat m, of_nat d, of_nat b]" using f(4) by blast
  next
    assume "\<exists>y m d b. release s (y, m, d, b) \<and> fs = [of_nat y, of_nat m, of_nat d, of_nat b]"
    then obtain y m d b where r: "release s (y, m, d, b)" and fs: "fs = [of_nat y, of_nat m, of_nat d, of_nat b]" by blast
    from r obtain ys ms ds where f: "digits ys y" "digits ms m" "digits ds d"
      and ok: "2000 \<le> y \<and> 1 \<le> m \<and> m \<le> 12 \<and> 1 \<le> d \<and> d \<le> 31"
      and s: "s = ys @ [46] @ ms @ [46] @ ds \<and> b = 0 \<or>
       (\<exists>bs. digits bs b \<and> (s = ys @ [46] @ ms @ [46] @ ds @ [43] @ bs \<or> s = ys @ [46] @ ms @ [46] @ ds @ ascii ''-build.'' @ bs))"
      unfolding release_def prod.case by blast
    show "wn_appimage_version (Some s) = Some fs"
      unfolding unfold unfolding version_fields_release fs checks [OF f] using f s ok by blast
  qed
qed

section \<open>The order of versions\<close>

lemma release_small:
  "release s (y, m, d, b) \<Longrightarrow> y < 2 ^ 64 \<and> m < 2 ^ 64 \<and> d < 2 ^ 64 \<and> b < 2 ^ 64"
  unfolding release_def prod.case by (elim exE conjE disjE) (simp_all add: digits_def)

lemma of_nat_u64_less: "m < 2 ^ 64 \<Longrightarrow> n < 2 ^ 64 \<Longrightarrow> (of_nat m :: u64) < of_nat n \<longleftrightarrow> m < n"
  by (simp add: word_less_nat_alt unat_of_nat_u64)

lemma of_nat_u64_eq: "m < 2 ^ 64 \<Longrightarrow> n < 2 ^ 64 \<Longrightarrow> (of_nat m :: u64) = of_nat n \<longleftrightarrow> m = n"
  by (metis unat_of_nat_u64)

lemma newer_fields_order:
  assumes "y < 2 ^ 64 \<and> m < 2 ^ 64 \<and> d < 2 ^ 64 \<and> b < 2 ^ 64" "y' < 2 ^ 64 \<and> m' < 2 ^ 64 \<and> d' < 2 ^ 64 \<and> b' < 2 ^ 64"
  shows "newer_fields [of_nat y, of_nat m, of_nat d, of_nat b] [of_nat y', of_nat m', of_nat d', of_nat b'] \<longleftrightarrow>
    (y, m, d, b) < (y', m', d', b')"
  using assms by (simp only: newer_fields.simps of_nat_u64_less of_nat_u64_eq less_prod_simp) auto

lemma release_unique: "release s f \<Longrightarrow> release s g \<Longrightarrow> f = g"
proof -
  assume f: "release s f" and g: "release s g"
  obtain y m d b y' m' d' b' where fg: "f = (y, m, d, b)" "g = (y', m', d', b')" by (cases f; cases g) auto
  have "wn_appimage_version (Some s) = Some [of_nat y, of_nat m, of_nat d, of_nat b]"
    "wn_appimage_version (Some s) = Some [of_nat y', of_nat m', of_nat d', of_nat b']"
    using f g fg wn_appimage_version_release by blast+
  then show ?thesis
    using release_small [OF f [unfolded fg]] release_small [OF g [unfolded fg]] by (simp add: fg of_nat_u64_eq)
qed

lemma wn_appimage_newer_release:
  "wn_appimage_newer (Some old) (Some new) \<longleftrightarrow> (\<exists>f g. release old f \<and> release new g \<and> f < g)"
proof
  assume "wn_appimage_newer (Some old) (Some new)"
  then obtain fs gs where v: "wn_appimage_version (Some old) = Some fs" "wn_appimage_version (Some new) = Some gs"
    and less: "newer_fields fs gs"
    by (auto simp: wn_appimage_newer_def split: option.splits)
  then obtain y m d b y' m' d' b' where f: "release old (y, m, d, b)" "fs = [of_nat y, of_nat m, of_nat d, of_nat b]"
    and g: "release new (y', m', d', b')" "gs = [of_nat y', of_nat m', of_nat d', of_nat b']"
    unfolding wn_appimage_version_release by blast
  have "(y, m, d, b) < (y', m', d', b')"
    using less unfolding f(2) g(2) newer_fields_order [OF release_small [OF f(1)] release_small [OF g(1)]] .
  then show "\<exists>f g. release old f \<and> release new g \<and> f < g" using f g by blast
next
  assume "\<exists>f g. release old f \<and> release new g \<and> f < g"
  then obtain y m d b y' m' d' b' where f: "release old (y, m, d, b)" and g: "release new (y', m', d', b')"
    and less: "(y, m, d, b) < (y', m', d', b')"
    by (metis (no_types) prod_cases4)
  have "wn_appimage_version (Some old) = Some [of_nat y, of_nat m, of_nat d, of_nat b]"
    "wn_appimage_version (Some new) = Some [of_nat y', of_nat m', of_nat d', of_nat b']"
    using f g wn_appimage_version_release by blast+
  then show "wn_appimage_newer (Some old) (Some new)"
    using newer_fields_order [OF release_small [OF f] release_small [OF g]] less by (simp add: wn_appimage_newer_def)
qed

lemma newer_texts: "wn_appimage_newer a b \<Longrightarrow> (\<exists>s t. a = Some s \<and> b = Some t)"
  by (cases a; cases b) (auto simp: wn_appimage_newer_def wn_appimage_version_def split: option.splits)

text \<open>
  C18. Releases are ordered by their numbers, never as strings: \<open>wn_appimage_newer\<close> holds exactly for two texts of
  the release grammar - year, month, day and an optional build, of any number of digits that fit 64
  bits - whose numbers increase lexicographically, whatever leading zeros or build separator they use; it
  is a strict order, so no chain of updates returns to a version.
\<close>

theorem newer_is_release_order:
  "(wn_appimage_newer a b \<longleftrightarrow> (\<exists>old new f g. a = Some old \<and> b = Some new \<and> release old f \<and> release new g \<and> f < g)) \<and>
   (wn_appimage_newer a b \<and> wn_appimage_newer b c \<longrightarrow> wn_appimage_newer a c) \<and> \<not> wn_appimage_newer a a"
proof (intro conjI impI)
  show "wn_appimage_newer a b \<longleftrightarrow> (\<exists>old new f g. a = Some old \<and> b = Some new \<and> release old f \<and> release new g \<and> f < g)"
    (is "?l \<longleftrightarrow> ?r")
  proof
    assume l: ?l
    then obtain s t where texts: "a = Some s" "b = Some t" using newer_texts by blast
    have "\<exists>f g. release s f \<and> release t g \<and> f < g" using l unfolding texts wn_appimage_newer_release .
    then show ?r using texts by blast
  next
    assume ?r
    then obtain old new f g where texts: "a = Some old" "b = Some new" and "release old f" "release new g" "f < g" by blast
    then show ?l unfolding texts wn_appimage_newer_release by blast
  qed
next
  assume ab: "wn_appimage_newer a b \<and> wn_appimage_newer b c"
  then obtain s t u where texts: "a = Some s" "b = Some t" "c = Some u" using newer_texts by blast
  then obtain f g g' h where "release s f" "release t g" "f < g" "release t g'" "release u h" "g' < h"
    using ab unfolding texts wn_appimage_newer_release by blast
  moreover from this have "g = g'" using release_unique by blast
  ultimately have "f < h" by simp
  then show "wn_appimage_newer a c" unfolding texts wn_appimage_newer_release
    using \<open>release s f\<close> \<open>release u h\<close> by blast
next
  show "\<not> wn_appimage_newer a a"
  proof
    assume aa: "wn_appimage_newer a a"
    then obtain s where s: "a = Some s" using newer_texts by blast
    then obtain f g where "release s f" "release s g" "f < g" using aa unfolding s wn_appimage_newer_release by blast
    moreover from this have "f = g" using release_unique by blast
    ultimately show False by simp
  qed
qed

lemma sample_versions:
  "wn_appimage_newer (Some (ascii ''2024.9.30'')) (Some (ascii ''2024.10.2''))"
  "wn_appimage_newer (Some (ascii ''2024.10.2'')) (Some (ascii ''2024.10.02-build.7''))"
  by (simp_all add: ascii_def wn_appimage_newer_def wn_appimage_version_def version_fields.simps version_field_def
      version_separator_def numeric_def UINT64_MAX_def)

lemma newer_is_release_order_witness:
  "wn_appimage_newer (Some (ascii ''2024.9.30'')) (Some (ascii ''2024.10.02-build.7''))"
  using newer_is_release_order sample_versions by blast

section \<open>The test feed and the directories\<close>

lemma feed_port_spec:
  "feed_port n port s = Some (m, port', rest) \<longleftrightarrow>
   (\<exists>ds. s = ds @ rest \<and> (\<forall>c\<in>set ds. numeric c) \<and> (rest = [] \<or> \<not> numeric (hd rest)) \<and> m = n + length ds \<and> (ds = [] \<or> m \<le> 5) \<and>
      port' = foldl (\<lambda>p c. p * 10 + ucast (c - 48)) port ds)"
  (is "_ \<longleftrightarrow> ?r n port s")
proof (induction n port s rule: feed_port.induct)
  case (1 n port)
  then show ?case by auto
next
  case (2 n port c s)
  show ?case
  proof (cases "numeric c")
    case False
    have "?r n port (c # s) \<longleftrightarrow> m = n \<and> port' = port \<and> rest = c # s"
    proof
      assume "?r n port (c # s)"
      then obtain ds where ds: "c # s = ds @ rest" "\<forall>c\<in>set ds. numeric c" "m = n + length ds"
        "port' = foldl (\<lambda>p c. p * 10 + ucast (c - 48)) port ds" by blast
      then have "ds = []" using False by (cases ds) auto
      then show "m = n \<and> port' = port \<and> rest = c # s" using ds by simp
    next
      assume "m = n \<and> port' = port \<and> rest = c # s"
      then show "?r n port (c # s)" using False by (intro exI [of _ "[]"]) simp
    qed
    then show ?thesis using False by auto
  next
    case True
    have "?r n port (c # s) \<longleftrightarrow> n + 1 \<le> 5 \<and> ?r (n + 1) (port * 10 + ucast (c - 48)) s"
    proof
      assume "?r n port (c # s)"
      then obtain ds where ds: "c # s = ds @ rest" "\<forall>c\<in>set ds. numeric c" "rest = [] \<or> \<not> numeric (hd rest)"
        "m = n + length ds" "ds = [] \<or> m \<le> 5" "port' = foldl (\<lambda>p c. p * 10 + ucast (c - 48)) port ds" by blast
      then obtain es where "ds = c # es" using True by (cases ds) auto
      then show "n + 1 \<le> 5 \<and> ?r (n + 1) (port * 10 + ucast (c - 48)) s" using ds by auto
    next
      assume r: "n + 1 \<le> 5 \<and> ?r (n + 1) (port * 10 + ucast (c - 48)) s"
      then obtain ds where "s = ds @ rest" "\<forall>c\<in>set ds. numeric c" "rest = [] \<or> \<not> numeric (hd rest)"
        "m = n + 1 + length ds" "ds = [] \<or> m \<le> 5" "port' = foldl (\<lambda>p c. p * 10 + ucast (c - 48)) (port * 10 + ucast (c - 48)) ds" by blast
      then show "?r n port (c # s)" using True r by (intro exI [of _ "c # ds"]) auto
    qed
    then show ?thesis using 2 True by auto
  qed
qed

text \<open>A test feed names the loopback interface and a port, or a file: no other host is ever accepted.\<close>

lemma test_feed_local:
  assumes "wn_appimage_test_feed (Some url)"
  shows "(\<exists>host\<in>{ascii ''http://127.0.0.1:'', ascii ''http://[::1]:''}. \<exists>ds path.
      url = host @ ds @ [47] @ path \<and> ds \<noteq> [] \<and> length ds \<le> 5 \<and> (\<forall>c\<in>set ds. numeric c) \<and> one_line path) \<or>
    (\<exists>path. url = ascii ''file:///'' @ path \<and> one_line path)"
proof (cases "feed_host url")
  case None
  then have "take 8 url = ascii ''file:///''" "one_line url"
    using assms by (simp_all add: wn_appimage_test_feed_def split: if_splits)
  moreover have "length (ascii ''file:///'') = 8" by simp
  ultimately have "take (length (ascii ''file:///'')) url = ascii ''file:///''" "one_line url" by (simp_all only:)
  then show ?thesis unfolding take_prefix_iff by (auto simp: one_line_def)
next
  case (Some tail)
  then have url: "\<exists>host\<in>{ascii ''http://127.0.0.1:'', ascii ''http://[::1]:''}. url = host @ tail"
  proof (cases "take 17 url = ascii ''http://127.0.0.1:''")
    case True
    then have "url = ascii ''http://127.0.0.1:'' @ tail"
      using Some append_take_drop_id [of 17 url] by (simp add: feed_host_def)
    then show ?thesis by blast
  next
    case False
    then have "url = ascii ''http://[::1]:'' @ tail"
      using Some by (simp add: feed_host_def split: if_splits) (metis append_take_drop_id)
    then show ?thesis by blast
  qed
  obtain m port rest where "feed_port 0 0 tail = Some (m, port, rest)" "m \<noteq> 0" "rest \<noteq> []" "hd rest = 47" "one_line rest"
    using assms Some by (auto simp: wn_appimage_test_feed_def split: option.splits if_splits)
  then obtain ds where "tail = ds @ rest" "\<forall>c\<in>set ds. numeric c" "ds \<noteq> []" "length ds \<le> 5" "rest = 47 # tl rest" "one_line (tl rest)"
    unfolding feed_port_spec by (cases rest) (auto simp: one_line_def)
  then show ?thesis using url by (intro disjI1) (metis append_Cons append_Nil append_assoc)
qed

text \<open>The root directory itself is not among the directories the check looks at.\<close>

lemma root_unchecked: "ancestors (ascii ''/opt/wn'') = [ascii ''/opt'', ascii ''/opt/wn'']"
  by (simp add: ancestors_def ascii_def upt_rec)

end
