(* ===== verification/Update_Stage.thy ===== *)
theory Update_Stage
  imports Update_Policy Sandbox_Authority
begin

text \<open>
  The private workspace of the AppImage updater (\<open>app/appimage_update_client.c\<close>): \<open>copy_file\<close>, \<open>stage_helper\<close>
  and \<open>cleanup_stage\<close>. The workspace is the tree of its entries, None when it does not exist; the kernel's
  answers are parameters.
\<close>

section \<open>Copying a file\<close>

record file_env =
  fc_in :: "errno + int"
  fc_out :: "errno + int"
  fc_io :: "io_answer list"
  fc_bytes :: "byte list"
  fc_sync :: bool

text \<open>The two loops: whether they succeeded and what the destination holds. An interrupted \<open>read\<close> is a failure.\<close>

function copy_blocks :: "io_answer list \<Rightarrow> byte list \<Rightarrow> byte list \<Rightarrow> (bool \<times> byte list) option" where
  "copy_blocks as source written =
     (case as of
        [] \<Rightarrow> None
      | Io_Error e # as \<Rightarrow> Some (False, written)
      | Io_Count n # as \<Rightarrow>
          let bs = take (min (max 1 n) 65536) source in
          if bs = [] then Some (True, written)
          else
            (case write_chunk as bs written of
               None \<Rightarrow> None
             | Some (False, written, as) \<Rightarrow> Some (False, written)
             | Some (True, written, as) \<Rightarrow> copy_blocks as (drop (length bs) source) written))"
  by pat_completeness auto

termination
  by (relation "measure (\<lambda>(as, _). length as)") (auto dest!: write_chunk_shorter)

declare copy_blocks.simps [simp del]

text \<open>Whether it succeeded, the new file's bytes (None: it was not created), and the descriptors.\<close>

definition copy_file :: "file_env \<Rightarrow> (bool \<times> byte list option \<times> event list) option" where
  "copy_file env =
     (case fc_in env of
        Inl e \<Rightarrow> Some (False, None, [])
      | Inr input \<Rightarrow>
          (case fc_out env of
             Inl e \<Rightarrow> Some (False, None, [Fd_Open input, Fd_Close input])
           | Inr out \<Rightarrow>
               (case copy_blocks (fc_io env) (fc_bytes env) [] of
                  None \<Rightarrow> None
                | Some (ok, written) \<Rightarrow>
                    Some (ok \<and> fc_sync env, Some written, [Fd_Open input, Fd_Open out, Fd_Close input, Fd_Close out]))))"

lemma copy_blocks_Cons:
  "copy_blocks (Io_Error e # as) source written = Some (False, written)"
  "copy_blocks (Io_Count n # as) source written =
     (let bs = take (min (max 1 n) 65536) source in
      if bs = [] then Some (True, written)
      else
        (case write_chunk as bs written of
           None \<Rightarrow> None
         | Some (False, written, as) \<Rightarrow> Some (False, written)
         | Some (True, written, as) \<Rightarrow> copy_blocks as (drop (length bs) source) written))"
  by (subst copy_blocks.simps, simp add: Let_def)+

lemma copy_blocks_sound:
  "copy_blocks as source written = Some (ok, out) \<Longrightarrow> \<exists>k. out = written @ take k source \<and> (ok \<longrightarrow> out = written @ source)"
proof (induction as arbitrary: source written rule: length_induct)
  case (1 as)
  consider (nothing_left) "as = []" | (error) e as1 where "as = Io_Error e # as1" | (read) n as1 where "as = Io_Count n # as1"
    by (metis io_answer.exhaust list.exhaust)
  then show ?case
  proof cases
    case nothing_left
    then show ?thesis using 1(2) by (simp add: copy_blocks.simps)
  next
    case error
    then show ?thesis using 1(2) by (auto simp: copy_blocks_Cons intro: exI [of _ 0])
  next
    case (read n as1)
    define bs where "bs = take (min (max 1 n) 65536) source"
    have step: "(if bs = [] then Some (True, written)
        else (case write_chunk as1 bs written of
            None \<Rightarrow> None
          | Some (False, written, as) \<Rightarrow> Some (False, written)
          | Some (True, written, as) \<Rightarrow> copy_blocks as (drop (length bs) source) written)) = Some (ok, out)"
      using 1(2) unfolding read copy_blocks_Cons Let_def bs_def .
    show ?thesis
    proof (cases "bs = []")
      case True
      then have "source = []" by (auto simp: bs_def)
      then show ?thesis using step True by (auto intro: exI [of _ 0])
    next
      case False
      obtain r w as2 where w: "write_chunk as1 bs written = Some (r, w, as2)"
        using step False by (auto split: option.splits)
      obtain k where k: "w = written @ take k bs" "r \<longrightarrow> w = written @ bs" using write_chunk_prefix [OF w] by blast
      have split: "bs @ drop (length bs) source = source" by (simp only: bs_def take_drop_length)
      show ?thesis
      proof (cases r)
        case True
        then have "copy_blocks as2 (drop (length bs) source) w = Some (ok, out)"
          using step False w by simp
        moreover have "length as2 < length as" using write_chunk_shorter [OF w] read by simp
        ultimately obtain k' where "out = w @ take k' (drop (length bs) source)" "ok \<longrightarrow> out = w @ drop (length bs) source"
          using 1(1) by blast
        moreover have "w = written @ bs" using True k(2) by simp
        moreover have "bs @ take k' (drop (length bs) source) = take (length bs + k') source"
          using split by (metis append_eq_conv_conj take_add)
        ultimately have "out = written @ take (length bs + k') source" "ok \<longrightarrow> out = written @ source"
          using split by (simp_all only: append_assoc)
        then show ?thesis by blast
      next
        case False2: False
        then have out: "ok = False" "out = w" using step False w by auto
        have "take k bs = take (min k (min (max 1 n) 65536)) source" by (simp only: bs_def take_take)
        then show ?thesis using out k(1) by blast
      qed
    qed
  qed
qed

section \<open>The workspace\<close>

type_synonym tree = "(cstring \<times> node) list"

definition lib_name :: cstring where "lib_name = ascii ''lib''"

definition entry_path :: "cstring \<Rightarrow> cstring \<Rightarrow> cstring" where
  "entry_path directory name = directory @ [47] @ name"

text \<open>Which calls of the removal fail, by path: \<open>opendir\<close>, \<open>unlink\<close> and \<open>rmdir\<close>.\<close>

record remove_env =
  rv_open :: "cstring \<Rightarrow> bool"
  rv_unlink :: "cstring \<Rightarrow> bool"
  rv_rmdir :: "cstring \<Rightarrow> bool"

text \<open>One directory: what is left after \<open>unlink\<close> of every entry not skipped. A directory cannot be unlinked.\<close>

definition unlink_entries :: "remove_env \<Rightarrow> (cstring \<Rightarrow> bool) \<Rightarrow> cstring \<Rightarrow> tree \<Rightarrow> tree" where
  "unlink_entries env skipped directory entries =
     filter (\<lambda>(name, node).
         skipped name \<or> length (entry_path directory name) \<ge> PATH_MAX \<or> node \<noteq> Leaf \<or> rv_unlink env (entry_path directory name))
       entries"

definition hidden_name :: "cstring \<Rightarrow> bool" where
  "hidden_name name \<longleftrightarrow> name \<noteq> [] \<and> hd name = 46"

text \<open>The first half: the library directory, removed when nothing is left in it.\<close>

fun cleanup_lib_entry :: "remove_env \<Rightarrow> cstring \<Rightarrow> cstring \<times> node \<Rightarrow> tree" where
  "cleanup_lib_entry env libs (name, Leaf) = [(name, Leaf)]"
| "cleanup_lib_entry env libs (name, Dir children) =
     (if name \<noteq> lib_name \<or> rv_open env libs then [(name, Dir children)]
      else
        let kept = unlink_entries env hidden_name libs children in
        if kept = [] \<and> \<not> rv_rmdir env libs then [] else [(name, Dir kept)])"

definition cleanup_lib :: "remove_env \<Rightarrow> cstring \<Rightarrow> tree \<Rightarrow> tree" where
  "cleanup_lib env libs entries = concat (map (cleanup_lib_entry env libs) entries)"

definition cleanup_stage :: "remove_env \<Rightarrow> cstring \<Rightarrow> tree option \<Rightarrow> tree option" where
  "cleanup_stage env stage workspace =
     (if stage = [] then workspace
      else
        let libs = entry_path stage lib_name in
        if length libs \<ge> PATH_MAX then workspace
        else
          (case workspace of
             None \<Rightarrow> None
           | Some entries \<Rightarrow>
               let entries = cleanup_lib env libs entries in
               if rv_open env stage then Some entries
               else
                 let entries = unlink_entries env dot_name stage entries in
                 if entries = [] \<and> \<not> rv_rmdir env stage then None else Some entries))"

section \<open>Staging the helper\<close>

datatype phase = OFF | IDLE | CHECKING | DOWNLOADING | READY | FAILED

datatype update_status = STATUS_NONE | STATUS_PROXY | STATUS_DIRECTORY | STATUS_HELPER | STATUS_UPDATE | STATUS_UNSAFE

text \<open>\<open>strrchr(path, '/')\<close>: what is before the last slash.\<close>

definition before_slash :: "cstring \<Rightarrow> cstring option" where
  "before_slash path = (if 47 \<in> set path then Some (rev (drop 1 (dropWhile (\<lambda>b. b \<noteq> 47) (rev path)))) else None)"

text \<open>
  What the kernel answers while staging: the directory check's calls, the name \<open>mkdtemp\<close> chose, \<open>mkdir\<close>,
  every copy by source, and the listing of the helper's libraries.
\<close>

record stage_env =
  sg_uid :: nat
  sg_realpath :: "cstring \<Rightarrow> errno + cstring"
  sg_lstat :: "cstring \<Rightarrow> errno + stat"
  sg_mkdtemp :: "errno + cstring"
  sg_mkdir :: bool
  sg_copy :: "cstring \<Rightarrow> file_env"
  sg_listing :: "cstring list option"

text \<open>The status stored (if any), success, \<open>client.stage\<close>, the workspace, and the two paths handed to the caller.\<close>

record staged =
  z_status :: "update_status option"
  z_ok :: bool
  z_stage :: cstring
  z_tree :: "tree option"
  z_executable :: cstring
  z_libs :: cstring

definition stage_failed :: "update_status option \<Rightarrow> cstring \<Rightarrow> tree option \<Rightarrow> staged" where
  "stage_failed status stage workspace =
     \<lparr>z_status = status, z_ok = False, z_stage = stage, z_tree = workspace, z_executable = [], z_libs = []\<rparr>"

text \<open>The loop over the listing: success and the files created in \<open>libs\<close>. None: a copy is still waiting.\<close>

fun copy_libraries :: "(cstring \<Rightarrow> file_env) \<Rightarrow> cstring \<Rightarrow> cstring \<Rightarrow> cstring list \<Rightarrow> (bool \<times> tree) option" where
  "copy_libraries copy source libs [] = Some (True, [])"
| "copy_libraries copy source libs (name # names) =
     (if hidden_name name then copy_libraries copy source libs names
      else if length (entry_path source name) \<ge> PATH_MAX \<or> length (entry_path libs name) \<ge> PATH_MAX then Some (False, [])
      else
        (case copy_file (copy (entry_path source name)) of
           None \<Rightarrow> None
         | Some (ok, bytes, es) \<Rightarrow>
             let created = (if bytes = None then [] else [(name, Leaf)]) in
             if \<not> ok then Some (False, created)
             else map_option (\<lambda>(ok, rest). (ok, created @ rest)) (copy_libraries copy source libs names)))"

definition executable_name :: cstring where "executable_name = ascii ''wn-appimage-update''"

definition stage_helper :: "stage_env \<Rightarrow> cstring \<Rightarrow> cstring \<Rightarrow> staged option" where
  "stage_helper env appimage helper =
     (case before_slash appimage of
        None \<Rightarrow> Some (stage_failed None [] None)
      | Some source \<Rightarrow>
          if length source \<ge> PATH_MAX then Some (stage_failed None [] None)
          else if \<not> wn_appimage_private_directory (sg_uid env) (sg_realpath env) (sg_lstat env) (Some source)
          then Some (stage_failed (Some STATUS_UNSAFE) [] None)
          else
            let template = take (PATH_MAX - 1) (source @ ascii ''/.wn-update-XXXXXX'') in
            if length (source @ ascii ''/.wn-update-XXXXXX'') \<ge> PATH_MAX then Some (stage_failed (Some STATUS_DIRECTORY) template None)
            else
              (case sg_mkdtemp env of
                 Inl e \<Rightarrow> Some (stage_failed (Some STATUS_DIRECTORY) template None)
               | Inr stage \<Rightarrow>
                   let executable = entry_path stage executable_name; libs = entry_path stage lib_name in
                   if length executable \<ge> PATH_MAX \<or> length libs \<ge> PATH_MAX \<or> sg_mkdir env
                   then Some (stage_failed None stage (Some []))
                   else
                     (case copy_file (sg_copy env helper) of
                        None \<Rightarrow> None
                      | Some (ok, bytes, es) \<Rightarrow>
                          let created = (if bytes = None then [] else [(executable_name, Leaf)]) in
                          if \<not> ok then Some (stage_failed None stage (Some ((lib_name, Dir []) # created)))
                          else
                            (case before_slash helper of
                               None \<Rightarrow> Some (stage_failed None stage (Some ((lib_name, Dir []) # created)))
                             | Some directory \<Rightarrow>
                                 let source = entry_path directory (ascii ''appimage-update-lib'') in
                                 if length source \<ge> PATH_MAX \<or> sg_listing env = None
                                 then Some (stage_failed None stage (Some ((lib_name, Dir []) # created)))
                                 else
                                   map_option (\<lambda>(ok, files).
                                       \<lparr>z_status = None, z_ok = ok, z_stage = stage, z_tree = Some ((lib_name, Dir files) # created),
                                        z_executable = executable, z_libs = libs\<rparr>)
                                     (copy_libraries (sg_copy env) source libs (the (sg_listing env)))))))"

section \<open>Staging and cleaning up\<close>

lemma copy_libraries_files:
  "copy_libraries copy source libs names = Some (ok, files) \<Longrightarrow>
   \<forall>(name, node)\<in>set files. node = Leaf \<and> \<not> hidden_name name \<and> length (entry_path libs name) < PATH_MAX"
  by (induction copy source libs names arbitrary: ok files rule: copy_libraries.induct)
    (fastforce simp: Let_def split: if_splits option.splits prod.splits)+

text \<open>A workspace as the worker leaves it: the library directory of plain files, plain files beside it.\<close>

definition plain_workspace :: "cstring \<Rightarrow> tree \<Rightarrow> bool" where
  "plain_workspace stage entries \<longleftrightarrow>
     (\<forall>(name, node)\<in>set entries. length (entry_path stage name) < PATH_MAX \<and> \<not> dot_name name \<and>
        (case node of
           Leaf \<Rightarrow> True
         | Dir children \<Rightarrow> name = lib_name \<and>
             (\<forall>(n, c)\<in>set children. c = Leaf \<and> \<not> hidden_name n \<and> length (entry_path (entry_path stage lib_name) n) < PATH_MAX)))"

lemma plain_names: "\<not> dot_name lib_name" "\<not> dot_name executable_name"
  by (simp_all add: dot_name_def lib_name_def executable_name_def ascii_def)

lemma stage_helper_plain:
  assumes "stage_helper env appimage helper = Some z" "z_tree z = Some entries"
  shows "plain_workspace (z_stage z) entries \<and> length (entry_path (z_stage z) lib_name) < PATH_MAX \<or> entries = []"
  using assms plain_names
  by (fastforce simp: stage_helper_def stage_failed_def plain_workspace_def Let_def
      split: option.splits sum.splits if_splits prod.splits dest: copy_libraries_files)

lemma cleanup_removes_all:
  assumes plain: "plain_workspace stage entries" and libs: "length (entry_path stage lib_name) < PATH_MAX" and stage: "stage \<noteq> []"
    and calls: "\<And>p. \<not> rv_open env p \<and> \<not> rv_unlink env p \<and> \<not> rv_rmdir env p"
  shows "cleanup_stage env stage (Some entries) = None"
proof -
  have "unlink_entries env hidden_name (entry_path stage lib_name) children = []"
    if "(name, Dir children) \<in> set entries" for name children
    using plain that calls by (fastforce simp: plain_workspace_def unlink_entries_def filter_empty_conv)
  moreover have "name = lib_name" if "(name, Dir children) \<in> set entries" for name children
    using plain that by (fastforce simp: plain_workspace_def)
  ultimately have "\<forall>e\<in>set (cleanup_lib_entry env (entry_path stage lib_name) (name, node)). e = (name, Leaf) \<and> node = Leaf"
    if "(name, node) \<in> set entries" for name node
    using that calls by (cases node) auto
  then have "\<forall>(name, node)\<in>set (cleanup_lib env (entry_path stage lib_name) entries). node = Leaf \<and> (name, node) \<in> set entries"
    by (fastforce simp: cleanup_lib_def)
  then have "unlink_entries env dot_name stage (cleanup_lib env (entry_path stage lib_name) entries) = []"
    using plain calls by (fastforce simp: unlink_entries_def filter_empty_conv plain_workspace_def)
  then show ?thesis using libs stage calls by (simp add: cleanup_stage_def Let_def)
qed

end
