(* ===== verification/Update_Client.thy ===== *)
theory Update_Client
  imports Update_Stage
begin

text \<open>
  The UI side of the AppImage updater (\<open>app/appimage_update_client.c\<close>): the calls the UI thread makes and
  the thread \<open>update_worker\<close>, which share the structure \<open>client\<close>. Both threads are programs of atomic steps,
  one access to a shared atomic field at most in each, and \<open>update_step\<close> interleaves them in any order.
\<close>

section \<open>The shared structure\<close>

record client =
  c_phase :: phase
  c_progress :: int
  c_stop :: bool
  c_apply :: bool
  c_active :: bool
  c_socket :: int
  c_automatic :: bool
  c_child :: int
  c_image :: cstring
  c_helper :: cstring
  c_home :: cstring
  c_stage :: cstring
  c_version :: cstring
  c_current :: cstring
  c_feed :: cstring
  c_status :: update_status

definition cleared_client :: client where
  "cleared_client = \<lparr>c_phase = OFF, c_progress = 0, c_stop = False, c_apply = False, c_active = False, c_socket = -1,
     c_automatic = False, c_child = 0, c_image = [], c_helper = [], c_home = [], c_stage = [], c_version = [], c_current = [],
     c_feed = [], c_status = STATUS_NONE\<rparr>"

text \<open>Where the two threads are. \<open>W_Phase\<close> and \<open>W_Done\<close> carry the phase still to be stored and the hand-over.\<close>

datatype worker_pc =
  W_Idle | W_Start | W_Check_Stop | W_Log | W_Fork | W_Stream | W_Read | W_Line cstring | W_Dispatch cstring | W_Phase phase |
  W_Failed | W_Fail_Stop | W_Fail_Load | W_Fail_Status | W_Fail_Phase | W_Clean | W_Done bool

datatype ui_pc =
  U_Idle | U_Check_Status | U_Check_Progress | U_Check_Phase | U_Check_Send | U_Check_Unsent | U_Check_Failed |
  U_Apply_Set | U_Apply_Send | U_Apply_Unset | U_Apply_Failed | U_Exit_Phase | U_Exit_Set | U_Exit_Send | U_Exit_Unset |
  U_Stop_Set | U_Stop_Shutdown | U_Join | U_Stopped

text \<open>
  The system: \<open>client\<close>, the two threads, the worker's own descriptors (-1: none) and its environment for
  the helper, the workspace, what happened so far, the lines read, and the last value returned to the UI.
\<close>

record system =
  y_client :: client
  y_worker :: worker_pc
  y_ui :: ui_pc
  y_channel :: int
  y_log :: int
  y_stream :: int
  y_environment :: "cstring list"
  y_arguments :: "cstring list"
  y_home :: cstring
  y_executable :: cstring
  y_libs :: cstring
  y_tree :: "tree option"
  y_trace :: "event list"
  y_lines :: "cstring list"
  y_result :: "int option"

abbreviation the_client :: "(client \<Rightarrow> client) \<Rightarrow> system \<Rightarrow> system" where
  "the_client f s \<equiv> s\<lparr>y_client := f (y_client s)\<rparr>"

section \<open>The worker\<close>

record worker_env =
  we_home :: "cstring option"
  we_stage :: stage_env
  we_log :: "errno + int"
  we_pid :: cstring
  we_calloc :: bool
  we_environ :: "cstring list"
  we_fork :: int
  we_dup :: int
  we_fdopen :: bool
  we_remove :: remove_env

text \<open>The helper's environment: the UI's without the loader variables, and the staged libraries.\<close>

definition helper_environment :: "cstring list \<Rightarrow> cstring \<Rightarrow> cstring list" where
  "helper_environment environ libs =
     filter (\<lambda>entry. \<not> (take 16 entry = ascii ''LD_LIBRARY_PATH='' \<or> take 11 entry = ascii ''LD_PRELOAD='')) environ @
     [take (PATH_MAX + 31) (ascii ''LD_LIBRARY_PATH='' @ libs)]"

definition helper_arguments :: "cstring \<Rightarrow> system \<Rightarrow> cstring list" where
  "helper_arguments pid s =
     (let c = y_client s in
      [y_executable s, c_image c, y_home s, c_current c, c_feed c, pid, c_stage c, if c_automatic c then [49] else [48]])"

text \<open>
  The child between \<open>fork\<close> and \<open>execve\<close>: the descriptors the helper is executed with, or None for
  \<open>_exit(127)\<close>. An entry carries its close-on-exec flag, which \<open>dup2\<close> clears on a new descriptor and leaves
  alone when both are the same; without \<open>close_range\<close> the loop closes up to 65535.
\<close>

definition dup2_flag :: "int \<Rightarrow> int \<Rightarrow> (int \<rightharpoonup> 'o \<times> bool) \<Rightarrow> (int \<rightharpoonup> 'o \<times> bool) option" where
  "dup2_flag fd target table =
     (case table fd of
        None \<Rightarrow> None
      | Some (obj, cloexec) \<Rightarrow> Some (if fd = target then table else table(target \<mapsto> (obj, False))))"

definition update_child ::
  "bool \<Rightarrow> bool \<Rightarrow> bool \<Rightarrow> int \<Rightarrow> int \<Rightarrow> (int \<rightharpoonup> 'o \<times> bool) \<Rightarrow> (int \<rightharpoonup> 'o) option" where
  "update_child setsid chdir close_range channel log table =
     (if \<not> setsid \<or> \<not> chdir then None
      else case dup2_flag channel 0 table of None \<Rightarrow> None | Some table \<Rightarrow>
        (case dup2_flag channel 1 table of None \<Rightarrow> None | Some table \<Rightarrow>
          (case dup2_flag log 2 table of None \<Rightarrow> None | Some table \<Rightarrow>
             let table = (\<lambda>fd. if 3 \<le> fd \<and> (close_range \<or> fd < 65536) then None else table fd)
             in Some (\<lambda>fd. case table fd of Some (obj, False) \<Rightarrow> Some obj | _ \<Rightarrow> None))))"

text \<open>\<open>atoi\<close>: white space, a sign, digits; the C library converts through a 64-bit value.\<close>

definition white :: "byte \<Rightarrow> bool" where
  "white b \<longleftrightarrow> b = 32 \<or> (9 \<le> b \<and> b \<le> 13)"

definition atoi :: "cstring \<Rightarrow> int" where
  "atoi s =
     (let s = dropWhile white s;
          negative = (s \<noteq> [] \<and> hd s = 45);
          ds = takeWhile numeric (if s \<noteq> [] \<and> (hd s = 45 \<or> hd s = 43) then tl s else s);
          n = int (digits_number 0 ds);
          clamped = (if negative then max (- (2 ^ 63)) (- n) else min (2 ^ 63 - 1) n)
      in sint (word_of_int clamped :: u32))"

definition VERSION_SIZE :: nat where "VERSION_SIZE = 128"

text \<open>\<open>strcspn(line + 2, "\r\n")\<close> bytes of a ready line.\<close>

definition announced :: "cstring \<Rightarrow> cstring" where
  "announced line = takeWhile (\<lambda>b. b \<noteq> 13 \<and> b \<noteq> 10) (drop 2 line)"

definition ready_line :: "cstring \<Rightarrow> bool" where
  "ready_line line \<longleftrightarrow> take 2 line = [82, 32]"

text \<open>Leaving the loop: \<open>fclose\<close>.\<close>

definition close_stream :: "worker_pc \<Rightarrow> system \<Rightarrow> system" where
  "close_stream pc s = s\<lparr>y_worker := pc, y_stream := -1, y_trace := y_trace s @ [Fd_Close (y_stream s)]\<rparr>"

text \<open>One line of the helper, as the chain of tests in the loop takes it.\<close>

definition dispatch_line :: "cstring \<Rightarrow> system \<Rightarrow> system" where
  "dispatch_line line s =
     (let first = (if line = [] then 0 else hd line) in
      if ready_line line then
        (if length (announced line) \<ge> VERSION_SIZE then close_stream W_Failed s
         else (the_client (c_version_update (\<lambda>_. announced line) \<circ> c_progress_update (\<lambda>_. 100)) s)\<lparr>y_worker := W_Phase READY\<rparr>)
      else if first = 80 then
        (let percent = atoi (tl line) in
         (the_client (c_progress_update (\<lambda>_. if percent < 0 then -1 else if percent > 100 then 100 else percent)) s)
           \<lparr>y_worker := W_Phase DOWNLOADING\<rparr>)
      else if first = 67 then (the_client (c_phase_update (\<lambda>_. CHECKING)) s)\<lparr>y_worker := W_Read\<rparr>
      else if first = 73 then (the_client (c_phase_update (\<lambda>_. IDLE)) s)\<lparr>y_worker := W_Read\<rparr>
      else if first = 69 then (the_client (c_status_update (\<lambda>_. STATUS_UPDATE)) s)\<lparr>y_worker := W_Phase FAILED\<rparr>
      else if first = 88 \<and> c_apply (y_client s) then close_stream (W_Done True) s
      else s\<lparr>y_worker := W_Read\<rparr>)"

text \<open>Setting up, from the private home to the stream.\<close>

definition worker_start :: "worker_env \<Rightarrow> system \<Rightarrow> system option" where
  "worker_start env s =
     (case we_home env of
        None \<Rightarrow> Some (s\<lparr>y_worker := W_Failed\<rparr>)
      | Some home \<Rightarrow>
          (case stage_helper (we_stage env) (c_image (y_client s)) (c_helper (y_client s)) of
             None \<Rightarrow> None
           | Some z \<Rightarrow>
             Some ((the_client (\<lambda>c. c\<lparr>c_stage := z_stage z,
                    c_status := (case z_status z of None \<Rightarrow> c_status c | Some status \<Rightarrow> status)\<rparr>) s)
               \<lparr>y_home := home, y_tree := z_tree z, y_executable := z_executable z, y_libs := z_libs z, y_worker := (if z_ok z then W_Check_Stop else W_Failed)\<rparr>)))"

definition log_name :: cstring where "log_name = ascii ''helper.log''"

definition worker_log :: "worker_env \<Rightarrow> system \<Rightarrow> system" where
  "worker_log env s =
     (if length (entry_path (c_stage (y_client s)) log_name) \<ge> PATH_MAX then s\<lparr>y_worker := W_Failed\<rparr>
      else
        (case we_log env of
           Inl e \<Rightarrow> s\<lparr>y_worker := W_Failed\<rparr>
         | Inr log \<Rightarrow>
             s\<lparr>y_tree := map_option (\<lambda>entries. entries @ [(log_name, Leaf)]) (y_tree s),
               y_log := log, y_trace := y_trace s @ [Fd_Open log],
               y_arguments := helper_arguments (we_pid env) s,
               y_environment := (if we_calloc env then helper_environment (we_environ env) (y_libs s) else []),
               y_worker := (if we_calloc env then W_Fork else W_Failed)\<rparr>))"

definition worker_fork :: "worker_env \<Rightarrow> system \<Rightarrow> system" where
  "worker_fork env s =
     (let s = (the_client (c_child_update (\<lambda>_. we_fork env)) s)
            \<lparr>y_trace := y_trace s @ (if we_fork env < 0 then [] else [Child_Spawned (we_fork env)]) @ [Fd_Close (y_log s)],
             y_log := -1\<rparr>
      in if we_fork env < 0 then s\<lparr>y_worker := W_Failed\<rparr>
         else s\<lparr>y_trace := y_trace s @ [Fd_Close (y_channel s)], y_channel := -1, y_worker := W_Stream\<rparr>)"

definition worker_stream :: "worker_env \<Rightarrow> system \<Rightarrow> system" where
  "worker_stream env s =
     (let s = s\<lparr>y_trace := y_trace s @ (if we_dup env < 0 then [] else [Fd_Open (we_dup env)])\<rparr> in
      if we_dup env < 0 \<or> \<not> we_fdopen env then s\<lparr>y_worker := W_Failed\<rparr>
      else s\<lparr>y_stream := we_dup env, y_worker := W_Read\<rparr>)"

text \<open>The label \<open>failed\<close>: descriptors, the helper and its group, the verdict, the workspace.\<close>

definition worker_failed :: "system \<Rightarrow> system" where
  "worker_failed s =
     (let child = c_child (y_client s);
          ended = (if child > 0 then [Group_Killed child, Child_Killed child, Child_Reaped child] else [])
      in (the_client (c_child_update (\<lambda>c. if c > 0 then 0 else c)) s)
           \<lparr>y_trace := y_trace s @ close_if_open (y_log s) @ close_if_open (y_channel s) @ ended,
            y_log := -1, y_channel := -1, y_worker := W_Fail_Stop\<rparr>)"

text \<open>
  One step of the worker. \<open>line\<close> is what \<open>fgets\<close> answers if it is called: None at the end of the stream,
  which a shut-down socket has reached once its lines are used up.
\<close>

definition worker_step :: "worker_env \<Rightarrow> cstring option \<Rightarrow> system \<Rightarrow> system option" where
  "worker_step env line s =
     (case y_worker s of
        W_Idle \<Rightarrow> None
      | W_Start \<Rightarrow> worker_start env s
      | W_Check_Stop \<Rightarrow> Some (s\<lparr>y_worker := (if c_stop (y_client s) then W_Failed else W_Log)\<rparr>)
      | W_Log \<Rightarrow> Some (worker_log env s)
      | W_Fork \<Rightarrow> Some (worker_fork env s)
      | W_Stream \<Rightarrow> Some (worker_stream env s)
      | W_Read \<Rightarrow>
          (case line of
             None \<Rightarrow> Some (close_stream W_Failed s)
           | Some line \<Rightarrow> Some (s\<lparr>y_lines := y_lines s @ [line], y_worker := W_Line line\<rparr>))
      | W_Line line \<Rightarrow>
          Some (if c_stop (y_client s) then close_stream W_Failed s else s\<lparr>y_worker := W_Dispatch line\<rparr>)
      | W_Dispatch line \<Rightarrow> Some (dispatch_line line s)
      | W_Phase phase \<Rightarrow> Some ((the_client (c_phase_update (\<lambda>_. phase)) s)\<lparr>y_worker := W_Read\<rparr>)
      | W_Failed \<Rightarrow> Some (worker_failed s)
      | W_Fail_Stop \<Rightarrow> Some (s\<lparr>y_worker := (if c_stop (y_client s) then W_Clean else W_Fail_Load)\<rparr>)
      | W_Fail_Load \<Rightarrow> Some (s\<lparr>y_worker := (if c_status (y_client s) = STATUS_NONE then W_Fail_Status else W_Fail_Phase)\<rparr>)
      | W_Fail_Status \<Rightarrow> Some ((the_client (c_status_update (\<lambda>_. STATUS_HELPER)) s)\<lparr>y_worker := W_Fail_Phase\<rparr>)
      | W_Fail_Phase \<Rightarrow> Some ((the_client (c_phase_update (\<lambda>_. FAILED)) s)\<lparr>y_worker := W_Clean\<rparr>)
      | W_Clean \<Rightarrow>
          Some (s\<lparr>y_tree := cleanup_stage (we_remove env) (c_stage (y_client s)) (y_tree s), y_worker := W_Done False\<rparr>)
      | W_Done handed \<Rightarrow> None)"

section \<open>The UI's calls\<close>

datatype ui_call = Call_Check | Call_Mode bool | Call_Apply | Call_Prepare_Exit | Call_Stop

text \<open>\<open>send\<close>: whether \<open>child_command\<close> delivers, if it is called; \<open>c_socket\<close> is not negative while active.\<close>

definition child_command :: "bool \<Rightarrow> system \<Rightarrow> bool" where
  "child_command send s \<longleftrightarrow> c_socket (y_client s) \<ge> 0 \<and> send"

definition ui_begin :: "ui_call \<Rightarrow> system \<Rightarrow> system" where
  "ui_begin call s =
     (let c = y_client s in
      case call of
        Call_Check \<Rightarrow> if \<not> c_active c \<or> c_phase c = READY then s else s\<lparr>y_ui := U_Check_Status\<rparr>
      | Call_Mode automatic \<Rightarrow> s
      | Call_Apply \<Rightarrow> if \<not> c_active c \<or> c_phase c \<noteq> READY then s\<lparr>y_result := Some 0\<rparr> else s\<lparr>y_ui := U_Apply_Set\<rparr>
      | Call_Prepare_Exit \<Rightarrow> if c_apply c then s\<lparr>y_result := Some 1\<rparr> else s\<lparr>y_ui := U_Exit_Phase\<rparr>
      | Call_Stop \<Rightarrow>
          if \<not> c_active c then s\<lparr>y_client := cleared_client, y_ui := U_Stopped\<rparr>
          else s\<lparr>y_ui := (if c_apply c then U_Join else U_Stop_Set)\<rparr>)"

definition ui_return :: "int \<Rightarrow> system \<Rightarrow> system" where
  "ui_return n s = s\<lparr>y_result := Some n, y_ui := U_Idle\<rparr>"

definition ui_step :: "ui_call \<Rightarrow> bool \<Rightarrow> system \<Rightarrow> system option" where
  "ui_step call send s =
     (case y_ui s of
        U_Idle \<Rightarrow> Some (ui_begin call s)
      | U_Check_Status \<Rightarrow> Some ((the_client (c_status_update (\<lambda>_. STATUS_NONE)) s)\<lparr>y_ui := U_Check_Progress\<rparr>)
      | U_Check_Progress \<Rightarrow> Some ((the_client (c_progress_update (\<lambda>_. -1)) s)\<lparr>y_ui := U_Check_Phase\<rparr>)
      | U_Check_Phase \<Rightarrow> Some ((the_client (c_phase_update (\<lambda>_. CHECKING)) s)\<lparr>y_ui := U_Check_Send\<rparr>)
      | U_Check_Send \<Rightarrow> Some (s\<lparr>y_ui := (if child_command send s then U_Idle else U_Check_Unsent)\<rparr>)
      | U_Check_Unsent \<Rightarrow> Some ((the_client (c_status_update (\<lambda>_. STATUS_HELPER)) s)\<lparr>y_ui := U_Check_Failed\<rparr>)
      | U_Check_Failed \<Rightarrow> Some ((the_client (c_phase_update (\<lambda>_. FAILED)) s)\<lparr>y_ui := U_Idle\<rparr>)
      | U_Apply_Set \<Rightarrow> Some ((the_client (c_apply_update (\<lambda>_. True)) s)\<lparr>y_ui := U_Apply_Send\<rparr>)
      | U_Apply_Send \<Rightarrow> Some (if child_command send s then ui_return 1 s else s\<lparr>y_ui := U_Apply_Unset\<rparr>)
      | U_Apply_Unset \<Rightarrow> Some ((the_client (c_apply_update (\<lambda>_. False)) s)\<lparr>y_ui := U_Apply_Failed\<rparr>)
      | U_Apply_Failed \<Rightarrow> Some (ui_return 0 (the_client (c_phase_update (\<lambda>_. FAILED)) s))
      | U_Exit_Phase \<Rightarrow>
          Some (if \<not> c_active (y_client s) \<or> c_phase (y_client s) \<noteq> READY then ui_return 0 s else s\<lparr>y_ui := U_Exit_Set\<rparr>)
      | U_Exit_Set \<Rightarrow> Some ((the_client (c_apply_update (\<lambda>_. True)) s)\<lparr>y_ui := U_Exit_Send\<rparr>)
      | U_Exit_Send \<Rightarrow> Some (if child_command send s then ui_return 1 s else s\<lparr>y_ui := U_Exit_Unset\<rparr>)
      | U_Exit_Unset \<Rightarrow> Some (ui_return 0 (the_client (c_apply_update (\<lambda>_. False)) s))
      | U_Stop_Set \<Rightarrow> Some ((the_client (c_stop_update (\<lambda>_. True)) s)\<lparr>y_ui := U_Stop_Shutdown\<rparr>)
      | U_Stop_Shutdown \<Rightarrow> Some (s\<lparr>y_ui := U_Join\<rparr>)
      | U_Join \<Rightarrow>
          (case y_worker s of
             W_Done handed \<Rightarrow>
               Some (s\<lparr>y_trace := y_trace s @ [Fd_Close (c_socket (y_client s))], y_client := cleared_client, y_ui := U_Stopped\<rparr>)
           | _ \<Rightarrow> None)
      | U_Stopped \<Rightarrow> None)"

text \<open>The getters.\<close>

definition phase_code :: "phase \<Rightarrow> int" where
  "phase_code p = (case p of OFF \<Rightarrow> 0 | IDLE \<Rightarrow> 1 | CHECKING \<Rightarrow> 2 | DOWNLOADING \<Rightarrow> 3 | READY \<Rightarrow> 4 | FAILED \<Rightarrow> 5)"

definition status_code :: "update_status \<Rightarrow> int" where
  "status_code st =
     (case st of STATUS_NONE \<Rightarrow> 0 | STATUS_PROXY \<Rightarrow> 1 | STATUS_DIRECTORY \<Rightarrow> 2 | STATUS_HELPER \<Rightarrow> 3 | STATUS_UPDATE \<Rightarrow> 4 | STATUS_UNSAFE \<Rightarrow> 5)"

definition wn_appimage_phase :: "client \<Rightarrow> int" where "wn_appimage_phase c = phase_code (c_phase c)"

definition wn_appimage_progress :: "client \<Rightarrow> int" where "wn_appimage_progress c = c_progress c"

definition wn_appimage_version_text :: "client \<Rightarrow> cstring" where "wn_appimage_version_text c = c_version c"

definition wn_appimage_status :: "client \<Rightarrow> int" where "wn_appimage_status c = status_code (c_status c)"

section \<open>Starting\<close>

record start_env =
  se_image :: "cstring option"
  se_appdir :: "cstring option"
  se_running :: "cstring option"
  se_proxy :: "cstring option"
  se_pair :: "(int \<times> int) option"
  se_thread :: bool

text \<open>The result, \<open>client\<close>, the worker's channel when a thread was started, and the descriptors.\<close>

definition wn_appimage_start ::
  "start_env \<Rightarrow> cstring \<Rightarrow> cstring \<Rightarrow> cstring \<Rightarrow> cstring \<Rightarrow> bool \<Rightarrow> client \<Rightarrow> int \<times> client \<times> int option \<times> event list" where
  "wn_appimage_start env helper home version feed automatic c =
     (if c_active c then (1, c, None, [])
      else
        (case (se_image env, se_appdir env, se_running env) of
           (Some appimage, Some appdir, Some running) \<Rightarrow>
             if take 1 appimage \<noteq> [47] \<or> take 1 appdir \<noteq> [47] \<or> running = [] then (0, c, None, [])
             else if take (length appdir) running \<noteq> appdir \<or> take 1 (drop (length appdir) running) \<noteq> [47] then (0, c, None, [])
             else if length appimage \<ge> PATH_MAX \<or> length helper \<ge> PATH_MAX \<or> length home \<ge> PATH_MAX \<or>
               length version \<ge> VERSION_SIZE \<or> length feed \<ge> 2048 then (0, cleared_client, None, [])
             else
               let c = cleared_client\<lparr>c_image := appimage, c_helper := helper, c_home := home, c_current := version, c_feed := feed,
                         c_automatic := automatic, c_progress := -1, c_phase := IDLE\<rparr>
               in if se_proxy env \<noteq> None \<and> se_proxy env \<noteq> Some []
                  then (1, c\<lparr>c_status := STATUS_PROXY, c_phase := FAILED\<rparr>, None, [])
                  else
                    (case se_pair env of
                       None \<Rightarrow> (1, c\<lparr>c_phase := FAILED\<rparr>, None, [])
                     | Some (near, far) \<Rightarrow>
                         if \<not> se_thread env
                         then (1, c\<lparr>c_phase := FAILED\<rparr>, None, [Fd_Open near, Fd_Open far, Fd_Close near, Fd_Close far])
                         else (1, c\<lparr>c_socket := near, c_active := True\<rparr>, Some far, [Fd_Open near, Fd_Open far]))
         | _ \<Rightarrow> (0, c, None, [])))"

definition started_system :: "client \<Rightarrow> int \<Rightarrow> event list \<Rightarrow> system" where
  "started_system c channel es = \<lparr>y_client = c, y_worker = W_Start, y_ui = U_Idle, y_channel = channel, y_log = -1, y_stream = -1,
     y_environment = [], y_arguments = [], y_home = [], y_executable = [], y_libs = [], y_tree = None, y_trace = es, y_lines = [],
     y_result = None\<rparr>"

section \<open>Both threads\<close>

text \<open>Any interleaving: the UI takes a step of the call it is in or begins any call, or the worker takes a step.\<close>

inductive update_step :: "worker_env \<Rightarrow> system \<Rightarrow> system \<Rightarrow> bool" for env where
  ui: "ui_step call send s = Some s' \<Longrightarrow> update_step env s s'"
| worker: "worker_step env line s = Some s' \<Longrightarrow> update_step env s s'"

inductive reachable :: "worker_env \<Rightarrow> system \<Rightarrow> system \<Rightarrow> bool" for env start where
  started: "reachable env start start"
| step: "reachable env start s \<Longrightarrow> update_step env s s' \<Longrightarrow> reachable env start s'"

inductive_cases update_stepE: "update_step env s s'"

lemmas update_defs = ui_begin_def ui_return_def close_stream_def dispatch_line_def worker_start_def worker_log_def
  worker_fork_def worker_stream_def worker_failed_def Let_def

lemma reachable_invariant:
  assumes "reachable env start s" "P start"
    and "\<And>call send s s'. P s \<Longrightarrow> ui_step call send s = Some s' \<Longrightarrow> P s'"
    and "\<And>line s s'. P s \<Longrightarrow> worker_step env line s = Some s' \<Longrightarrow> P s'"
  shows "P s"
  using assms(1)
proof (induction rule: reachable.induct)
  case started
  show ?case by (rule assms(2))
next
  case (step s s')
  from step(2) step(3) show ?case by (cases rule: update_step.cases) (blast intro: assms(3,4))+
qed

section \<open>The helper's descriptors\<close>

text \<open>Channel and log above the standard descriptors: the helper gets exactly those three.\<close>

lemma update_child_table:
  assumes "2 < channel" "2 < log" "table channel = Some (c, f)" "table log = Some (l, g)" "\<forall>fd<0. table fd = None"
    and "\<forall>fd\<ge>65536. table fd = None"
  shows "update_child True True close_range channel log table = Some ((\<lambda>_. None)(0 \<mapsto> c, 1 \<mapsto> c, 2 \<mapsto> l))"
proof -
  have "update_child True True close_range channel log table =
      Some (\<lambda>fd. case (if 3 \<le> fd \<and> (close_range \<or> fd < 65536) then None else (table(0 \<mapsto> (c, False), 1 \<mapsto> (c, False), 2 \<mapsto> (l, False))) fd)
        of Some (obj, False) \<Rightarrow> Some obj | _ \<Rightarrow> None)"
    using assms(1-4) by (simp add: update_child_def dup2_flag_def Let_def)
  also have "\<dots> = Some ((\<lambda>_. None)(0 \<mapsto> c, 1 \<mapsto> c, 2 \<mapsto> l))"
    using assms(5,6) by (auto simp: fun_eq_iff)
  finally show ?thesis .
qed

text \<open>
  A user interface started with its standard output closed gets the channel as descriptor 1; \<open>dup2\<close> then
  keeps its close-on-exec flag and the helper starts without a standard output.
\<close>

lemma low_channel_lost:
  "map_option (\<lambda>t. t 1) (update_child True True True 1 3 ((\<lambda>_. None)(1 \<mapsto> (c, True), 3 \<mapsto> (l, True)))) = Some None"
  by (simp add: update_child_def dup2_flag_def Let_def)

end
