(* ===== verification/Update_Threads.thy ===== *)
theory Update_Threads
  imports Update_Client
begin

text \<open>
  What holds of the updater's two threads under every interleaving: what a step of either leaves alone, and
  where the helper process stands.
\<close>

section \<open>The helper process\<close>

text \<open>What the trace says of the child, by where the worker is.\<close>

definition child_inv :: "system \<Rightarrow> bool" where
  "child_inv s \<longleftrightarrow>
     (if y_ui s = U_Stopped then (\<exists>handed. y_worker s = W_Done handed) else c_active (y_client s)) \<and>
     (let child = c_child (y_client s); run = child_run No_Child (y_trace s) in
      case y_worker s of
        W_Idle \<Rightarrow> False
      | W_Start \<Rightarrow> child = 0 \<and> run = Some No_Child
      | W_Check_Stop \<Rightarrow> child = 0 \<and> run = Some No_Child
      | W_Log \<Rightarrow> child = 0 \<and> run = Some No_Child
      | W_Fork \<Rightarrow> child = 0 \<and> run = Some No_Child
      | W_Stream \<Rightarrow> 0 < child \<and> run = Some (Live_Child child)
      | W_Read \<Rightarrow> 0 < child \<and> run = Some (Live_Child child)
      | W_Line line \<Rightarrow> 0 < child \<and> run = Some (Live_Child child)
      | W_Dispatch line \<Rightarrow> 0 < child \<and> run = Some (Live_Child child)
      | W_Phase phase \<Rightarrow> 0 < child \<and> run = Some (Live_Child child)
      | W_Failed \<Rightarrow> run = Some (if 0 < child then Live_Child child else No_Child)
      | W_Done True \<Rightarrow> (\<exists>pid. run = Some (Live_Child pid))
      | _ \<Rightarrow> run = Some No_Child \<or> run = Some Gone_Child)"

lemma child_run_fds [simp]:
  "child_run c (xs @ [Fd_Close fd]) = child_run c xs" "child_run c (xs @ [Fd_Open fd]) = child_run c xs"
  "child_run c (xs @ close_if_open fd) = child_run c xs"
  "child_run c (xs @ close_if_open fd @ ys) = child_run c (xs @ ys)"
proof -
  have step: "child_step c (Fd_Close fd) = Some c" "child_step c (Fd_Open fd) = Some c" for c fd by (cases c; simp)+
  show "child_run c (xs @ [Fd_Close fd]) = child_run c xs" "child_run c (xs @ [Fd_Open fd]) = child_run c xs"
    "child_run c (xs @ close_if_open fd) = child_run c xs"
    "child_run c (xs @ close_if_open fd @ ys) = child_run c (xs @ ys)"
    by (simp_all add: child_run_append step close_if_open_def split: option.splits)
qed

lemma child_run_fds2 [simp]:
  "child_run c (xs @ [Child_Spawned pid, Fd_Close fd]) = child_run c (xs @ [Child_Spawned pid])"
  using child_run_fds(1) [of c "xs @ [Child_Spawned pid]" fd] by simp

text \<open>What the UI's steps leave alone.\<close>

definition ui_keeps :: "system \<Rightarrow> system \<Rightarrow> bool" where
  "ui_keeps s s' \<longleftrightarrow>
     y_worker s' = y_worker s \<and> y_channel s' = y_channel s \<and> y_log s' = y_log s \<and> y_stream s' = y_stream s \<and>
     y_tree s' = y_tree s \<and> y_lines s' = y_lines s \<and>
     (y_ui s' \<noteq> U_Stopped \<and> y_trace s' = y_trace s \<and> c_child (y_client s') = c_child (y_client s) \<and>
        c_active (y_client s') \<and> c_stage (y_client s') = c_stage (y_client s) \<and> c_version (y_client s') = c_version (y_client s) \<and>
        c_socket (y_client s') = c_socket (y_client s) \<or>
      y_ui s' = U_Stopped \<and> (\<exists>handed. y_worker s = W_Done handed) \<and> y_trace s' = y_trace s @ [Fd_Close (c_socket (y_client s))] \<and>
        y_client s' = cleared_client)"

lemma ui_frame:
  assumes step: "ui_step call send s = Some s'" and active: "c_active (y_client s)"
  shows "ui_keeps s s'"
proof (cases "y_ui s")
  case U_Idle
  then show ?thesis using assms
    by (cases call) (auto simp: ui_step_def ui_begin_def ui_keeps_def Let_def split: if_splits)
next
  case U_Join
  then show ?thesis using assms by (cases "y_worker s") (auto simp: ui_step_def ui_keeps_def)
qed (use assms in \<open>auto simp: ui_step_def ui_return_def ui_keeps_def split: if_splits\<close>)

lemma ui_step_running: "ui_step call send s = Some s' \<Longrightarrow> y_ui s \<noteq> U_Stopped"
  by (auto simp: ui_step_def)

lemma child_inv_ui:
  assumes "child_inv s" "ui_step call send s = Some s'"
  shows "child_inv s'"
proof -
  have active: "c_active (y_client s)" using assms ui_step_running by (auto simp: child_inv_def split: if_splits)
  from ui_frame [OF assms(2) active] consider
    (going) "y_ui s' \<noteq> U_Stopped" "y_worker s' = y_worker s" "y_trace s' = y_trace s"
      "c_child (y_client s') = c_child (y_client s)" "c_active (y_client s')"
  | (stopped) handed where "y_ui s' = U_Stopped" "y_worker s = W_Done handed" "y_worker s' = W_Done handed"
      "y_trace s' = y_trace s @ [Fd_Close (c_socket (y_client s))]"
    by (auto simp: ui_keeps_def)
  then show ?thesis
  proof cases
    case going
    then show ?thesis using assms(1) active by (simp add: child_inv_def split: if_splits)
  next
    case stopped
    then show ?thesis using assms(1) by (cases handed) (auto simp: child_inv_def Let_def split: if_splits)
  qed
qed

text \<open>A line moves the worker to the next line, to a phase still to be stored, to the end or to the hand-over.\<close>

lemma dispatch_line_moves:
  "(y_worker (dispatch_line line s) = W_Read \<or> (\<exists>phase. y_worker (dispatch_line line s) = W_Phase phase)) \<and>
     y_trace (dispatch_line line s) = y_trace s \<and> y_stream (dispatch_line line s) = y_stream s \<or>
   dispatch_line line s = close_stream W_Failed s \<or>
   (dispatch_line line s = close_stream (W_Done True) s \<and> line \<noteq> [] \<and> hd line = 88 \<and> c_apply (y_client s))"
  by (cases "ready_line line"; cases "length (announced line) \<ge> VERSION_SIZE") (simp_all add: dispatch_line_def Let_def)

lemma dispatch_line_cases:
  obtains (moved) pc where "pc = W_Read \<or> (\<exists>phase. pc = W_Phase phase)" "y_worker (dispatch_line line s) = pc"
      "y_trace (dispatch_line line s) = y_trace s" "y_stream (dispatch_line line s) = y_stream s"
  | (closed) pc where "pc = W_Failed \<or> (pc = W_Done True \<and> line \<noteq> [] \<and> hd line = 88 \<and> c_apply (y_client s))"
      "dispatch_line line s = close_stream pc s"
  using dispatch_line_moves [of line s] by blast

lemma dispatch_line_frame:
  "y_ui (dispatch_line line s) = y_ui s" "y_channel (dispatch_line line s) = y_channel s" "y_log (dispatch_line line s) = y_log s"
  "y_tree (dispatch_line line s) = y_tree s" "y_lines (dispatch_line line s) = y_lines s"
  "c_child (y_client (dispatch_line line s)) = c_child (y_client s)" "c_active (y_client (dispatch_line line s)) = c_active (y_client s)"
  "c_stop (y_client (dispatch_line line s)) = c_stop (y_client s)" "c_apply (y_client (dispatch_line line s)) = c_apply (y_client s)"
  "c_stage (y_client (dispatch_line line s)) = c_stage (y_client s)" "c_socket (y_client (dispatch_line line s)) = c_socket (y_client s)"
  by (simp_all add: dispatch_line_def close_stream_def Let_def)

lemma worker_frame:
  assumes "worker_step env line s = Some s'"
  shows "y_ui s' = y_ui s \<and> c_active (y_client s') = c_active (y_client s) \<and> c_stop (y_client s') = c_stop (y_client s) \<and>
    c_apply (y_client s') = c_apply (y_client s) \<and> c_socket (y_client s') = c_socket (y_client s)"
  using assms
  by (cases "y_worker s")
    (auto simp: worker_step_def worker_start_def worker_log_def worker_fork_def worker_stream_def worker_failed_def close_stream_def
      dispatch_line_frame Let_def split: option.splits sum.splits if_splits)

lemma child_inv_worker:
  assumes fork: "we_fork env \<noteq> 0" and inv: "child_inv s" and step: "worker_step env line s = Some s'"
  shows "child_inv s'"
proof (cases "y_worker s")
  case (W_Dispatch l)
  then have s': "s' = dispatch_line l s" using step by (simp add: worker_step_def)
  show ?thesis
  proof (cases rule: dispatch_line_cases [of l s])
    case (moved pc)
    then show ?thesis using inv W_Dispatch unfolding s' by (auto simp: child_inv_def dispatch_line_frame Let_def split: if_splits)
  next
    case (closed pc)
    then show ?thesis using inv W_Dispatch unfolding s' by (auto simp: child_inv_def close_stream_def Let_def split: if_splits)
  qed
next
  case W_Start
  then show ?thesis using inv step
    by (auto simp: worker_step_def worker_start_def child_inv_def split: option.splits if_splits)
next
  case W_Log
  then show ?thesis using inv step
    by (auto simp: worker_step_def worker_log_def child_inv_def split: sum.splits if_splits)
next
  case W_Fork
  then show ?thesis using inv step fork
    by (auto simp: worker_step_def worker_fork_def child_inv_def Let_def child_run_append split: if_splits)
next
  case W_Stream
  then show ?thesis using inv step
    by (auto simp: worker_step_def worker_stream_def child_inv_def Let_def split: if_splits)
next
  case W_Failed
  then show ?thesis using inv step
    by (auto simp: worker_step_def worker_failed_def child_inv_def Let_def child_run_append split: if_splits)
qed (use inv step in \<open>auto simp: worker_step_def close_stream_def child_inv_def Let_def split: option.splits if_splits\<close>)

end
