(* ===== verification/Update_Descriptors.thy ===== *)
theory Update_Descriptors
  imports Update_Threads
begin

text \<open>
  The descriptors of the updater's two threads: under every interleaving each is closed exactly once.
\<close>

section \<open>The descriptors\<close>

definition held :: "system \<Rightarrow> int list" where
  "held s = filter (\<lambda>fd. 0 \<le> fd)
     ((if y_ui s = U_Stopped then [] else [c_socket (y_client s)]) @ [y_channel s, y_log s, y_stream s])"

fun worker_fds :: "worker_pc \<Rightarrow> int \<Rightarrow> int \<Rightarrow> int \<Rightarrow> bool" where
  "worker_fds W_Start channel log stream = (0 \<le> channel \<and> log < 0 \<and> stream < 0)"
| "worker_fds W_Check_Stop channel log stream = (0 \<le> channel \<and> log < 0 \<and> stream < 0)"
| "worker_fds W_Log channel log stream = (0 \<le> channel \<and> log < 0 \<and> stream < 0)"
| "worker_fds W_Fork channel log stream = (0 \<le> channel \<and> 0 \<le> log \<and> stream < 0)"
| "worker_fds W_Read channel log stream = (channel < 0 \<and> log < 0 \<and> 0 \<le> stream)"
| "worker_fds (W_Line line) channel log stream = (channel < 0 \<and> log < 0 \<and> 0 \<le> stream)"
| "worker_fds (W_Dispatch line) channel log stream = (channel < 0 \<and> log < 0 \<and> 0 \<le> stream)"
| "worker_fds (W_Phase phase) channel log stream = (channel < 0 \<and> log < 0 \<and> 0 \<le> stream)"
| "worker_fds W_Failed channel log stream = (stream < 0)"
| "worker_fds pc channel log stream = (channel < 0 \<and> log < 0 \<and> stream < 0)"

definition fd_inv :: "system \<Rightarrow> bool" where
  "fd_inv s \<longleftrightarrow>
     (if y_ui s = U_Stopped then (\<exists>handed. y_worker s = W_Done handed) else c_active (y_client s) \<and> 0 \<le> c_socket (y_client s)) \<and>
     worker_fds (y_worker s) (y_channel s) (y_log s) (y_stream s) \<and>
     (fresh_opens {} (y_trace s) \<longrightarrow>
        closes_held {} (y_trace s) \<and> open_after {} (y_trace s) = set (held s) \<and> distinct (held s))"

text \<open>The descriptors the kernel hands the worker.\<close>

definition worker_env_ok :: "worker_env \<Rightarrow> bool" where
  "worker_env_ok env \<longleftrightarrow> we_fork env \<noteq> 0 \<and> (\<forall>log. we_log env = Inr log \<longrightarrow> 0 \<le> log) \<and> (0 \<le> we_dup env \<longrightarrow> we_fdopen env)"

lemma trace_split:
  "fresh_opens {} (xs @ ys) \<longleftrightarrow> fresh_opens {} xs \<and> fresh_opens (open_after {} xs) ys"
  "closes_held {} (xs @ ys) \<longleftrightarrow> closes_held {} xs \<and> closes_held (open_after {} xs) ys"
  "open_after {} (xs @ ys) = open_after (open_after {} xs) ys"
  by (simp_all add: fresh_opens_append closes_held_append open_after_append)

lemma fd_inv_ui:
  assumes "fd_inv s" "ui_step call send s = Some s'"
  shows "fd_inv s'"
proof -
  have active: "c_active (y_client s)" "y_ui s \<noteq> U_Stopped"
    using assms ui_step_running by (auto simp: fd_inv_def split: if_splits)
  from ui_frame [OF assms(2) active(1)] consider
    (going) "y_ui s' \<noteq> U_Stopped" "y_worker s' = y_worker s" "y_trace s' = y_trace s" "c_active (y_client s')"
      "c_socket (y_client s') = c_socket (y_client s)" "y_channel s' = y_channel s" "y_log s' = y_log s" "y_stream s' = y_stream s"
  | (stopped) handed where "y_ui s' = U_Stopped" "y_worker s = W_Done handed" "y_worker s' = W_Done handed"
      "y_trace s' = y_trace s @ [Fd_Close (c_socket (y_client s))]" "y_channel s' = y_channel s" "y_log s' = y_log s"
      "y_stream s' = y_stream s"
    by (auto simp: ui_keeps_def)
  then show ?thesis
  proof cases
    case going
    then have "held s' = held s" using active by (simp add: held_def)
    then show ?thesis using assms(1) active going by (simp add: fd_inv_def)
  next
    case stopped
    then show ?thesis using assms(1) active by (auto simp: fd_inv_def held_def trace_split split: if_splits)
  qed
qed

lemma held_running:
  "y_ui s \<noteq> U_Stopped \<Longrightarrow> 0 \<le> c_socket (y_client s) \<Longrightarrow>
   held s = c_socket (y_client s) # (if 0 \<le> y_channel s then [y_channel s] else []) @ (if 0 \<le> y_log s then [y_log s] else []) @
     (if 0 \<le> y_stream s then [y_stream s] else [])"
  by (simp add: held_def)

text \<open>A step of the worker, with the descriptors it opens and closes.\<close>

lemma fd_inv_stepI:
  assumes "fd_inv s" "y_ui s \<noteq> U_Stopped" "worker_step env line s = Some s'" "y_trace s' = y_trace s @ es"
    and "worker_fds (y_worker s') (y_channel s') (y_log s') (y_stream s')"
    and "fresh_opens (set (held s)) es \<Longrightarrow> distinct (held s) \<Longrightarrow>
      closes_held (set (held s)) es \<and> open_after (set (held s)) es = set (held s') \<and> distinct (held s')"
  shows "fd_inv s'"
  using assms worker_frame [OF assms(3)] by (auto simp: fd_inv_def trace_split split: if_splits)

lemma fd_inv_running:
  assumes "fd_inv s" "worker_step env line s = Some s'"
  shows "y_ui s \<noteq> U_Stopped" "0 \<le> c_socket (y_client s)" "y_ui s' \<noteq> U_Stopped" "c_socket (y_client s') = c_socket (y_client s)"
    "worker_fds (y_worker s) (y_channel s) (y_log s) (y_stream s)"
proof -
  show run: "y_ui s \<noteq> U_Stopped" "0 \<le> c_socket (y_client s)"
    using assms by (auto simp: fd_inv_def worker_step_def split: if_splits)
  show "y_ui s' \<noteq> U_Stopped" "c_socket (y_client s') = c_socket (y_client s)"
    using worker_frame [OF assms(2)] run by simp_all
  show "worker_fds (y_worker s) (y_channel s) (y_log s) (y_stream s)" using assms(1) by (simp add: fd_inv_def)
qed

lemma fd_inv_quiet:
  assumes "fd_inv s" "worker_step env line s = Some s'"
    and "y_trace s' = y_trace s" "y_channel s' = y_channel s" "y_log s' = y_log s" "y_stream s' = y_stream s"
    and "worker_fds (y_worker s') (y_channel s) (y_log s) (y_stream s)"
  shows "fd_inv s'"
proof (rule fd_inv_stepI [OF assms(1) _ assms(2), of "[]"])
  show "y_ui s \<noteq> U_Stopped" using fd_inv_running [OF assms(1,2)] by simp
  have "held s' = held s" using fd_inv_running [OF assms(1,2)] assms(4-6) by (simp add: held_def)
  then show "closes_held (set (held s)) [] \<and> open_after (set (held s)) [] = set (held s') \<and> distinct (held s')"
    if "distinct (held s)" using that by simp
qed (use assms in simp_all)

lemma fd_inv_closing:
  assumes "fd_inv s" "worker_step env line s = Some s'" "s' = close_stream pc s" "pc = W_Failed \<or> pc = W_Done True"
    and "y_channel s < 0" "y_log s < 0" "0 \<le> y_stream s"
  shows "fd_inv s'"
proof (rule fd_inv_stepI [OF assms(1) _ assms(2), of "[Fd_Close (y_stream s)]"])
  note run = fd_inv_running [OF assms(1,2)]
  show "y_ui s \<noteq> U_Stopped" by (rule run)
  have "held s = [c_socket (y_client s), y_stream s]" "held s' = [c_socket (y_client s)]"
    using run assms(3-7) by (simp_all add: held_def close_stream_def)
  then show "closes_held (set (held s)) [Fd_Close (y_stream s)] \<and>
      open_after (set (held s)) [Fd_Close (y_stream s)] = set (held s') \<and> distinct (held s')" if "distinct (held s)"
    using that by auto
qed (use assms in \<open>auto simp: close_stream_def\<close>)

lemma fd_inv_log:
  assumes inv: "fd_inv s" and step: "worker_step env line s = Some s'" and pc: "y_worker s = W_Log" and ok: "worker_env_ok env"
  shows "fd_inv s'"
proof -
  note run = fd_inv_running [OF inv step]
  have s': "s' = worker_log env s" using step pc by (simp add: worker_step_def)
  consider (refused) "y_worker s' = W_Failed" "y_trace s' = y_trace s" "y_log s' = y_log s"
    | (opened) log where "we_log env = Inr log" "y_log s' = log" "y_trace s' = y_trace s @ [Fd_Open log]"
        "y_worker s' = W_Fork \<or> y_worker s' = W_Failed"
    unfolding s' by (cases "PATH_MAX \<le> length (entry_path (c_stage (y_client s)) log_name)"; cases "we_log env")
      (auto simp: worker_log_def)
  moreover have frame: "y_channel s' = y_channel s" "y_stream s' = y_stream s"
    unfolding s' by (auto simp: worker_log_def split: sum.splits)
  ultimately show ?thesis
  proof cases
    case refused
    then show ?thesis using run(5) pc frame by (intro fd_inv_quiet [OF inv step]) auto
  next
    case opened
    have log: "0 \<le> log" using opened ok by (simp add: worker_env_ok_def)
    show ?thesis
    proof (rule fd_inv_stepI [OF inv run(1) step opened(3)])
      show "worker_fds (y_worker s') (y_channel s') (y_log s') (y_stream s')" using opened frame run(5) pc log by auto
      have "held s = [c_socket (y_client s), y_channel s]" "held s' = [c_socket (y_client s), y_channel s, log]"
        using run pc frame opened log by (simp_all add: held_def)
      then show "closes_held (set (held s)) [Fd_Open log] \<and> open_after (set (held s)) [Fd_Open log] = set (held s') \<and> distinct (held s')"
        if "fresh_opens (set (held s)) [Fd_Open log]" "distinct (held s)"
        using that by auto
    qed
  qed
qed

lemma fd_inv_fork:
  assumes inv: "fd_inv s" and step: "worker_step env line s = Some s'" and pc: "y_worker s = W_Fork"
  shows "fd_inv s'"
proof -
  note run = fd_inv_running [OF inv step]
  have s': "s' = worker_fork env s" using step pc by (simp add: worker_step_def)
  have held: "held s = [c_socket (y_client s), y_channel s, y_log s]" using run pc by (simp add: held_def)
  show ?thesis
  proof (cases "we_fork env < 0")
    case True
    have "held s' = [c_socket (y_client s), y_channel s]"
      using run pc True by (simp add: held_def s' worker_fork_def)
    then show ?thesis using True run pc
      by (intro fd_inv_stepI [OF inv run(1) step, of "[Fd_Close (y_log s)]"]) (auto simp: s' worker_fork_def held)
  next
    case False
    have "held s' = [c_socket (y_client s)]"
      using run pc False by (simp add: held_def s' worker_fork_def)
    then show ?thesis using False run pc
      by (intro fd_inv_stepI [OF inv run(1) step, of "[Child_Spawned (we_fork env), Fd_Close (y_log s), Fd_Close (y_channel s)]"])
        (auto simp: s' worker_fork_def held)
  qed
qed

lemma fd_inv_stream:
  assumes inv: "fd_inv s" and step: "worker_step env line s = Some s'" and pc: "y_worker s = W_Stream" and ok: "worker_env_ok env"
  shows "fd_inv s'"
proof -
  note run = fd_inv_running [OF inv step]
  have s': "s' = worker_stream env s" using step pc by (simp add: worker_step_def)
  have held: "held s = [c_socket (y_client s)]" using run pc by (simp add: held_def)
  show ?thesis
  proof (cases "we_dup env < 0")
    case True
    then show ?thesis using run pc by (intro fd_inv_quiet [OF inv step]) (simp_all add: s' worker_stream_def)
  next
    case False
    then have "held s' = [c_socket (y_client s), we_dup env]"
      using run pc ok by (simp add: held_def s' worker_stream_def worker_env_ok_def)
    then show ?thesis using False run pc ok
      by (intro fd_inv_stepI [OF inv run(1) step, of "[Fd_Open (we_dup env)]"])
        (auto simp: s' worker_stream_def worker_env_ok_def held)
  qed
qed

lemma fd_inv_failed:
  assumes inv: "fd_inv s" and step: "worker_step env line s = Some s'" and pc: "y_worker s = W_Failed"
  shows "fd_inv s'"
proof -
  note run = fd_inv_running [OF inv step]
  have s': "s' = worker_failed s" using step pc by (simp add: worker_step_def)
  define ended where "ended = (let child = c_child (y_client s) in
    if child > 0 then [Group_Killed child, Child_Killed child, Child_Reaped child] else [])"
  have trace: "y_trace s' = y_trace s @ close_if_open (y_log s) @ close_if_open (y_channel s) @ ended"
    by (simp add: s' worker_failed_def ended_def Let_def)
  have quiet: "open_after fds (xs @ ended) = open_after fds xs" "closes_held fds (xs @ ended) = closes_held fds xs" for fds xs
    by (auto simp: ended_def open_after_append closes_held_append Let_def)
  have "held s' = [c_socket (y_client s)]" using run pc by (simp add: held_def s' worker_failed_def Let_def)
  moreover have "held s = c_socket (y_client s) # (if 0 \<le> y_channel s then [y_channel s] else []) @ (if 0 \<le> y_log s then [y_log s] else [])"
    using held_running [OF run(1,2)] run(5) pc by simp
  moreover have "worker_fds (y_worker s') (y_channel s') (y_log s') (y_stream s')"
    using run(5) pc by (simp add: s' worker_failed_def Let_def)
  ultimately show ?thesis
    by (intro fd_inv_stepI [OF inv run(1) step trace])
      (auto simp: close_if_open_def quiet quiet [of _ "[]", simplified] quiet [of _ "_ # _", simplified] split: if_splits)
qed

lemma fd_inv_worker:
  assumes ok: "worker_env_ok env" and inv: "fd_inv s" and step: "worker_step env line s = Some s'"
  shows "fd_inv s'"
proof (cases "y_worker s")
  case (W_Dispatch l)
  then have s': "s' = dispatch_line l s" using step by (simp add: worker_step_def)
  show ?thesis
  proof (cases rule: dispatch_line_cases [of l s])
    case (moved pc)
    then show ?thesis using fd_inv_running(5) [OF inv step] W_Dispatch
      by (intro fd_inv_quiet [OF inv step]) (auto simp: s' dispatch_line_frame)
  next
    case (closed pc)
    then show ?thesis using fd_inv_running(5) [OF inv step] W_Dispatch
      by (intro fd_inv_closing [OF inv step, of pc]) (auto simp: s')
  qed
next
  case W_Read
  note fds = fd_inv_running(5) [OF inv step, unfolded W_Read]
  show ?thesis
  proof (cases line)
    case None
    then show ?thesis using fds step W_Read
      by (intro fd_inv_closing [OF inv step, of W_Failed]) (simp_all add: worker_step_def)
  next
    case (Some l)
    then have "s' = s\<lparr>y_lines := y_lines s @ [l], y_worker := W_Line l\<rparr>" using step W_Read by (simp add: worker_step_def)
    then show ?thesis using fds by (intro fd_inv_quiet [OF inv step]) simp_all
  qed
next
  case (W_Line l)
  note fds = fd_inv_running(5) [OF inv step, unfolded W_Line]
  show ?thesis
  proof (cases "c_stop (y_client s)")
    case True
    then show ?thesis using fds step W_Line
      by (intro fd_inv_closing [OF inv step, of W_Failed]) (simp_all add: worker_step_def)
  next
    case False
    then have "s' = s\<lparr>y_worker := W_Dispatch l\<rparr>" using step W_Line by (simp add: worker_step_def)
    then show ?thesis using fds by (intro fd_inv_quiet [OF inv step]) simp_all
  qed
next
  case W_Start
  then show ?thesis using fd_inv_running(5) [OF inv step] step
    by (intro fd_inv_quiet [OF inv step]) (auto simp: worker_step_def worker_start_def split: option.splits)
next
  case W_Log
  then show ?thesis by (rule fd_inv_log [OF inv step _ ok])
next
  case W_Fork
  then show ?thesis by (rule fd_inv_fork [OF inv step])
next
  case W_Stream
  then show ?thesis by (rule fd_inv_stream [OF inv step _ ok])
next
  case W_Failed
  then show ?thesis by (rule fd_inv_failed [OF inv step])
qed (rule fd_inv_quiet [OF inv step]; use fd_inv_running(5) [OF inv step] step in \<open>auto simp: worker_step_def\<close>)+

end
