(* ===== verification/Update_Session.thy ===== *)
theory Update_Session
  imports Update_Descriptors
begin

text \<open>
  One life of the updater, from \<open>wn_appimage_start\<close> to \<open>wn_appimage_stop\<close>, under every interleaving of the
  two threads: what stands behind a ready phase and a hand-over, what is left of the workspace, and that
  stopping ends.
\<close>

section \<open>The announced version\<close>

definition announced_ok :: "system \<Rightarrow> bool" where
  "announced_ok s \<longleftrightarrow>
     (\<exists>l\<in>set (y_lines s). ready_line l \<and> length (announced l) < VERSION_SIZE \<and> c_version (y_client s) = announced l)"

definition ready_needed :: "system \<Rightarrow> bool" where
  "ready_needed s \<longleftrightarrow>
     c_phase (y_client s) = READY \<or> y_worker s = W_Phase READY \<or> c_apply (y_client s) \<or> y_ui s = U_Apply_Set \<or> y_ui s = U_Exit_Set"

definition ready_inv :: "system \<Rightarrow> bool" where
  "ready_inv s \<longleftrightarrow>
     (y_ui s \<noteq> U_Stopped \<longrightarrow> c_active (y_client s) \<and> (ready_needed s \<longrightarrow> announced_ok s)) \<and>
     (y_ui s = U_Stopped \<longrightarrow> c_phase (y_client s) \<noteq> READY) \<and>
     (\<forall>l. y_worker s = W_Line l \<or> y_worker s = W_Dispatch l \<longrightarrow> l \<in> set (y_lines s)) \<and>
     (y_worker s = W_Done True \<longrightarrow> (\<exists>l\<in>set (y_lines s). ready_line l) \<and> (\<exists>l\<in>set (y_lines s). l \<noteq> [] \<and> hd l = 88))"

lemma ui_ready:
  assumes "ui_step call send s = Some s'" "y_ui s' \<noteq> U_Stopped"
  shows "(c_phase (y_client s') = READY \<longrightarrow> c_phase (y_client s) = READY) \<and>
    (c_apply (y_client s') \<longrightarrow> c_apply (y_client s) \<or> y_ui s = U_Apply_Set \<or> y_ui s = U_Exit_Set) \<and>
    (y_ui s' = U_Apply_Set \<or> y_ui s' = U_Exit_Set \<longrightarrow> c_phase (y_client s) = READY)"
proof (cases "y_ui s")
  case U_Idle
  then show ?thesis using assms
    by (cases call) (auto simp: ui_step_def ui_begin_def Let_def split: if_splits)
next
  case U_Join
  then show ?thesis using assms by (cases "y_worker s") (auto simp: ui_step_def)
qed (use assms in \<open>auto simp: ui_step_def ui_return_def split: if_splits\<close>)

lemma ready_inv_ui:
  assumes "ready_inv s" "ui_step call send s = Some s'"
  shows "ready_inv s'"
proof -
  have run: "y_ui s \<noteq> U_Stopped" using assms(2) by (rule ui_step_running)
  then have active: "c_active (y_client s)" using assms(1) by (simp add: ready_inv_def)
  note frame = ui_frame [OF assms(2) active, unfolded ui_keeps_def]
  show ?thesis
  proof (cases "y_ui s' = U_Stopped")
    case True
    then show ?thesis using assms(1) frame by (simp add: ready_inv_def cleared_client_def)
  next
    case False
    then have same: "y_worker s' = y_worker s" "y_lines s' = y_lines s" "c_active (y_client s')" "c_version (y_client s') = c_version (y_client s)"
      using frame by auto
    then have "announced_ok s' = announced_ok s" by (simp add: announced_ok_def)
    moreover have "ready_needed s' \<Longrightarrow> ready_needed s"
      using ui_ready [OF assms(2) False] same by (auto simp: ready_needed_def)
    ultimately show ?thesis using assms(1) same run False by (simp add: ready_inv_def)
  qed
qed

lemma dispatch_line_version:
  "ready_line l \<and> length (announced l) < VERSION_SIZE \<and> c_version (y_client (dispatch_line l s)) = announced l \<and>
     c_phase (y_client (dispatch_line l s)) = c_phase (y_client s) \<or>
   c_version (y_client (dispatch_line l s)) = c_version (y_client s) \<and> y_worker (dispatch_line l s) \<noteq> W_Phase READY \<and>
     (c_phase (y_client (dispatch_line l s)) = READY \<longrightarrow> c_phase (y_client s) = READY)"
  by (cases "ready_line l"; cases "length (announced l) \<ge> VERSION_SIZE") (simp_all add: dispatch_line_def close_stream_def Let_def)

lemma ready_inv_dispatch:
  assumes inv: "ready_inv s" and pc: "y_worker s = W_Dispatch l" and run: "y_ui s \<noteq> U_Stopped"
  shows "ready_inv (dispatch_line l s)"
proof -
  have l: "l \<in> set (y_lines s)" using inv pc by (simp add: ready_inv_def)
  have keep: "announced_ok s \<Longrightarrow> announced_ok (dispatch_line l s)"
    using dispatch_line_version [of l s] l by (auto simp: announced_ok_def dispatch_line_frame)
  have announce: "ready_needed (dispatch_line l s) \<Longrightarrow> announced_ok (dispatch_line l s) \<or> ready_needed s"
    using dispatch_line_version [of l s] l pc by (auto simp: announced_ok_def ready_needed_def dispatch_line_frame)
  have hand: "y_worker (dispatch_line l s) = W_Done True \<Longrightarrow> c_apply (y_client s) \<and> l \<noteq> [] \<and> hd l = 88"
    using dispatch_line_moves [of l s] by (auto simp: close_stream_def)
  have lines: "y_worker (dispatch_line l s) \<noteq> W_Line m \<and> y_worker (dispatch_line l s) \<noteq> W_Dispatch m" for m
    using dispatch_line_moves [of l s] by (auto simp: close_stream_def)
  have active: "c_active (y_client s)" "ready_needed s \<longrightarrow> announced_ok s" using inv run by (simp_all add: ready_inv_def)
  have handed: "\<exists>l\<in>set (y_lines s). ready_line l" if "c_apply (y_client s)"
    using active(2) that by (auto simp: ready_needed_def announced_ok_def)
  show ?thesis
    unfolding ready_inv_def dispatch_line_frame
    using active run announce keep lines hand handed l by (intro conjI impI allI) auto
qed

lemma ready_inv_moveI:
  assumes inv: "ready_inv s" and run: "y_ui s \<noteq> U_Stopped" and step: "worker_step env line s = Some s'"
    and "c_version (y_client s') = c_version (y_client s)" "set (y_lines s) \<subseteq> set (y_lines s')"
    and "c_phase (y_client s') = READY \<Longrightarrow> c_phase (y_client s) = READY \<or> y_worker s = W_Phase READY"
    and "y_worker s' \<noteq> W_Phase READY" "y_worker s' \<noteq> W_Done True"
    and "\<And>l. y_worker s' = W_Line l \<or> y_worker s' = W_Dispatch l \<Longrightarrow> l \<in> set (y_lines s')"
  shows "ready_inv s'"
proof -
  have "announced_ok s \<Longrightarrow> announced_ok s'" using assms(4,5) by (auto simp: announced_ok_def)
  moreover have "ready_needed s' \<Longrightarrow> ready_needed s"
    using worker_frame [OF step] assms(6,7) by (auto simp: ready_needed_def)
  ultimately show ?thesis using inv run worker_frame [OF step] assms(8,9) by (auto simp: ready_inv_def)
qed

lemma ready_inv_worker:
  assumes inv: "ready_inv s" and run: "y_ui s \<noteq> U_Stopped" and step: "worker_step env line s = Some s'"
  shows "ready_inv s'"
proof (cases "y_worker s")
  case (W_Dispatch l)
  then show ?thesis using step ready_inv_dispatch [OF inv W_Dispatch run] by (simp add: worker_step_def)
next
  case (W_Line l)
  then show ?thesis using step inv
    by (intro ready_inv_moveI [OF inv run step])
      (auto simp: worker_step_def close_stream_def ready_inv_def split: if_splits)
next
  case W_Start
  then show ?thesis using step
    by (intro ready_inv_moveI [OF inv run step]) (auto simp: worker_step_def worker_start_def split: option.splits if_splits)
next
  case W_Log
  then show ?thesis using step
    by (intro ready_inv_moveI [OF inv run step]) (auto simp: worker_step_def worker_log_def split: sum.splits if_splits)
next
  case W_Read
  then show ?thesis using step
    by (intro ready_inv_moveI [OF inv run step]) (auto simp: worker_step_def close_stream_def split: option.splits)
qed (rule ready_inv_moveI [OF inv run step];
  use step in \<open>auto simp: worker_step_def worker_fork_def worker_stream_def worker_failed_def Let_def split: if_splits\<close>)+

section \<open>The workspace\<close>

text \<open>The kernel's side: the directory \<open>mkdtemp\<close> made has a name that leaves room, and removing never fails.\<close>

definition workspace_env :: "worker_env \<Rightarrow> bool" where
  "workspace_env env \<longleftrightarrow>
     (\<forall>stage. sg_mkdtemp (we_stage env) = Inr stage \<longrightarrow> stage \<noteq> [] \<and> length (entry_path stage executable_name) < PATH_MAX) \<and>
     (\<forall>p. \<not> rv_open (we_remove env) p \<and> \<not> rv_unlink (we_remove env) p \<and> \<not> rv_rmdir (we_remove env) p)"

definition workspace_ok :: "cstring \<Rightarrow> tree option \<Rightarrow> bool" where
  "workspace_ok stage workspace \<longleftrightarrow>
     (\<forall>entries. workspace = Some entries \<longrightarrow>
        stage \<noteq> [] \<and> length (entry_path stage lib_name) < PATH_MAX \<and> plain_workspace stage entries)"

definition workspace_inv :: "system \<Rightarrow> bool" where
  "workspace_inv s \<longleftrightarrow>
     (case y_worker s of
        W_Start \<Rightarrow> y_tree s = None
      | W_Done handed \<Rightarrow> \<not> handed \<longrightarrow> y_tree s = None
      | _ \<Rightarrow> workspace_ok (c_stage (y_client s)) (y_tree s))"

lemma stage_helper_workspace:
  assumes "workspace_env env" "stage_helper (we_stage env) appimage helper = Some z"
  shows "workspace_ok (z_stage z) (z_tree z)"
proof -
  have stage: "z_stage z \<noteq> []" "length (entry_path (z_stage z) executable_name) < PATH_MAX" if "z_tree z = Some entries" for entries
    using assms that
    by (auto simp: stage_helper_def stage_failed_def workspace_env_def Let_def split: option.splits sum.splits if_splits prod.splits)
  have "length (entry_path d lib_name) \<le> length (entry_path d executable_name)" for d
    by (simp add: entry_path_def lib_name_def executable_name_def)
  then show ?thesis
    using stage stage_helper_plain [OF assms(2)] unfolding workspace_ok_def
    by (metis (no_types, lifting) empty_iff list.set(1) order.strict_trans1 plain_workspace_def)
qed

lemma plain_workspace_log:
  "plain_workspace stage entries \<Longrightarrow> length (entry_path stage log_name) < PATH_MAX \<Longrightarrow>
   plain_workspace stage (entries @ [(log_name, Leaf)])"
  by (auto simp: plain_workspace_def log_name_def dot_name_def ascii_def)

lemma workspace_inv_ui:
  assumes "workspace_inv s" "c_active (y_client s)" "ui_step call send s = Some s'"
  shows "workspace_inv s'"
  using assms(1) ui_frame [OF assms(3,2)] by (auto simp: ui_keeps_def workspace_inv_def split: worker_pc.splits)

lemma workspace_inv_moveI:
  assumes "workspace_inv s" "y_tree s' = y_tree s" "c_stage (y_client s') = c_stage (y_client s)"
    and "\<And>handed. y_worker s \<noteq> W_Done handed" "y_worker s \<noteq> W_Start"
    and "y_worker s' \<noteq> W_Start" "y_worker s' \<noteq> W_Done False"
  shows "workspace_inv s'"
  using assms by (cases "y_worker s"; cases "y_worker s'") (auto simp: workspace_inv_def)

lemma workspace_inv_worker:
  assumes env: "workspace_env env" and inv: "workspace_inv s" and step: "worker_step env line s = Some s'"
  shows "workspace_inv s'"
proof (cases "y_worker s")
  case W_Start
  then have empty: "workspace_ok stage (y_tree s)" for stage using inv by (simp add: workspace_inv_def workspace_ok_def)
  from W_Start show ?thesis using step empty stage_helper_workspace [OF env]
    by (auto simp: worker_step_def worker_start_def workspace_inv_def split: option.splits)
next
  case W_Log
  then have ok: "workspace_ok (c_stage (y_client s)) (y_tree s)" using inv by (simp add: workspace_inv_def)
  then have "workspace_ok (c_stage (y_client s)) (map_option (\<lambda>entries. entries @ [(log_name, Leaf)]) (y_tree s))"
    if "length (entry_path (c_stage (y_client s)) log_name) < PATH_MAX"
    using that plain_workspace_log by (auto simp: workspace_ok_def)
  with W_Log show ?thesis using step ok
    by (auto simp: worker_step_def worker_log_def workspace_inv_def split: sum.splits if_splits)
next
  case W_Clean
  then have "workspace_ok (c_stage (y_client s)) (y_tree s)" using inv by (simp add: workspace_inv_def)
  then have "cleanup_stage (we_remove env) (c_stage (y_client s)) (y_tree s) = None"
    using env cleanup_removes_all [of "c_stage (y_client s)" _ "we_remove env"]
    by (cases "y_tree s") (auto simp: workspace_ok_def workspace_env_def cleanup_stage_def Let_def)
  with W_Clean show ?thesis using step by (auto simp: worker_step_def workspace_inv_def)
next
  case (W_Dispatch l)
  have "y_worker (dispatch_line l s) \<noteq> W_Done False \<and> y_worker (dispatch_line l s) \<noteq> W_Start"
    using dispatch_line_moves [of l s] by (auto simp: close_stream_def)
  with W_Dispatch show ?thesis using step
    by (intro workspace_inv_moveI [OF inv]) (auto simp: worker_step_def dispatch_line_frame)
qed (rule workspace_inv_moveI [OF inv];
  use step in \<open>auto simp: worker_step_def close_stream_def worker_fork_def worker_stream_def worker_failed_def Let_def
    split: option.splits if_splits\<close>)+

section \<open>Sessions\<close>

definition session_inv :: "worker_env \<Rightarrow> system \<Rightarrow> bool" where
  "session_inv env s \<longleftrightarrow> child_inv s \<and> fd_inv s \<and> ready_inv s \<and> (workspace_env env \<longrightarrow> workspace_inv s)"

lemma started_inv:
  assumes "wn_appimage_start senv helper home version feed automatic c0 = (1, c, Some channel, es)"
    and "\<And>a b. se_pair senv = Some (a, b) \<Longrightarrow> 0 \<le> a \<and> 0 \<le> b"
  shows "session_inv env (started_system c channel es)"
proof -
  obtain a b where "se_pair senv = Some (a, b)" "channel = b" "es = [Fd_Open a, Fd_Open b]" "c_socket c = a" "c_active c"
    "c_child c = 0" "c_phase c = IDLE" "\<not> c_apply c"
    using assms(1) by (auto simp: wn_appimage_start_def cleared_client_def Let_def split: if_splits option.splits)
  then show ?thesis using assms(2)
    by (auto simp: session_inv_def started_system_def child_inv_def fd_inv_def ready_inv_def ready_needed_def workspace_inv_def held_def Let_def)
qed

lemma child_inv_active: "child_inv s \<Longrightarrow> y_ui s \<noteq> U_Stopped \<Longrightarrow> c_active (y_client s)"
  by (simp add: child_inv_def)

lemma child_inv_working: "child_inv s \<Longrightarrow> worker_step env line s = Some s' \<Longrightarrow> y_ui s \<noteq> U_Stopped"
  by (auto simp: child_inv_def worker_step_def)

lemma session_inv_ui: "session_inv env s \<Longrightarrow> ui_step call send s = Some s' \<Longrightarrow> session_inv env s'"
  unfolding session_inv_def
  using child_inv_ui [of s call send s'] fd_inv_ui [of s call send s'] ready_inv_ui [of s call send s']
    workspace_inv_ui [of s call send s'] child_inv_active [of s] ui_step_running [of call send s s'] by simp

lemma session_inv_worker:
  "worker_env_ok env \<Longrightarrow> session_inv env s \<Longrightarrow> worker_step env line s = Some s' \<Longrightarrow> session_inv env s'"
  unfolding session_inv_def
  using child_inv_worker [of env s line s'] fd_inv_worker [of env s line s'] ready_inv_worker [of s env line s']
    workspace_inv_worker [of env s line s'] child_inv_working [of s env line s'] by (simp add: worker_env_ok_def)

lemma session_reachable:
  assumes "worker_env_ok env" "session_inv env start" "reachable env start s"
  shows "session_inv env s"
  using assms(3,2) session_inv_ui session_inv_worker [OF assms(1)]
  by (rule reachable_invariant [where P = "session_inv env"])


section \<open>Runs\<close>

datatype move = Ui_Move ui_call bool | Worker_Move "cstring option"

fun session_run :: "worker_env \<Rightarrow> move list \<Rightarrow> system \<Rightarrow> system option" where
  "session_run env [] s = Some s"
| "session_run env (Ui_Move call send # moves) s =
     (case ui_step call send s of None \<Rightarrow> None | Some s' \<Rightarrow> session_run env moves s')"
| "session_run env (Worker_Move line # moves) s =
     (case worker_step env line s of None \<Rightarrow> None | Some s' \<Rightarrow> session_run env moves s')"

lemma session_run_reachable:
  "session_run env moves s = Some s' \<Longrightarrow> reachable env start s \<Longrightarrow> reachable env start s'"
  by (induction env moves s rule: session_run.induct)
    (auto split: option.splits intro: reachable.step update_step.intros)

lemma session_run_append:
  "session_run env (xs @ ys) s = (case session_run env xs s of None \<Rightarrow> None | Some s' \<Rightarrow> session_run env ys s')"
  by (induction env xs s rule: session_run.induct) (auto split: option.splits)

section \<open>Stopping ends\<close>

text \<open>How many steps the worker takes at most once it is told to stop.\<close>

fun stop_rank :: "worker_pc \<Rightarrow> nat" where
  "stop_rank W_Start = 13"
| "stop_rank W_Check_Stop = 12"
| "stop_rank W_Log = 11"
| "stop_rank W_Fork = 10"
| "stop_rank W_Stream = 9"
| "stop_rank (W_Dispatch line) = 10"
| "stop_rank (W_Phase phase) = 9"
| "stop_rank W_Read = 8"
| "stop_rank (W_Line line) = 7"
| "stop_rank W_Failed = 6"
| "stop_rank W_Fail_Stop = 5"
| "stop_rank W_Fail_Load = 4"
| "stop_rank W_Fail_Status = 3"
| "stop_rank W_Fail_Phase = 2"
| "stop_rank W_Clean = 1"
| "stop_rank pc = 0"

lemma stop_rank_decreases:
  assumes "worker_step env line s = Some s'" "c_stop (y_client s)"
  shows "stop_rank (y_worker s') < stop_rank (y_worker s)"
proof (cases "y_worker s")
  case (W_Dispatch l)
  then show ?thesis using assms dispatch_line_moves [of l s] by (auto simp: worker_step_def close_stream_def)
qed (use assms in \<open>auto simp: worker_step_def worker_start_def worker_log_def worker_fork_def worker_stream_def worker_failed_def
    close_stream_def Let_def split: option.splits sum.splits\<close>)

lemma worker_enabled:
  assumes "y_worker s \<noteq> W_Idle" "\<And>handed. y_worker s \<noteq> W_Done handed"
    and "\<forall>appimage helper. stage_helper (we_stage env) appimage helper \<noteq> None"
  shows "worker_step env line s \<noteq> None"
  using assms(1,2) spec [OF spec [OF assms(3)], of "c_image (y_client s)" "c_helper (y_client s)"]
  by (cases "y_worker s") (auto simp: worker_step_def worker_start_def split: option.splits)

lemma worker_not_idle:
  assumes "worker_step env line s = Some s'"
  shows "y_worker s' \<noteq> W_Idle"
proof (cases "y_worker s")
  case (W_Dispatch l)
  then show ?thesis using assms dispatch_line_moves [of l s] by (auto simp: worker_step_def close_stream_def)
qed (use assms in \<open>auto simp: worker_step_def worker_start_def worker_log_def worker_fork_def worker_stream_def worker_failed_def
    close_stream_def Let_def split: option.splits sum.splits if_splits\<close>)

lemma stop_joins:
  assumes stage: "\<forall>appimage helper. stage_helper (we_stage env) appimage helper \<noteq> None"
  shows "y_ui s = U_Join \<Longrightarrow> c_stop (y_client s) \<Longrightarrow> y_worker s \<noteq> W_Idle \<Longrightarrow> stop_rank (y_worker s) \<le> length lines \<Longrightarrow>
    \<exists>n s' s''. n \<le> stop_rank (y_worker s) \<and> session_run env (map Worker_Move (take n lines)) s = Some s' \<and>
      ui_step call send s' = Some s'' \<and> y_ui s'' = U_Stopped"
proof (induction lines arbitrary: s)
  case Nil
  then show ?case by (cases "y_worker s") (auto simp: ui_step_def)
next
  case (Cons line lines)
  show ?case
  proof (cases "\<exists>handed. y_worker s = W_Done handed")
    case True
    then show ?thesis using Cons.prems by (intro exI [of _ 0]) (auto simp: ui_step_def)
  next
    case False
    then obtain s1 where s1: "worker_step env line s = Some s1" using worker_enabled [of s env line] stage Cons.prems(3) by blast
    note rank = stop_rank_decreases [OF s1 Cons.prems(2)]
    have "y_worker s1 \<noteq> W_Idle" using s1 by (rule worker_not_idle)
    then obtain n s' s'' where "n \<le> stop_rank (y_worker s1)" "session_run env (map Worker_Move (take n lines)) s1 = Some s'"
      "ui_step call send s' = Some s''" "y_ui s'' = U_Stopped"
      using Cons.IH [of s1] Cons.prems rank worker_frame [OF s1] by auto
    then show ?thesis using s1 rank by (intro exI [of _ "Suc n"] exI [of _ s'] exI [of _ s'']) auto
  qed
qed


section \<open>A session\<close>

definition sample_file :: file_env where
  "sample_file = \<lparr>fc_in = Inr 20, fc_out = Inr 21, fc_io = [Io_Count 0], fc_bytes = [], fc_sync = True\<rparr>"

definition sample_stage :: stage_env where
  "sample_stage = \<lparr>sg_uid = 1000, sg_realpath = Inr,
     sg_lstat = (\<lambda>p. Inr \<lparr>st_kind = Directory, st_uid = 0, st_mode = 493, st_nlink = 2, st_length = 0\<rparr>),
     sg_mkdtemp = Inr (ascii ''/o/.wn-update-aaaaaa''), sg_mkdir = False, sg_copy = (\<lambda>p. sample_file), sg_listing = Some []\<rparr>"

definition sample_worker :: worker_env where
  "sample_worker = \<lparr>we_home = Some [47], we_stage = sample_stage, we_log = Inr 7, we_pid = [49], we_calloc = True, we_environ = [],
     we_fork = 99, we_dup = 8, we_fdopen = True, we_remove = \<lparr>rv_open = \<lambda>_. False, rv_unlink = \<lambda>_. False, rv_rmdir = \<lambda>_. False\<rparr>\<rparr>"

definition sample_launch :: start_env where
  "sample_launch = \<lparr>se_image = Some (ascii ''/o/a''), se_appdir = Some (ascii ''/m''), se_running = Some (ascii ''/m/a''),
     se_proxy = None, se_pair = Some (5, 6), se_thread = True\<rparr>"

definition sample_client :: client where
  "sample_client = fst (snd (wn_appimage_start sample_launch (ascii ''/h/u'') [47] (ascii ''2024.9.30'') [] False cleared_client))"

lemma sample_start: "wn_appimage_start sample_launch (ascii ''/h/u'') [47] (ascii ''2024.9.30'') [] False cleared_client =
  (1, sample_client, Some 6, [Fd_Open 5, Fd_Open 6])"
  by (simp add: sample_client_def wn_appimage_start_def sample_launch_def cleared_client_def ascii_def PATH_MAX_def VERSION_SIZE_def Let_def)

lemma sample_staging: "stage_helper sample_stage (ascii ''/o/a'') (ascii ''/h/u'') =
  Some \<lparr>z_status = None, z_ok = True, z_stage = ascii ''/o/.wn-update-aaaaaa'', z_tree = Some [(lib_name, Dir []), (executable_name, Leaf)],
    z_executable = entry_path (ascii ''/o/.wn-update-aaaaaa'') executable_name, z_libs = entry_path (ascii ''/o/.wn-update-aaaaaa'') lib_name\<rparr>"
  by (simp add: stage_helper_def sample_stage_def sample_file_def copy_file_def copy_blocks_Cons before_slash_def ascii_def
      wn_appimage_private_directory_def ancestors_def private_ancestor_def others_write_def entry_path_def executable_name_def lib_name_def
      PATH_MAX_def upt_rec Let_def)

definition sample_line :: cstring where
  "sample_line = ascii ''R 2024.10.2'' @ [10]"

lemma sample_client_fields: "c_image sample_client = ascii ''/o/a''" "c_helper sample_client = ascii ''/h/u''" "c_socket sample_client = 5"
  "c_active sample_client" "\<not> c_stop sample_client" "\<not> c_apply sample_client" "c_phase sample_client = IDLE"
  by (simp_all add: sample_client_def wn_appimage_start_def sample_launch_def cleared_client_def ascii_def PATH_MAX_def VERSION_SIZE_def Let_def)

text \<open>The helper is started and announces a version; READY is about to be stored.\<close>

lemma sample_announced:
  "\<exists>s. session_run sample_worker (map Worker_Move [None, None, None, None, None, Some sample_line, None, None])
        (started_system sample_client 6 [Fd_Open 5, Fd_Open 6]) = Some s \<and>
     y_ui s = U_Idle \<and> y_worker s = W_Phase READY \<and> c_active (y_client s) \<and> \<not> c_stop (y_client s) \<and> \<not> c_apply (y_client s) \<and> c_phase (y_client s) = IDLE \<and>
     c_socket (y_client s) = 5 \<and> y_stream s = 8 \<and> y_lines s = [sample_line] \<and> c_version (y_client s) = ascii ''2024.10.2'' \<and>
     y_trace s = [Fd_Open 5, Fd_Open 6, Fd_Open 7, Child_Spawned 99, Fd_Close 7, Fd_Close 6, Fd_Open 8]"
  by (simp add: worker_step_def worker_start_def worker_log_def worker_fork_def worker_stream_def dispatch_line_def
      started_system_def sample_worker_def sample_client_fields sample_staging [unfolded ascii_def, simplified] sample_line_def ready_line_def announced_def VERSION_SIZE_def
      PATH_MAX_def entry_path_def log_name_def ascii_def)

text \<open>From there: the user exits with the update pending, the helper confirms, and the UI stops.\<close>

lemma sample_handed:
  "\<exists>s. session_run sample_worker
        (map Worker_Move [None, None, None, None, None, Some sample_line, None, None] @
         [Worker_Move None, Ui_Move Call_Prepare_Exit True, Ui_Move Call_Check True, Ui_Move Call_Check True, Ui_Move Call_Check True,
          Worker_Move (Some [88, 10]), Worker_Move None, Worker_Move None, Ui_Move Call_Stop True, Ui_Move Call_Check True])
        (started_system sample_client 6 [Fd_Open 5, Fd_Open 6]) = Some s \<and>
     y_ui s = U_Stopped \<and> y_worker s = W_Done True \<and> y_result s = Some 1 \<and>
     y_trace s = [Fd_Open 5, Fd_Open 6, Fd_Open 7, Child_Spawned 99, Fd_Close 7, Fd_Close 6, Fd_Open 8, Fd_Close 8, Fd_Close 5]"
proof -
  obtain s where s: "session_run sample_worker (map Worker_Move [None, None, None, None, None, Some sample_line, None, None])
      (started_system sample_client 6 [Fd_Open 5, Fd_Open 6]) = Some s"
    "y_ui s = U_Idle" "y_worker s = W_Phase READY" "c_active (y_client s)" "\<not> c_stop (y_client s)" "\<not> c_apply (y_client s)"
    "c_socket (y_client s) = 5" "y_stream s = 8"
    "y_trace s = [Fd_Open 5, Fd_Open 6, Fd_Open 7, Child_Spawned 99, Fd_Close 7, Fd_Close 6, Fd_Open 8]"
    using sample_announced by blast
  show ?thesis unfolding session_run_append s(1)
    using s(2-) by (simp add: worker_step_def ui_step_def ui_begin_def ui_return_def child_command_def dispatch_line_def ready_line_def
        close_stream_def Let_def)
qed

lemma sample_worker_ok: "worker_env_ok sample_worker"
  by (simp add: worker_env_ok_def sample_worker_def)


text \<open>Or the user quits at once: the stop flag is set, the socket shut down.\<close>

lemma sample_stopping:
  "\<exists>s. session_run sample_worker
        (map Worker_Move [None, None, None, None, None, Some sample_line, None, None] @
         [Ui_Move Call_Stop True, Ui_Move Call_Check True, Ui_Move Call_Check True])
        (started_system sample_client 6 [Fd_Open 5, Fd_Open 6]) = Some s \<and> y_ui s = U_Join \<and> c_stop (y_client s)"
proof -
  obtain s where s: "session_run sample_worker (map Worker_Move [None, None, None, None, None, Some sample_line, None, None])
      (started_system sample_client 6 [Fd_Open 5, Fd_Open 6]) = Some s"
    "y_ui s = U_Idle" "c_active (y_client s)" "\<not> c_stop (y_client s)" "\<not> c_apply (y_client s)"
    using sample_announced by blast
  show ?thesis unfolding session_run_append s(1)
    using s(2-) by (simp add: ui_step_def ui_begin_def Let_def)
qed

lemma sample_stage_total: "stage_helper (we_stage sample_worker) appimage helper \<noteq> None"
  by (auto simp: stage_helper_def sample_worker_def sample_stage_def sample_file_def copy_file_def copy_blocks_Cons Let_def
      split: option.splits)


section \<open>A lost announcement\<close>

text \<open>
  A check begun while the worker is between reading the announcement and storing READY overwrites the
  phase: the helper has announced its version and ignores the command, and the UI reports CHECKING, in
  which it refuses to apply the update, until something else changes the phase.
\<close>

lemma lost_announcement:
  "\<exists>s. reachable sample_worker (started_system sample_client 6 [Fd_Open 5, Fd_Open 6]) s \<and> y_ui s = U_Idle \<and> y_worker s = W_Read \<and>
     announced_ok s \<and> c_phase (y_client s) = CHECKING \<and> y_result (ui_begin Call_Apply s) = Some 0"
proof -
  obtain s where s: "session_run sample_worker (map Worker_Move [None, None, None, None, None, Some sample_line, None, None])
      (started_system sample_client 6 [Fd_Open 5, Fd_Open 6]) = Some s"
    "y_ui s = U_Idle" "y_worker s = W_Phase READY" "c_active (y_client s)" "c_phase (y_client s) = IDLE"
    "c_socket (y_client s) = 5" "y_lines s = [sample_line]" "c_version (y_client s) = ascii ''2024.10.2''"
    using sample_announced by blast
  obtain s' where "session_run sample_worker [Ui_Move Call_Check True, Worker_Move None, Ui_Move Call_Check True,
      Ui_Move Call_Check True, Ui_Move Call_Check True, Ui_Move Call_Check True] s = Some s'"
    "y_ui s' = U_Idle" "y_worker s' = W_Read" "c_phase (y_client s') = CHECKING" "c_active (y_client s')"
    "y_lines s' = [sample_line]" "c_version (y_client s') = ascii ''2024.10.2''"
    using s(2-) by (simp add: worker_step_def ui_step_def ui_begin_def child_command_def Let_def)
  moreover have "reachable sample_worker (started_system sample_client 6 [Fd_Open 5, Fd_Open 6]) s'"
    using session_run_reachable [OF calculation(1) session_run_reachable [OF s(1) reachable.started]] .
  moreover have "ready_line sample_line" "announced sample_line = ascii ''2024.10.2''"
    by (simp_all add: ready_line_def announced_def sample_line_def ascii_def)
  ultimately show ?thesis by (intro exI [of _ s']) (simp add: announced_ok_def ui_begin_def VERSION_SIZE_def Let_def)
qed

end
