(* ===== verification/Location.thy ===== *)
theory Location
  imports Frames "HOL-Library.AList" Complex_Main
begin

text \<open>
  The location helper (\<open>app/location.c\<close>): one permission-backed fix from the desktop portal. The GLib main
  loop runs the callbacks one at a time, in the order the bus and the timer produce them, so the helper is a
  step relation over its \<open>Location\<close> structure whose labels are the callbacks. The bus, the clock and the
  number formatting of the C library are the environment: any callback whose call is outstanding, and any
  signal the helper is subscribed to, may come next.
\<close>

section \<open>State\<close>

text \<open>A C double: finite ones are compared by value.\<close>

datatype double = Finite rat | Infinite bool | Not_A_Number

fun isfinite :: "double \<Rightarrow> bool" where
  "isfinite (Finite q) = True"
| "isfinite _ = False"

fun double_within :: "rat \<Rightarrow> rat \<Rightarrow> double \<Rightarrow> bool" where
  "double_within lo hi (Finite q) = (lo \<le> q \<and> q \<le> hi)"
| "double_within lo hi _ = False"

datatype location_result = LOCATION_UNAVAILABLE | LOCATION_FIX

datatype portal_interface = Request_Iface | Session_Iface

text \<open>The method calls the helper makes on the portal.\<close>

datatype portal_call =
    Create_Session cstring
  | Start cstring cstring
  | Close cstring portal_interface

text \<open>\<open>l_waiting\<close> holds the asynchronous calls whose callback has not run yet; \<open>l_bus\<close> says whether the
  connection is open, which is also when the three subscriptions are in place.\<close>

datatype async = Async_Bus | Async_Session | Async_Start

record location =
  l_bus :: bool
  l_responses :: "(cstring \<times> nat) list"
  l_session :: "cstring option"
  l_request :: "cstring option"
  l_creating :: bool
  l_starting :: bool
  l_start_returned :: bool
  l_have_fix :: bool
  l_finished :: bool
  l_success :: bool
  l_latitude :: double
  l_longitude :: double
  l_waiting :: "async list"
  l_calls :: "portal_call list"

definition PORTAL_PATH :: cstring where "PORTAL_PATH = ascii ''/org/freedesktop/portal/desktop''"

text \<open>\<open>main\<close> up to the main loop: the timer and the SIGTERM source are installed and the bus is requested.\<close>

definition location_start :: location where
  "location_start =
     \<lparr>l_bus = False, l_responses = [], l_session = None, l_request = None, l_creating = False,
      l_starting = False, l_start_returned = False, l_have_fix = False, l_finished = False,
      l_success = False, l_latitude = Finite 0, l_longitude = Finite 0, l_waiting = [Async_Bus],
      l_calls = []\<rparr>"

section \<open>Callbacks\<close>

definition finish :: "location_result \<Rightarrow> location \<Rightarrow> location" where
  "finish result s =
     (if l_finished s then s
      else s\<lparr>l_finished := True, l_success := (result = LOCATION_FIX)\<rparr>)"

definition deadline :: "location \<Rightarrow> location" where
  "deadline s = finish LOCATION_UNAVAILABLE s"

text \<open>The response recorded for the current request handle; responses are stored plus one.\<close>

definition stored_response :: "location \<Rightarrow> nat option" where
  "stored_response s =
     (case l_request s of None \<Rightarrow> None | Some r \<Rightarrow> map_of (l_responses s) r)"

definition maybe_finish :: "location \<Rightarrow> location" where
  "maybe_finish s =
     (if \<not> l_start_returned s then s
      else
        (case stored_response s of
           None \<Rightarrow> s
         | Some stored \<Rightarrow>
             if stored - 1 \<noteq> 0 then finish LOCATION_UNAVAILABLE s
             else if l_have_fix s then finish LOCATION_FIX s
             else s))"

text \<open>A parameter tuple of the wrong type is None.\<close>

definition response_signal :: "cstring \<Rightarrow> u32 option \<Rightarrow> location \<Rightarrow> location" where
  "response_signal path parameters s =
     (if l_finished s \<or> \<not> l_starting s then s
      else
        (case parameters of
           None \<Rightarrow> s
         | Some response \<Rightarrow>
             if response \<le> 2 \<and>
                (map_of (l_responses s) path \<noteq> None \<or> length (l_responses s) < 8) then
               maybe_finish (s\<lparr>l_responses := AList.update path (unat response + 1) (l_responses s)\<rparr>)
             else s))"

text \<open>The coordinates that count: from the helper's own session, present, finite and on the globe.\<close>

definition valid_fix :: "cstring option \<Rightarrow> cstring \<Rightarrow> double option \<Rightarrow> double option \<Rightarrow> bool" where
  "valid_fix own session latitude longitude \<longleftrightarrow>
     own = Some session \<and>
     (case (latitude, longitude) of
        (Some la, Some lo) \<Rightarrow>
          isfinite la \<and> isfinite lo \<and> double_within (- 90) 90 la \<and> double_within (- 180) 180 lo
      | _ \<Rightarrow> False)"

definition location_signal ::
  "(cstring \<times> double option \<times> double option) option \<Rightarrow> location \<Rightarrow> location" where
  "location_signal parameters s =
     (if l_finished s \<or> \<not> l_starting s then s
      else
        (case parameters of
           None \<Rightarrow> s
         | Some (session, latitude, longitude) \<Rightarrow>
             if valid_fix (l_session s) session latitude longitude \<and> \<not> l_have_fix s then
               maybe_finish (s\<lparr>l_latitude := the latitude, l_longitude := the longitude,
                                l_have_fix := True\<rparr>)
             else s))"

definition session_closed :: "cstring \<Rightarrow> location \<Rightarrow> location" where
  "session_closed path s = (if l_session s = Some path then finish LOCATION_UNAVAILABLE s else s)"

definition bus_closed :: "location \<Rightarrow> location" where
  "bus_closed s = finish LOCATION_UNAVAILABLE s"

text \<open>The callbacks of the asynchronous calls; a failed call has no reply.\<close>

definition start_done :: "cstring option \<Rightarrow> location \<Rightarrow> location" where
  "start_done reply s =
     (if l_finished s then s
      else
        (case reply of
           None \<Rightarrow> finish LOCATION_UNAVAILABLE s
         | Some request \<Rightarrow> maybe_finish (s\<lparr>l_request := Some request, l_start_returned := True\<rparr>)))"

text \<open>\<open>strrchr(request, '/') + 1\<close>.\<close>

definition after_slash :: "cstring \<Rightarrow> cstring" where
  "after_slash s = rev (takeWhile (\<lambda>b. b \<noteq> 47) (rev s))"

definition session_done :: "cstring option \<Rightarrow> location \<Rightarrow> location" where
  "session_done reply s =
     (if l_finished s then s
      else
        (case reply of
           None \<Rightarrow> finish LOCATION_UNAVAILABLE s
         | Some session \<Rightarrow>
             (case l_request s of
                None \<Rightarrow> s
              | Some request \<Rightarrow>
                  s\<lparr>l_session := Some session, l_starting := True,
                    l_waiting := l_waiting s @ [Async_Start],
                    l_calls := l_calls s @ [Start session (after_slash request)]\<rparr>)))"

definition replace_byte :: "byte \<Rightarrow> byte \<Rightarrow> cstring \<Rightarrow> cstring" where
  "replace_byte a b s = map (\<lambda>c. if c = a then b else c) s"

text \<open>The connection with its unique name, and a random token.\<close>

definition bus_ready :: "cstring option \<Rightarrow> cstring \<Rightarrow> location \<Rightarrow> location" where
  "bus_ready bus uuid s =
     (if l_finished s then s
      else
        (case bus of
           None \<Rightarrow> finish LOCATION_UNAVAILABLE s
         | Some unique_name \<Rightarrow>
             let sender = replace_byte 46 95 (tl unique_name);
                 token = replace_byte 45 95 uuid
             in s\<lparr>l_bus := True,
                  l_session := Some (PORTAL_PATH @ ascii ''/session/'' @ sender @ ascii ''/wn_location_'' @ token),
                  l_request := Some (PORTAL_PATH @ ascii ''/request/'' @ sender @ ascii ''/wn_location_'' @ token),
                  l_creating := True,
                  l_waiting := l_waiting s @ [Async_Session],
                  l_calls := l_calls s @ [Create_Session (ascii ''wn_location_'' @ token)]\<rparr>))"

section \<open>The main loop\<close>

datatype loc_event =
    Deadline
  | Bus_Closed
  | Bus_Ready "cstring option" cstring
  | Session_Done "cstring option"
  | Start_Done "cstring option"
  | Response cstring "u32 option"
  | Location_Updated "(cstring \<times> double option \<times> double option) option"
  | Session_Closed cstring

definition answered :: "async \<Rightarrow> location \<Rightarrow> location" where
  "answered a s = s\<lparr>l_waiting := remove1 a (l_waiting s)\<rparr>"

text \<open>One dispatch of the loop: a callback runs only while its call is outstanding, and a signal arrives
  only over an open bus.\<close>

inductive dispatch :: "loc_event \<Rightarrow> location \<Rightarrow> location \<Rightarrow> bool" where
  timeout: "dispatch Deadline s (deadline s)"
| lost_bus: "l_bus s \<Longrightarrow> dispatch Bus_Closed s (bus_closed s)"
| got_bus: "Async_Bus \<in> set (l_waiting s) \<Longrightarrow>
    dispatch (Bus_Ready bus uuid) s (bus_ready bus uuid (answered Async_Bus s))"
| got_session: "Async_Session \<in> set (l_waiting s) \<Longrightarrow>
    dispatch (Session_Done reply) s (session_done reply (answered Async_Session s))"
| got_start: "Async_Start \<in> set (l_waiting s) \<Longrightarrow>
    dispatch (Start_Done reply) s (start_done reply (answered Async_Start s))"
| response: "l_bus s \<Longrightarrow> dispatch (Response path parameters) s (response_signal path parameters s)"
| update: "l_bus s \<Longrightarrow> dispatch (Location_Updated parameters) s (location_signal parameters s)"
| closed: "l_bus s \<Longrightarrow> dispatch (Session_Closed path) s (session_closed path s)"

inductive dispatches :: "loc_event list \<Rightarrow> location \<Rightarrow> bool" where
  dispatches_start: "dispatches [] location_start"
| dispatches_step: "dispatches es s \<Longrightarrow> dispatch e s s' \<Longrightarrow> dispatches (es @ [e]) s'"

text \<open>The same dispatch as a function, for evaluation.\<close>

definition react :: "loc_event \<Rightarrow> location \<Rightarrow> location option" where
  "react e s =
     (case e of
        Deadline \<Rightarrow> Some (deadline s)
      | Bus_Closed \<Rightarrow> if l_bus s then Some (bus_closed s) else None
      | Bus_Ready bus uuid \<Rightarrow>
          if Async_Bus \<in> set (l_waiting s) then Some (bus_ready bus uuid (answered Async_Bus s)) else None
      | Session_Done reply \<Rightarrow>
          if Async_Session \<in> set (l_waiting s) then Some (session_done reply (answered Async_Session s)) else None
      | Start_Done reply \<Rightarrow>
          if Async_Start \<in> set (l_waiting s) then Some (start_done reply (answered Async_Start s)) else None
      | Response path parameters \<Rightarrow> if l_bus s then Some (response_signal path parameters s) else None
      | Location_Updated parameters \<Rightarrow> if l_bus s then Some (location_signal parameters s) else None
      | Session_Closed path \<Rightarrow> if l_bus s then Some (session_closed path s) else None)"

fun react_all :: "loc_event list \<Rightarrow> location \<Rightarrow> location option" where
  "react_all [] s = Some s"
| "react_all (e # es) s = (case react e s of None \<Rightarrow> None | Some s' \<Rightarrow> react_all es s')"

lemma dispatch_react: "dispatch e s s' \<longleftrightarrow> react e s = Some s'"
  by (cases e) (auto simp: react_def elim!: dispatch.cases intro: dispatch.intros)

lemma dispatches_react_all:
  "dispatches es s \<Longrightarrow> react_all fs s = Some s' \<Longrightarrow> dispatches (es @ fs) s'"
proof (induction fs arbitrary: es s)
  case Nil
  then show ?case by simp
next
  case (Cons e fs)
  then obtain t where "react e s = Some t" "react_all fs t = Some s'" by (auto split: option.splits)
  then show ?case using Cons.IH [of "es @ [e]" t] Cons.prems(1) dispatches_step dispatch_react by fastforce
qed

section \<open>After the loop\<close>

text \<open>\<open>main\<close> once the loop has ended: the portal objects that still exist are closed, and a successful
  helper prints its fix. \<open>dtostr\<close> is \<open>g_ascii_dtostr\<close>, \<open>printed\<close> whether \<open>printf\<close> succeeded.\<close>

definition close_portal_objects :: "location \<Rightarrow> portal_call list" where
  "close_portal_objects s =
     (if \<not> l_bus s then []
      else
        (case l_request s of
           None \<Rightarrow> []
         | Some request \<Rightarrow>
             if l_starting s \<and> map_of (l_responses s) request = None then [Close request Request_Iface] else []) @
        (case l_session s of
           None \<Rightarrow> []
         | Some session \<Rightarrow> if l_creating s then [Close session Session_Iface] else []))"

definition location_main :: "(double \<Rightarrow> cstring) \<Rightarrow> bool \<Rightarrow> location \<Rightarrow> int \<times> cstring \<times> portal_call list" where
  "location_main dtostr printed s =
     (let calls = l_calls s @ close_portal_objects s
      in if \<not> l_success s then (1, [], calls)
         else (if printed then 0 else 1, dtostr (l_latitude s) @ [32] @ dtostr (l_longitude s) @ [10], calls))"

section \<open>Invariants\<close>

lemmas callback_defs =
  deadline_def bus_closed_def session_closed_def start_done_def session_done_def bus_ready_def
  response_signal_def location_signal_def answered_def Let_def

text \<open>Which call is outstanding tells how far the helper has come.\<close>

definition stage_ok :: "location \<Rightarrow> bool" where
  "stage_ok s \<longleftrightarrow>
     (l_waiting s = [Async_Bus] \<longrightarrow> \<not> l_bus s \<and> \<not> l_creating s \<and> \<not> l_starting s) \<and>
     (l_waiting s = [Async_Session] \<longrightarrow> l_creating s \<and> \<not> l_starting s) \<and>
     (l_waiting s = [Async_Start] \<longrightarrow> l_starting s \<and> \<not> l_start_returned s) \<and>
     l_waiting s \<in> {[], [Async_Bus], [Async_Session], [Async_Start]} \<and>
     (l_start_returned s \<longrightarrow> l_starting s) \<and> (l_have_fix s \<longrightarrow> l_starting s) \<and>
     (l_starting s \<longrightarrow> l_creating s) \<and> (l_creating s \<longrightarrow> l_bus s) \<and>
     (l_creating s \<longleftrightarrow> l_session s \<noteq> None) \<and> (l_creating s \<longleftrightarrow> l_request s \<noteq> None)"

text \<open>The handles and the fix come from the portal's own messages.\<close>

definition grant_ok :: "loc_event list \<Rightarrow> location \<Rightarrow> bool" where
  "grant_ok es s \<longleftrightarrow>
     (l_starting s \<longrightarrow> (\<exists>session. l_session s = Some session \<and> Session_Done (Some session) \<in> set es)) \<and>
     (l_start_returned s \<longrightarrow> (\<exists>request. l_request s = Some request \<and> Start_Done (Some request) \<in> set es)) \<and>
     (l_have_fix s \<longrightarrow>
        (\<exists>session la lo. l_session s = Some session \<and> l_latitude s = Finite la \<and> l_longitude s = Finite lo \<and>
           Location_Updated (Some (session, Some (Finite la), Some (Finite lo))) \<in> set es \<and>
           - 90 \<le> la \<and> la \<le> 90 \<and> - 180 \<le> lo \<and> lo \<le> 180))"

text \<open>The table of responses is bounded and holds what the bus delivered.\<close>

definition table_ok :: "loc_event list \<Rightarrow> location \<Rightarrow> bool" where
  "table_ok es s \<longleftrightarrow>
     distinct (map fst (l_responses s)) \<and> length (l_responses s) \<le> 8 \<and>
     list_all (\<lambda>(path, stored). 1 \<le> stored \<and> Response path (Some (word_of_nat (stored - 1))) \<in> set es)
       (l_responses s)"

text \<open>Success means everything is in place; and the helper never waits once that is so.\<close>

definition outcome_ok :: "location \<Rightarrow> bool" where
  "outcome_ok s \<longleftrightarrow>
     (l_success s \<longrightarrow> l_finished s \<and> l_start_returned s \<and> stored_response s = Some 1 \<and> l_have_fix s) \<and>
     (\<not> l_finished s \<and> l_start_returned s \<longrightarrow>
        stored_response s = None \<or> stored_response s = Some 1 \<and> \<not> l_have_fix s)"

text \<open>\<open>finish\<close> and \<open>maybe_finish\<close> change nothing but the outcome.\<close>

lemma finish_keeps [simp]:
  "l_bus (finish r s) = l_bus s" "l_responses (finish r s) = l_responses s"
  "l_session (finish r s) = l_session s" "l_request (finish r s) = l_request s"
  "l_creating (finish r s) = l_creating s" "l_starting (finish r s) = l_starting s"
  "l_start_returned (finish r s) = l_start_returned s" "l_have_fix (finish r s) = l_have_fix s"
  "l_latitude (finish r s) = l_latitude s" "l_longitude (finish r s) = l_longitude s"
  "l_waiting (finish r s) = l_waiting s" "l_calls (finish r s) = l_calls s"
  by (simp_all add: finish_def)

lemma maybe_finish_keeps [simp]:
  "l_bus (maybe_finish s) = l_bus s" "l_responses (maybe_finish s) = l_responses s"
  "l_session (maybe_finish s) = l_session s" "l_request (maybe_finish s) = l_request s"
  "l_creating (maybe_finish s) = l_creating s" "l_starting (maybe_finish s) = l_starting s"
  "l_start_returned (maybe_finish s) = l_start_returned s" "l_have_fix (maybe_finish s) = l_have_fix s"
  "l_latitude (maybe_finish s) = l_latitude s" "l_longitude (maybe_finish s) = l_longitude s"
  "l_waiting (maybe_finish s) = l_waiting s" "l_calls (maybe_finish s) = l_calls s"
  by (simp_all add: maybe_finish_def split: option.splits)

lemma answered_keeps [simp]:
  "l_bus (answered a s) = l_bus s" "l_responses (answered a s) = l_responses s"
  "l_session (answered a s) = l_session s" "l_request (answered a s) = l_request s"
  "l_creating (answered a s) = l_creating s" "l_starting (answered a s) = l_starting s"
  "l_start_returned (answered a s) = l_start_returned s" "l_have_fix (answered a s) = l_have_fix s"
  "l_finished (answered a s) = l_finished s" "l_success (answered a s) = l_success s"
  "l_latitude (answered a s) = l_latitude s" "l_longitude (answered a s) = l_longitude s"
  "l_calls (answered a s) = l_calls s" "l_waiting (answered a s) = remove1 a (l_waiting s)"
  by (simp_all add: answered_def)

lemma finish_finished [simp]: "l_finished (finish r s)"
  by (simp add: finish_def)

lemma remove1_stage:
  "a \<in> set ws \<Longrightarrow> ws \<in> {[], [Async_Bus], [Async_Session], [Async_Start]} \<Longrightarrow> ws = [a]"
  by auto

lemma stage_frame [simp]:
  "stage_ok (finish r s) = stage_ok s" "stage_ok (maybe_finish s) = stage_ok s"
  "stage_ok (s\<lparr>l_responses := t\<rparr>) = stage_ok s"
  "stage_ok (s\<lparr>l_latitude := la, l_longitude := lo, l_have_fix := True\<rparr>) = (stage_ok s \<and> l_starting s)"
  by (auto simp: stage_ok_def)

lemma outstanding: "stage_ok s \<Longrightarrow> a \<in> set (l_waiting s) \<Longrightarrow> l_waiting s = [a]"
  by (auto simp: stage_ok_def)

lemma stage_async:
  assumes "stage_ok s" "a \<in> set (l_waiting s)"
  shows "a = Async_Bus \<Longrightarrow> stage_ok (bus_ready bus uuid (answered a s))"
    and "a = Async_Session \<Longrightarrow> stage_ok (session_done reply (answered a s))"
    and "a = Async_Start \<Longrightarrow> stage_ok (start_done reply (answered a s))"
  using assms outstanding [OF assms]
  by (auto simp: bus_ready_def session_done_def start_done_def answered_def stage_ok_def Let_def
      split: option.split)

lemma stage_step: "dispatch e s s' \<Longrightarrow> stage_ok s \<Longrightarrow> stage_ok s'"
  by (cases rule: dispatch.cases, assumption)
    (auto simp: stage_async deadline_def bus_closed_def session_closed_def response_signal_def
      location_signal_def split: option.splits)

lemma grant_frame [simp]:
  "grant_ok es (finish r s) = grant_ok es s" "grant_ok es (maybe_finish s) = grant_ok es s"
  "grant_ok es (s\<lparr>l_responses := t\<rparr>) = grant_ok es s"
  by (auto simp: grant_ok_def)

lemma grant_more: "grant_ok es s \<Longrightarrow> grant_ok (es @ fs) s"
  by (auto simp: grant_ok_def)

lemma double_within_Finite: "double_within lo hi d \<longleftrightarrow> (\<exists>q. d = Finite q \<and> lo \<le> q \<and> q \<le> hi)"
  by (cases d) auto

lemma valid_fixD:
  "valid_fix own session latitude longitude \<Longrightarrow>
   own = Some session \<and> (\<exists>la lo. latitude = Some (Finite la) \<and> longitude = Some (Finite lo) \<and>
     - 90 \<le> la \<and> la \<le> 90 \<and> - 180 \<le> lo \<and> lo \<le> 180)"
  by (auto simp: valid_fix_def double_within_Finite split: option.splits)

lemma location_signal_cases:
  obtains (same) "location_signal parameters s = s"
  | (accepted) session la lo where "parameters = Some (session, Some (Finite la), Some (Finite lo))"
      "l_starting s" "l_session s = Some session" "- 90 \<le> la" "la \<le> 90" "- 180 \<le> lo" "lo \<le> 180"
      "\<not> l_have_fix s" "\<not> l_finished s"
      "location_signal parameters s =
         maybe_finish (s\<lparr>l_latitude := Finite la, l_longitude := Finite lo, l_have_fix := True\<rparr>)"
proof (cases "location_signal parameters s = s")
  case False
  then obtain session latitude longitude where p: "parameters = Some (session, latitude, longitude)"
    and v: "valid_fix (l_session s) session latitude longitude" "\<not> l_have_fix s" "\<not> l_finished s" "l_starting s"
    by (auto simp: location_signal_def split: option.splits if_splits)
  obtain la lo where "latitude = Some (Finite la)" "longitude = Some (Finite lo)" "l_session s = Some session"
    "- 90 \<le> la" "la \<le> 90" "- 180 \<le> lo" "lo \<le> 180"
    using valid_fixD [OF v(1)] by auto
  with p v show ?thesis by (intro accepted [of session la lo]) (simp_all add: location_signal_def)
qed (rule same)

lemma grant_location:
  assumes "grant_ok es s"
  shows "grant_ok (es @ [Location_Updated parameters]) (location_signal parameters s)"
  using grant_more [OF assms, of "[Location_Updated parameters]"] assms
  by (cases parameters s rule: location_signal_cases) (simp, simp add: grant_ok_def)

lemma grant_async:
  assumes "grant_ok es s" "stage_ok s" "a \<in> set (l_waiting s)"
  shows "a = Async_Bus \<Longrightarrow> grant_ok (es @ [Bus_Ready bus uuid]) (bus_ready bus uuid (answered a s))"
    and "a = Async_Session \<Longrightarrow> grant_ok (es @ [Session_Done reply]) (session_done reply (answered a s))"
    and "a = Async_Start \<Longrightarrow> grant_ok (es @ [Start_Done reply]) (start_done reply (answered a s))"
  using assms outstanding [OF assms(2,3)]
  by (auto simp: bus_ready_def session_done_def start_done_def answered_def stage_ok_def grant_ok_def Let_def
      split: option.split)

lemma grant_step:
  "dispatch e s s' \<Longrightarrow> stage_ok s \<Longrightarrow> grant_ok es s \<Longrightarrow> grant_ok (es @ [e]) s'"
  by (cases rule: dispatch.cases, assumption)
    (auto simp: grant_async grant_location grant_more deadline_def bus_closed_def session_closed_def
      response_signal_def split: option.splits)

lemma table_frame [simp]:
  "table_ok es (finish r s) = table_ok es s" "table_ok es (maybe_finish s) = table_ok es s"
  by (simp_all add: table_ok_def)

lemma table_more: "table_ok es s \<Longrightarrow> table_ok (es @ fs) s"
  by (auto simp: table_ok_def list_all_iff)

lemma table_same: "table_ok es s \<Longrightarrow> l_responses s' = l_responses s \<Longrightarrow> table_ok es s'"
  by (simp add: table_ok_def)

lemma length_update:
  "length (AList.update k v al) = (if map_of al k = None then Suc (length al) else length al)"
  by (induction al) auto

lemma set_update_subset: "set (AList.update k v al) \<subseteq> insert (k, v) (set al)"
  by (induction al) auto

lemma table_response:
  assumes "table_ok es s"
  shows "table_ok (es @ [Response path parameters]) (response_signal path parameters s)"
proof (cases "l_responses (response_signal path parameters s) = l_responses s")
  case True
  then show ?thesis using table_more [OF assms] by (rule table_same [rotated])
next
  case False
  then obtain r where p: "parameters = Some r"
    and room: "map_of (l_responses s) path \<noteq> None \<or> length (l_responses s) < 8"
    and upd: "l_responses (response_signal path parameters s) =
        AList.update path (unat r + 1) (l_responses s)"
    by (auto simp: response_signal_def split: option.splits if_splits)
  have "distinct (map fst (AList.update path (unat r + 1) (l_responses s)))"
    using assms by (simp add: table_ok_def distinct_update)
  moreover have "length (AList.update path (unat r + 1) (l_responses s)) \<le> 8"
    using assms room by (auto simp: table_ok_def length_update)
  moreover have "1 \<le> n \<and> Response q (Some (word_of_nat (n - 1))) \<in> set (es @ [Response path parameters])"
    if "(q, n) \<in> set (AList.update path (unat r + 1) (l_responses s))" for q n
    using that set_update_subset [of path "unat r + 1" "l_responses s"] assms p
    by (auto simp: table_ok_def list_all_iff)
  ultimately show ?thesis by (auto simp: table_ok_def upd list_all_iff)
qed

lemma responses_kept [simp]:
  "l_responses (location_signal parameters s) = l_responses s"
  "l_responses (bus_ready bus uuid s) = l_responses s" "l_responses (session_done reply s) = l_responses s"
  "l_responses (start_done reply s) = l_responses s" "l_responses (answered a s) = l_responses s"
  "l_responses (session_closed path s) = l_responses s" "l_responses (deadline s) = l_responses s"
  "l_responses (bus_closed s) = l_responses s"
  by (simp_all add: callback_defs split: option.split)

lemma table_step: "dispatch e s s' \<Longrightarrow> table_ok es s \<Longrightarrow> table_ok (es @ [e]) s'"
  by (cases rule: dispatch.cases, assumption)
    (simp_all add: table_response table_same [OF table_more])

text \<open>The outcome.\<close>

lemma stored_same: "l_request t = l_request s \<Longrightarrow> l_responses t = l_responses s \<Longrightarrow> stored_response t = stored_response s"
  by (simp add: stored_response_def split: option.split)

lemma stored_frame [simp]:
  "stored_response (finish r s) = stored_response s" "stored_response (maybe_finish s) = stored_response s"
  "stored_response (answered a s) = stored_response s"
  "stored_response (s\<lparr>l_latitude := la, l_longitude := lo, l_have_fix := True\<rparr>) = stored_response s"
  "stored_response (s\<lparr>l_finished := f, l_success := g\<rparr>) = stored_response s"
  by (rule stored_same, simp_all add: answered_def)+

lemma outcome_frame [simp]: "outcome_ok (answered a s) = outcome_ok s"
  by (simp add: outcome_ok_def)

lemma outcome_finish:
  "outcome_ok s \<or> \<not> l_success s \<Longrightarrow> outcome_ok (finish LOCATION_UNAVAILABLE s)"
  by (auto simp: outcome_ok_def finish_def)

lemma outcome_maybe:
  assumes "\<not> l_success s" "\<not> l_finished s" "\<And>n. stored_response s = Some n \<Longrightarrow> 1 \<le> n"
  shows "outcome_ok (maybe_finish s)"
  using assms by (auto simp: maybe_finish_def finish_def outcome_ok_def stored_response_def split: option.splits)

lemma table_stored: "table_ok es s \<Longrightarrow> stored_response s = Some n \<Longrightarrow> 1 \<le> n"
  by (auto simp: table_ok_def stored_response_def list_all_iff split: option.splits dest!: map_of_SomeD)


lemma stored_stage: "stage_ok s \<Longrightarrow> \<not> l_finished s \<Longrightarrow> outcome_ok s \<Longrightarrow> \<not> l_success s"
  by (auto simp: outcome_ok_def)

lemma outcome_response:
  assumes "stage_ok s" "table_ok es s" "outcome_ok s"
  shows "outcome_ok (response_signal path parameters s)"
proof (cases "response_signal path parameters s = s")
  case False
  then obtain r where p: "parameters = Some r" and f: "\<not> l_finished s" "l_starting s"
    and g: "r \<le> 2 \<and> (map_of (l_responses s) path \<noteq> None \<or> length (l_responses s) < 8)"
    by (cases parameters) (auto simp: response_signal_def split: if_splits)
  have r: "\<not> l_finished s" "response_signal path parameters s =
        maybe_finish (s\<lparr>l_responses := AList.update path (unat r + 1) (l_responses s)\<rparr>)"
    using f g by (simp_all add: response_signal_def p)
  have "table_ok (es @ [Response path parameters]) (response_signal path parameters s)"
    by (rule table_response [OF assms(2)])
  then have "table_ok (es @ [Response path parameters]) (s\<lparr>l_responses := AList.update path (unat r + 1) (l_responses s)\<rparr>)"
    unfolding r(2) by simp
  from table_stored [OF this] show ?thesis
    unfolding r(2) using r(1) assms by (intro outcome_maybe) (auto simp: outcome_ok_def)
qed (use assms in simp)

lemma outcome_location:
  assumes "table_ok es s" "outcome_ok s"
  shows "outcome_ok (location_signal parameters s)"
proof (cases parameters s rule: location_signal_cases)
  case same
  then show ?thesis using assms by simp
next
  case (accepted session la lo)
  show ?thesis unfolding accepted(10)
    using assms accepted table_stored [OF assms(1)] by (intro outcome_maybe) (auto simp: outcome_ok_def)
qed

lemma outcome_start:
  assumes "table_ok es s" "outcome_ok s" "stage_ok s" "Async_Start \<in> set (l_waiting s)"
  shows "outcome_ok (start_done reply (answered Async_Start s))"
proof (cases "l_finished s \<or> reply = None")
  case True
  then have "start_done reply (answered Async_Start s) \<in>
      {answered Async_Start s, finish LOCATION_UNAVAILABLE (answered Async_Start s)}"
    by (auto simp: start_done_def)
  then show ?thesis using assms by (auto simp: outcome_finish)
next
  case False
  then obtain request where r: "reply = Some request" by auto
  let ?t = "(answered Async_Start s)\<lparr>l_request := Some request, l_start_returned := True\<rparr>"
  have "table_ok es ?t" using assms(1) by (rule table_same) (simp add: answered_def)
  moreover have "start_done reply (answered Async_Start s) = maybe_finish ?t"
    using False r by (simp add: start_done_def answered_def)
  moreover have "\<not> l_success ?t" "\<not> l_finished ?t" using False assms(2) by (auto simp: answered_def outcome_ok_def)
  ultimately show ?thesis using table_stored by (metis outcome_maybe)
qed

lemma outcome_quiet:
  "outcome_ok s \<Longrightarrow> stage_ok s \<Longrightarrow> Async_Bus \<in> set (l_waiting s) \<Longrightarrow> outcome_ok (bus_ready bus uuid (answered Async_Bus s))"
  "outcome_ok s \<Longrightarrow> stage_ok s \<Longrightarrow> Async_Session \<in> set (l_waiting s) \<Longrightarrow> outcome_ok (session_done reply (answered Async_Session s))"
  "outcome_ok s \<Longrightarrow> outcome_ok (session_closed path s)" "outcome_ok s \<Longrightarrow> outcome_ok (deadline s)"
  "outcome_ok s \<Longrightarrow> outcome_ok (bus_closed s)"
  by (auto simp: bus_ready_def session_done_def session_closed_def deadline_def bus_closed_def Let_def
      outcome_finish split: option.split)
    (auto simp: outcome_ok_def stage_ok_def answered_def)

lemma outcome_step:
  "dispatch e s s' \<Longrightarrow> stage_ok s \<Longrightarrow> table_ok es s \<Longrightarrow> outcome_ok s \<Longrightarrow> outcome_ok s'"
  by (cases rule: dispatch.cases, assumption)
    (auto simp: outcome_quiet outcome_start outcome_location outcome_response)

text \<open>All four invariants hold after every sequence of callbacks.\<close>

lemma dispatches_ok:
  "dispatches es s \<Longrightarrow> stage_ok s \<and> grant_ok es s \<and> table_ok es s \<and> outcome_ok s"
proof (induction rule: dispatches.induct)
  case dispatches_start
  show ?case
    by (simp add: stage_ok_def grant_ok_def table_ok_def outcome_ok_def location_start_def)
next
  case (dispatches_step es s e s')
  then show ?case using stage_step grant_step table_step outcome_step by blast
qed

section \<open>Portal calls\<close>

definition calls_ok :: "location \<Rightarrow> bool" where
  "calls_ok s \<longleftrightarrow>
     (l_creating s \<longleftrightarrow> (\<exists>token. Create_Session token \<in> set (l_calls s))) \<and>
     (\<forall>session token. Start session token \<in> set (l_calls s) \<longrightarrow> l_starting s \<and> l_session s = Some session) \<and>
     (\<forall>path iface. Close path iface \<notin> set (l_calls s))"

lemma calls_frame [simp]:
  "calls_ok (finish r s) = calls_ok s" "calls_ok (maybe_finish s) = calls_ok s"
  "calls_ok (s\<lparr>l_responses := t\<rparr>) = calls_ok s"
  "calls_ok (s\<lparr>l_latitude := la, l_longitude := lo, l_have_fix := True\<rparr>) = calls_ok s"
  "calls_ok (s\<lparr>l_request := r', l_start_returned := True\<rparr>) = calls_ok s"
  "calls_ok (answered a s) = calls_ok s"
  by (simp_all add: calls_ok_def answered_def)

lemma calls_step:
  assumes "dispatch e s s'" "stage_ok s" "calls_ok s"
  shows "calls_ok s'"
  using assms(1)
proof cases
  case (got_bus bus uuid)
  then have "\<not> l_starting s" using assms(2) by (auto simp: stage_ok_def)
  then have "calls_ok (answered Async_Bus s)" "\<not> l_starting (answered Async_Bus s)"
    using assms(3) by (simp_all add: answered_def calls_ok_def)
  then show ?thesis unfolding got_bus(2)
    by (auto simp: bus_ready_def Let_def split: option.split) (auto simp: calls_ok_def)
next
  case (got_session reply)
  then have "\<not> l_starting s" using assms(2) by (auto simp: stage_ok_def)
  then have "calls_ok (answered Async_Session s)" "\<not> l_starting (answered Async_Session s)"
    using assms(3) by (simp_all add: answered_def calls_ok_def)
  then show ?thesis unfolding got_session(2)
    by (auto simp: session_done_def split: option.split) (auto simp: calls_ok_def)
qed (use assms(3) in \<open>auto simp: deadline_def bus_closed_def session_closed_def start_done_def
      response_signal_def location_signal_def split: option.split prod.split\<close>)

lemma dispatches_calls: "dispatches es s \<Longrightarrow> calls_ok s"
proof (induction rule: dispatches.induct)
  case dispatches_start
  show ?case by (simp add: calls_ok_def location_start_def)
next
  case (dispatches_step es s e s')
  then show ?case using calls_step dispatches_ok by blast
qed

text \<open>However the helper ends, a session it asked for is closed, and so is an interaction it started that
  the user has not answered.\<close>

lemma location_closes:
  assumes "dispatches es s" "location_main dtostr printed s = (code, out, calls)"
  shows "(\<exists>token. Create_Session token \<in> set calls) \<longleftrightarrow> (\<exists>session. Close session Session_Iface \<in> set calls)"
    and "Start session token \<in> set calls \<Longrightarrow> Close session Session_Iface \<in> set calls"
    and "Start session token \<in> set calls \<Longrightarrow>
      (\<exists>request. l_request s = Some request \<and>
        (Close request Request_Iface \<in> set calls \<or> map_of (l_responses s) request \<noteq> None))"
proof -
  have c: "calls = l_calls s @ close_portal_objects s" using assms(2)
    by (auto simp: location_main_def Let_def split: if_splits)
  have ok: "stage_ok s" "calls_ok s" using assms(1) dispatches_ok dispatches_calls by blast+
  have k: "Close session Session_Iface \<in> set calls \<longleftrightarrow> l_creating s \<and> l_session s = Some session" for session
    using ok by (auto simp: c close_portal_objects_def calls_ok_def stage_ok_def split: option.splits if_splits)
  have create: "Create_Session t \<in> set calls \<longleftrightarrow> Create_Session t \<in> set (l_calls s)"
    and start: "Start p t \<in> set calls \<longleftrightarrow> Start p t \<in> set (l_calls s)" for p t
    by (auto simp: c close_portal_objects_def split: option.splits if_splits)
  show "(\<exists>token. Create_Session token \<in> set calls) \<longleftrightarrow> (\<exists>session. Close session Session_Iface \<in> set calls)"
    using ok unfolding k create by (auto simp: calls_ok_def stage_ok_def)
  show "Start session token \<in> set calls \<Longrightarrow> Close session Session_Iface \<in> set calls"
    using ok unfolding k start by (auto simp: calls_ok_def stage_ok_def)
  assume "Start session token \<in> set calls"
  then have "l_starting s" "l_bus s" "l_request s \<noteq> None"
    using ok unfolding start by (auto simp: calls_ok_def stage_ok_def)
  then show "\<exists>request. l_request s = Some request \<and>
      (Close request Request_Iface \<in> set calls \<or> map_of (l_responses s) request \<noteq> None)"
    by (auto simp: c close_portal_objects_def)
qed

section \<open>The published fix\<close>

text \<open>Once the call has returned, the permission is recorded and a fix has arrived, in whatever order, the
  helper has published; a refusal ends it.\<close>

lemma location_never_waits:
  assumes "dispatches es s" "l_start_returned s" "stored_response s = Some n"
  shows "l_finished s \<or> n = 1 \<and> \<not> l_have_fix s"
  using dispatches_ok [OF assms(1)] assms(2,3) by (auto simp: outcome_ok_def)


definition sample_location_events :: "loc_event list" where
  "sample_location_events =
     [Bus_Ready (Some (ascii '':1.2'')) (ascii ''a-b''), Session_Done (Some (ascii ''/s'')),
      Location_Updated (Some (ascii ''/s'', Some (Finite 48), Some (Finite 2))),
      Response (ascii ''/r'') (Some 0), Start_Done (Some (ascii ''/r''))]"

definition sample_location :: location where
  "sample_location = the (react_all sample_location_events location_start)"

lemma sample_location_run: "dispatches sample_location_events sample_location"
proof -
  have "react_all sample_location_events location_start \<noteq> None"
    by code_simp
  then show ?thesis
    using dispatches_react_all [OF dispatches_start, of sample_location_events sample_location]
    by (auto simp: sample_location_def)
qed

definition sample_dtostr :: "double \<Rightarrow> cstring" where
  "sample_dtostr d = (if d = Finite 48 then ascii ''48'' else ascii ''2'')"


end
