(* ===== verification/Fbx_Writer.thy ===== *)
theory Fbx_Writer
  imports Wire Frames
begin

text \<open>
  The payload of a model helper's first reply (\<open>app/fbx_helper.c\<close>): the bounded \<open>Writer\<close> that first
  measures and then fills a buffer of exactly that size, and \<open>metadata\<close>, which writes the geometry, the
  animations, the materials and their textures. A C float or double is its bit pattern.

  What \<open>app/fbx_shim.c\<close> computes from the file (with the ufbx library and floating-point arithmetic) is the
  record \<open>fbx_scene\<close>, one field per accessor of \<open>app/fbx_shim.h\<close>.
\<close>

section \<open>The scene as its accessors show it\<close>

definition FBX_MAX_TRIS :: int where "FBX_MAX_TRIS = 2000000"
definition FBX_MAT_FLOATS :: nat where "FBX_MAT_FLOATS = 12"
definition FBX_MAX_ITEMS :: int where "FBX_MAX_ITEMS = 65536"
definition FBX_MAX_STRING :: nat where "FBX_MAX_STRING = 4096"
definition FBX_CHANNEL_COUNT :: nat where "FBX_CHANNEL_COUNT = 6"

lemmas fbx_limits =
  FBX_MAX_TRIS_def FBX_MAT_FLOATS_def FBX_MAX_ITEMS_def FBX_MAX_STRING_def FBX_CHANNEL_COUNT_def

text \<open>\<open>fbx_model\<close>: the counts are 32-bit ints, the arrays hold float or int bit patterns.\<close>

record fbx_model =
  num_tris :: int
  num_bones :: int
  num_anims :: int
  num_mats :: int
  m_pos :: "u32 list"
  m_nrm :: "u32 list"
  m_uv :: "u32 list"
  m_bone :: "u32 list"
  m_weight :: "u32 list"
  m_mat :: "u32 list"
  m_mats :: "u32 list"
  has_uv :: bool
  has_skin :: bool

record fbx_texture_info =
  i_path :: "cstring option"
  i_uv :: "u32 list"
  i_tint :: "u32 list"
  i_clamp_u :: u32
  i_clamp_v :: u32

record fbx_scene = fbx_model +
  anim_begin :: "nat \<Rightarrow> u64"
  anim_end :: "nat \<Rightarrow> u64"
  anim_name :: "nat \<Rightarrow> cstring option"
  material_name :: "nat \<Rightarrow> cstring option"
  texture_of :: "nat \<Rightarrow> nat \<Rightarrow> u32 \<times> fbx_texture_info"
  scene_eval :: "int \<Rightarrow> u64 \<Rightarrow> u32 list option"

text \<open>What the writer relies on: every array is as long as the counts say.\<close>

definition fbx_arrays_ok :: "('a) fbx_scene_scheme \<Rightarrow> bool" where
  "fbx_arrays_ok m \<longleftrightarrow>
     (let t = nat (num_tris m) in
      length (m_pos m) = 9 * t \<and> length (m_nrm m) = 9 * t \<and>
      (has_uv m \<longrightarrow> length (m_uv m) = 6 * t) \<and>
      (has_skin m \<longrightarrow> length (m_bone m) = 3 * t \<and> length (m_weight m) = 3 * t) \<and>
      (num_mats m \<noteq> 0 \<longrightarrow> length (m_mat m) = t \<and> length (m_mats m) = nat (num_mats m) * FBX_MAT_FLOATS)) \<and>
     (\<forall>i ch. length (i_uv (snd (texture_of m i ch))) = 6 \<and> length (i_tint (snd (texture_of m i ch))) = 4)"

section \<open>The writer\<close>

text \<open>\<open>w_data\<close> is None while measuring; otherwise the bytes written so far of a buffer of \<open>w_capacity\<close>.\<close>

record writer =
  w_data :: "byte list option"
  w_size :: nat
  w_capacity :: nat
  w_ok :: bool

definition writer_fail :: "writer \<Rightarrow> writer" where
  "writer_fail w = w\<lparr>w_ok := False\<rparr>"

text \<open>\<open>bytes(w, p, n)\<close>; the source pointer is None for NULL, which is passed only while measuring.\<close>

definition put_bytes :: "byte list option \<Rightarrow> nat \<Rightarrow> writer \<Rightarrow> writer" where
  "put_bytes p n w =
     (if \<not> w_ok w \<or> unat WN_MODEL_OUTPUT_MAX - w_size w < n \<or>
         (w_data w \<noteq> None \<and> w_capacity w - w_size w < n)
      then writer_fail w
      else w\<lparr>w_data := (case w_data w of None \<Rightarrow> None | Some d \<Rightarrow> Some (d @ take n (the p))),
             w_size := w_size w + n\<rparr>)"

definition put_u32 :: "u32 \<Rightarrow> writer \<Rightarrow> writer" where
  "put_u32 v w = put_bytes (Some (wn_image_put v)) 4 w"

definition f32_finite :: "u32 \<Rightarrow> bool" where
  "f32_finite bits \<longleftrightarrow> bits AND 0x7F800000 \<noteq> 0x7F800000"

definition f64_finite :: "u64 \<Rightarrow> bool" where
  "f64_finite bits \<longleftrightarrow> bits AND 0x7FF0000000000000 \<noteq> 0x7FF0000000000000"

definition put_f32 :: "u32 \<Rightarrow> writer \<Rightarrow> writer" where
  "put_f32 bits w = (if \<not> f32_finite bits then writer_fail w else put_u32 bits w)"

definition put_f64 :: "u64 \<Rightarrow> writer \<Rightarrow> writer" where
  "put_f64 bits w =
     (if \<not> f64_finite bits then writer_fail w
      else put_u32 (ucast (drop_bit 32 bits)) (put_u32 (ucast bits) w))"

text \<open>The loop of \<open>floats\<close> stops at the first failure.\<close>

fun put_f32s :: "u32 list \<Rightarrow> writer \<Rightarrow> writer" where
  "put_f32s [] w = w"
| "put_f32s (v # vs) w = (if w_ok w then put_f32s vs (put_f32 v w) else w)"

definition put_floats :: "u32 list \<Rightarrow> nat \<Rightarrow> writer \<Rightarrow> writer" where
  "put_floats v n w =
     (if w_data w = None then put_bytes None (n * 4) w else put_f32s (take n v) w)"

text \<open>The scan looks at one byte more than the limit.\<close>

definition put_string :: "cstring option \<Rightarrow> writer \<Rightarrow> writer" where
  "put_string s w =
     (let n = (case s of None \<Rightarrow> 0 | Some s \<Rightarrow> min (length s) (FBX_MAX_STRING + 1))
      in if n > FBX_MAX_STRING then writer_fail w
         else let w = put_u32 (word_of_nat n) w
              in if n \<noteq> 0 then put_bytes s n w else w)"

section \<open>\<open>metadata\<close>\<close>

definition fbx_counts_ok :: "('a) fbx_model_scheme \<Rightarrow> bool" where
  "fbx_counts_ok m \<longleftrightarrow>
     \<not> (num_tris m = 0 \<or> num_tris m > FBX_MAX_TRIS \<or> num_tris m < 0 \<or>
        num_bones m < 0 \<or> num_bones m > FBX_MAX_ITEMS \<or> num_anims m < 0 \<or> num_anims m > FBX_MAX_ITEMS \<or>
        num_mats m < 0 \<or> num_mats m > FBX_MAX_ITEMS)"

definition fbx_flags :: "('a) fbx_model_scheme \<Rightarrow> u32" where
  "fbx_flags m = (if has_uv m then 1 else 0) OR (if has_skin m then 2 else 0)"

definition metadata_head :: "('a) fbx_scene_scheme \<Rightarrow> writer \<Rightarrow> writer" where
  "metadata_head m w =
     (let w = put_bytes (Some (ascii ''FBM1'')) 4 w;
          w = put_u32 (word_of_int (num_tris m)) w;
          w = put_u32 (word_of_int (num_bones m)) w;
          w = put_u32 (word_of_int (num_anims m)) w;
          w = put_u32 (word_of_int (num_mats m)) w;
          w = put_u32 (fbx_flags m) w;
          w = put_u32 0 w
      in put_u32 0 w)"

definition metadata_arrays :: "('a) fbx_scene_scheme \<Rightarrow> writer \<Rightarrow> writer" where
  "metadata_arrays m w =
     (let t = nat (num_tris m);
          w = put_floats (m_pos m) (t * 9) w;
          w = put_floats (m_nrm m) (t * 9) w;
          w = (if has_uv m then put_floats (m_uv m) (t * 6) w else w);
          w = (if has_skin m then put_floats (m_weight m) (t * 3) (fold put_u32 (take (t * 3) (m_bone m)) w) else w)
      in if num_mats m \<noteq> 0
         then put_floats (m_mats m) (nat (num_mats m) * FBX_MAT_FLOATS) (fold put_u32 (take t (m_mat m)) w)
         else w)"

definition put_anim :: "('a) fbx_scene_scheme \<Rightarrow> nat \<Rightarrow> writer \<Rightarrow> writer" where
  "put_anim m i w = put_string (anim_name m i) (put_f64 (anim_end m i) (put_f64 (anim_begin m i) w))"

definition put_texture :: "u32 \<times> fbx_texture_info \<Rightarrow> writer \<Rightarrow> writer" where
  "put_texture = (\<lambda>(ref, info) w.
     let w = put_u32 ref w;
         w = put_u32 (i_clamp_u info) w;
         w = put_u32 (i_clamp_v info) w;
         w = put_floats (i_uv info) 6 w;
         w = put_floats (i_tint info) 4 w
     in put_string (i_path info) w)"

definition put_material :: "('a) fbx_scene_scheme \<Rightarrow> nat \<Rightarrow> writer \<Rightarrow> writer" where
  "put_material m i w =
     fold (\<lambda>ch. put_texture (texture_of m i ch)) [0..<FBX_CHANNEL_COUNT] (put_string (material_name m i) w)"

text \<open>A loop whose condition includes \<open>w->ok\<close>.\<close>

fun while_ok :: "(nat \<Rightarrow> writer \<Rightarrow> writer) \<Rightarrow> nat list \<Rightarrow> writer \<Rightarrow> writer" where
  "while_ok f [] w = w"
| "while_ok f (i # is) w = (if w_ok w then while_ok f is (f i w) else w)"

definition metadata :: "('a) fbx_scene_scheme \<Rightarrow> writer \<Rightarrow> writer" where
  "metadata m w =
     (if \<not> fbx_counts_ok m then writer_fail w
      else
        let w = metadata_arrays m (metadata_head m w);
            w = while_ok (put_anim m) [0..<nat (num_anims m)] w
        in while_ok (put_material m) [0..<nat (num_mats m)] w)"

section \<open>What it writes\<close>

text \<open>The format of the source's header comment, as one list.\<close>

definition words :: "u32 list \<Rightarrow> byte list" where
  "words vs = concat (map wn_image_put vs)"

definition f64_bytes :: "u64 \<Rightarrow> byte list" where
  "f64_bytes bits = wn_image_put (ucast bits) @ wn_image_put (ucast (drop_bit 32 bits))"

definition string_bytes :: "cstring option \<Rightarrow> byte list" where
  "string_bytes s = (case s of None \<Rightarrow> wn_image_put 0 | Some s \<Rightarrow> wn_image_put (word_of_nat (length s)) @ s)"

definition anim_bytes :: "('a) fbx_scene_scheme \<Rightarrow> nat \<Rightarrow> byte list" where
  "anim_bytes m i = f64_bytes (anim_begin m i) @ f64_bytes (anim_end m i) @ string_bytes (anim_name m i)"

definition texture_bytes :: "u32 \<times> fbx_texture_info \<Rightarrow> byte list" where
  "texture_bytes = (\<lambda>(ref, info).
     words [ref, i_clamp_u info, i_clamp_v info] @ words (i_uv info) @ words (i_tint info) @
     string_bytes (i_path info))"

definition material_bytes :: "('a) fbx_scene_scheme \<Rightarrow> nat \<Rightarrow> byte list" where
  "material_bytes m i =
     string_bytes (material_name m i) @
     concat (map (\<lambda>ch. texture_bytes (texture_of m i ch)) [0..<FBX_CHANNEL_COUNT])"

definition open_payload :: "('a) fbx_scene_scheme \<Rightarrow> byte list" where
  "open_payload m =
     ascii ''FBM1'' @
     words [word_of_int (num_tris m), word_of_int (num_bones m), word_of_int (num_anims m),
       word_of_int (num_mats m), fbx_flags m, 0, 0] @
     words (m_pos m) @ words (m_nrm m) @
     (if has_uv m then words (m_uv m) else []) @
     (if has_skin m then words (m_bone m) @ words (m_weight m) else []) @
     (if num_mats m \<noteq> 0 then words (m_mat m) @ words (m_mats m) else []) @
     concat (map (anim_bytes m) [0..<nat (num_anims m)]) @
     concat (map (material_bytes m) [0..<nat (num_mats m)])"

section \<open>Writing under a budget\<close>

text \<open>
  An operation emits \<open>p\<close> under the condition \<open>c\<close> (which may depend on whether a buffer is being filled)
  when, on a writer that is still fine, it succeeds exactly if the condition holds and \<open>p\<close> fits, and then
  appends \<open>p\<close>; on a failed writer it stays failed.
\<close>

definition writer_limit :: "writer \<Rightarrow> nat" where
  "writer_limit w =
     (if w_data w = None then unat WN_MODEL_OUTPUT_MAX else min (unat WN_MODEL_OUTPUT_MAX) (w_capacity w))"

definition written :: "byte list \<Rightarrow> writer \<Rightarrow> writer" where
  "written p w = w\<lparr>w_data := (case w_data w of None \<Rightarrow> None | Some d \<Rightarrow> Some (d @ p)), w_size := w_size w + length p\<rparr>"

definition emits :: "(writer \<Rightarrow> writer) \<Rightarrow> (bool \<Rightarrow> bool) \<Rightarrow> byte list \<Rightarrow> bool" where
  "emits f c p \<longleftrightarrow>
     (\<forall>w. (\<not> w_ok w \<longrightarrow> \<not> w_ok (f w)) \<and>
        (w_ok w \<and> w_size w \<le> writer_limit w \<longrightarrow>
           (w_ok (f w) \<longleftrightarrow> c (w_data w \<noteq> None) \<and> w_size w + length p \<le> writer_limit w) \<and>
           (w_ok (f w) \<longrightarrow> f w = written p w)))"

lemma written_simps [simp]:
  "w_ok (written p w) = w_ok w" "w_size (written p w) = w_size w + length p"
  "w_data (written p w) = None \<longleftrightarrow> w_data w = None" "writer_limit (written p w) = writer_limit w"
  "written q (written p w) = written (p @ q) w" "written [] w = w"
  by (cases "w_data w"; simp add: written_def writer_limit_def)+

lemma emitsD:
  assumes "emits f c p" "w_ok w" "w_size w \<le> writer_limit w"
  shows "w_ok (f w) \<longleftrightarrow> c (w_data w \<noteq> None) \<and> w_size w + length p \<le> writer_limit w"
    and "w_ok (f w) \<Longrightarrow> f w = written p w"
  using assms by (simp_all add: emits_def)

lemma emits_failed: "emits f c p \<Longrightarrow> \<not> w_ok w \<Longrightarrow> \<not> w_ok (f w)"
  by (simp add: emits_def)

lemma emitsI:
  assumes "\<And>w. \<not> w_ok w \<Longrightarrow> \<not> w_ok (f w)"
    and "\<And>w. w_ok w \<Longrightarrow> w_size w \<le> writer_limit w \<Longrightarrow>
      (w_ok (f w) \<longleftrightarrow> c (w_data w \<noteq> None) \<and> w_size w + length p \<le> writer_limit w) \<and>
      (w_ok (f w) \<longrightarrow> f w = written p w)"
  shows "emits f c p"
  using assms by (simp add: emits_def)

lemma emits_id: "emits (\<lambda>w. w) (\<lambda>_. True) []"
  by (rule emitsI) simp_all

lemma emits_comp:
  assumes f: "emits f c p" and g: "emits g d q"
  shows "emits (\<lambda>w. g (f w)) (\<lambda>m. c m \<and> d m) (p @ q)"
proof (rule emitsI)
  fix w :: writer assume "\<not> w_ok w"
  then show "\<not> w_ok (g (f w))" by (intro emits_failed [OF g] emits_failed [OF f])
next
  fix w :: writer assume w: "w_ok w" "w_size w \<le> writer_limit w"
  note fw = emitsD [OF f w]
  show "(w_ok (g (f w)) \<longleftrightarrow> (c (w_data w \<noteq> None) \<and> d (w_data w \<noteq> None)) \<and>
      w_size w + length (p @ q) \<le> writer_limit w) \<and> (w_ok (g (f w)) \<longrightarrow> g (f w) = written (p @ q) w)"
  proof (cases "w_ok (f w)")
    case True
    then have fin: "f w = written p w" "c (w_data w \<noteq> None)" "w_size w + length p \<le> writer_limit w"
      using fw by simp_all
    then have ok: "w_ok (written p w)" "w_size (written p w) \<le> writer_limit (written p w)" using w by simp_all
    show ?thesis using emitsD [OF g ok] fin by (simp add: ac_simps)
  next
    case False
    then show ?thesis using fw(1) emits_failed [OF g False] by auto
  qed
qed

lemma emits_weaken: "emits f c p \<Longrightarrow> (\<And>m. c m \<longleftrightarrow> d m) \<Longrightarrow> p = q \<Longrightarrow> emits f d q"
  by (simp add: emits_def)

lemma emits_bytes: "length p = n \<Longrightarrow> emits (put_bytes (Some p) n) (\<lambda>_. True) p"
  by (rule emitsI) (auto simp: put_bytes_def writer_fail_def written_def writer_limit_def split: option.splits if_splits)

lemma emits_u32: "emits (put_u32 v) (\<lambda>_. True) (wn_image_put v)"
  unfolding put_u32_def by (rule emits_bytes) simp

lemma emits_guard: "emits f c p \<Longrightarrow> emits (\<lambda>w. if \<not> b then writer_fail w else f w) (\<lambda>m. b \<and> c m) p"
  by (cases b) (auto simp: emits_def writer_fail_def)

lemma emits_f32: "emits (put_f32 v) (\<lambda>_. f32_finite v) (wn_image_put v)"
  unfolding put_f32_def [abs_def] by (rule emits_weaken [OF emits_guard [OF emits_u32]]) simp_all

lemma emits_f64: "emits (put_f64 v) (\<lambda>_. f64_finite v) (f64_bytes v)"
  unfolding put_f64_def [abs_def] f64_bytes_def
  by (rule emits_weaken [OF emits_guard [OF emits_comp [OF emits_u32 emits_u32]]]) simp_all

lemma emits_fold:
  "(\<And>x. x \<in> set xs \<Longrightarrow> emits (f x) (c x) (p x)) \<Longrightarrow>
   emits (fold f xs) (\<lambda>m. list_all (\<lambda>x. c x m) xs) (concat (map p xs))"
proof (induction xs)
  case Nil
  show ?case using emits_id by (simp add: id_def)
next
  case (Cons x xs)
  have "emits (\<lambda>w. fold f xs (f x w)) (\<lambda>m. c x m \<and> list_all (\<lambda>x. c x m) xs) (p x @ concat (map p xs))"
    using Cons by (intro emits_comp) simp_all
  then show ?case by (simp add: comp_def)
qed

lemma emits_while_ok:
  "(\<And>x. x \<in> set xs \<Longrightarrow> emits (f x) (c x) (p x)) \<Longrightarrow>
   emits (while_ok f xs) (\<lambda>m. list_all (\<lambda>x. c x m) xs) (concat (map p xs))"
proof (induction xs)
  case Nil
  show ?case using emits_id by (simp add: emits_def)
next
  case (Cons x xs)
  have "emits (\<lambda>w. while_ok f xs (f x w)) (\<lambda>m. c x m \<and> list_all (\<lambda>x. c x m) xs) (p x @ concat (map p xs))"
    using Cons by (intro emits_comp) simp_all
  then show ?case by (auto simp: emits_def)
qed

lemma put_f32s_while: "put_f32s vs w = while_ok (\<lambda>i. put_f32 (vs ! i)) [0..<length vs] w"
proof (induction vs arbitrary: w)
  case (Cons v vs)
  have "while_ok (\<lambda>i. put_f32 ((v # vs) ! i)) (map Suc [0..<length vs]) w' =
      while_ok (\<lambda>i. put_f32 (vs ! i)) [0..<length vs] w'" for w'
  proof -
    have "while_ok (\<lambda>i. put_f32 ((v # vs) ! i)) (map Suc is) w' = while_ok (\<lambda>i. put_f32 (vs ! i)) is w'" for "is"
      by (induction "is" arbitrary: w') simp_all
    then show ?thesis .
  qed
  then show ?case using Cons.IH by (simp add: upt_conv_Cons map_Suc_upt [symmetric] del: upt_Suc)
qed simp

lemma emits_f32s: "emits (put_f32s vs) (\<lambda>_. list_all f32_finite vs) (words vs)"
proof -
  have "emits (while_ok (\<lambda>i. put_f32 (vs ! i)) [0..<length vs])
     (\<lambda>m. list_all (\<lambda>i. f32_finite (vs ! i)) [0..<length vs]) (concat (map (\<lambda>i. wn_image_put (vs ! i)) [0..<length vs]))"
    by (rule emits_while_ok) (rule emits_f32)
  moreover have "map (\<lambda>i. wn_image_put (vs ! i)) [0..<length vs] = map wn_image_put vs"
    by (rule nth_equalityI) simp_all
  moreover have "list_all (\<lambda>i. f32_finite (vs ! i)) [0..<length vs] = list_all f32_finite vs"
    by (auto simp: list_all_length)
  ultimately show ?thesis by (simp add: put_f32s_while [abs_def] words_def)
qed

lemma length_words [simp]: "length (words vs) = 4 * length vs"
  by (simp add: words_def le32.concat_length)

lemma emits_floats:
  assumes "length v = n"
  shows "emits (put_floats v n) (\<lambda>m. m \<longrightarrow> list_all f32_finite v) (words v)"
proof (rule emitsI)
  fix w :: writer assume "\<not> w_ok w"
  then show "\<not> w_ok (put_floats v n w)"
    using emits_failed [OF emits_f32s] by (auto simp: put_floats_def put_bytes_def writer_fail_def)
next
  fix w :: writer assume w: "w_ok w" "w_size w \<le> writer_limit w"
  show "(w_ok (put_floats v n w) \<longleftrightarrow> (w_data w \<noteq> None \<longrightarrow> list_all f32_finite v) \<and>
      w_size w + length (words v) \<le> writer_limit w) \<and> (w_ok (put_floats v n w) \<longrightarrow> put_floats v n w = written (words v) w)"
  proof (cases "w_data w")
    case None
    then show ?thesis using w assms
      by (auto simp: put_floats_def put_bytes_def writer_fail_def writer_limit_def written_def mult.commute)
  next
    case (Some d)
    then show ?thesis using emitsD [OF emits_f32s w, of v] assms by (simp add: put_floats_def)
  qed
qed

definition string_fits :: "cstring option \<Rightarrow> bool" where
  "string_fits s \<longleftrightarrow> (case s of None \<Rightarrow> True | Some s \<Rightarrow> length s \<le> FBX_MAX_STRING)"

lemma emits_string: "emits (put_string s) (\<lambda>_. string_fits s) (string_bytes s)"
proof (cases "string_fits s")
  case False
  then have "put_string s = writer_fail"
    by (auto simp: put_string_def string_fits_def fbx_limits Let_def split: option.splits)
  then show ?thesis using False by (auto simp: emits_def writer_fail_def)
next
  case True
  show ?thesis
  proof (cases "s = None \<or> s = Some []")
    case True
    then have "put_string s = put_u32 0" "string_bytes s = wn_image_put 0"
      by (auto simp: put_string_def string_bytes_def fbx_limits)
    then show ?thesis using emits_u32 [of 0] \<open>string_fits s\<close> by simp
  next
    case False
    then obtain t where t: "s = Some t" "t \<noteq> []" by (cases s) auto
    then have "put_string s = (\<lambda>w. put_bytes (Some t) (length t) (put_u32 (word_of_nat (length t)) w))"
      using True by (auto simp: put_string_def string_fits_def Let_def)
    moreover have "string_bytes s = wn_image_put (word_of_nat (length t)) @ t" by (simp add: t string_bytes_def)
    ultimately show ?thesis using emits_comp [OF emits_u32 emits_bytes [OF refl]] True by simp
  qed
qed

lemma emits_if: "(b \<Longrightarrow> emits f c p) \<Longrightarrow> emits (\<lambda>w. if b then f w else w) (\<lambda>m. b \<longrightarrow> c m) (if b then p else [])"
  using emits_id by (cases b) simp_all

lemma emits_words: "length vs = n \<Longrightarrow> emits (fold put_u32 (take n vs)) (\<lambda>_. True) (words vs)"
  unfolding words_def by (rule emits_weaken [OF emits_fold [OF emits_u32]]) (simp_all add: list_all_iff)

section \<open>The two passes\<close>

text \<open>What must hold of the scene: of its texts and times always, of its floats once they are written.\<close>

definition texts_ok :: "('a) fbx_scene_scheme \<Rightarrow> bool" where
  "texts_ok m \<longleftrightarrow>
     list_all (\<lambda>i. f64_finite (anim_begin m i) \<and> f64_finite (anim_end m i) \<and> string_fits (anim_name m i))
       [0..<nat (num_anims m)] \<and>
     list_all (\<lambda>i. string_fits (material_name m i) \<and>
         list_all (\<lambda>ch. string_fits (i_path (snd (texture_of m i ch)))) [0..<FBX_CHANNEL_COUNT])
       [0..<nat (num_mats m)]"

definition floats_ok :: "('a) fbx_scene_scheme \<Rightarrow> bool" where
  "floats_ok m \<longleftrightarrow>
     list_all f32_finite (m_pos m) \<and> list_all f32_finite (m_nrm m) \<and>
     (has_uv m \<longrightarrow> list_all f32_finite (m_uv m)) \<and> (has_skin m \<longrightarrow> list_all f32_finite (m_weight m)) \<and>
     (num_mats m \<noteq> 0 \<longrightarrow> list_all f32_finite (m_mats m)) \<and>
     list_all (\<lambda>i. list_all (\<lambda>ch. list_all f32_finite (i_uv (snd (texture_of m i ch))) \<and>
           list_all f32_finite (i_tint (snd (texture_of m i ch)))) [0..<FBX_CHANNEL_COUNT])
       [0..<nat (num_mats m)]"

lemma emits_anim:
  "emits (put_anim m i)
     (\<lambda>_. f64_finite (anim_begin m i) \<and> f64_finite (anim_end m i) \<and> string_fits (anim_name m i)) (anim_bytes m i)"
  unfolding put_anim_def [abs_def] anim_bytes_def
  by (rule emits_weaken [OF emits_comp [OF emits_comp [OF emits_f64 emits_f64] emits_string]]) simp_all

lemma emits_texture:
  assumes "length (i_uv (snd t)) = 6" "length (i_tint (snd t)) = 4"
  shows "emits (put_texture t)
     (\<lambda>m. (m \<longrightarrow> list_all f32_finite (i_uv (snd t)) \<and> list_all f32_finite (i_tint (snd t))) \<and>
        string_fits (i_path (snd t))) (texture_bytes t)"
  unfolding put_texture_def [abs_def] texture_bytes_def case_prod_beta Let_def
  by (rule emits_weaken [OF emits_comp [OF emits_comp [OF emits_comp [OF emits_comp [OF
      emits_comp [OF emits_u32 emits_u32] emits_u32] emits_floats] emits_floats] emits_string]])
    (auto simp: assms words_def)

lemma emits_material:
  assumes "fbx_arrays_ok m"
  shows "emits (put_material m i)
     (\<lambda>b. string_fits (material_name m i) \<and>
        list_all (\<lambda>ch. string_fits (i_path (snd (texture_of m i ch)))) [0..<FBX_CHANNEL_COUNT] \<and>
        (b \<longrightarrow> list_all (\<lambda>ch. list_all f32_finite (i_uv (snd (texture_of m i ch))) \<and>
           list_all f32_finite (i_tint (snd (texture_of m i ch)))) [0..<FBX_CHANNEL_COUNT])) (material_bytes m i)"
  unfolding put_material_def [abs_def] material_bytes_def
  by (rule emits_weaken [OF emits_comp [OF emits_string emits_fold [OF emits_texture]]])
    (use assms in \<open>auto simp: fbx_arrays_ok_def list_all_iff\<close>)

lemma emits_head:
  "emits (metadata_head m) (\<lambda>_. True)
     (ascii ''FBM1'' @ words [word_of_int (num_tris m), word_of_int (num_bones m), word_of_int (num_anims m),
       word_of_int (num_mats m), fbx_flags m, 0, 0])"
  unfolding metadata_head_def [abs_def] Let_def
  by (rule emits_weaken [OF emits_comp [OF emits_comp [OF emits_comp [OF emits_comp [OF emits_comp [OF
      emits_comp [OF emits_comp [OF emits_bytes emits_u32] emits_u32] emits_u32] emits_u32] emits_u32]
      emits_u32] emits_u32]]) (simp_all add: words_def)

lemma emits_arrays:
  assumes "fbx_arrays_ok m"
  shows "emits (metadata_arrays m)
     (\<lambda>b. b \<longrightarrow> list_all f32_finite (m_pos m) \<and> list_all f32_finite (m_nrm m) \<and>
        (has_uv m \<longrightarrow> list_all f32_finite (m_uv m)) \<and> (has_skin m \<longrightarrow> list_all f32_finite (m_weight m)) \<and>
        (num_mats m \<noteq> 0 \<longrightarrow> list_all f32_finite (m_mats m)))
     (words (m_pos m) @ words (m_nrm m) @ (if has_uv m then words (m_uv m) else []) @
      (if has_skin m then words (m_bone m) @ words (m_weight m) else []) @
      (if num_mats m \<noteq> 0 then words (m_mat m) @ words (m_mats m) else []))"
  unfolding metadata_arrays_def [abs_def] Let_def
  by (rule emits_weaken [OF emits_comp [OF emits_comp [OF emits_comp [OF emits_comp [OF emits_floats emits_floats]
      emits_if [OF emits_floats]] emits_if [OF emits_comp [OF emits_words emits_floats]]]
      emits_if [OF emits_comp [OF emits_words emits_floats]]]])
    (use assms in \<open>auto simp: fbx_arrays_ok_def Let_def\<close>)

lemma emits_metadata:
  assumes "fbx_arrays_ok m"
  shows "emits (metadata m) (\<lambda>b. fbx_counts_ok m \<and> texts_ok m \<and> (b \<longrightarrow> floats_ok m)) (open_payload m)"
proof -
  have "emits (\<lambda>w. while_ok (put_material m) [0..<nat (num_mats m)]
      (while_ok (put_anim m) [0..<nat (num_anims m)] (metadata_arrays m (metadata_head m w))))
     (\<lambda>b. texts_ok m \<and> (b \<longrightarrow> floats_ok m)) (open_payload m)"
    by (rule emits_weaken [OF emits_comp [OF emits_comp [OF emits_comp [OF emits_head emits_arrays [OF assms]]
        emits_while_ok [OF emits_anim]] emits_while_ok [OF emits_material [OF assms]]]])
      (auto simp: texts_ok_def floats_ok_def open_payload_def list_all_iff)
  from emits_guard [OF this, of "fbx_counts_ok m"] show ?thesis
    by (simp only: metadata_def [abs_def] Let_def)
qed

definition measure_writer :: writer where
  "measure_writer = \<lparr>w_data = None, w_size = 0, w_capacity = 0, w_ok = True\<rparr>"

definition output_writer :: "nat \<Rightarrow> writer" where
  "output_writer capacity = \<lparr>w_data = Some [], w_size = 0, w_capacity = capacity, w_ok = True\<rparr>"

text \<open>
  The first pass measures exactly the payload the second one writes: the buffer of the measured size is
  filled to its last byte, never overrun, and the second pass fails only on a float that is not finite.
\<close>

lemma metadata_measured:
  assumes "fbx_arrays_ok m"
  shows "w_ok (metadata m measure_writer) \<longleftrightarrow>
      fbx_counts_ok m \<and> texts_ok m \<and> length (open_payload m) \<le> unat WN_MODEL_OUTPUT_MAX"
    and "w_ok (metadata m measure_writer) \<Longrightarrow> w_size (metadata m measure_writer) = length (open_payload m)"
  using emitsD [OF emits_metadata [OF assms], of measure_writer]
  by (auto simp: measure_writer_def writer_limit_def)

lemma metadata_written:
  assumes "fbx_arrays_ok m" "w_ok (metadata m measure_writer)"
  shows "w_ok (metadata m (output_writer (w_size (metadata m measure_writer)))) \<longleftrightarrow> floats_ok m"
    and "floats_ok m \<Longrightarrow> metadata m (output_writer (w_size (metadata m measure_writer))) =
      \<lparr>w_data = Some (open_payload m), w_size = length (open_payload m),
       w_capacity = length (open_payload m), w_ok = True\<rparr>"
proof -
  note fine = metadata_measured [OF assms(1)] assms(2)
  note out = emitsD [OF emits_metadata [OF assms(1)], of "output_writer (w_size (metadata m measure_writer))"]
  show ok: "w_ok (metadata m (output_writer (w_size (metadata m measure_writer)))) \<longleftrightarrow> floats_ok m"
    using out fine by (auto simp: output_writer_def writer_limit_def)
  assume "floats_ok m"
  then show "metadata m (output_writer (w_size (metadata m measure_writer))) =
      \<lparr>w_data = Some (open_payload m), w_size = length (open_payload m),
       w_capacity = length (open_payload m), w_ok = True\<rparr>"
    using out(2) ok fine by (simp add: output_writer_def writer_limit_def written_def)
qed

end
