(* ===== verification/Fbx_Helper.thy ===== *)
theory Fbx_Helper
  imports Decoder_Client Fbx_Writer
begin

text \<open>
  The model helper (\<open>app/fbx_helper.c\<close>): a session that opens one file and then answers poses, each request
  and reply carrying the sequence number its client expects next. The scene library (\<open>app/fbx_shim.c\<close> over
  ufbx) is the parameter \<open>fbx_open\<close>; allocations and writes are answers, one per sequence number.
\<close>

section \<open>The session\<close>

record fbx_env =
  f_restricted :: bool
  f_open :: "byte list \<Rightarrow> fbx_scene option"
  f_malloc_input :: "nat \<Rightarrow> bool"
  f_malloc_reply :: "nat \<Rightarrow> bool"
  f_write :: "nat \<Rightarrow> bool"
  f_ferror :: bool

record fbx_session =
  s_scene :: "fbx_scene option"
  s_sequence :: u32
  s_wire :: bool

text \<open>\<open>reply\<close>: header and payload.\<close>

definition fbx_reply :: "u32 \<Rightarrow> u32 \<Rightarrow> byte list \<Rightarrow> byte list" where
  "fbx_reply operation sequence payload =
     ascii ''FBO1'' @ wn_image_put operation @ wn_image_put sequence @
     wn_image_put (word_of_nat (length payload)) @ payload"

text \<open>What the stream still holds after \<open>fread\<close> of exactly n bytes; None when it holds fewer.\<close>

definition fread_exactly :: "nat \<Rightarrow> byte list \<Rightarrow> (byte list \<times> byte list) option" where
  "fread_exactly n input = (if n \<le> length input then Some (take n input, drop n input) else None)"

text \<open>Operation 0: read the file, open it, measure and write the metadata. The result is the payload with
  the scene and the rest of the stream.\<close>

definition fbx_open_request ::
  "fbx_env \<Rightarrow> u32 \<Rightarrow> u32 \<Rightarrow> byte list \<Rightarrow> (byte list \<times> fbx_scene \<times> byte list) option" where
  "fbx_open_request env sequence n stdin =
     (if \<not> f_malloc_input env (unat sequence) then None
      else
        (case fread_exactly (unat n) stdin of
           None \<Rightarrow> None
         | Some (input, rest) \<Rightarrow>
             (case f_open env input of
                None \<Rightarrow> None
              | Some scene \<Rightarrow>
                  let measure = metadata scene measure_writer
                  in if \<not> w_ok measure then None
                     else if \<not> f_malloc_reply env (unat sequence) then None
                     else
                       let out = metadata scene (output_writer (w_size measure))
                       in if w_ok out \<and> f_write env (unat sequence)
                          then Some (the (w_data out), scene, rest) else None)))"

definition pose_count :: "fbx_scene \<Rightarrow> nat" where
  "pose_count scene = nat (num_tris scene) * 9"

definition pose_payload :: "fbx_scene \<Rightarrow> u32 list \<Rightarrow> byte list" where
  "pose_payload scene pose =
     ascii ''FBP1'' @ wn_image_put (word_of_nat (pose_count scene div 9)) @
     words (take (pose_count scene * 2) pose)"

text \<open>Operation 1: evaluate a pose. \<open>s_wire\<close> says whether the reply buffer has been allocated.\<close>

definition fbx_pose_request ::
  "fbx_env \<Rightarrow> u32 \<Rightarrow> fbx_scene \<Rightarrow> bool \<Rightarrow> byte list \<Rightarrow> (byte list \<times> byte list) option" where
  "fbx_pose_request env sequence scene wire stdin =
     (case fread_exactly 12 stdin of
        None \<Rightarrow> None
      | Some (request, rest) \<Rightarrow>
          let index = sint (wn_image_u32 request);
              time = (ucast (wn_image_u32 (drop 4 request)) OR
                      push_bit 32 (ucast (wn_image_u32 (drop 8 request))) :: u64)
          in
          if index < - 1 \<or> num_anims scene \<le> index \<or> \<not> f64_finite time then None
          else if \<not> wire \<and> \<not> f_malloc_reply env (unat sequence) then None
          else
            (case scene_eval scene index time of
               None \<Rightarrow> None
             | Some pose \<Rightarrow>
                 if list_all f32_finite (take (pose_count scene * 2) pose) \<and> f_write env (unat sequence)
                 then Some (pose_payload scene pose, rest) else None))"

text \<open>One request: an error ends the helper with the given status, otherwise the reply is sent.\<close>

datatype fbx_outcome =
    Fbx_Exit int
  | Fbx_Reply "byte list" fbx_session "byte list"

definition fbx_request :: "fbx_env \<Rightarrow> fbx_session \<Rightarrow> byte list \<Rightarrow> fbx_outcome" where
  "fbx_request env s stdin =
     (if stdin = [] \<and> \<not> f_ferror env then Fbx_Exit 0
      else
        (case fread_exactly 16 stdin of
           None \<Rightarrow> Fbx_Exit 1
         | Some (header, rest) \<Rightarrow>
             if take 4 header \<noteq> ascii ''FBI1'' \<or> s_sequence s = - 1 \<or>
                wn_image_u32 (drop 12 header) \<noteq> s_sequence s + 1
             then Fbx_Exit 1
             else
               let sequence = s_sequence s + 1;
                   op = wn_image_u32 (drop 4 header); n = wn_image_u32 (drop 8 header)
               in
               if op = 0 \<and> s_scene s = None \<and> n \<noteq> 0 \<and> n \<le> WN_MODEL_INPUT_MAX then
                 (case fbx_open_request env sequence n rest of
                    None \<Rightarrow> Fbx_Exit 1
                  | Some (payload, scene, rest) \<Rightarrow>
                      Fbx_Reply (fbx_reply op sequence payload)
                        (s\<lparr>s_scene := Some scene, s_sequence := sequence\<rparr>) rest)
               else if op = 1 \<and> s_scene s \<noteq> None \<and> n = 12 then
                 (case fbx_pose_request env sequence (the (s_scene s)) (s_wire s) rest of
                    None \<Rightarrow> Fbx_Exit 1
                  | Some (payload, rest) \<Rightarrow>
                      Fbx_Reply (fbx_reply op sequence payload)
                        (s\<lparr>s_sequence := sequence, s_wire := True\<rparr>) rest)
               else Fbx_Exit 1))"

lemma fread_exactly_Some [simp]:
  "fread_exactly n input = Some (xs, rest) \<longleftrightarrow> length xs = n \<and> input = xs @ rest"
  by (auto simp: fread_exactly_def)

lemma fbx_request_shorter:
  "fbx_request env s stdin = Fbx_Reply r s' rest \<Longrightarrow> length rest < length stdin"
  by (auto simp: fbx_request_def fbx_open_request_def fbx_pose_request_def Let_def
      split: if_splits option.splits)

text \<open>The loop, until the stream ends or a request fails: the exit status and the replies that were sent.\<close>

function fbx_loop :: "fbx_env \<Rightarrow> fbx_session \<Rightarrow> byte list \<Rightarrow> int \<times> byte list list" where
  "fbx_loop env s stdin =
     (case fbx_request env s stdin of
        Fbx_Exit code \<Rightarrow> (code, [])
      | Fbx_Reply r s' rest \<Rightarrow> let (code, rs) = fbx_loop env s' rest in (code, r # rs))"
  by pat_completeness auto
termination
  by (relation "measure (\<lambda>(env, s, stdin). length stdin)") (auto dest: fbx_request_shorter)

definition fbx_start :: fbx_session where
  "fbx_start = \<lparr>s_scene = None, s_sequence = 0, s_wire = False\<rparr>"

definition fbx_main :: "nat \<Rightarrow> fbx_env \<Rightarrow> byte list \<Rightarrow> int \<times> byte list list" where
  "fbx_main argc env stdin =
     (if argc \<noteq> 1 \<or> \<not> f_restricted env then (1, []) else fbx_loop env fbx_start stdin)"

section \<open>What a session says\<close>

record fbx_exchange =
  e_op :: u32
  e_data :: "byte list"
  e_payload :: "byte list"

text \<open>The two streams of a session whose next sequence number is \<open>k\<close>.\<close>

fun request_stream :: "u32 \<Rightarrow> fbx_exchange list \<Rightarrow> byte list" where
  "request_stream k [] = []"
| "request_stream k (e # es) =
     ascii ''FBI1'' @ wn_image_put (e_op e) @ wn_image_put (word_of_nat (length (e_data e))) @ wn_image_put k @
     e_data e @ request_stream (k + 1) es"

fun reply_stream :: "u32 \<Rightarrow> fbx_exchange list \<Rightarrow> byte list list" where
  "reply_stream k [] = []"
| "reply_stream k (e # es) = fbx_reply (e_op e) k (e_payload e) # reply_stream (k + 1) es"

text \<open>A reply the client's session accepts when it has asked with this operation and number.\<close>

fun replies_accepted :: "u32 \<Rightarrow> fbx_exchange list \<Rightarrow> bool" where
  "replies_accepted k [] = True"
| "replies_accepted k (e # es) =
     ((\<forall>p a. whole_reply (exchange_reply \<lparr>m_process = p, m_active = a, m_sequence = k\<rparr> (e_op e) None 0)
        (fbx_reply (e_op e) k (e_payload e))) \<and> replies_accepted (k + 1) es)"

definition opens :: "fbx_env \<Rightarrow> fbx_scene \<Rightarrow> fbx_exchange \<Rightarrow> bool" where
  "opens env scene e \<longleftrightarrow>
     e_op e = 0 \<and> f_open env (e_data e) = Some scene \<and> floats_ok scene \<and> e_payload e = open_payload scene"

definition poses :: "fbx_scene \<Rightarrow> fbx_exchange \<Rightarrow> bool" where
  "poses scene e \<longleftrightarrow>
     e_op e = 1 \<and> length (e_data e) = 12 \<and>
     (\<exists>index time pose. - 1 \<le> index \<and> index < num_anims scene \<and> f64_finite time \<and>
        scene_eval scene index time = Some pose \<and> list_all f32_finite pose \<and> e_payload e = pose_payload scene pose)"

text \<open>What the scene library promises of an opened scene.\<close>

definition fbx_library_ok :: "fbx_env \<Rightarrow> bool" where
  "fbx_library_ok env \<longleftrightarrow>
     (\<forall>input scene. f_open env input = Some scene \<longrightarrow>
        fbx_arrays_ok scene \<and>
        (\<forall>index time pose. scene_eval scene index time = Some pose \<longrightarrow> length pose = pose_count scene * 2))"

lemma model_max: "unat WN_MODEL_OUTPUT_MAX = 536870912"
  by (simp add: limit_defs)

text \<open>The client accepts the reply of a helper that is in step with it.\<close>

lemma fbx_reply_whole:
  assumes "length payload \<le> unat (r_cap (exchange_reply session operation out capacity))"
  shows "whole_reply (exchange_reply session operation out capacity)
    (fbx_reply operation (m_sequence session) payload)"
proof -
  let ?r = "exchange_reply session operation out capacity"
  let ?p = "fbx_reply operation (m_sequence session) payload"
  have n: "length payload < 4294967296"
    using assms unat_u32_bound [of "r_cap ?r"] by linarith
  have size: "wire_size ?p = length payload"
    using n by (simp add: wire_size_def fbx_reply_def wire_simps ascii_def unsigned_of_nat take_bit_nat_eq_self)
  have "take 16 ?p = ascii ''FBO1'' @ wn_image_put operation @ wn_image_put (m_sequence session) @
      wn_image_put (word_of_nat (length payload))"
    by (simp add: fbx_reply_def)
  moreover have "header_valid DECODER_MODEL ?r \<dots>"
    using n assms by (simp add: wire_size_def wire_simps unsigned_of_nat take_bit_nat_eq_self)
      (simp add: exchange_reply_def)
  moreover have "r_kind ?r = DECODER_MODEL" by (simp add: exchange_reply_def)
  ultimately show ?thesis
    using size by (simp add: whole_reply_def viable_def) (simp add: fbx_reply_def)
qed

lemma request_wire:
  assumes "length header = 16" "take 4 header = ascii ''FBI1''"
  shows "header = ascii ''FBI1'' @ wn_image_put (wn_image_u32 (drop 4 header)) @
    wn_image_put (wn_image_u32 (drop 8 header)) @ wn_image_put (wn_image_u32 (drop 12 header))"
  using header_split [of header] assms by simp

lemma open_request_result:
  assumes lib: "fbx_library_ok env" and x: "fbx_open_request env sequence n stdin = Some (payload, scene, rest)"
  obtains input where "length input = unat n" "stdin = input @ rest" "f_open env input = Some scene"
    "floats_ok scene" "payload = open_payload scene" "length payload \<le> 536870912" "fbx_counts_ok scene"
proof -
  obtain input where i: "length input = unat n" "stdin = input @ rest" "f_open env input = Some scene"
    and ok: "w_ok (metadata scene measure_writer)"
      "w_ok (metadata scene (output_writer (w_size (metadata scene measure_writer))))"
    and p: "payload = the (w_data (metadata scene (output_writer (w_size (metadata scene measure_writer)))))"
    using x by (auto simp: fbx_open_request_def Let_def split: if_splits option.splits)
  have a: "fbx_arrays_ok scene" using lib i by (simp add: fbx_library_ok_def)
  note m = metadata_measured [OF a] and w = metadata_written [OF a ok(1)]
  show thesis using that [OF i] m w ok p by (simp add: model_max)
qed

lemma pose_payload_length:
  assumes "fbx_counts_ok scene" "length pose = pose_count scene * 2"
  shows "length (pose_payload scene pose) \<le> 536870912"
  using assms by (auto simp: pose_payload_def pose_count_def fbx_counts_ok_def fbx_limits)

lemma fbx_pose_step:
  assumes lib: "fbx_library_ok env" and sc: "s_scene s = Some scene" "f_open env input = Some scene" "fbx_counts_ok scene"
    and x: "fbx_request env s stdin = Fbx_Reply r s' rest"
  obtains e where "poses scene e" "stdin = request_stream (s_sequence s + 1) [e] @ rest"
    "r = fbx_reply (e_op e) (s_sequence s + 1) (e_payload e)" "s_scene s' = Some scene"
    "s_sequence s' = s_sequence s + 1" "s_sequence s \<noteq> - 1" "length (e_payload e) \<le> 536870912"
proof -
  obtain header data where h: "length header = 16" "take 4 header = ascii ''FBI1''" "stdin = header @ data"
    "s_sequence s \<noteq> - 1" "wn_image_u32 (drop 12 header) = s_sequence s + 1"
    "wn_image_u32 (drop 4 header) = 1" "wn_image_u32 (drop 8 header) = 12"
    and y: "\<exists>payload. fbx_pose_request env (s_sequence s + 1) scene (s_wire s) data = Some (payload, rest) \<and>
      r = fbx_reply 1 (s_sequence s + 1) payload \<and> s' = s\<lparr>s_sequence := s_sequence s + 1, s_wire := True\<rparr>"
    using x sc(1) by (auto simp: fbx_request_def Let_def split: if_splits option.splits)
  obtain payload where p: "fbx_pose_request env (s_sequence s + 1) scene (s_wire s) data = Some (payload, rest)"
    and r: "r = fbx_reply 1 (s_sequence s + 1) payload" "s' = s\<lparr>s_sequence := s_sequence s + 1, s_wire := True\<rparr>"
    using y by blast
  obtain request index time pose where q: "length request = 12" "data = request @ rest"
    "- 1 \<le> index" "index < num_anims scene" "f64_finite time" "scene_eval scene index time = Some pose"
    "list_all f32_finite (take (pose_count scene * 2) pose)" "payload = pose_payload scene pose"
    using p by (auto simp: fbx_pose_request_def Let_def not_less not_le split: if_splits option.splits)
  have len: "length pose = pose_count scene * 2" using lib sc(2) q(6) by (auto simp: fbx_library_ok_def)
  let ?e = "\<lparr>e_op = 1, e_data = request, e_payload = payload\<rparr>"
  show thesis
  proof (rule that [of ?e])
    show "poses scene ?e" using q len by (auto simp: poses_def)
    show "stdin = request_stream (s_sequence s + 1) [?e] @ rest"
      using request_wire [OF h(1,2)] h q by simp
    show "length (e_payload ?e) \<le> 536870912" using pose_payload_length [OF sc(3) len] q by simp
  qed (use r sc h in simp_all)
qed

lemma accepted_one:
  "length (e_payload e) \<le> 536870912 \<Longrightarrow>
   whole_reply (exchange_reply \<lparr>m_process = p, m_active = a, m_sequence = k\<rparr> (e_op e) None 0)
     (fbx_reply (e_op e) k (e_payload e))"
  using fbx_reply_whole [of "e_payload e" "\<lparr>m_process = p, m_active = a, m_sequence = k\<rparr>" "e_op e" None 0]
  by (simp add: exchange_reply_def model_max)

lemma fbx_exit_code: "fbx_request env s stdin = Fbx_Exit code \<Longrightarrow> code = 1 \<or> code = 0 \<and> stdin = []"
  by (auto simp: fbx_request_def Let_def split: if_splits option.splits)

lemma fbx_loop_poses:
  assumes "fbx_library_ok env" "s_scene s = Some scene" "f_open env input = Some scene" "fbx_counts_ok scene"
    and "fbx_loop env s stdin = (code, rs)"
  shows "\<exists>es rest. stdin = request_stream (s_sequence s + 1) es @ rest \<and> rs = reply_stream (s_sequence s + 1) es \<and>
    list_all (poses scene) es \<and> replies_accepted (s_sequence s + 1) es \<and>
    unat (s_sequence s) + length es < 4294967296 \<and> (code = 1 \<or> code = 0 \<and> rest = [])"
  using assms
proof (induction env s stdin arbitrary: rs rule: fbx_loop.induct)
  case (1 env s stdin)
  show ?case
  proof (cases "fbx_request env s stdin")
    case (Fbx_Exit c)
    then show ?thesis using 1(6) fbx_exit_code [OF Fbx_Exit] unat_u32_bound [of "s_sequence s"]
      by (intro exI [of _ "[]"] exI [of _ stdin]) simp
  next
    case (Fbx_Reply r s' rest)
    obtain rs' where loop: "fbx_loop env s' rest = (code, rs')" and rs: "rs = r # rs'"
      using 1(6) Fbx_Reply by (auto split: prod.splits)
    obtain e where e: "poses scene e" "stdin = request_stream (s_sequence s + 1) [e] @ rest"
      "r = fbx_reply (e_op e) (s_sequence s + 1) (e_payload e)" "s_scene s' = Some scene"
      "s_sequence s' = s_sequence s + 1" "s_sequence s \<noteq> - 1" "length (e_payload e) \<le> 536870912"
      using fbx_pose_step [OF 1(2,3,4,5) Fbx_Reply] .
    obtain es rest' where es: "rest = request_stream (s_sequence s' + 1) es @ rest'"
      "rs' = reply_stream (s_sequence s' + 1) es" "list_all (poses scene) es"
      "replies_accepted (s_sequence s' + 1) es" "unat (s_sequence s') + length es < 4294967296"
      "code = 1 \<or> code = 0 \<and> rest' = []"
      using 1(1) [OF Fbx_Reply 1(2) e(4) 1(4,5) loop] by blast
    have "unat (s_sequence s + 1) = unat (s_sequence s) + 1" using e(6) by (rule unat_plus_one)
    then show ?thesis using e es rs accepted_one [OF e(7)]
      by (intro exI [of _ "e # es"] exI [of _ rest']) simp
  qed
qed

text \<open>
  C20. The helper stays in step with its client for the whole session, whatever bytes arrive: its input is a
  sequence of well-formed requests numbered from 1 without wrapping around, each answered by exactly one
  reply that echoes the operation and the number and that the client's session accepts as whole; the first
  one opens the scene and carries its complete metadata with finite floats only, every later one is a finite
  pose of that scene. It exits with 0 exactly when the stream ends after a whole request.
\<close>

theorem fbx_session_in_step:
  assumes lib: "fbx_library_ok env" and run: "fbx_main argc env stdin = (code, replies)"
  shows "\<exists>es rest. stdin = request_stream 1 es @ rest \<and> replies = reply_stream 1 es \<and> replies_accepted 1 es \<and>
    length es < 4294967296 \<and> (code = 1 \<or> code = 0 \<and> rest = []) \<and>
    (es = [] \<or> (\<exists>scene. opens env scene (hd es) \<and> list_all (poses scene) (tl es)))"
proof (cases "argc \<noteq> 1 \<or> \<not> f_restricted env")
  case True
  then show ?thesis using run by (intro exI [of _ "[]"] exI [of _ stdin]) (simp add: fbx_main_def)
next
  case False
  then have loop: "fbx_loop env fbx_start stdin = (code, replies)" using run by (simp add: fbx_main_def)
  show ?thesis
  proof (cases "fbx_request env fbx_start stdin")
    case (Fbx_Exit c)
    then show ?thesis using loop fbx_exit_code [OF Fbx_Exit]
      by (intro exI [of _ "[]"] exI [of _ stdin]) simp
  next
    case (Fbx_Reply r s' rest)
    obtain rs where more: "fbx_loop env s' rest = (code, rs)" and replies: "replies = r # rs"
      using loop Fbx_Reply by (auto split: prod.splits)
    obtain header data payload scene where h: "length header = 16" "take 4 header = ascii ''FBI1''" "stdin = header @ data"
      "wn_image_u32 (drop 12 header) = 1" "wn_image_u32 (drop 4 header) = 0"
      and x: "fbx_open_request env 1 (wn_image_u32 (drop 8 header)) data = Some (payload, scene, rest)"
      and r: "r = fbx_reply 0 1 payload" "s' = fbx_start\<lparr>s_scene := Some scene, s_sequence := 1\<rparr>"
      using Fbx_Reply by (auto simp: fbx_request_def fbx_start_def Let_def split: if_splits option.splits)
    obtain input where i: "length input = unat (wn_image_u32 (drop 8 header))" "data = input @ rest"
      "f_open env input = Some scene" "floats_ok scene" "payload = open_payload scene"
      "length payload \<le> 536870912" "fbx_counts_ok scene"
      using open_request_result [OF lib x] .
    obtain es rest' where es: "rest = request_stream 2 es @ rest'" "rs = reply_stream 2 es"
      "list_all (poses scene) es" "replies_accepted 2 es" "1 + length es < 4294967296"
      "code = 1 \<or> code = 0 \<and> rest' = []"
      using fbx_loop_poses [OF lib _ i(3,7) more] by (auto simp: r(2))
    let ?e = "\<lparr>e_op = 0, e_data = input, e_payload = payload\<rparr>"
    have "opens env scene ?e" using i by (simp add: opens_def)
    moreover have "stdin = request_stream 1 (?e # es) @ rest'"
      using request_wire [OF h(1,2)] h i(1,2) es(1) by simp
    moreover have "replies_accepted 1 (?e # es)" using accepted_one [of ?e] i(6) es(4) by simp
    ultimately show ?thesis using es replies r
      by (intro exI [of _ "?e # es"] exI [of _ rest']) auto
  qed
qed

definition sample_fbx_scene :: fbx_scene where
  "sample_fbx_scene =
     \<lparr>num_tris = 1, num_bones = 0, num_anims = 0, num_mats = 0, m_pos = replicate 9 0, m_nrm = replicate 9 0,
      m_uv = [], m_bone = [], m_weight = [], m_mat = [], m_mats = [], has_uv = False, has_skin = False,
      anim_begin = \<lambda>_. 0, anim_end = \<lambda>_. 0, anim_name = \<lambda>_. None, material_name = \<lambda>_. None,
      texture_of = \<lambda>_ _. (0, \<lparr>i_path = None, i_uv = replicate 6 0, i_tint = replicate 4 0, i_clamp_u = 0, i_clamp_v = 0\<rparr>),
      scene_eval = \<lambda>_ _. Some (replicate 18 0)\<rparr>"

definition sample_fbx_env :: fbx_env where
  "sample_fbx_env =
     \<lparr>f_restricted = True, f_open = \<lambda>input. if input = [7] then Some sample_fbx_scene else None,
      f_malloc_input = \<lambda>_. True, f_malloc_reply = \<lambda>_. True, f_write = \<lambda>_. True, f_ferror = False\<rparr>"

definition sample_fbx_stdin :: "byte list" where
  "sample_fbx_stdin =
     request_stream 1 [\<lparr>e_op = 0, e_data = [7], e_payload = []\<rparr>,
       \<lparr>e_op = 1, e_data = wn_image_put (- 1) @ wn_image_put 0 @ wn_image_put 0, e_payload = []\<rparr>]"

lemma sample_fbx_ok: "fbx_library_ok sample_fbx_env"
  by (auto simp: fbx_library_ok_def sample_fbx_env_def fbx_arrays_ok_def sample_fbx_scene_def pose_count_def
      fbx_limits split: if_splits)

lemma sample_fbx_payload: "length (open_payload sample_fbx_scene) = 104"
  by (simp add: open_payload_def sample_fbx_scene_def)

lemma sample_fbx_open:
  "fbx_open_request sample_fbx_env 1 1 (7 # rest) = Some (open_payload sample_fbx_scene, sample_fbx_scene, rest)"
proof -
  have a: "fbx_arrays_ok sample_fbx_scene" "fbx_counts_ok sample_fbx_scene" "texts_ok sample_fbx_scene" "floats_ok sample_fbx_scene"
    by (simp_all add: fbx_arrays_ok_def sample_fbx_scene_def fbx_counts_ok_def fbx_limits texts_ok_def floats_ok_def
        list_all_iff f32_finite_def)
  then have ok: "w_ok (metadata sample_fbx_scene measure_writer)"
    by (simp add: metadata_measured sample_fbx_payload model_max)
  have "f_open sample_fbx_env [7] = Some sample_fbx_scene" "f_malloc_input sample_fbx_env n" "f_malloc_reply sample_fbx_env n"
    "f_write sample_fbx_env n" for n
    by (simp_all add: sample_fbx_env_def)
  then show ?thesis
    using metadata_written [OF a(1) ok] a(4) ok
    by (simp add: fbx_open_request_def fread_exactly_def Let_def)
qed

lemma sample_fbx_pose:
  "fbx_pose_request sample_fbx_env 2 sample_fbx_scene False
     (wn_image_put (- 1) @ wn_image_put 0 @ wn_image_put 0 @ rest) =
   Some (pose_payload sample_fbx_scene (replicate 18 0), rest)"
  by (simp add: fbx_pose_request_def fread_exactly_def sample_fbx_env_def sample_fbx_scene_def wire_simps
      f64_finite_def f32_finite_def pose_count_def list_all_iff Let_def)

lemma sample_fbx_run:
  "fbx_main 1 sample_fbx_env sample_fbx_stdin =
     (0, [fbx_reply 0 1 (open_payload sample_fbx_scene), fbx_reply 1 2 (pose_payload sample_fbx_scene (replicate 18 0))])"
proof -
  let ?pose = "ascii ''FBI1'' @ wn_image_put 1 @ wn_image_put 12 @ wn_image_put 2 @
      wn_image_put (- 1) @ wn_image_put 0 @ wn_image_put (0 :: u32)"
  let ?s = "fbx_start\<lparr>s_scene := Some sample_fbx_scene, s_sequence := 1\<rparr>"
  have stdin: "sample_fbx_stdin = (ascii ''FBI1'' @ wn_image_put 0 @ wn_image_put 1 @ wn_image_put 1) @ 7 # ?pose"
    by (simp add: sample_fbx_stdin_def)
  have one: "fbx_request sample_fbx_env fbx_start sample_fbx_stdin =
      Fbx_Reply (fbx_reply 0 1 (open_payload sample_fbx_scene)) ?s ?pose"
    unfolding stdin
    by (simp add: fbx_request_def fread_exactly_def fbx_start_def wire_simps ascii_def sample_fbx_open limit_defs)
  have two: "fbx_request sample_fbx_env ?s ?pose =
      Fbx_Reply (fbx_reply 1 2 (pose_payload sample_fbx_scene (replicate 18 0))) (?s\<lparr>s_sequence := 2, s_wire := True\<rparr>) []"
    using sample_fbx_pose [of "[]"]
    by (simp add: fbx_request_def fread_exactly_def fbx_start_def wire_simps ascii_def)
  have three: "fbx_request sample_fbx_env t [] = Fbx_Exit 0" for t
    by (simp add: fbx_request_def sample_fbx_env_def)
  have l3: "fbx_loop sample_fbx_env t [] = (0, [])" for t
    by (subst fbx_loop.simps) (simp add: three)
  have l2: "fbx_loop sample_fbx_env ?s ?pose = (0, [fbx_reply 1 2 (pose_payload sample_fbx_scene (replicate 18 0))])"
    by (subst fbx_loop.simps) (simp add: two l3 del: fbx_loop.simps)
  have "fbx_main 1 sample_fbx_env sample_fbx_stdin = fbx_loop sample_fbx_env fbx_start sample_fbx_stdin"
    by (simp add: fbx_main_def sample_fbx_env_def)
  then show ?thesis
    by (subst (asm) fbx_loop.simps) (simp add: one l2 del: fbx_loop.simps)
qed

lemma fbx_session_in_step_witness:
  "\<exists>es. fbx_main 1 sample_fbx_env sample_fbx_stdin = (0, reply_stream 1 es) \<and>
     sample_fbx_stdin = request_stream 1 es \<and> length es = 2 \<and> replies_accepted 1 es"
proof -
  have two: "length (reply_stream k es) = length es" for k es by (induction es arbitrary: k) simp_all
  obtain es where "sample_fbx_stdin = request_stream 1 es" and es: "replies_accepted 1 es"
    "[fbx_reply 0 1 (open_payload sample_fbx_scene), fbx_reply 1 2 (pose_payload sample_fbx_scene (replicate 18 0))] =
       reply_stream 1 es"
    using fbx_session_in_step [OF sample_fbx_ok sample_fbx_run] by auto
  moreover have "length es = 2" using two [of 1 es] unfolding es(2) [symmetric] by simp
  ultimately show ?thesis using sample_fbx_run by auto
qed

end
