(* ===== verification/Utf8.thy ===== *)
theory Utf8
  imports Prelude
begin

text \<open>
  UTF-8 (RFC 3629) as the reference the C scanners are compared with: the code units of a Unicode
  scalar value, and the lead-byte table both scanners are written after.
\<close>

section \<open>Encoding\<close>

definition scalar_value :: "nat \<Rightarrow> bool" where
  "scalar_value c \<longleftrightarrow> c < 55296 \<or> 57344 \<le> c \<and> c < 1114112"

definition utf8_units :: "nat \<Rightarrow> nat list" where
  "utf8_units c =
     (if c < 128 then [c]
      else if c < 2048 then [192 + c div 64, 128 + c mod 64]
      else if c < 65536 then [224 + c div 4096, 128 + c div 64 mod 64, 128 + c mod 64]
      else [240 + c div 262144, 128 + c div 4096 mod 64, 128 + c div 64 mod 64, 128 + c mod 64])"

definition utf8_encode :: "nat \<Rightarrow> byte list" where
  "utf8_encode c = map word_of_nat (utf8_units c)"

definition utf8 :: "nat list \<Rightarrow> byte list" where
  "utf8 cs = concat (map utf8_encode cs)"

lemma utf8_Nil [simp]: "utf8 [] = []"
  by (simp add: utf8_def)

lemma utf8_Cons [simp]: "utf8 (c # cs) = utf8_encode c @ utf8 cs"
  by (simp add: utf8_def)

lemma unat_byte [simp]: "n < 256 \<Longrightarrow> unat (word_of_nat n :: byte) = n"
  by (simp add: unsigned_of_nat take_bit_nat_eq_self)

lemma byte_of_unat: "(b :: byte) = word_of_nat (unat b)"
  by simp

lemma unat_byte_bound: "unat (b :: byte) < 256"
  using unsigned_less [of b] by simp

lemma utf8_encode_not_Nil [simp]: "utf8_encode c \<noteq> []"
  by (simp add: utf8_encode_def utf8_units_def)

lemma utf8_encode_cases:
  assumes "scalar_value c"
  obtains (one) "c < 128" "utf8_encode c = [word_of_nat c]"
  | (two) "128 \<le> c" "c < 2048" "utf8_encode c = [word_of_nat (192 + c div 64), word_of_nat (128 + c mod 64)]"
  | (three) "2048 \<le> c" "c < 65536"
      "utf8_encode c = [word_of_nat (224 + c div 4096), word_of_nat (128 + c div 64 mod 64), word_of_nat (128 + c mod 64)]"
  | (four) "65536 \<le> c" "c < 1114112"
      "utf8_encode c = [word_of_nat (240 + c div 262144), word_of_nat (128 + c div 4096 mod 64),
         word_of_nat (128 + c div 64 mod 64), word_of_nat (128 + c mod 64)]"
  using assms that by (force simp: utf8_encode_def utf8_units_def scalar_value_def)

text \<open>The base-64 digits of a scalar value as linear facts.\<close>

lemma digits64:
  fixes c :: nat
  shows "c = 64 * (c div 64) + c mod 64" "c mod 64 < 64"
    and "c div 64 = 64 * (c div 4096) + c div 64 mod 64" "c div 64 mod 64 < 64"
    and "c div 4096 = 64 * (c div 262144) + c div 4096 mod 64" "c div 4096 mod 64 < 64"
proof -
  have d: "c div 4096 = c div 64 div 64" "c div 262144 = c div 4096 div 64"
    using div_mult2_eq [of c 64 64] div_mult2_eq [of c 4096 64] by simp_all
  show "c = 64 * (c div 64) + c mod 64" "c div 64 = 64 * (c div 4096) + c div 64 mod 64"
    "c div 4096 = 64 * (c div 262144) + c div 4096 mod 64"
    unfolding d by simp_all
qed simp_all

lemma digits64_unique:
  fixes x y z u :: nat
  assumes "y < 64" "z < 64" "u < 64" and c: "c = 262144 * x + 4096 * y + 64 * z + u"
  shows "c mod 64 = u" "c div 64 mod 64 = z" "c div 4096 mod 64 = y" "c div 262144 = x"
    and "c div 4096 = 64 * x + y" "c div 64 = 4096 * x + 64 * y + z"
proof -
  have d: "c div 4096 = c div 64 div 64" "c div 262144 = c div 4096 div 64"
    using div_mult2_eq [of c 64 64] div_mult2_eq [of c 4096 64] by simp_all
  have one: "(64 * k + r) mod 64 = r" "(64 * k + r) div 64 = k" if "r < 64" for k r :: nat
    using that by simp_all
  have c': "c = 64 * (4096 * x + 64 * y + z) + u" "4096 * x + 64 * y + z = 64 * (64 * x + y) + z"
    using c by simp_all
  show q: "c mod 64 = u" "c div 64 = 4096 * x + 64 * y + z" unfolding c'(1) by (rule one [OF assms(3)])+
  show "c div 64 mod 64 = z" unfolding q c'(2) by (rule one [OF assms(2)])
  show r: "c div 4096 = 64 * x + y" unfolding d q c'(2) by (rule one [OF assms(2)])
  show "c div 4096 mod 64 = y" "c div 262144 = x" unfolding d(2) r by (rule one [OF assms(1)])+
qed

section \<open>Lead bytes\<close>

text \<open>How many continuation bytes follow a lead byte of a multi-byte sequence, and the range of the
  first one: the narrowed ranges exclude overlong forms, surrogates and values past the last plane.\<close>

definition utf8_lead :: "byte \<Rightarrow> (nat \<times> byte \<times> byte) option" where
  "utf8_lead first =
     (if 194 \<le> first \<and> first \<le> 223 then Some (1, 128, 191)
      else if 224 \<le> first \<and> first \<le> 239 then
        Some (2, if first = 224 then 160 else 128, if first = 237 then 159 else 191)
      else if 240 \<le> first \<and> first \<le> 244 then
        Some (3, if first = 240 then 144 else 128, if first = 244 then 143 else 191)
      else None)"

end
