(* ===== verification/Network_Proxy.thy ===== *)
theory Network_Proxy
  imports Utf8 Frames
begin

text \<open>
  The SOCKS5 proxy settings of every helper that talks to the network: the validation of the
  credentials (\<open>app/proxy_credentials.h\<close>) and the libcurl options that select the proxy
  (\<open>app/network_proxy.h\<close>). \<open>curl_easy_setopt\<close> is a parameter that accepts or refuses each option.
\<close>

section \<open>Credentials\<close>

function proxy_scan :: "byte list \<Rightarrow> bool" where
  "proxy_scan [] = True"
| "proxy_scan (first # s) =
     (if first < 128 then proxy_scan s
      else
        (case utf8_lead first of
           None \<Rightarrow> False
         | Some (need, low, high) \<Rightarrow>
             if length s < need \<or> s ! 0 < low \<or> high < s ! 0 then False
             else if list_ex (\<lambda>b. b < 128 \<or> 191 < b) (take (need - 1) (drop 1 s)) then False
             else proxy_scan (drop need s)))"
  by pat_completeness auto
termination by (relation "measure length") auto

definition wn_proxy_credential_valid :: "cstring \<Rightarrow> bool" where
  "wn_proxy_credential_valid v \<longleftrightarrow>
     \<not> (length v = 0 \<or> 255 < length v) \<and> proxy_scan v"


lemma byte_le_iff: "a < 256 \<Longrightarrow> b < 256 \<Longrightarrow> (word_of_nat a :: byte) \<le> word_of_nat b \<longleftrightarrow> a \<le> b"
  by (simp only: word_le_nat_alt unat_byte)

lemma byte_less_iff: "a < 256 \<Longrightarrow> b < 256 \<Longrightarrow> (word_of_nat a :: byte) < word_of_nat b \<longleftrightarrow> a < b"
  by (simp only: word_less_nat_alt unat_byte)

lemma byte_eq_iff: "a < 256 \<Longrightarrow> b < 256 \<Longrightarrow> (word_of_nat a :: byte) = word_of_nat b \<longleftrightarrow> a = b"
  by (simp only: word_unat_eq_iff unat_byte)

lemmas byte_numeral_iff =
  byte_le_iff [of "numeral k" for k, simplified of_nat_numeral]
  byte_le_iff [of _ "numeral k" for k, simplified of_nat_numeral]
  byte_less_iff [of "numeral k" for k, simplified of_nat_numeral]
  byte_less_iff [of _ "numeral k" for k, simplified of_nat_numeral]
  byte_eq_iff [of _ "numeral k" for k, simplified of_nat_numeral]

lemma proxy_scan_lead:
  assumes "utf8_lead x = Some (need, low, high)" "need \<le> length s" "low \<le> s ! 0" "s ! 0 \<le> high"
    "list_all (\<lambda>b. 128 \<le> b \<and> b \<le> 191) (take (need - 1) (drop 1 s))"
  shows "proxy_scan (x # s) = proxy_scan (drop need s)"
proof -
  have "\<not> x < 128" using assms(1) by (auto simp: utf8_lead_def word_less_nat_alt word_le_nat_alt split: if_splits)
  moreover have "\<not> list_ex (\<lambda>b. b < 128 \<or> 191 < b) (take (need - 1) (drop 1 s))"
    using assms(5) by (auto simp: list_all_iff list_ex_iff not_less)
  ultimately show ?thesis using assms(1-4) by (auto simp: not_less)
qed

lemma utf8_lead_of_nat:
  assumes "a < 256"
  shows "utf8_lead (word_of_nat a) =
     (if 194 \<le> a \<and> a \<le> 223 then Some (1, 128, 191)
      else if 224 \<le> a \<and> a \<le> 239 then
        Some (2, if a = 224 then 160 else 128, if a = 237 then 159 else 191)
      else if 240 \<le> a \<and> a \<le> 244 then
        Some (3, if a = 240 then 144 else 128, if a = 244 then 143 else 191)
      else None)"
  using assms by (simp add: utf8_lead_def byte_numeral_iff)


lemma proxy_scan_encode:
  assumes "scalar_value c"
  shows "proxy_scan (utf8_encode c @ rest) = proxy_scan rest"
  using assms
proof (cases rule: utf8_encode_cases)
  case one
  then show ?thesis by (simp add: byte_numeral_iff)
next
  case two
  define a b where "a = 192 + c div 64" and "b = 128 + c mod 64"
  have "194 \<le> a" "a < 224" "128 \<le> b" "b < 192" unfolding a_def b_def using two(1,2) by auto
  then show ?thesis unfolding two(3) a_def [symmetric] b_def [symmetric] append.simps
    by (subst proxy_scan_lead [of _ 1 128 191]) (simp_all add: utf8_lead_of_nat byte_numeral_iff)
next
  case three
  define a b d where "a = 224 + c div 4096" and "b = 128 + c div 64 mod 64" and "d = 128 + c mod 64"
  have "224 \<le> a" "a < 240" "128 \<le> b" "b < 192" "128 \<le> d" "d < 192" "a = 224 \<longrightarrow> 160 \<le> b"
    "a = 237 \<longrightarrow> b \<le> 159"
    unfolding a_def b_def d_def using three(1,2) assms digits64 [of c] unfolding scalar_value_def by linarith+
  then show ?thesis unfolding three(3) a_def [symmetric] b_def [symmetric] d_def [symmetric] append.simps
    by (subst proxy_scan_lead [of _ 2 "if a = 224 then 160 else 128" "if a = 237 then 159 else 191"])
      (simp_all add: utf8_lead_of_nat byte_numeral_iff numeral_2_eq_2)
next
  case four
  define a b d e where "a = 240 + c div 262144" and "b = 128 + c div 4096 mod 64"
    and "d = 128 + c div 64 mod 64" and "e = 128 + c mod 64"
  have "240 \<le> a" "a < 245" "128 \<le> b" "b < 192" "128 \<le> d" "d < 192" "128 \<le> e" "e < 192"
    "a = 240 \<longrightarrow> 144 \<le> b" "a = 244 \<longrightarrow> b \<le> 143"
    unfolding a_def b_def d_def e_def using four(1,2) digits64 [of c] by linarith+
  then show ?thesis unfolding four(3) a_def [symmetric] b_def [symmetric] d_def [symmetric] e_def [symmetric] append.simps
    by (subst proxy_scan_lead [of _ 3 "if a = 240 then 144 else 128" "if a = 244 then 143 else 191"])
      (simp_all add: utf8_lead_of_nat byte_numeral_iff numeral_3_eq_3)
qed

lemma utf8_lead_decode:
  assumes "utf8_lead first = Some (need, low, high)" "need \<le> length s" "low \<le> s ! 0" "s ! 0 \<le> high"
    "list_all (\<lambda>b. 128 \<le> b \<and> b \<le> 191) (take (need - 1) (drop 1 s))"
  shows "\<exists>c. scalar_value c \<and> first # take need s = utf8_encode c"
proof -
  consider (two) "194 \<le> unat first" "unat first < 224" "need = 1" "low = 128" "high = 191"
    | (three) "224 \<le> unat first" "unat first < 240" "need = 2" "low = (if first = 224 then 160 else 128)"
        "high = (if first = 237 then 159 else 191)"
    | (four) "240 \<le> unat first" "unat first < 245" "need = 3" "low = (if first = 240 then 144 else 128)"
        "high = (if first = 244 then 143 else 191)"
    using assms(1) by (force simp: utf8_lead_def word_le_nat_alt split: if_splits)
  then show ?thesis
  proof cases
    case two
    obtain b s' where s: "s = b # s'" using assms(2) two by (cases s) auto
    define x y where "x = unat first - 192" and "y = unat b - 128"
    have xy: "2 \<le> x" "x < 32" "y < 64" "unat first = 192 + x" "unat b = 128 + y"
      using two assms(3,4) s by (auto simp: x_def y_def word_le_nat_alt)
    then have "first = word_of_nat (192 + x)" "b = word_of_nat (128 + y)" by (metis byte_of_unat)+
    then show ?thesis using xy two s
      by (intro exI [of _ "64 * x + y"]) (simp add: scalar_value_def utf8_encode_def utf8_units_def del: of_nat_add)
  next
    case three
    obtain b d s' where s: "s = b # d # s'" using assms(2) three by (cases s; cases "tl s") auto
    define x y z where "x = unat first - 224" and "y = unat b - 128" and "z = unat d - 128"
    have xy: "x < 16" "y < 64" "z < 64" "x = 0 \<longrightarrow> 32 \<le> y" "x = 13 \<longrightarrow> y < 32"
      "unat first = 224 + x" "unat b = 128 + y" "unat d = 128 + z"
      using three assms(3,4,5) s
      by (auto simp: x_def y_def z_def word_le_nat_alt word_unat_eq_iff split: if_splits)
    then have w: "first = word_of_nat (224 + x)" "b = word_of_nat (128 + y)" "d = word_of_nat (128 + z)"
      by (metis byte_of_unat)+
    define c where "c = 4096 * x + 64 * y + z"
    have c: "c div 4096 = x" "c div 64 mod 64 = y" "c mod 64 = z"
      using digits64_unique [of x y z c 0] xy by (simp_all add: c_def)
    have "2048 \<le> c" "c < 65536" using xy unfolding c_def by linarith+
    moreover have "c < 55296 \<or> 57344 \<le> c"
      using xy unfolding c_def by (cases "x = 13"; cases "x < 13") auto
    ultimately have "2048 \<le> c" "c < 65536" "scalar_value c" by (simp_all add: scalar_value_def)
    note w = w c this
    show ?thesis using w three s
      by (intro exI [of _ c]) (simp add: utf8_encode_def utf8_units_def numeral_2_eq_2 del: of_nat_add)
  next
    case four
    obtain b d e s' where s: "s = b # d # e # s'"
      using assms(2) four by (cases s; cases "tl s"; cases "tl (tl s)") auto
    have de: "128 \<le> d" "d \<le> 191" "128 \<le> e" "e \<le> 191"
      using assms(5) by (simp_all add: four s numeral_2_eq_2)
    define x y z u where "x = unat first - 240" and "y = unat b - 128" and "z = unat d - 128" and "u = unat e - 128"
    have xy: "x < 5" "y < 64" "z < 64" "u < 64" "x = 0 \<longrightarrow> 16 \<le> y" "x = 4 \<longrightarrow> y < 16"
      "unat first = 240 + x" "unat b = 128 + y" "unat d = 128 + z" "unat e = 128 + u"
      using four assms(3,4) de s
      by (auto simp: x_def y_def z_def u_def word_le_nat_alt word_unat_eq_iff split: if_splits)
    then have w: "first = word_of_nat (240 + x)" "b = word_of_nat (128 + y)" "d = word_of_nat (128 + z)"
      "e = word_of_nat (128 + u)"
      by (metis byte_of_unat)+
    define c where "c = 262144 * x + 4096 * y + 64 * z + u"
    have c: "c div 262144 = x" "c div 4096 mod 64 = y" "c div 64 mod 64 = z" "c mod 64 = u"
      using digits64_unique [of y z u c x] xy by (simp_all add: c_def)
    have "65536 \<le> c" "scalar_value c"
      using xy unfolding c_def scalar_value_def by linarith+
    note w = w c this
    show ?thesis using w four s
      by (intro exI [of _ c]) (simp add: utf8_encode_def utf8_units_def numeral_3_eq_3 del: of_nat_add)
  qed
qed

lemma proxy_scan_sound: "proxy_scan s \<Longrightarrow> \<exists>cs. list_all scalar_value cs \<and> s = utf8 cs"
proof (induction s rule: proxy_scan.induct)
  case 1
  show ?case by (rule exI [of _ "[]"]) simp
next
  case (2 first s)
  show ?case
  proof (cases "first < 128")
    case True
    then obtain cs where cs: "list_all scalar_value cs" "s = utf8 cs" using 2 by auto
    have b: "unat first < 128" using True by (simp add: word_less_nat_alt)
    then have "scalar_value (unat first)" by (simp add: scalar_value_def)
    then show ?thesis using cs b
      by (intro exI [of _ "unat first # cs"]) (simp add: utf8_encode_def utf8_units_def)
  next
    case False
    then obtain need low high where l: "utf8_lead first = Some (need, low, high)"
      and g: "need \<le> length s" "low \<le> s ! 0" "s ! 0 \<le> high"
        "\<not> list_ex (\<lambda>b. b < 128 \<or> 191 < b) (take (need - 1) (drop 1 s))"
      and r: "proxy_scan (drop need s)"
      using 2(3) by (auto simp: not_le not_less split: option.splits if_splits)
    obtain c where c: "scalar_value c" "first # take need s = utf8_encode c"
      using utf8_lead_decode [OF l g(1-3)] g(4)
      by (auto simp: list_all_iff list_ex_iff not_less)
    obtain cs where cs: "list_all scalar_value cs" "drop need s = utf8 cs"
      using 2(2) [OF False l refl refl] g r by (auto simp: not_le not_less)
    then show ?thesis using c
      by (intro exI [of _ "c # cs"]) (metis append_Cons append_take_drop_id list.pred_inject(2) utf8_Cons)
  qed
qed

lemma proxy_scan_complete: "list_all scalar_value cs \<Longrightarrow> proxy_scan (utf8 cs)"
  by (induction cs) (simp_all add: proxy_scan_encode)

text \<open>The credentials of the environment: 0 anonymous, 1 authenticated, -1 refused.\<close>

definition wn_proxy_credentials :: "(cstring \<Rightarrow> cstring option) \<Rightarrow> int \<times> cstring \<times> cstring" where
  "wn_proxy_credentials getenv =
     (let username = (case getenv (ascii ''WN_SOCKS5_USERNAME'') of Some u \<Rightarrow> u | None \<Rightarrow> []);
          password = (case getenv (ascii ''WN_SOCKS5_PASSWORD'') of Some p \<Rightarrow> p | None \<Rightarrow> [])
      in (if username = [] \<and> password = [] then 0
          else if wn_proxy_credential_valid username \<and> wn_proxy_credential_valid password then 1
          else - 1, username, password))"

section \<open>The libcurl options\<close>

datatype curlcode = CURLE_OK | CURLE_BAD_FUNCTION_ARGUMENT | CURLE_OTHER nat

datatype curl_option =
    CURLOPT_PROXY cstring
  | CURLOPT_PROXYTYPE_SOCKS5_HOSTNAME
  | CURLOPT_SOCKS5_AUTH_BASIC
  | CURLOPT_SOCKS5_AUTH_NONE
  | CURLOPT_PROXYUSERNAME "cstring option"
  | CURLOPT_PROXYPASSWORD "cstring option"
  | CURLOPT_NOPROXY cstring

text \<open>The options are set one after the other; the first refusal is the result. The options libcurl
  accepted are returned too.\<close>

fun setopts :: "(curl_option \<Rightarrow> curlcode) \<Rightarrow> curl_option list \<Rightarrow> curl_option list \<Rightarrow> curlcode \<times> curl_option list" where
  "setopts setopt sofar [] = (CURLE_OK, sofar)"
| "setopts setopt sofar (x # xs) =
     (let status = setopt x
      in if status \<noteq> CURLE_OK then (status, sofar) else setopts setopt (sofar @ [x]) xs)"

definition wn_curl_proxy ::
  "(cstring \<Rightarrow> cstring option) \<Rightarrow> (curl_option \<Rightarrow> curlcode) \<Rightarrow> curlcode \<times> curl_option list" where
  "wn_curl_proxy getenv setopt =
     (let proxy = getenv (ascii ''WN_SOCKS5_PROXY'');
          (authentication, username, password) = wn_proxy_credentials getenv
      in if authentication < 0 \<or> authentication \<noteq> 0 \<and> (proxy = None \<or> proxy = Some []) then
           (CURLE_BAD_FUNCTION_ARGUMENT, [])
         else
           (case proxy of
              None \<Rightarrow> (CURLE_OK, [])
            | Some p \<Rightarrow>
                if p = [] then (CURLE_OK, [])
                else setopts setopt []
                  [CURLOPT_PROXY p, CURLOPT_PROXYTYPE_SOCKS5_HOSTNAME,
                   if authentication \<noteq> 0 then CURLOPT_SOCKS5_AUTH_BASIC else CURLOPT_SOCKS5_AUTH_NONE,
                   CURLOPT_PROXYUSERNAME (if authentication \<noteq> 0 then Some username else None),
                   CURLOPT_PROXYPASSWORD (if authentication \<noteq> 0 then Some password else None),
                   CURLOPT_NOPROXY []]))"

lemma setopts_ok: "setopts setopt d xs = (CURLE_OK, ys) \<Longrightarrow> ys = d @ xs"
proof (induction xs arbitrary: d)
  case Nil
  then show ?case by simp
next
  case (Cons x xs)
  then have "setopts setopt (d @ [x]) xs = (CURLE_OK, ys)" by (simp add: Let_def split: if_splits)
  from Cons.IH [OF this] show ?case by simp
qed

text \<open>A configured proxy is never bypassed: the request goes ahead only with the proxy selected for
  every host, and with both credentials or none.\<close>

lemma curl_proxy_fail_closed:
  assumes "wn_curl_proxy getenv setopt = (CURLE_OK, options)"
  shows "(getenv (ascii ''WN_SOCKS5_PROXY'') \<in> {None, Some []} \<and> options = [] \<and>
           fst (wn_proxy_credentials getenv) = 0) \<or>
         (\<exists>p. getenv (ascii ''WN_SOCKS5_PROXY'') = Some p \<and> p \<noteq> [] \<and> CURLOPT_PROXY p \<in> set options \<and>
           CURLOPT_PROXYTYPE_SOCKS5_HOSTNAME \<in> set options \<and> CURLOPT_NOPROXY [] \<in> set options)"
  using assms unfolding wn_curl_proxy_def
  by (auto simp: Let_def split: prod.splits option.splits if_splits dest!: setopts_ok)

text \<open>
  C21. The credential check accepts exactly the well-formed UTF-8 texts of one to 255 bytes, the limit
  RFC 1929 sets for each credential: every accepted byte string is the encoding of Unicode scalar
  values (no overlong form, no surrogate, nothing past the last plane), and every such encoding is
  accepted.
\<close>

theorem credential_is_utf8:
  "wn_proxy_credential_valid s \<longleftrightarrow>
     1 \<le> length s \<and> length s \<le> 255 \<and> (\<exists>cs. list_all scalar_value cs \<and> s = utf8 cs)"
  using proxy_scan_sound proxy_scan_complete
  by (auto simp: wn_proxy_credential_valid_def Suc_le_eq)

end
