(* ===== verification/Helper_Ipc.thy ===== *)
theory Helper_Ipc
  imports Frames
begin

text \<open>
  The shared memory between the application and its speech helpers (\<open>app/helper_ipc.c\<close>, POSIX variant):
  creating and opening a mapping, bounded reads and writes, and the first word, which both processes
  change concurrently through a compare-and-exchange loop. Memory is a byte list; the kernel's
  answers are parameters.
\<close>

section \<open>Mapping\<close>

definition IPC_MAX :: nat where "IPC_MAX = 128 * 1024 * 1024"

datatype ipc_event =
    Shm_Open cstring bool
  | Shm_Unlink cstring
  | Ipc_Close_Fd
  | Ipc_Unmap

record wn_ipc =
  i_size :: nat
  i_name :: cstring
  i_owner :: bool

record map_answers =
  p_calloc :: bool
  p_shm_open :: bool
  p_ftruncate :: bool
  p_fstat :: "nat option"
  p_mmap :: bool

text \<open>\<open>wn_ipc_close\<close>; \<open>mapped\<close> says whether \<open>data\<close> is set.\<close>

definition wn_ipc_close :: "bool \<Rightarrow> wn_ipc \<Rightarrow> ipc_event list" where
  "wn_ipc_close mapped ipc =
     (if mapped then [Ipc_Unmap] else []) @ (if i_owner ipc then [Shm_Unlink (i_name ipc)] else [])"

definition map_memory :: "map_answers \<Rightarrow> cstring \<Rightarrow> nat \<Rightarrow> bool \<Rightarrow> wn_ipc option \<times> ipc_event list" where
  "map_memory ans nm n create =
     (if n = 0 \<or> n > IPC_MAX then (None, [])
      else if \<not> p_calloc ans then (None, [])
      else if length nm \<ge> 80 then (None, [])
      else
        let ipc = \<lparr>i_size = n, i_name = nm, i_owner = create\<rparr> in
        if \<not> p_shm_open ans then (None, [])
        else if (create \<and> \<not> p_ftruncate ans) \<or> p_fstat ans \<noteq> Some n then
          (None, [Shm_Open nm create, Ipc_Close_Fd] @ (if create then [Shm_Unlink nm] else []))
        else
          let es = [Shm_Open nm create, Ipc_Close_Fd] @ (if \<not> create then [Shm_Unlink nm] else [])
          in if \<not> p_mmap ans then (None, es @ wn_ipc_close False ipc) else (Some ipc, es))"

text \<open>\<open>"%02x"\<close> of every byte.\<close>

definition hex_digit :: "nat \<Rightarrow> byte" where
  "hex_digit d = (if d < 10 then word_of_nat (48 + d) else word_of_nat (87 + d))"

definition hex_byte :: "byte \<Rightarrow> cstring" where
  "hex_byte b = [hex_digit (unat b div 16), hex_digit (unat b mod 16)]"

definition hex_bytes :: "byte list \<Rightarrow> cstring" where
  "hex_bytes bs = concat (map hex_byte bs)"

text \<open>Reading the twelve random bytes: interrupted reads are repeated, the end of the file or an error
  ends the attempt, and so does running out of answers.\<close>

datatype read_answer = Read_Interrupted | Read_Error | Read_Some "byte list"

fun random_bytes :: "read_answer list \<Rightarrow> byte list \<Rightarrow> byte list option" where
  "random_bytes as got =
     (if length got \<ge> 12 then Some got
      else
        (case as of
           [] \<Rightarrow> None
         | Read_Interrupted # as \<Rightarrow> random_bytes as got
         | Read_Error # as \<Rightarrow> None
         | Read_Some bs # as \<Rightarrow>
             let bs = take (12 - length got) bs
             in if bs = [] then None else random_bytes as (got @ bs)))"

declare random_bytes.simps [simp del]

definition wn_ipc_create :: "read_answer list option \<Rightarrow> map_answers \<Rightarrow> nat \<Rightarrow> wn_ipc option \<times> ipc_event list" where
  "wn_ipc_create urandom ans n =
     (case urandom of
        None \<Rightarrow> (None, [])
      | Some reads \<Rightarrow>
          (case random_bytes reads [] of
             None \<Rightarrow> (None, [])
           | Some random \<Rightarrow> map_memory ans (ascii ''/wn-'' @ hex_bytes random) n True))"

definition wn_ipc_open :: "map_answers \<Rightarrow> cstring \<Rightarrow> nat \<Rightarrow> wn_ipc option \<times> ipc_event list" where
  "wn_ipc_open ans nm n = map_memory ans nm n False"

section \<open>Reads and writes\<close>

text \<open>The header word is read and written as a whole; everything else byte by byte.\<close>

definition in_header :: "nat \<Rightarrow> nat \<Rightarrow> nat \<Rightarrow> bool" where
  "in_header whole n offset \<longleftrightarrow> 4 \<le> whole \<and> offset \<le> 4 \<and> n \<le> 4 - offset"

definition wn_ipc_read :: "byte list option \<Rightarrow> nat \<Rightarrow> nat \<Rightarrow> byte list option" where
  "wn_ipc_read mem n offset =
     (case mem of
        None \<Rightarrow> None
      | Some mem \<Rightarrow>
          if offset > length mem \<or> n > length mem - offset then None
          else if in_header (length mem) n offset then
            let header = take 4 mem in Some (take n (drop offset header))
          else Some (take n (drop offset mem)))"

text \<open>The new header word of one attempt: the word it loaded with the bytes put over it.\<close>

definition header_next :: "byte list \<Rightarrow> byte list \<Rightarrow> nat \<Rightarrow> byte list" where
  "header_next previous bs offset = blit offset bs previous"

text \<open>
  One writer of the header word, as its atomic steps: load the word, then try to exchange it; a failed
  exchange reloads it. \<open>W_Done\<close> is the end of the loop.
\<close>

datatype header_writer =
    W_Load "byte list" nat
  | W_Try "byte list" nat "byte list"
  | W_Done

fun header_step :: "header_writer \<Rightarrow> byte list \<Rightarrow> header_writer \<times> byte list" where
  "header_step (W_Load bs offset) header = (W_Try bs offset header, header)"
| "header_step (W_Try bs offset previous) header =
     (if header = previous then (W_Done, header_next previous bs offset)
      else (W_Try bs offset header, header))"
| "header_step W_Done header = (W_Done, header)"

text \<open>The write of one process while no other one writes.\<close>

definition wn_ipc_write :: "byte list option \<Rightarrow> byte list \<Rightarrow> nat \<Rightarrow> (nat \<times> byte list) option" where
  "wn_ipc_write mem bs offset =
     (case mem of
        None \<Rightarrow> None
      | Some mem \<Rightarrow>
          if offset > length mem \<or> length bs > length mem - offset then None
          else if in_header (length mem) (length bs) offset then
            let header = take 4 mem;
                (w, header) = header_step (fst (header_step (W_Load bs offset) header)) header
            in Some (length bs, header @ drop 4 mem)
          else Some (length bs, blit offset bs mem))"

lemma drop_take_rest: "k \<le> 4 \<Longrightarrow> 4 \<le> length mem \<Longrightarrow> drop k (take 4 mem) @ drop 4 mem = drop k mem"
  using drop_append [of k "take 4 mem" "drop 4 mem"] by simp

lemma write_is_blit:
  assumes "wn_ipc_write (Some mem) bs offset = Some (n, mem')"
  shows "mem' = blit offset bs mem \<and> n = length bs \<and> offset + length bs \<le> length mem"
  using assms
  by (auto simp: wn_ipc_write_def in_header_def header_next_def blit_def Let_def min_def drop_take_rest split: if_splits)

lemma read_is_slice:
  assumes "wn_ipc_read (Some mem) n offset = Some bs"
  shows "bs = take n (drop offset mem) \<and> length bs = n"
proof -
  have b: "offset + n \<le> length mem" using assms by (auto simp: wn_ipc_read_def split: if_splits)
  moreover have "take n (drop offset (take 4 mem)) = take n (drop offset mem)" if "in_header (length mem) n offset"
    using that by (simp add: in_header_def drop_take min_def)
  ultimately have "bs = take n (drop offset mem)"
    using assms by (auto simp: wn_ipc_read_def Let_def split: if_splits)
  then show ?thesis using b by simp
qed

text \<open>What is written is read back, and the rest stays.\<close>

lemma write_read:
  "wn_ipc_write (Some mem) bs offset = Some (n, mem') \<Longrightarrow> wn_ipc_read (Some mem') (length bs) offset = Some bs"
proof -
  assume a: "wn_ipc_write (Some mem) bs offset = Some (n, mem')"
  then have m: "mem' = blit offset bs mem" "offset + length bs \<le> length mem" using write_is_blit by blast+
  then have "\<exists>cs. wn_ipc_read (Some mem') (length bs) offset = Some cs" by (auto simp: wn_ipc_read_def Let_def)
  then show ?thesis using m read_is_slice by (fastforce simp: blit_def)
qed

section \<open>Concurrent writers of the header\<close>

text \<open>Any number of processes run the loop at once; the schedule says whose atomic step comes next.\<close>

fun header_run :: "nat list \<Rightarrow> byte list \<times> header_writer list \<Rightarrow> byte list \<times> header_writer list" where
  "header_run [] s = s"
| "header_run (i # is) (header, ws) =
     (if i < length ws then
        (let (w, header) = header_step (ws ! i) header in header_run is (header, ws[i := w]))
      else header_run is (header, ws))"

definition writers :: "(byte list \<times> nat) list \<Rightarrow> header_writer list" where
  "writers jobs = map (\<lambda>(bs, offset). W_Load bs offset) jobs"

text \<open>The effect of the writes of some of them, one after the other.\<close>

definition apply_writes :: "(byte list \<times> nat) list \<Rightarrow> nat list \<Rightarrow> byte list \<Rightarrow> byte list" where
  "apply_writes jobs order header = fold (\<lambda>i h. header_next h (fst (jobs ! i)) (snd (jobs ! i))) order header"

definition writer_at :: "byte list \<times> nat \<Rightarrow> header_writer \<Rightarrow> bool" where
  "writer_at job w \<longleftrightarrow>
     w = W_Load (fst job) (snd job) \<or> (\<exists>previous. w = W_Try (fst job) (snd job) previous) \<or> w = W_Done"

definition finished :: "header_writer list \<Rightarrow> nat set" where
  "finished ws = {i. i < length ws \<and> ws ! i = W_Done}"

definition header_inv :: "(byte list \<times> nat) list \<Rightarrow> byte list \<Rightarrow> byte list \<times> header_writer list \<Rightarrow> bool" where
  "header_inv jobs h0 = (\<lambda>(header, ws).
     length ws = length jobs \<and> (\<forall>i<length jobs. writer_at (jobs ! i) (ws ! i)) \<and>
     (\<exists>order. distinct order \<and> set order = finished ws \<and> header = apply_writes jobs order h0))"

lemma header_inv_step:
  assumes inv: "header_inv jobs h0 (header, ws)" and i: "i < length ws" and st: "header_step (ws ! i) header = (w, header')"
  shows "header_inv jobs h0 (header', ws[i := w])"
proof -
  have len: "length ws = length jobs" and at: "\<forall>i<length jobs. writer_at (jobs ! i) (ws ! i)"
    using inv by (simp_all add: header_inv_def)
  obtain order where o: "distinct order" "set order = finished ws" "header = apply_writes jobs order h0"
    using inv by (auto simp: header_inv_def)
  have w: "writer_at (jobs ! i) (ws ! i)" using at i len by simp
  have w': "writer_at (jobs ! i) w" using w st by (auto simp: writer_at_def split: if_splits)
  have at': "\<forall>j<length jobs. writer_at (jobs ! j) (ws[i := w] ! j)"
    using at w' i len by (simp add: nth_list_update)
  show ?thesis
  proof (cases "w = W_Done \<and> ws ! i \<noteq> W_Done")
    case True
    then have h: "header' = header_next header (fst (jobs ! i)) (snd (jobs ! i))"
      using w st by (auto simp: writer_at_def split: if_splits)
    have "i \<notin> set order" using o(2) True by (simp add: finished_def)
    moreover have "finished (ws[i := w]) = insert i (finished ws)"
      using True i by (auto simp: finished_def nth_list_update)
    ultimately have "distinct (order @ [i])" "set (order @ [i]) = finished (ws[i := w])" using o by simp_all
    moreover have "header' = apply_writes jobs (order @ [i]) h0" using h o(3) by (simp add: apply_writes_def)
    ultimately have "\<exists>order. distinct order \<and> set order = finished (ws[i := w]) \<and> header' = apply_writes jobs order h0"
      by blast
    then show ?thesis using len at' by (simp add: header_inv_def)
  next
    case False
    then have "header' = header" using w st by (auto simp: writer_at_def split: if_splits)
    moreover have same: "(w = W_Done) = (ws ! i = W_Done)"
      using False w st by (auto simp: writer_at_def split: if_splits)
    have "(ws[i := w] ! j = W_Done) = (ws ! j = W_Done)" if "j < length ws" for j
      using same that by (cases "j = i") simp_all
    then have "finished (ws[i := w]) = finished ws" by (auto simp: finished_def)
    ultimately show ?thesis using len at' o unfolding header_inv_def by auto
  qed
qed

lemma header_inv_run: "header_inv jobs h0 s \<Longrightarrow> header_inv jobs h0 (header_run schedule s)"
proof (induction schedule s rule: header_run.induct)
  case (2 i "is" header ws)
  then show ?case using header_inv_step [of jobs h0 header ws i]
    by (auto split: prod.splits)
qed simp

text \<open>
  C24. The shared word is linearizable: whatever the interleaving of any number of writers, it always holds the
  effect of exactly the completed writes, applied one after the other in some order. No write is torn, and
  none undoes another one's bytes.
\<close>

theorem header_linearizable:
  assumes "header_run schedule (h0, writers jobs) = (header, ws)"
  shows "\<exists>order. distinct order \<and> set order = finished ws \<and> header = apply_writes jobs order h0"
proof -
  have "header_inv jobs h0 (h0, writers jobs)"
    by (auto simp: header_inv_def writers_def writer_at_def finished_def apply_writes_def case_prod_beta
        intro!: exI [of _ "[]"])
  from header_inv_run [OF this, of schedule] assms show ?thesis by (auto simp: header_inv_def)
qed

text \<open>So the helper's status and the parent's command, which occupy different bytes, both survive.\<close>

lemma blit_middle: "length a = k \<Longrightarrow> length x = length bs \<Longrightarrow> blit k bs (a @ x @ r) = a @ bs @ r"
  by (simp add: blit_def)

lemma split_at: "k + n \<le> length h \<Longrightarrow> \<exists>a x r. h = a @ x @ r \<and> length a = k \<and> length x = n"
  by (rule exI [of _ "take k h"], rule exI [of _ "take n (drop k h)"], rule exI [of _ "drop n (drop k h)"])
    (simp del: drop_drop)

lemma disjoint_writes:
  assumes "o1 + length b1 \<le> length h" "o2 + length b2 \<le> length h" "o1 + length b1 \<le> o2"
  shows "header_next (header_next h b1 o1) b2 o2 = header_next (header_next h b2 o2) b1 o1"
proof -
  obtain a x r where h: "h = a @ x @ r" "length a = o1" "length x = length b1"
    using split_at [OF assms(1)] by blast
  then have "(o2 - (o1 + length b1)) + length b2 \<le> length r" using assms by simp
  then obtain c y e where r: "r = c @ y @ e" "length c = o2 - (o1 + length b1)" "length y = length b2"
    using split_at by blast
  have one: "blit o1 b1 (a @ x @ t) = a @ b1 @ t" for t using h by (intro blit_middle)
  have two: "blit o2 b2 ((a @ z @ c) @ y @ e) = (a @ z @ c) @ b2 @ e" if "length z = length b1" for z
    using h r that assms by (intro blit_middle) simp_all
  show ?thesis
    using one [of "c @ y @ e"] one [of "c @ b2 @ e"] two [of x] two [of b1] h by (simp add: header_next_def r(1))
qed

lemma header_linearizable_witness:
  "\<exists>order. distinct order \<and> set order = {0, 1} \<and>
     header_run [0, 1, 1, 0, 0] ([48, 0, 0, 0], writers [([80, 5, 0], 0), ([83], 3)]) =
       ([80, 5, 0, 83], [W_Done, W_Done]) \<and>
     [80, 5, 0, 83] = apply_writes [([80, 5, 0], 0), ([83], 3)] order [48, 0, 0, 0]"
proof -
  have run: "header_run [0, 1, 1, 0, 0] ([48, 0, 0, 0], writers [([80, 5, 0], 0), ([83], 3)]) =
       ([80, 5, 0, 83], [W_Done, W_Done])"
    by (simp add: writers_def header_next_def blit_def)
  have "finished [W_Done, W_Done] = {0, 1}"
    by (auto simp: finished_def less_Suc_eq numeral_2_eq_2)
  then show ?thesis using header_linearizable [OF run] run by metis
qed

section \<open>The helper's life and the model lock\<close>

record guard_answers =
  g_prctl :: bool
  g_getppid :: int
  g_thread :: bool

definition wn_helper_guard :: "guard_answers \<Rightarrow> int \<Rightarrow> bool" where
  "wn_helper_guard ans parent =
     (if parent = 0 then False
      else if \<not> g_prctl ans then False
      else if g_getppid ans \<noteq> parent then False
      else g_thread ans)"

definition wn_helper_silence :: "bool \<Rightarrow> bool \<Rightarrow> bool" where
  "wn_helper_silence stderr_null stdout_null = (stderr_null \<and> stdout_null)"

text \<open>The lock's descriptor, plus one; interrupted waits are repeated.\<close>

datatype flock_answer = Flock_Locked | Flock_Interrupted | Flock_Error

fun flock_wait :: "flock_answer list \<Rightarrow> int \<Rightarrow> int option \<times> int list" where
  "flock_wait [] fd = (None, [])"
| "flock_wait (Flock_Locked # as) fd = (Some (fd + 1), [])"
| "flock_wait (Flock_Interrupted # as) fd = flock_wait as fd"
| "flock_wait (Flock_Error # as) fd = (None, [fd])"

text \<open>The result, and the descriptors that were closed.\<close>

definition wn_model_lock :: "bool \<Rightarrow> int \<Rightarrow> flock_answer list \<Rightarrow> int option \<times> int list" where
  "wn_model_lock malloc fd as =
     (if \<not> malloc then (None, []) else if fd < 0 then (None, []) else flock_wait as fd)"

definition wn_model_unlock :: "int option \<Rightarrow> int list" where
  "wn_model_unlock lock = (case lock of None \<Rightarrow> [] | Some l \<Rightarrow> [l - 1])"

text \<open>A lock that was taken is released by closing its descriptor; one that was not has already been
  closed, unless the wait never ended.\<close>

lemma lock_released:
  assumes "0 \<le> fd" "wn_model_lock True fd as = (lock, closed)" "list_ex (\<lambda>a. a \<noteq> Flock_Interrupted) as"
  shows "closed @ wn_model_unlock lock = [fd]"
  using assms
proof (induction as)
  case Nil
  then show ?case by simp
next
  case (Cons a as)
  then show ?case by (cases a) (auto simp: wn_model_lock_def wn_model_unlock_def)
qed

lemma random_bytes_length: "length got \<le> 12 \<Longrightarrow> random_bytes as got = Some bs \<Longrightarrow> length bs = 12"
proof (induction as got rule: random_bytes.induct)
  case (1 as got)
  show ?case using 1(4)
    by (subst (asm) random_bytes.simps)
      (use 1 in \<open>auto simp: Let_def split: if_splits list.splits read_answer.splits\<close>)
qed

lemma length_hex_bytes [simp]: "length (hex_bytes bs) = 2 * length bs"
  by (induction bs) (simp_all add: hex_bytes_def hex_byte_def)

text \<open>A created mapping has a name of 28 characters, within the 31 the comment allows; whoever maps the
  memory, the name is gone once the helper has attached, and no descriptor stays open.\<close>

lemma created_name:
  assumes "wn_ipc_create urandom ans n = (Some ipc, es)"
  shows "length (i_name ipc) = 28 \<and> i_owner ipc \<and> i_size ipc = n \<and> 0 < n \<and> n \<le> IPC_MAX"
  using assms random_bytes_length [of "[]"]
  by (auto simp: wn_ipc_create_def map_memory_def ascii_def Let_def split: option.splits if_splits)

lemma attached_name_gone:
  "wn_ipc_open ans nm n = (Some ipc, es) \<Longrightarrow> es = [Shm_Open nm False, Ipc_Close_Fd, Shm_Unlink nm]"
  by (auto simp: wn_ipc_open_def map_memory_def Let_def split: if_splits)

lemma failed_create_unlinks:
  "map_memory ans nm n True = (None, es) \<Longrightarrow> Shm_Open nm True \<in> set es \<Longrightarrow>
   Shm_Unlink nm \<in> set es \<and> Ipc_Close_Fd \<in> set es"
  by (auto simp: map_memory_def wn_ipc_close_def Let_def split: if_splits)

end
