(* ===== verification/Model_Download.thy ===== *)
theory Model_Download
  imports Network_Proxy Helper_Ipc
begin

text \<open>
  The verified model downloads of the speech and translation helpers (\<open>app/speech_download.h\<close>): the check of
  a cached file against its pinned size and digest, libcurl's write callback with its progress reports, and
  \<open>ensure_model\<close>. The cache directory is a map from paths to contents; OpenSSL's SHA-256 is the parameter
  \<open>sha256\<close>; the outcomes of system calls and of the transfer are answers.
\<close>

section \<open>Pinned files\<close>

datatype model_file = ModelFile (f_name: string) (f_size: nat) (f_sha256: string)

text \<open>\<open>g_stat\<close>, \<open>g_fopen\<close>, the digest calls and \<open>ferror\<close> of one check.\<close>

record valid_answers =
  v_stat :: bool
  v_open :: bool
  v_digest :: bool
  v_ferror :: bool

text \<open>The file is digested in blocks of 65536 bytes.\<close>

fun blocks :: "nat \<Rightarrow> byte list \<Rightarrow> byte list list" where
  "blocks n xs = (if xs = [] \<or> n = 0 then [] else take n xs # blocks n (drop n xs))"

declare blocks.simps [simp del]

lemma concat_blocks: "0 < n \<Longrightarrow> concat (blocks n xs) = xs"
proof (induction n xs rule: blocks.induct)
  case (1 n xs)
  then show ?case by (subst blocks.simps) auto
qed

definition valid_file ::
  "(byte list \<Rightarrow> byte list) \<Rightarrow> valid_answers \<Rightarrow> (cstring \<Rightarrow> byte list option) \<Rightarrow> cstring \<Rightarrow> model_file \<Rightarrow> bool" where
  "valid_file sha256 ans fs path model \<longleftrightarrow>
     (case fs path of
        None \<Rightarrow> False
      | Some content \<Rightarrow>
          if \<not> v_stat ans \<or> length content \<noteq> f_size model then False
          else if \<not> v_open ans then False
          else
            let digest = sha256 (concat (blocks 65536 content))
            in v_digest ans \<and> \<not> v_ferror ans \<and> length digest = 32 \<and> hex_bytes digest = ascii (f_sha256 model))"

text \<open>What a valid file is, whatever the answers.\<close>

definition pinned :: "(byte list \<Rightarrow> byte list) \<Rightarrow> model_file \<Rightarrow> byte list \<Rightarrow> bool" where
  "pinned sha256 model content \<longleftrightarrow>
     length content = f_size model \<and> hex_bytes (sha256 content) = ascii (f_sha256 model)"

lemma valid_file_pinned:
  "valid_file sha256 ans fs path model \<Longrightarrow> \<exists>content. fs path = Some content \<and> pinned sha256 model content"
  by (auto simp: valid_file_def pinned_def concat_blocks Let_def split: option.splits if_splits)

section \<open>The transfer\<close>

record download =
  d_file :: "byte list"
  d_remaining :: nat
  d_percent :: byte
  d_updates :: "byte list list"

text \<open>\<open>fwrite\<close> stores \<open>written\<close> of the bytes; \<open>ipc\<close> says whether the progress report went out. \<open>index\<close> is
  the model's position in the manifest. The result is the callback's return value.\<close>

definition download_write ::
  "nat \<Rightarrow> model_file \<Rightarrow> byte list \<Rightarrow> nat \<Rightarrow> nat \<Rightarrow> nat \<Rightarrow> bool \<Rightarrow> download \<Rightarrow> nat \<times> download" where
  "download_write index model data n count written ipc d =
     (if n \<noteq> 0 \<and> count > d_remaining d div n then (0, d)
      else
        let bytes = n * count;
            written = min written bytes;
            d = d\<lparr>d_file := d_file d @ take written data, d_remaining := d_remaining d - written\<rparr>;
            percent = word_of_nat (100 * (f_size model - d_remaining d) div f_size model) :: byte
        in if percent \<noteq> d_percent d then
             (if \<not> ipc then (0, d)
              else (written, d\<lparr>d_percent := percent,
                               d_updates := d_updates d @ [[68, word_of_nat index, percent]]\<rparr>))
           else (written, d))"

record chunk_answer =
  k_data :: "byte list"
  k_written :: nat
  k_ipc :: bool

text \<open>libcurl hands over the body piece by piece and gives up when the callback takes less.\<close>

fun curl_perform :: "nat \<Rightarrow> model_file \<Rightarrow> chunk_answer list \<Rightarrow> bool \<Rightarrow> download \<Rightarrow> bool \<times> download" where
  "curl_perform index model [] complete d = (complete, d)"
| "curl_perform index model (k # ks) complete d =
     (let (taken, d) = download_write index model (k_data k) 1 (length (k_data k)) (k_written k) (k_ipc k) d
      in if taken \<noteq> length (k_data k) then (False, d) else curl_perform index model ks complete d)"

section \<open>\<open>ensure_model\<close>\<close>

record ensure_answers =
  n_valid :: valid_answers
  n_report :: bool
  n_mkdir :: bool
  n_fopen :: bool
  n_curl_init :: bool
  n_getenv :: "cstring \<Rightarrow> cstring option"
  n_setopt :: "curl_option \<Rightarrow> curlcode"
  n_chunks :: "chunk_answer list"
  n_complete :: bool
  n_fclose :: bool
  n_recheck :: valid_answers
  n_rename :: bool
  n_unlink :: bool

text \<open>\<open>g_build_filename\<close> for a relative name.\<close>

definition build_filename :: "cstring \<Rightarrow> cstring \<Rightarrow> cstring" where
  "build_filename dir nm = rev (dropWhile (\<lambda>b. b = 47) (rev dir)) @ [47] @ nm"

definition partial_of :: "cstring \<Rightarrow> cstring" where
  "partial_of path = path @ ascii ''.part''"

definition fetch_model :: "ensure_answers \<Rightarrow> nat \<Rightarrow> model_file \<Rightarrow> bool \<times> download" where
  "fetch_model ans index model =
     (let d = \<lparr>d_file = [], d_remaining = f_size model, d_percent = 0, d_updates = []\<rparr>
      in if fst (wn_curl_proxy (n_getenv ans) (n_setopt ans)) = CURLE_OK
         then curl_perform index model (n_chunks ans) (n_complete ans) d else (False, d))"

text \<open>The result, the cache afterwards and the progress reports.\<close>

definition ensure_model ::
  "(byte list \<Rightarrow> byte list) \<Rightarrow> ensure_answers \<Rightarrow> cstring \<Rightarrow> nat \<Rightarrow> model_file \<Rightarrow> (cstring \<Rightarrow> byte list option) \<Rightarrow>
   bool \<times> (cstring \<Rightarrow> byte list option) \<times> byte list list" where
  "ensure_model sha256 ans dir index model fs =
     (let path = build_filename dir (ascii (f_name model)) in
      if valid_file sha256 (n_valid ans) fs path model then (True, fs, [])
      else if \<not> n_report ans then (False, fs, [])
      else
        let start = [68, word_of_nat index, 0];
            partial = partial_of path;
            file = n_mkdir ans \<and> n_fopen ans;
            curl = file \<and> n_curl_init ans;
            (ok, d) = (if curl then fetch_model ans index model
                       else (False, \<lparr>d_file = [], d_remaining = f_size model, d_percent = 0, d_updates = []\<rparr>));
            fs = (if file then fs(partial \<mapsto> d_file d) else fs);
            ok = (if file \<and> \<not> n_fclose ans then False else ok);
            renamed = ok \<and> valid_file sha256 (n_recheck ans) fs partial model \<and> n_rename ans;
            fs = (if renamed then fs(path := fs partial, partial := None) else fs);
            fs = (if n_unlink ans then fs(partial := None) else fs)
        in (renamed, fs, start # d_updates d))"

text \<open>Serving a whole manifest under the lock, in order, until a file fails; with the progress reports.\<close>

fun ensure_models ::
  "(byte list \<Rightarrow> byte list) \<Rightarrow> ensure_answers list \<Rightarrow> cstring \<Rightarrow> nat \<Rightarrow> model_file list \<Rightarrow>
   (cstring \<Rightarrow> byte list option) \<Rightarrow> bool \<times> (cstring \<Rightarrow> byte list option) \<times> byte list list" where
  "ensure_models sha256 as dir index [] fs = (True, fs, [])"
| "ensure_models sha256 [] dir index (m # ms) fs = (False, fs, [])"
| "ensure_models sha256 (a # as) dir index (m # ms) fs =
     (let (ok, fs, us) = ensure_model sha256 a dir index m fs
      in if ok
         then let (ok, fs, vs) = ensure_models sha256 as dir (index + 1) ms fs in (ok, fs, us @ vs)
         else (False, fs, us))"

section \<open>The transfer is bounded\<close>

definition download_inv :: "model_file \<Rightarrow> download \<Rightarrow> bool" where
  "download_inv model d \<longleftrightarrow>
     d_remaining d \<le> f_size model \<and> length (d_file d) + d_remaining d = f_size model \<and>
     unat (d_percent d) \<le> 100 * (f_size model - d_remaining d) div f_size model"

lemma percent_bound: "r \<le> s \<Longrightarrow> 100 * (s - r) div s \<le> (100 :: nat)"
proof -
  have "100 * (s - r) div s \<le> 100 * s div s" by (rule div_le_mono) simp
  then show ?thesis by (cases "s = 0") simp_all
qed

lemma unat_percent: "r \<le> s \<Longrightarrow> unat (word_of_nat (100 * (s - r) div s) :: byte) = 100 * (s - r) div s"
  using percent_bound [of r s] by (simp add: unsigned_of_nat take_bit_nat_eq_self)

lemma download_write_inv:
  assumes "download_inv model d" "n * count \<le> length data"
    and "download_write index model data n count written ipc d = (taken, d')"
  shows "download_inv model d' \<and> unat (d_percent d) \<le> unat (d_percent d') \<and>
    (\<exists>us. d_updates d' = d_updates d @ us)"
proof (cases "n \<noteq> 0 \<and> count > d_remaining d div n")
  case True
  then show ?thesis using assms by (simp add: download_write_def)
next
  case False
  define w where "w = min written (n * count)"
  define r where "r = d_remaining d - w"
  have fits: "n * count \<le> d_remaining d"
  proof (cases "n = 0")
    case False
    then have "count \<le> d_remaining d div n" using \<open>\<not> (n \<noteq> 0 \<and> count > d_remaining d div n)\<close> by simp
    then show ?thesis by (metis div_times_less_eq_dividend le_trans mult.commute mult_le_mono1)
  qed simp
  then have w: "w \<le> d_remaining d" "w \<le> length data" using assms(2) by (simp_all add: w_def)
  have inv: "d_remaining d \<le> f_size model" "length (d_file d) + d_remaining d = f_size model"
    "unat (d_percent d) \<le> 100 * (f_size model - d_remaining d) div f_size model"
    using assms(1) by (simp_all add: download_inv_def)
  have r: "r \<le> f_size model" "length (d_file d @ take w data) + r = f_size model"
    using w inv by (simp_all add: r_def)
  have grow: "100 * (f_size model - d_remaining d) div f_size model \<le> 100 * (f_size model - r) div f_size model"
    by (rule div_le_mono) (simp add: r_def)
  have up: "unat (word_of_nat (100 * (f_size model - r) div f_size model) :: byte) = 100 * (f_size model - r) div f_size model"
    by (rule unat_percent [OF r(1)])
  show ?thesis
    using assms(3) False inv r grow up
    by (auto simp: download_write_def download_inv_def Let_def w_def [symmetric] r_def [symmetric] split: if_splits)
qed

lemma curl_perform_inv:
  "download_inv model d \<Longrightarrow> curl_perform index model ks complete d = (ok, d') \<Longrightarrow> download_inv model d'"
proof (induction ks arbitrary: d)
  case Nil
  then show ?case by simp
next
  case (Cons k ks)
  obtain taken d1 where d1: "download_write index model (k_data k) 1 (length (k_data k)) (k_written k) (k_ipc k) d = (taken, d1)"
    by fastforce
  then have "download_inv model d1" using download_write_inv [OF Cons.prems(1) _ d1] by simp
  then show ?case using Cons d1 by (auto split: if_splits)
qed

lemma fetch_model_bounded: "fetch_model ans index model = (ok, d) \<Longrightarrow> length (d_file d) \<le> f_size model"
proof -
  assume a: "fetch_model ans index model = (ok, d)"
  have i: "download_inv model \<lparr>d_file = [], d_remaining = f_size model, d_percent = 0, d_updates = []\<rparr>"
    by (simp add: download_inv_def)
  have "download_inv model d"
    using a i curl_perform_inv [OF i] by (auto simp: fetch_model_def Let_def split: if_splits)
  then show ?thesis by (simp add: download_inv_def)
qed

section \<open>The cache\<close>

lemma partial_not_path: "partial_of path \<noteq> path"
  by (simp add: partial_of_def ascii_def)

text \<open>
  A model file appears in the cache only complete and verified: whatever fails, the file under its final
  name is either untouched or has exactly the pinned size and digest, success means it is there, no other
  file but the partial one changes, and that one never grows past the pinned size.
\<close>

lemma ensure_model_verified:
  assumes "ensure_model sha256 ans dir index model fs = (ok, fs', updates)"
  shows "(let path = build_filename dir (ascii (f_name model)) in
    (fs' path = fs path \<or> (\<exists>content. fs' path = Some content \<and> pinned sha256 model content)) \<and>
    (ok \<longrightarrow> (\<exists>content. fs' path = Some content \<and> pinned sha256 model content)) \<and>
    fs' |` (- {path, partial_of path}) = fs |` (- {path, partial_of path}) \<and>
    (fs' (partial_of path) = fs (partial_of path) \<or>
       (case fs' (partial_of path) of None \<Rightarrow> True | Some content \<Rightarrow> length content \<le> f_size model)))"
proof -
  define path where "path = build_filename dir (ascii (f_name model))"
  have np: "partial_of path \<noteq> path" "path \<noteq> partial_of path" using partial_not_path by metis+
  consider (cached) "valid_file sha256 (n_valid ans) fs path model" "ok" "fs' = fs"
    | (refused) "\<not> ok" "fs' = fs"
    | (tried) "\<not> valid_file sha256 (n_valid ans) fs path model" "n_report ans"
    using assms by (auto simp: ensure_model_def path_def [symmetric] Let_def split: if_splits)
  then have "(fs' path = fs path \<or> (\<exists>content. fs' path = Some content \<and> pinned sha256 model content)) \<and>
    (ok \<longrightarrow> (\<exists>content. fs' path = Some content \<and> pinned sha256 model content)) \<and>
    fs' |` (- {path, partial_of path}) = fs |` (- {path, partial_of path}) \<and>
    (fs' (partial_of path) = fs (partial_of path) \<or>
       (case fs' (partial_of path) of None \<Rightarrow> True | Some content \<Rightarrow> length content \<le> f_size model))"
  proof cases
    case cached
    then show ?thesis using valid_file_pinned by fastforce
  next
    case refused
    then show ?thesis by simp
  next
    case tried
    let ?file = "n_mkdir ans \<and> n_fopen ans"
    obtain got d where d: "(if ?file \<and> n_curl_init ans then fetch_model ans index model
        else (False, \<lparr>d_file = [], d_remaining = f_size model, d_percent = 0, d_updates = []\<rparr>)) = (got, d)"
      by fastforce
    then have bound: "length (d_file d) \<le> f_size model"
      using fetch_model_bounded by (auto split: if_splits)
    define fs1 where "fs1 = (if ?file then fs(partial_of path \<mapsto> d_file d) else fs)"
    define renamed where "renamed \<longleftrightarrow> (if ?file \<and> \<not> n_fclose ans then False else got) \<and>
      valid_file sha256 (n_recheck ans) fs1 (partial_of path) model \<and> n_rename ans"
    define fs2 where "fs2 = (if renamed then fs1(path := fs1 (partial_of path), partial_of path := None) else fs1)"
    have r: "ok = renamed" "fs' = (if n_unlink ans then fs2(partial_of path := None) else fs2)"
      using assms tried d
      by (auto simp: ensure_model_def path_def [symmetric] Let_def fs1_def fs2_def renamed_def split: prod.splits)
    have pin: "\<exists>content. fs2 path = Some content \<and> pinned sha256 model content" if renamed
      using that np valid_file_pinned by (fastforce simp: renamed_def fs2_def)
    have same: "fs2 path = fs path" if "\<not> renamed" using that np by (simp add: fs2_def fs1_def)
    have "fs2 (partial_of path) = fs (partial_of path) \<or>
       (case fs2 (partial_of path) of None \<Rightarrow> True | Some content \<Rightarrow> length content \<le> f_size model)"
      using bound np by (simp add: fs2_def fs1_def)
    moreover have "fs2 q = fs q" if "q \<noteq> path" "q \<noteq> partial_of path" for q
      using that by (simp add: fs2_def fs1_def)
    ultimately show ?thesis using r pin same np
      by (cases renamed; cases "n_unlink ans") (auto simp: restrict_map_def)
  qed
  then show ?thesis by (simp add: path_def Let_def)
qed

text \<open>Serving a manifest to the end leaves every one of its files verified, when their names differ.\<close>

definition cached :: "(byte list \<Rightarrow> byte list) \<Rightarrow> cstring \<Rightarrow> (cstring \<Rightarrow> byte list option) \<Rightarrow> model_file \<Rightarrow> bool" where
  "cached sha256 dir fs m \<longleftrightarrow>
     (case fs (build_filename dir (ascii (f_name m))) of None \<Rightarrow> False | Some content \<Rightarrow> pinned sha256 m content)"

lemma ensure_model_keeps:
  assumes "ensure_model sha256 ans dir index model fs = (ok, fs', updates)" "cached sha256 dir fs m"
    and "build_filename dir (ascii (f_name m)) \<noteq> build_filename dir (ascii (f_name model))"
    and "build_filename dir (ascii (f_name m)) \<noteq> partial_of (build_filename dir (ascii (f_name model)))"
  shows "cached sha256 dir fs' m"
proof -
  let ?p = "build_filename dir (ascii (f_name model))" and ?q = "build_filename dir (ascii (f_name m))"
  have "fs' |` (- {?p, partial_of ?p}) = fs |` (- {?p, partial_of ?p})"
    using ensure_model_verified [OF assms(1)] by (simp add: Let_def)
  from fun_cong [OF this, of ?q] have "fs' ?q = fs ?q" using assms(3,4) by (simp add: restrict_map_def)
  then show ?thesis using assms(2) by (simp add: cached_def)
qed

lemma of_char_byte: "(of_char c :: byte) = of_char d \<longleftrightarrow> c = d"
proof
  assume a: "(of_char c :: byte) = of_char d"
  have "unat (of_char x :: byte) = of_char x" for x
  proof -
    have "(of_char x :: byte) = word_of_nat (of_char x)" by (rule of_nat_of_char [symmetric])
    then show ?thesis using nat_of_char_less_256 [of x] unat_byte by metis
  qed
  then have "(of_char c :: nat) = of_char d" using a by metis
  then show "c = d" by simp
qed simp

lemma ascii_eq_iff: "ascii s = ascii t \<longleftrightarrow> s = t"
  unfolding ascii_def by (rule inj_map_eq_map) (simp add: inj_def of_char_byte)

lemma build_filename_eq: "build_filename dir a = build_filename dir b \<longleftrightarrow> a = b"
  by (simp add: build_filename_def)

text \<open>No file of a manifest is another one's partial file, or twice in it.\<close>

definition manifest_ok :: "model_file list \<Rightarrow> bool" where
  "manifest_ok ms \<longleftrightarrow>
     distinct (map f_name ms) \<and> list_all (\<lambda>m. 0 < f_size m \<and> length (f_sha256 m) = 64) ms \<and>
     list_all (\<lambda>m. list_all (\<lambda>m'. f_name m \<noteq> f_name m' @ ''.part'') ms) ms"

lemma ensure_models_keeps:
  "cached sha256 dir fs m \<Longrightarrow> ensure_models sha256 as dir index ms fs = (ok, fs', us) \<Longrightarrow>
   f_name m \<notin> f_name ` set ms \<Longrightarrow> \<forall>m'\<in>set ms. f_name m \<noteq> f_name m' @ ''.part'' \<Longrightarrow> cached sha256 dir fs' m"
proof (induction sha256 as dir index ms fs arbitrary: us rule: ensure_models.induct)
  case (3 sha256 a as dir index m' ms fs)
  obtain ok1 fs1 us1 where one: "ensure_model sha256 a dir index m' fs = (ok1, fs1, us1)" by (cases rule: prod_cases3)
  have "cached sha256 dir fs1 m"
    by (rule ensure_model_keeps [OF one 3(2)])
      (use 3(4,5) in \<open>auto simp: partial_of_def build_filename_eq ascii_eq_iff build_filename_def ascii_append [symmetric]\<close>)
  then show ?case using 3 one by (auto split: if_splits prod.splits)
qed auto

text \<open>When the helper gets past its downloads, every file of the manifest is in the cache, complete and with
  the pinned digest.\<close>

lemma ensure_models_verified:
  assumes "manifest_ok ms" "ensure_models sha256 as dir index ms fs = (True, fs', us)"
  shows "list_all (cached sha256 dir fs') ms"
  using assms
proof (induction sha256 as dir index ms fs arbitrary: us rule: ensure_models.induct)
  case (3 sha256 a as dir index m ms fs)
  obtain fs1 us1 vs where one: "ensure_model sha256 a dir index m fs = (True, fs1, us1)"
    and rest: "ensure_models sha256 as dir (index + 1) ms fs1 = (True, fs', vs)"
    using 3(3) by (auto split: prod.splits if_splits)
  have "manifest_ok ms" using 3(2) by (auto simp: manifest_ok_def list_all_iff)
  then have "list_all (cached sha256 dir fs') ms" using 3(1) [OF one [symmetric] refl refl TrueI _ rest] by simp
  moreover have "cached sha256 dir fs1 m"
    using ensure_model_verified [OF one] by (auto simp: cached_def Let_def)
  then have "cached sha256 dir fs' m"
    by (rule ensure_models_keeps [OF _ rest]) (use 3(2) in \<open>auto simp: manifest_ok_def list_all_iff\<close>)
  ultimately show ?case by simp
qed simp_all

end
