(* ===== verification/Speech_Models.thy ===== *)
theory Speech_Models
  imports Model_Download
begin

text \<open>
  The pinned speech models: the recognisers of \<open>app/stt_models.h\<close> and the voice of \<open>app/tts_models.h\<close>, with
  the voices and languages the latter accepts.
\<close>

section \<open>Recognition\<close>

datatype model_kind = WHISPER | PARAKEET | SENSEVOICE

record stt_model =
  m_name :: string
  m_url :: string
  m_dim :: nat
  m_kind :: model_kind
  m_files :: "model_file list"

definition stt_models :: "stt_model list" where
  "stt_models =
   [
    \<lparr>m_name = ''tiny'', m_url = ''https://huggingface.co/csukuangfj/sherpa-onnx-whisper-tiny/resolve/65176e2deb88badc814a94058666cadccc29b61c'',
     m_dim = 80, m_kind = WHISPER, m_files =
       [ModelFile ''tiny-encoder.int8.onnx'' 12937772 ''d24fb083ae3b1041fc24e97971d60e280c9342201fbb67b0ab428a8b4a51a434'',
        ModelFile ''tiny-decoder.int8.onnx'' 89855401 ''d2fece8dd42771f1df975c6c0445770d0c292bf7547c2cae04a6c0cc57540925'',
        ModelFile ''tiny-tokens.txt'' 816730 ''b34b360dbb493e781e479794586d661700670d65564001f23024971d1f2fa126'']\<rparr>,
    \<lparr>m_name = ''base'', m_url = ''https://huggingface.co/csukuangfj/sherpa-onnx-whisper-base/resolve/bb53ee204431c90d314c1cc08d28d23e5b7927cc'',
     m_dim = 80, m_kind = WHISPER, m_files =
       [ModelFile ''base-encoder.int8.onnx'' 29120534 ''0b8fb1304b6109976038efff5ace81720e00386f3ff6b54ee8c75291ca0a1e11'',
        ModelFile ''base-decoder.int8.onnx'' 130672026 ''9759d217388a01b3a4c7c15533201067b48ae819c4daafc8624e64b9409dc02d'',
        ModelFile ''base-tokens.txt'' 816730 ''b34b360dbb493e781e479794586d661700670d65564001f23024971d1f2fa126'']\<rparr>,
    \<lparr>m_name = ''small'', m_url = ''https://huggingface.co/csukuangfj/sherpa-onnx-whisper-small/resolve/8f3c18b358db4d1f2fc1eae49d75cd20989e4309'',
     m_dim = 80, m_kind = WHISPER, m_files =
       [ModelFile ''small-encoder.int8.onnx'' 112442483 ''4cbe7b22fa9026b843b60a68640c747de05bafb1a11b57edc0e66c232d9f33a9'',
        ModelFile ''small-decoder.int8.onnx'' 262226114 ''acad50b5c782696e91b55914cc5ab4f756f1532f76e22aa6fc615f39fb69a8ee'',
        ModelFile ''small-tokens.txt'' 816730 ''b34b360dbb493e781e479794586d661700670d65564001f23024971d1f2fa126'']\<rparr>,
    \<lparr>m_name = ''medium'', m_url = ''https://huggingface.co/csukuangfj/sherpa-onnx-whisper-medium/resolve/8c31d28503847560985df21f90e14f0c736e075e'',
     m_dim = 80, m_kind = WHISPER, m_files =
       [ModelFile ''medium-encoder.int8.onnx'' 374196283 ''1c54582b4d829de0089f6cb63bbbdb3bf7555398bacaf855fbecf1a84dfd193e'',
        ModelFile ''medium-decoder.int8.onnx'' 571059257 ''595d00a338a365a7bfa0ca7f296cabc639583bef770ab6130df90f49a6412747'',
        ModelFile ''medium-tokens.txt'' 816730 ''b34b360dbb493e781e479794586d661700670d65564001f23024971d1f2fa126'']\<rparr>,
    \<lparr>m_name = ''large-v3'', m_url = ''https://huggingface.co/csukuangfj/sherpa-onnx-whisper-large-v3/resolve/2a6507094dd6020d939d78e3f1834a1d06267fca'',
     m_dim = 128, m_kind = WHISPER, m_files =
       [ModelFile ''large-v3-encoder.int8.onnx'' 766671985 ''d531cf17248acc43e8c09b472a0877055e770877857a5332fc1304b36534ec85'',
        ModelFile ''large-v3-decoder.int8.onnx'' 1008265203 ''ebc6bfd88e162a46cb3edee8a7e727e1dcbc65cabecb19e2573695e4d495e1af'',
        ModelFile ''large-v3-tokens.txt'' 816730 ''b34b360dbb493e781e479794586d661700670d65564001f23024971d1f2fa126'']\<rparr>,
    \<lparr>m_name = ''turbo'', m_url = ''https://huggingface.co/csukuangfj/sherpa-onnx-whisper-turbo/resolve/2ca6ff69fc878651b770880507669577ac41c2ff'',
     m_dim = 128, m_kind = WHISPER, m_files =
       [ModelFile ''turbo-encoder.int8.onnx'' 674716297 ''b02dcdf54f348741e93fe732b67d933c8dcb6735655f710640143081db38878b'',
        ModelFile ''turbo-decoder.int8.onnx'' 361080764 ''20accd02388482eb3a46bd615631adfdc85e1eb2c7db9ea3f02a40ffe6b81547'',
        ModelFile ''turbo-tokens.txt'' 816730 ''b34b360dbb493e781e479794586d661700670d65564001f23024971d1f2fa126'']\<rparr>,
    \<lparr>m_name = ''parakeet-v3'', m_url = ''https://huggingface.co/csukuangfj/sherpa-onnx-nemo-parakeet-tdt-0.6b-v3-int8/resolve/2bda32ec70b097a55adaa07d9a7173915b43cc78'',
     m_dim = 80, m_kind = PARAKEET, m_files =
       [ModelFile ''encoder.int8.onnx'' 652184281 ''acfc2b4456377e15d04f0243af540b7fe7c992f8d898d751cf134c3a55fd2247'',
        ModelFile ''decoder.int8.onnx'' 11845275 ''179e50c43d1a9de79c8a24149a2f9bac6eb5981823f2a2ed88d655b24248db4e'',
        ModelFile ''joiner.int8.onnx'' 6355277 ''3164c13fc2821009440d20fcb5fdc78bff28b4db2f8d0f0b329101719c0948b3'',
        ModelFile ''tokens.txt'' 93939 ''d58544679ea4bc6ac563d1f545eb7d474bd6cfa467f0a6e2c1dc1c7d37e3c35d'']\<rparr>,
    \<lparr>m_name = ''sensevoice'', m_url = ''https://huggingface.co/csukuangfj/sherpa-onnx-sense-voice-zh-en-ja-ko-yue-2024-07-17/resolve/2365baeacb507f821a0c8120fcee3d484dba7a07'',
     m_dim = 80, m_kind = SENSEVOICE, m_files =
       [ModelFile ''model.int8.onnx'' 239233841 ''c71f0ce00bec95b07744e116345e33d8cbbe08cef896382cf907bf4b51a2cd51'',
        ModelFile ''tokens.txt'' 315894 ''f449eb28dc567533d7fa59be34e2abca8784f771850c78a47fb731a31429a1dc'']\<rparr>
   ]"

definition select_model :: "cstring \<Rightarrow> stt_model option" where
  "select_model nm = find (\<lambda>m. nm = ascii (m_name m)) stt_models"

section \<open>Speech\<close>

definition tts_voices :: "string list" where
  "tts_voices = [''F1'', ''F2'', ''F3'', ''F4'', ''F5'', ''M1'', ''M2'', ''M3'', ''M4'', ''M5'']"

definition tts_languages :: "string list" where
  "tts_languages =
     [''en'', ''ko'', ''ja'', ''ar'', ''bg'', ''cs'', ''da'', ''de'', ''el'', ''es'', ''et'', ''fi'', ''fr'', ''hi'', ''hr'', ''hu'',
      ''id'', ''it'', ''lt'', ''lv'', ''nl'', ''pl'', ''pt'', ''ro'', ''ru'', ''sk'', ''sl'', ''sv'', ''tr'', ''uk'', ''vi'']"

definition tts_models :: "model_file list" where
  "tts_models =
    [ModelFile ''duration_predictor.int8.onnx'' 3700147 ''c3eb91414d5ff8a7a239b7fe9e34e7e2bf8a8140d8375ffb14718b1c639325db'',
     ModelFile ''text_encoder.int8.onnx'' 36416150 ''c7befd5ea8c3119769e8a6c1486c4edc6a3bc8365c67621c881bbb774b9902ff'',
     ModelFile ''vector_estimator.int8.onnx'' 78400833 ''20cd86fa5c6effedfda0e7cffe5b0569ca401c440a0c3a1d72bf39286c0db3fd'',
     ModelFile ''vocoder.int8.onnx'' 25991073 ''e923d60f53f95eb1ce235f1dc33ec56d9c057823c96fa6f8acf98f32b0da6152'',
     ModelFile ''tts.json'' 8253 ''42078d3aef1cd43ab43021f3c54f47d2d75ceb4e75f627f118890128b06a0d09'',
     ModelFile ''unicode_indexer.bin'' 262144 ''8402ca48e5189a8950138580b0fff64db6f072f24ac07cd54ba8b2fbb9883b30'',
     ModelFile ''voice.bin'' 517168 ''67d5209b0ee8ce6c74105ffbe12fe6a7628aea3b4ba2fcb308a4a67938a93ce8'',
     ModelFile ''LICENSE'' 1070 ''0dfe0d0ba84416fe3879d9a34f4909d8d0137c78d1e95834177b0414ac096fa2'']"

section \<open>The manifests are well formed\<close>

lemma stt_manifests: "list_all (\<lambda>m. manifest_ok (m_files m)) stt_models"
  by (simp add: stt_models_def manifest_ok_def)

lemma tts_manifest: "manifest_ok tts_models"
  by (simp add: tts_models_def manifest_ok_def)

lemma select_model_files: "select_model nm = Some m \<Longrightarrow> manifest_ok (m_files m) \<and> nm = ascii (m_name m)"
  using stt_manifests by (auto simp: select_model_def find_Some_iff list_all_length)

end
