(* ===== verification/Stt.thy ===== *)
theory Stt
  imports Speech_Models
begin

text \<open>
  The dictation helper (\<open>app/stt.c\<close>): recognition of bounded audio in even windows with the committed
  prefix of the transcript published through shared memory, microphone capture, and \<open>main\<close>. The
  recogniser, the microphone, SDL's clock and libcurl are answers.
\<close>

section \<open>Constants\<close>

definition DOWNLOAD_ERROR :: int where "DOWNLOAD_ERROR = 1"
definition RECOGNIZE_ERROR :: int where "RECOGNIZE_ERROR = 2"
definition AUDIO_ERROR :: int where "AUDIO_ERROR = 3"
definition LENGTH_ERROR :: int where "LENGTH_ERROR = 4"
definition SAMPLE_RATE :: int where "SAMPLE_RATE = 16000"
definition MAX_SAMPLES :: int where "MAX_SAMPLES = SAMPLE_RATE * 30"
definition CHUNK_SAMPLES :: int where "CHUNK_SAMPLES = SAMPLE_RATE * 29"
definition MAX_AUDIO_SAMPLES :: int where "MAX_AUDIO_SAMPLES = SAMPLE_RATE * 600"
definition HEADER_BYTES :: nat where "HEADER_BYTES = 4"
definition TEXT_LIMIT :: nat where "TEXT_LIMIT = 16384"

lemmas stt_consts =
  DOWNLOAD_ERROR_def RECOGNIZE_ERROR_def AUDIO_ERROR_def LENGTH_ERROR_def SAMPLE_RATE_def MAX_SAMPLES_def
  CHUNK_SAMPLES_def MAX_AUDIO_SAMPLES_def HEADER_BYTES_def TEXT_LIMIT_def

section \<open>Windows\<close>

text \<open>The number of windows and their common width; all values fit an int for an admissible count.\<close>

definition window_width :: "int \<Rightarrow> int" where
  "window_width count =
     (let chunks = (count + CHUNK_SAMPLES - 1) div CHUNK_SAMPLES in (count + chunks - 1) div chunks)"

text \<open>\<open>for (offset = 0; offset < count; offset += window)\<close>: the offsets with the samples each takes.\<close>

function windows_from :: "int \<Rightarrow> int \<Rightarrow> int \<Rightarrow> (int \<times> int) list" where
  "windows_from window count offset =
     (if offset < count \<and> 0 < window
      then (offset, min window (count - offset)) # windows_from window count (offset + window) else [])"
  by pat_completeness auto
termination by (relation "measure (\<lambda>(w, c, k). nat (c - k))") auto

declare windows_from.simps [simp del]

definition windows :: "int \<Rightarrow> (int \<times> int) list" where
  "windows count = windows_from (window_width count) count 0"

text \<open>No window is longer than the model's context, and the width is positive.\<close>

lemma window_width_bounds:
  assumes "0 < count"
  shows "0 < window_width count \<and> window_width count \<le> CHUNK_SAMPLES"
proof -
  define chunks where "chunks = (count + CHUNK_SAMPLES - 1) div CHUNK_SAMPLES"
  have c: "0 < chunks" using assms by (simp add: chunks_def stt_consts pos_imp_zdiv_pos_iff)
  have "count \<le> chunks * CHUNK_SAMPLES"
    using assms mult_div_mod_eq [of CHUNK_SAMPLES "count + CHUNK_SAMPLES - 1"]
      pos_mod_bound [of CHUNK_SAMPLES "count + CHUNK_SAMPLES - 1"]
    by (simp add: chunks_def stt_consts)
  then have "count + chunks - 1 < chunks * (CHUNK_SAMPLES + 1)" using c by (simp add: algebra_simps)
  then have "(count + chunks - 1) div chunks < CHUNK_SAMPLES + 1"
  proof -
    have "(count + chunks - 1) div chunks * chunks \<le> count + chunks - 1"
      using c div_mult_mod_eq [of "count + chunks - 1" chunks] pos_mod_sign [of chunks "count + chunks - 1"]
      by linarith
    then have "(count + chunks - 1) div chunks * chunks < (CHUNK_SAMPLES + 1) * chunks"
      using \<open>count + chunks - 1 < chunks * (CHUNK_SAMPLES + 1)\<close> by (simp add: mult.commute)
    then show ?thesis using c by (simp only: mult_less_cancel_right_pos)
  qed
  moreover have "0 < (count + chunks - 1) div chunks"
    using assms c by (simp add: pos_imp_zdiv_pos_iff)
  ultimately show ?thesis by (simp add: window_width_def chunks_def Let_def)
qed

lemma windows_from_cover:
  assumes "0 < window" "0 \<le> offset" "offset \<le> count"
  shows "concat (map (\<lambda>(k, n). [k..k + n - 1]) (windows_from window count offset)) = [offset..count - 1] \<and>
    list_all (\<lambda>(k, n). offset \<le> k \<and> 0 < n \<and> n \<le> window \<and> k + n \<le> count) (windows_from window count offset)"
  using assms
proof (induction window count offset rule: windows_from.induct)
  case (1 window count offset)
  show ?case
  proof (cases "offset < count")
    case False
    then show ?thesis using 1(4) by (subst (1 2) windows_from.simps) simp
  next
    case True
    then have w: "windows_from window count offset =
        (offset, min window (count - offset)) # windows_from window count (offset + window)"
      using 1(2) by (subst windows_from.simps) simp
    show ?thesis
    proof (cases "offset + window \<le> count")
      case True
      have "[offset..offset + window - 1] @ [offset + window..count - 1] = [offset..count - 1]"
        using True 1(2) upto_split1 [of offset "offset + window" "count - 1"]
        by (cases "offset + window = count") simp_all
      then show ?thesis using w True 1 by (auto simp: list_all_iff)
    next
      case False
      then have "windows_from window count (offset + window) = []" by (subst windows_from.simps) simp
      then show ?thesis using w False True 1(2,3) by simp
    qed
  qed
qed

text \<open>The windows cover the recording exactly once, in order, each within the recogniser's context.\<close>

lemma windows_cover:
  assumes "0 < count"
  shows "concat (map (\<lambda>(k, n). [k..k + n - 1]) (windows count)) = [0..count - 1] \<and>
    list_all (\<lambda>(k, n). 0 \<le> k \<and> 0 < n \<and> n \<le> CHUNK_SAMPLES \<and> k + n \<le> count) (windows count)"
  using windows_from_cover [of "window_width count" 0 count] window_width_bounds [OF assms] assms
  by (force simp: windows_def list_all_iff)

section \<open>Transcription\<close>

text \<open>What one window brings: whether a stream could be made, the recognised text (None when there is no
  result), and the command byte the application has put into the header by then.\<close>

record window_answer =
  r_stream :: bool
  r_text :: "cstring option"
  r_command :: byte

text \<open>\<open>GString\<close> operations: a space between segments.\<close>

definition append_segment :: "cstring \<Rightarrow> cstring \<Rightarrow> cstring" where
  "append_segment sofar t = sofar @ (if sofar \<noteq> [] then [32] else []) @ t"

definition set_status :: "byte list \<Rightarrow> byte \<Rightarrow> (nat \<times> byte list) option" where
  "set_status mem c = wn_ipc_write (Some mem) [c] 0"

text \<open>\<open>g_utf8_validate\<close> accepts exactly well-formed UTF-8, which \<open>proxy_scan\<close> decides. The result is the
  exit code, the memory and its states after every write, in order.\<close>

fun transcribe_loop ::
  "(int \<Rightarrow> window_answer) \<Rightarrow> (int \<times> int) list \<Rightarrow> cstring \<Rightarrow> byte list \<Rightarrow> int \<times> byte list \<times> byte list list" where
  "transcribe_loop ans [] sofar mem =
     (case set_status mem 84 of
        None \<Rightarrow> (RECOGNIZE_ERROR, mem, [])
      | Some (_, mem) \<Rightarrow> (0, mem, [mem]))"
| "transcribe_loop ans ((offset, n) # ws) sofar mem =
     (let a = ans offset in
      if \<not> r_stream a then (RECOGNIZE_ERROR, mem, [])
      else
        (case r_text a of
           None \<Rightarrow> (RECOGNIZE_ERROR, mem, [])
         | Some t \<Rightarrow>
             if \<not> (proxy_scan t \<and> length sofar + length t + 1 \<le> TEXT_LIMIT) then (RECOGNIZE_ERROR, mem, [])
             else
               let sofar' = append_segment sofar t;
                   update = [80, word_of_nat (length sofar'), word_of_nat (length sofar' div 256)] :: byte list;
                   mem = mem[3 := r_command a]
               in (case wn_ipc_write (Some mem) (drop (length sofar) sofar') (HEADER_BYTES + length sofar) of
                     None \<Rightarrow> (RECOGNIZE_ERROR, mem, [])
                   | Some (_, mem1) \<Rightarrow>
                       (case wn_ipc_write (Some mem1) update 0 of
                          None \<Rightarrow> (RECOGNIZE_ERROR, mem1, [mem1])
                        | Some (_, mem2) \<Rightarrow>
                            let (code, mem', ms) = transcribe_loop ans ws sofar' mem2
                            in (code, mem', mem1 # mem2 # ms)))))"

definition transcribe :: "(int \<Rightarrow> window_answer) \<Rightarrow> int \<Rightarrow> byte list \<Rightarrow> int \<times> byte list \<times> byte list list" where
  "transcribe ans count mem =
     (if count \<le> 0 \<or> count > MAX_AUDIO_SAMPLES then (RECOGNIZE_ERROR, mem, [])
      else transcribe_loop ans (windows count) [] mem)"

text \<open>What the application reads: the committed part of the text, once the status says there is one.\<close>

definition committed :: "byte list \<Rightarrow> cstring option" where
  "committed mem =
     (if mem ! 0 = 80 \<or> mem ! 0 = 84
      then Some (take (unat (mem ! 1) + 256 * unat (mem ! 2)) (drop HEADER_BYTES mem)) else None)"

text \<open>The transcript of some windows.\<close>

definition transcript_from :: "(int \<Rightarrow> window_answer) \<Rightarrow> cstring \<Rightarrow> (int \<times> int) list \<Rightarrow> cstring" where
  "transcript_from ans sofar ws = fold (\<lambda>w sofar. append_segment sofar (the (r_text (ans (fst w))))) ws sofar"

definition transcript :: "(int \<Rightarrow> window_answer) \<Rightarrow> (int \<times> int) list \<Rightarrow> cstring" where
  "transcript ans ws = transcript_from ans [] ws"

text \<open>The memory holds the committed text.\<close>

definition holds_text :: "cstring \<Rightarrow> byte list \<Rightarrow> bool" where
  "holds_text sofar mem \<longleftrightarrow>
     length mem = HEADER_BYTES + TEXT_LIMIT \<and> length sofar \<le> TEXT_LIMIT \<and>
     take (length sofar) (drop HEADER_BYTES mem) = sofar \<and>
     (if mem ! 0 = 80 \<or> mem ! 0 = 84 then unat (mem ! 1) + 256 * unat (mem ! 2) = length sofar else sofar = [])"

lemma holds_committed: "holds_text sofar mem \<Longrightarrow> committed mem \<in> {None, Some sofar}"
  by (auto simp: holds_text_def committed_def split: if_splits)

lemma holds_command: "holds_text sofar mem \<Longrightarrow> holds_text sofar (mem[3 := c])"
  by (auto simp: holds_text_def stt_consts drop_update_cancel split: if_splits)

text \<open>The uncommitted bytes are written first.\<close>

lemma segment_write:
  assumes h: "holds_text sofar mem" and fits: "length sofar + length t + 1 \<le> TEXT_LIMIT"
    and w: "wn_ipc_write (Some mem) (drop (length sofar) (append_segment sofar t)) (HEADER_BYTES + length sofar) = Some (k, mem1)"
  shows "holds_text sofar mem1 \<and> mem1 ! 0 = mem ! 0 \<and>
    take (length (append_segment sofar t)) (drop HEADER_BYTES mem1) = append_segment sofar t"
proof -
  define new where "new = drop (length sofar) (append_segment sofar t)"
  have split: "append_segment sofar t = sofar @ new" by (simp add: new_def append_segment_def)
  have m: "mem1 = blit (HEADER_BYTES + length sofar) new mem"
    using write_is_blit [OF w] by (simp add: new_def)
  have len: "HEADER_BYTES + length sofar + length new \<le> length mem"
    using h fits by (auto simp: holds_text_def new_def append_segment_def)
  obtain a b c where mem: "mem = a @ b @ c" "length a = HEADER_BYTES" "length b = length sofar"
    using split_at [of HEADER_BYTES "length sofar" mem] len by auto
  have "take (length b) (drop (length a) (a @ b @ c)) = b" by simp
  then have "take (length sofar) (drop HEADER_BYTES mem) = b" unfolding mem .
  then have b: "b = sofar" using h by (simp add: holds_text_def)
  have "length new \<le> length c" using len mem by simp
  then obtain x y where c: "c = x @ y" "length x = length new"
    by (metis append_take_drop_id length_take min.absorb2)
  have mem1: "mem1 = a @ sofar @ new @ y"
    using blit_middle [of "a @ sofar" "HEADER_BYTES + length sofar" x new y] mem b c m by simp
  have a4: "length a = 4" using mem by (simp add: stt_consts)
  then have hd: "mem1 ! k = mem ! k" if "k < 4" for k using that by (simp add: mem1 mem(1) nth_append)
  have rest: "drop HEADER_BYTES mem1 = sofar @ new @ y" using a4 by (simp add: mem1 stt_consts)
  moreover have "length mem1 = length mem" using m len by simp
  moreover have "drop HEADER_BYTES mem = sofar @ x @ y" using a4 by (simp add: mem(1) b c stt_consts)
  ultimately show ?thesis
    using h hd [of 0] hd [of 1] hd [of 2] unfolding holds_text_def split by (simp split: if_splits)
qed

lemma length_split: "n < 65536 \<Longrightarrow> unat (word_of_nat n :: byte) + 256 * unat (word_of_nat (n div 256) :: byte) = n"
  by (simp add: unsigned_of_nat take_bit_eq_mod)

text \<open>Then one write of the header commits them.\<close>

lemma header_commit:
  assumes h: "holds_text sofar mem" "take (length sofar') (drop HEADER_BYTES mem) = sofar'" "length sofar' \<le> TEXT_LIMIT"
    and w: "wn_ipc_write (Some mem) [80, word_of_nat (length sofar'), word_of_nat (length sofar' div 256)] 0 = Some (k, mem2)"
  shows "holds_text sofar' mem2 \<and> committed mem2 = Some sofar'"
proof -
  have l: "4 \<le> length mem" using h(1) by (simp add: holds_text_def stt_consts)
  have "mem2 = [80, word_of_nat (length sofar'), word_of_nat (length sofar' div 256)] @ drop 3 mem"
    using write_is_blit [OF w] by (simp add: blit_def numeral_3_eq_3)
  moreover have "drop 1 (drop 3 mem) = drop 4 mem" by simp
  ultimately show ?thesis
    using h l length_split [of "length sofar'"]
    by (auto simp: holds_text_def committed_def stt_consts)
qed

lemma status_commit:
  assumes h: "holds_text sofar mem" "mem ! 0 = 80" and w: "set_status mem 84 = Some (k, mem')"
  shows "holds_text sofar mem' \<and> committed mem' = Some sofar"
proof -
  have l: "4 \<le> length mem" using h(1) by (simp add: holds_text_def stt_consts)
  have m: "mem' = 84 # drop 1 mem" using write_is_blit [of mem "[84]" 0] w by (simp add: set_status_def blit_def)
  obtain x y where mem: "mem = x # y" using l by (cases mem) auto
  show ?thesis using h by (auto simp: holds_text_def committed_def m mem stt_consts)
qed

text \<open>A reader sees whole segments only.\<close>

definition whole_segments :: "(int \<Rightarrow> window_answer) \<Rightarrow> cstring \<Rightarrow> (int \<times> int) list \<Rightarrow> byte list \<Rightarrow> bool" where
  "whole_segments ans sofar ws m \<longleftrightarrow>
     (\<exists>us vs. ws = us @ vs \<and> committed m \<in> {None, Some (transcript_from ans sofar us)})"

lemma whole_segments_now: "holds_text sofar m \<Longrightarrow> whole_segments ans sofar ws m"
  using holds_committed [of sofar m] unfolding whole_segments_def
  by (intro exI [of _ "[]"] exI [of _ ws]) (simp add: transcript_from_def)

lemma whole_segments_later:
  assumes "r_text (ans offset) = Some t" "whole_segments ans (append_segment sofar t) ws m"
  shows "whole_segments ans sofar ((offset, n) # ws) m"
proof -
  obtain us vs where "ws = us @ vs" "committed m \<in> {None, Some (transcript_from ans (append_segment sofar t) us)}"
    using assms(2) by (auto simp: whole_segments_def)
  then show ?thesis using assms(1) unfolding whole_segments_def
    by (intro exI [of _ "(offset, n) # us"] exI [of _ vs]) (simp add: transcript_from_def)
qed

lemma write_succeeds: "offset + length bs \<le> length mem \<Longrightarrow> \<exists>k mem'. wn_ipc_write (Some mem) bs offset = Some (k, mem')"
  by (auto simp: wn_ipc_write_def Let_def)

lemma proxy_scan_append_segment:
  assumes "proxy_scan sofar" "proxy_scan t"
  shows "proxy_scan (append_segment sofar t)"
proof -
  obtain cs ds where "list_all scalar_value cs" "sofar = utf8 cs" "list_all scalar_value ds" "t = utf8 ds"
    using assms proxy_scan_sound by blast
  moreover have "utf8 [32] = [32]" by (simp add: utf8_encode_def utf8_units_def)
  ultimately have "append_segment sofar t = utf8 (cs @ (if sofar \<noteq> [] then [32] else []) @ ds)"
    "list_all scalar_value (cs @ (if sofar \<noteq> [] then [32] else []) @ ds)"
    by (auto simp: append_segment_def utf8_def scalar_value_def)
  then show ?thesis using proxy_scan_complete by metis
qed

text \<open>A valid segment is appended and committed: both writes fit.\<close>

lemma segment_step:
  assumes h: "holds_text sofar mem" and a: "r_stream (ans offset)" "r_text (ans offset) = Some t" "proxy_scan t"
    and fits: "length sofar + length t + 1 \<le> TEXT_LIMIT"
  obtains mem1 mem2 where "holds_text sofar mem1" "holds_text (append_segment sofar t) mem2"
    "committed mem2 = Some (append_segment sofar t)" "mem2 ! 0 = 80"
    "transcribe_loop ans ((offset, n) # ws) sofar mem =
       (let (code, mem', ms) = transcribe_loop ans ws (append_segment sofar t) mem2 in (code, mem', mem1 # mem2 # ms))"
proof -
  let ?a = "ans offset"
  let ?new = "append_segment sofar t" and ?m = "mem[3 := r_command ?a]"
  let ?update = "[80, word_of_nat (length ?new), word_of_nat (length ?new div 256)] :: byte list"
  have hm: "holds_text sofar ?m" using h by (rule holds_command)
  have new: "length ?new \<le> TEXT_LIMIT" using fits by (simp add: append_segment_def)
  have len: "length ?m = HEADER_BYTES + TEXT_LIMIT" using hm by (simp add: holds_text_def)
  obtain k mem1 where w1: "wn_ipc_write (Some ?m) (drop (length sofar) ?new) (HEADER_BYTES + length sofar) = Some (k, mem1)"
    using write_succeeds [of "HEADER_BYTES + length sofar" "drop (length sofar) ?new" ?m] new len fits
    by (auto simp: append_segment_def)
  note s1 = segment_write [OF hm fits w1]
  then have "length mem1 = HEADER_BYTES + TEXT_LIMIT" by (simp add: holds_text_def)
  then obtain k2 mem2 where w2: "wn_ipc_write (Some mem1) ?update 0 = Some (k2, mem2)"
    using write_succeeds [of 0 ?update mem1] by (auto simp: stt_consts)
  note s2 = header_commit [OF _ _ new w2, of sofar]
  have h2: "holds_text ?new mem2" "committed mem2 = Some ?new" using s1 s2 by blast+
  have "mem2 ! 0 = 80" using write_is_blit [OF w2] by (simp add: blit_def)
  moreover have "transcribe_loop ans ((offset, n) # ws) sofar mem =
       (let (code, mem', ms) = transcribe_loop ans ws ?new mem2 in (code, mem', mem1 # mem2 # ms))"
    using a fits w1 w2 by (simp add: Let_def)
  ultimately show thesis using s1 h2 by (intro that [of mem1 mem2]) auto
qed

lemma transcribe_step:
  assumes run: "transcribe_loop ans ((offset, n) # ws) sofar mem = (code, mem', ms)"
    and h: "holds_text sofar mem"
  obtains (failed) "code = RECOGNIZE_ERROR" "list_all (holds_text sofar) ms"
  | (continued) t mem1 mem2 ms' where "r_text (ans offset) = Some t" "proxy_scan t" "holds_text sofar mem1"
      "holds_text (append_segment sofar t) mem2" "committed mem2 = Some (append_segment sofar t)"
      "transcribe_loop ans ws (append_segment sofar t) mem2 = (code, mem', ms')" "ms = mem1 # mem2 # ms'" "mem2 ! 0 = 80"
proof -
  consider "code = RECOGNIZE_ERROR" "ms = []"
    | t where "r_stream (ans offset)" "r_text (ans offset) = Some t" "proxy_scan t" "length sofar + length t + 1 \<le> TEXT_LIMIT"
    using run by (auto simp: Let_def split: if_splits option.splits)
  then show thesis
  proof cases
    case 1
    then show ?thesis by (intro failed) simp_all
  next
    case (2 t)
    obtain mem1 mem2 where m: "holds_text sofar mem1" "holds_text (append_segment sofar t) mem2"
      "committed mem2 = Some (append_segment sofar t)" "mem2 ! 0 = 80"
      "transcribe_loop ans ((offset, n) # ws) sofar mem =
         (let (code, mem', ms) = transcribe_loop ans ws (append_segment sofar t) mem2 in (code, mem', mem1 # mem2 # ms))"
      by (rule segment_step [of sofar mem ans offset t, OF h 2])
    obtain ms' where "transcribe_loop ans ws (append_segment sofar t) mem2 = (code, mem', ms')" "ms = mem1 # mem2 # ms'"
      using run unfolding m(5) by (auto simp: Let_def split: prod.splits)
    then show ?thesis using m 2 by (intro continued [of t mem1 mem2 ms']) auto
  qed
qed

text \<open>Recognition cannot fail for another reason than a window without a valid text that fits.\<close>

fun windows_fit :: "(int \<Rightarrow> window_answer) \<Rightarrow> cstring \<Rightarrow> (int \<times> int) list \<Rightarrow> bool" where
  "windows_fit ans sofar [] = True"
| "windows_fit ans sofar (w # ws) =
     (case r_text (ans (fst w)) of
        None \<Rightarrow> False
      | Some t \<Rightarrow> r_stream (ans (fst w)) \<and> proxy_scan t \<and> length sofar + length t + 1 \<le> TEXT_LIMIT \<and>
          windows_fit ans (append_segment sofar t) ws)"

lemma transcribe_loop_succeeds:
  "holds_text sofar mem \<Longrightarrow> windows_fit ans sofar ws \<Longrightarrow> fst (transcribe_loop ans ws sofar mem) = 0"
proof (induction ws arbitrary: sofar mem)
  case Nil
  then show ?case using write_succeeds [of 0 "[84]" mem]
    by (auto simp: set_status_def holds_text_def stt_consts)
next
  case (Cons w ws)
  obtain offset n where w: "w = (offset, n)" by fastforce
  then obtain t where t: "r_stream (ans offset)" "r_text (ans offset) = Some t" "proxy_scan t"
    "length sofar + length t + 1 \<le> TEXT_LIMIT" and rest: "windows_fit ans (append_segment sofar t) ws"
    using Cons.prems(2) by (auto split: option.splits)
  obtain mem1 mem2 where m: "holds_text (append_segment sofar t) mem2"
    "transcribe_loop ans ((offset, n) # ws) sofar mem =
       (let (code, mem', ms) = transcribe_loop ans ws (append_segment sofar t) mem2 in (code, mem', mem1 # mem2 # ms))"
    by (rule segment_step [of sofar mem ans offset t, OF Cons.prems(1) t])
  show ?case using Cons.IH [OF m(1) rest] unfolding w m(2) by (simp add: Let_def case_prod_beta)
qed

lemma transcribe_loop_published:
  assumes "transcribe_loop ans ws sofar mem = (code, mem', ms)" "holds_text sofar mem" "ws = [] \<longrightarrow> mem ! 0 = 80"
    and "proxy_scan sofar"
  shows "list_all (whole_segments ans sofar ws) ms \<and>
    (code = 0 \<and> committed mem' = Some (transcript_from ans sofar ws) \<and> proxy_scan (transcript_from ans sofar ws) \<and>
       length (transcript_from ans sofar ws) \<le> TEXT_LIMIT \<and> mem' ! 0 = 84 \<or>
     code = RECOGNIZE_ERROR)"
  using assms
proof (induction ws arbitrary: sofar mem ms)
  case Nil
  obtain k m where s: "set_status mem 84 = Some (k, m)"
    using Nil(2) write_succeeds [of 0 "[84]" mem] by (auto simp: set_status_def holds_text_def stt_consts)
  note c = status_commit [OF Nil(2) _ s]
  have "m ! 0 = 84" using write_is_blit [of mem "[84]" 0] s by (simp add: set_status_def blit_def)
  moreover have "code = 0" "mem' = m" "ms = [m]" using Nil(1) s by auto
  ultimately show ?case using c Nil whole_segments_now [of sofar m]
    by (auto simp: transcript_from_def holds_text_def)
next
  case (Cons w ws)
  obtain offset n where w: "w = (offset, n)" by fastforce
  show ?case using Cons(2) [unfolded w] Cons(3)
  proof (cases rule: transcribe_step)
    case failed
    then show ?thesis by (auto simp: list_all_iff intro: whole_segments_now)
  next
    case (continued t mem1 mem2 ms')
    have new: "proxy_scan (append_segment sofar t)"
      using Cons.prems(4) continued(2) by (rule proxy_scan_append_segment)
    have step: "transcript_from ans sofar (w # ws) = transcript_from ans (append_segment sofar t) ws"
      using continued(1) by (simp add: transcript_from_def w)
    have rest: "list_all (whole_segments ans (append_segment sofar t) ws) ms' \<and>
      (code = 0 \<and> committed mem' = Some (transcript_from ans (append_segment sofar t) ws) \<and>
         proxy_scan (transcript_from ans (append_segment sofar t) ws) \<and>
         length (transcript_from ans (append_segment sofar t) ws) \<le> TEXT_LIMIT \<and> mem' ! 0 = 84 \<or>
       code = RECOGNIZE_ERROR)"
      by (rule Cons.IH [OF continued(6,4) _ new]) (simp add: continued(8))
    have "list_all (whole_segments ans sofar (w # ws)) ms'"
      using rest whole_segments_later [of ans offset t, OF continued(1)] by (auto simp: list_all_iff w)
    moreover have "whole_segments ans sofar (w # ws) mem2"
      using whole_segments_later [of ans offset t, OF continued(1)] whole_segments_now [OF continued(4)] by (simp add: w)
    ultimately show ?thesis
      using rest whole_segments_now [OF continued(3)] by (simp add: step continued(7))
  qed
qed

section \<open>Capture\<close>

text \<open>One pass of the recording loop: the bytes the microphone delivered (negative for an error), the
  command byte, if it could be read, and the milliseconds since the start. SDL delivers at most the number
  of bytes asked for. Samples are four bytes.\<close>

record mic_answer =
  c_got :: int
  c_command :: "byte option"
  c_elapsed :: nat

text \<open>The number of samples recorded; None when the loop fails or the answers end.\<close>

fun record_loop :: "mic_answer list \<Rightarrow> int \<Rightarrow> int option" where
  "record_loop as count =
     (if count \<ge> MAX_SAMPLES then Some count
      else
        (case as of
           [] \<Rightarrow> None
         | a # as \<Rightarrow>
             let got = min (c_got a) ((MAX_SAMPLES - count) * 4) in
             if got < 0 \<or> c_command a = None then None
             else
               let count = count + got div 4
               in if c_command a = Some 83 \<or> 30000 \<le> c_elapsed a then Some count else record_loop as count))"

declare record_loop.simps [simp del]

text \<open>The sample buffer is never overrun.\<close>

lemma record_loop_bounded:
  "0 \<le> count \<Longrightarrow> count \<le> MAX_SAMPLES \<Longrightarrow> record_loop as count = Some n \<Longrightarrow> 0 \<le> n \<and> n \<le> MAX_SAMPLES"
proof (induction as count rule: record_loop.induct)
  case (1 as count)
  show ?case
  proof (cases "count \<ge> MAX_SAMPLES")
    case True
    then show ?thesis using 1 by (simp add: record_loop.simps)
  next
    case False
    then obtain a as' where as: "as = a # as'"
      using 1(4) by (cases as) (simp_all add: record_loop.simps)
    let ?got = "min (c_got a) ((MAX_SAMPLES - count) * 4)"
    have ok: "0 \<le> ?got" "c_command a \<noteq> None"
      using 1(4) False as by (auto simp: record_loop.simps [of "a # as'"] Let_def split: if_splits)
    have "?got div 4 \<le> ((MAX_SAMPLES - count) * 4) div 4" by (rule zdiv_mono1) simp_all
    moreover have "0 \<le> ?got div 4" using ok by (simp add: pos_imp_zdiv_nonneg_iff)
    ultimately have b: "0 \<le> count + ?got div 4" "count + ?got div 4 \<le> MAX_SAMPLES" using 1(2) ok by simp_all
    show ?thesis
    proof (cases "c_command a = Some 83 \<or> 30000 \<le> c_elapsed a")
      case True
      then show ?thesis using 1(4) False ok b as
        by (auto simp: record_loop.simps [of "a # as'"] Let_def split: if_splits)
    next
      case stop: False
      then have "record_loop as' (count + ?got div 4) = Some n"
        using 1(4) False ok as by (auto simp: record_loop.simps [of "a # as'"] Let_def split: if_splits)
      then show ?thesis using 1(1) [OF False as refl _ refl stop] ok b by fastforce
    qed
  qed
qed

section \<open>\<open>main\<close>\<close>

record stt_env =
  t_guard :: bool
  t_silence :: bool
  t_ipc :: "byte list option"
  t_input :: bool
  t_curl :: bool
  t_mkdir :: bool
  t_lock :: bool
  t_ensure :: "ensure_answers list"
  t_load :: bool
  t_decode :: "int \<times> int"
  t_sdl :: bool
  t_mic :: "mic_answer list"
  t_windows :: "int \<Rightarrow> window_answer"

text \<open>The arguments after the program's name, and what \<open>strtoull\<close> makes of the last.\<close>

record stt_args =
  x_cache :: cstring
  x_mode :: cstring
  x_model :: cstring
  x_audio_size :: nat

definition stt_mode_ok :: "cstring \<Rightarrow> bool" where
  "stt_mode_ok mode \<longleftrightarrow> mode = ascii ''dictate'' \<or> mode = ascii ''audio'' \<or> mode = ascii ''download''"

text \<open>A status write over an optional mapping.\<close>

definition mark :: "byte \<Rightarrow> byte list \<Rightarrow> byte list option" where
  "mark c mem = map_option snd (set_status mem c)"

text \<open>After the downloads: the exit code and the shared memory.\<close>

definition stt_recognize :: "stt_env \<Rightarrow> stt_args \<Rightarrow> byte list \<Rightarrow> int \<times> byte list" where
  "stt_recognize env args mem =
     (case mark 71 mem of
        None \<Rightarrow> (RECOGNIZE_ERROR, mem)
      | Some mem \<Rightarrow>
          if \<not> t_load env then (RECOGNIZE_ERROR, mem)
          else if x_mode args = ascii ''audio'' then
            (case mark 67 mem of
               None \<Rightarrow> (AUDIO_ERROR, mem)
             | Some mem \<Rightarrow>
                 let (code, count) = t_decode env
                 in if code \<noteq> 0 then (code, mem)
                    else let (code, mem, ms) = transcribe (t_windows env) count mem in (code, mem))
          else if \<not> t_sdl env then (AUDIO_ERROR, mem)
          else
            (case mark 82 mem of
               None \<Rightarrow> (AUDIO_ERROR, mem)
             | Some mem \<Rightarrow>
                 (case record_loop (t_mic env) 0 of
                    None \<Rightarrow> (AUDIO_ERROR, mem)
                  | Some count \<Rightarrow>
                      (case mark 67 mem of
                         None \<Rightarrow> (RECOGNIZE_ERROR, mem)
                       | Some mem \<Rightarrow>
                           let (code, mem, ms) = transcribe (t_windows env) count mem in (code, mem)))))"

text \<open>The exit code, the shared memory (None when it was never mapped), the cache afterwards and whether
  the helper got as far as loading the model. The progress reports of the downloads are header writes.\<close>

definition stt_main ::
  "(byte list \<Rightarrow> byte list) \<Rightarrow> nat \<Rightarrow> stt_env \<Rightarrow> stt_args \<Rightarrow> (cstring \<Rightarrow> byte list option) \<Rightarrow>
   int \<times> byte list option \<times> (cstring \<Rightarrow> byte list option) \<times> bool" where
  "stt_main sha256 argc env args fs =
     (if argc \<noteq> 8 \<or> select_model (x_model args) = None \<or> \<not> stt_mode_ok (x_mode args) \<or> \<not> t_guard env \<or> \<not> t_silence env
      then (RECOGNIZE_ERROR, None, fs, False)
      else
        let files = m_files (the (select_model (x_model args))) in
        case t_ipc env of
          None \<Rightarrow> (RECOGNIZE_ERROR, None, fs, False)
        | Some mem \<Rightarrow>
            if x_mode args = ascii ''audio'' \<and>
               (x_audio_size args = 0 \<or> x_audio_size args > 100 * 1024 * 1024 \<or> \<not> t_input env)
            then (RECOGNIZE_ERROR, Some mem, fs, False)
            else if \<not> t_curl env \<or> \<not> t_mkdir env \<or> \<not> t_lock env then (DOWNLOAD_ERROR, Some mem, fs, False)
            else
              let (ok, fs, updates) = ensure_models sha256 (t_ensure env) (x_cache args) 0 files fs;
                  mem = fold (blit 0) updates mem
              in if \<not> ok then (DOWNLOAD_ERROR, Some mem, fs, False)
                 else if x_mode args = ascii ''download'' then
                   (case mark 84 mem of
                      None \<Rightarrow> (DOWNLOAD_ERROR, Some mem, fs, False)
                    | Some mem \<Rightarrow> (0, Some mem, fs, False))
                 else
                   let (code, mem) = stt_recognize env args mem in (code, Some mem, fs, True))"

text \<open>A model is loaded, and the helper ends well, only with every pinned file of the selected model in the
  cache and verified.\<close>

lemma stt_models_verified:
  assumes "stt_main sha256 argc env args fs = (code, mem, fs', loaded)"
  shows "\<not> loaded \<and> code \<noteq> 0 \<or>
    (\<exists>m. select_model (x_model args) = Some m \<and> list_all (cached sha256 (x_cache args) fs') (m_files m))"
proof (cases "loaded \<or> code = 0")
  case False
  then show ?thesis by simp
next
  case True
  then obtain m updates where m: "select_model (x_model args) = Some m"
    and run: "ensure_models sha256 (t_ensure env) (x_cache args) 0 (m_files m) fs = (True, fs', updates)"
    using assms
    by (auto simp: stt_main_def Let_def stt_consts split: if_splits option.splits prod.splits)
  have "manifest_ok (m_files m)" using select_model_files [OF m] by simp
  from ensure_models_verified [OF this run] show ?thesis using m by blast
qed

section \<open>What the application reads\<close>

text \<open>
  C33. The application never reads a torn or partial transcript: after every write to the shared memory the
  committed text is the transcript of the first windows of the recording, whole segments only, and a
  successful transcription ends with the status set and the complete transcript committed, which is
  well-formed UTF-8 within the buffer.
\<close>

theorem transcribe_published:
  assumes mem: "length mem = HEADER_BYTES + TEXT_LIMIT" "committed mem = None"
    and run: "transcribe ans count mem = (code, mem', ms)"
  shows "list_all (\<lambda>m. \<exists>us vs. windows count = us @ vs \<and> (committed m = None \<or> committed m = Some (transcript ans us))) ms \<and>
    (code = RECOGNIZE_ERROR \<or>
     code = 0 \<and> committed mem' = Some (transcript ans (windows count)) \<and> mem' ! 0 = 84 \<and>
       proxy_scan (transcript ans (windows count)) \<and> length (transcript ans (windows count)) \<le> TEXT_LIMIT)"
proof (cases "0 < count \<and> count \<le> MAX_AUDIO_SAMPLES")
  case False
  then show ?thesis using run by (auto simp: transcribe_def)
next
  case True
  then have loop: "transcribe_loop ans (windows count) [] mem = (code, mem', ms)"
    using run by (simp add: transcribe_def)
  have h: "holds_text [] mem" using mem by (auto simp: holds_text_def committed_def split: if_splits)
  have "windows count \<noteq> []" using windows_cover [of count] True by auto
  then show ?thesis using transcribe_loop_published [OF loop h]
    by (auto simp: list_all_iff whole_segments_def transcript_def)
qed


definition sample_windows :: "int \<Rightarrow> window_answer" where
  "sample_windows offset = \<lparr>r_stream = True, r_text = Some (if offset = 0 then ascii ''hi'' else ascii ''you''), r_command = 0\<rparr>"

lemma sample_windows_two: "windows 464002 = [(0, 232001), (232001, 232001)]"
  by (simp add: windows_def window_width_def windows_from.simps stt_consts Let_def)

lemma transcribe_published_witness:
  "\<exists>mem' ms. transcribe sample_windows 464002 (replicate 16388 0) = (0, mem', ms) \<and>
     committed mem' = Some (ascii ''hi you'') \<and> mem' ! 0 = 84"
proof -
  let ?mem = "replicate 16388 (0 :: byte)"
  have mem: "length ?mem = HEADER_BYTES + TEXT_LIMIT" "committed ?mem = None"
    by (simp_all add: stt_consts committed_def)
  obtain code mem' ms where run: "transcribe sample_windows 464002 ?mem = (code, mem', ms)"
    by (cases rule: prod_cases3)
  have tr: "transcript sample_windows (windows 464002) = ascii ''hi you''"
    by (simp add: sample_windows_two transcript_def transcript_from_def append_segment_def sample_windows_def ascii_def)
  have "holds_text [] ?mem" by (simp add: holds_text_def stt_consts)
  moreover have "windows_fit sample_windows [] (windows 464002)"
    by (simp add: sample_windows_two sample_windows_def append_segment_def ascii_def stt_consts)
  ultimately have "code = 0"
    using transcribe_loop_succeeds run by (fastforce simp: transcribe_def stt_consts)
  then show ?thesis using transcribe_published [OF mem run] run tr by (auto simp: stt_consts)
qed

end
