(* ===== verification/Speech_Decode.thy ===== *)
theory Speech_Decode
  imports Stt
begin

text \<open>
  Decoding an attached audio file for recognition (\<open>app/speech_decode.h\<close>): the in-memory input FFmpeg reads
  from, and the decode and resample loop into a fixed sample buffer. FFmpeg's answers are parameters; the
  buffer holds \<open>MAX_AUDIO_SAMPLES + 1\<close> samples, and the resampler is told how many it may still produce.
\<close>

section \<open>The input\<close>

record audio_input =
  a_data :: "byte list"
  a_position :: int

definition audio_size :: "audio_input \<Rightarrow> int" where
  "audio_size input = int (length (a_data input))"

text \<open>None is \<open>AVERROR_EOF\<close>.\<close>

definition audio_read :: "int \<Rightarrow> audio_input \<Rightarrow> byte list option \<times> audio_input" where
  "audio_read n input =
     (let count = min n (audio_size input - a_position input) in
      if count \<le> 0 then (None, input)
      else (Some (take (nat count) (drop (nat (a_position input)) (a_data input))),
            input\<lparr>a_position := a_position input + count\<rparr>))"

datatype whence = SEEK_SET | SEEK_CUR | SEEK_END | SEEK_OTHER

text \<open>\<open>AVSEEK_SIZE\<close> is the query; None is \<open>EINVAL\<close>.\<close>

definition audio_seek :: "int \<Rightarrow> bool \<Rightarrow> whence \<Rightarrow> audio_input \<Rightarrow> int option \<times> audio_input" where
  "audio_seek offset query whence input =
     (if query then (Some (audio_size input), input)
      else
        let base = (case whence of SEEK_SET \<Rightarrow> 0 | SEEK_CUR \<Rightarrow> a_position input | SEEK_END \<Rightarrow> audio_size input
                    | SEEK_OTHER \<Rightarrow> - 1)
        in if base < 0 \<or> offset < - base \<or> offset > audio_size input - base then (None, input)
           else (Some (base + offset), input\<lparr>a_position := base + offset\<rparr>))"

definition input_ok :: "audio_input \<Rightarrow> bool" where
  "input_ok input \<longleftrightarrow> 0 \<le> a_position input \<and> a_position input \<le> audio_size input"

text \<open>FFmpeg can neither read past the mapping nor place itself outside it.\<close>

lemma audio_read_ok:
  assumes "input_ok input" "audio_read n input = (r, input')"
  shows "input_ok input'" "a_data input' = a_data input"
    and "r = Some bs \<Longrightarrow> bs = take (length bs) (drop (nat (a_position input)) (a_data input)) \<and> bs \<noteq> [] \<and>
      int (length bs) \<le> n \<and> a_position input' = a_position input + int (length bs)"
  using assms by (auto simp: audio_read_def input_ok_def audio_size_def Let_def min_def split: if_splits)

lemma audio_seek_ok:
  assumes "input_ok input" "audio_seek offset query whence input = (r, input')"
  shows "input_ok input'" "a_data input' = a_data input"
  using assms by (auto simp: audio_seek_def input_ok_def audio_size_def Let_def split: if_splits whence.splits)

section \<open>Decoding\<close>

definition AUDIO_ROOM :: int where "AUDIO_ROOM = MAX_AUDIO_SAMPLES + 1"

text \<open>What \<open>avcodec_receive_frame\<close> answers, and what \<open>swr_convert\<close> then produces (negative for an error).\<close>

datatype frame_answer =
    Frame_Pending
  | Frame_Error
  | Frame int

text \<open>The resampler fills at most the room it is given.\<close>

definition swr_convert :: "int \<Rightarrow> int \<Rightarrow> int" where
  "swr_convert produced room = min produced room"

text \<open>\<open>receive_audio\<close>: 0 and the new count, or an error code. Running out of answers is
  \<open>Frame_Pending\<close>. The second result is the number of frames consumed.\<close>

fun receive_audio :: "frame_answer list \<Rightarrow> int \<Rightarrow> int \<times> int \<times> frame_answer list" where
  "receive_audio [] count = (0, count, [])"
| "receive_audio (Frame_Pending # fs) count = (0, count, fs)"
| "receive_audio (Frame_Error # fs) count = (AUDIO_ERROR, count, fs)"
| "receive_audio (Frame produced # fs) count =
     (let produced = swr_convert produced (AUDIO_ROOM - count) in
      if produced < 0 then (AUDIO_ERROR, count, fs)
      else if count + produced > MAX_AUDIO_SAMPLES then (LENGTH_ERROR, count + produced, fs)
      else receive_audio fs (count + produced))"

text \<open>A packet: the end of the file, an error or a timeout, one of another stream, or one whose decoding
  is accepted or refused.\<close>

datatype packet_answer =
    Packet_Eof
  | Packet_Error
  | Packet_Timeout
  | Packet_Other
  | Packet_Refused
  | Packet_Sent

text \<open>The read loop; the answers end like an error.\<close>

fun decode_packets :: "packet_answer list \<Rightarrow> frame_answer list \<Rightarrow> int \<Rightarrow> int \<times> int \<times> frame_answer list" where
  "decode_packets [] fs count = (AUDIO_ERROR, count, fs)"
| "decode_packets (Packet_Eof # ps) fs count = (0, count, fs)"
| "decode_packets (Packet_Other # ps) fs count = decode_packets ps fs count"
| "decode_packets (Packet_Sent # ps) fs count =
     (let (code, count, fs) = receive_audio fs count
      in if code \<noteq> 0 then (code, count, fs) else decode_packets ps fs count)"
| "decode_packets (_ # ps) fs count = (AUDIO_ERROR, count, fs)"

text \<open>Flushing the resampler until it produces nothing.\<close>

fun flush_resampler :: "int list \<Rightarrow> int \<Rightarrow> int \<times> int" where
  "flush_resampler [] count = (0, count)"
| "flush_resampler (produced # ps) count =
     (let produced = swr_convert produced (AUDIO_ROOM - count) in
      if produced < 0 then (AUDIO_ERROR, count)
      else if count + produced > MAX_AUDIO_SAMPLES then (LENGTH_ERROR, count + produced)
      else if produced = 0 then (0, count)
      else flush_resampler ps (count + produced))"

record decode_answers =
  o_alloc :: bool
  o_open :: bool
  o_stream :: int
  o_codec :: bool
  o_resampler :: bool
  o_samples :: bool
  o_packets :: "packet_answer list"
  o_drain :: bool
  o_frames :: "frame_answer list"
  o_flush :: "int list"

text \<open>The code, and the sample count on success. Every object is released on the way out.\<close>

definition decode_audio :: "decode_answers \<Rightarrow> int \<times> int" where
  "decode_audio ans =
     (if \<not> o_alloc ans \<or> \<not> o_open ans \<or> o_stream ans < 0 \<or> \<not> o_codec ans \<or> \<not> o_resampler ans \<or> \<not> o_samples ans
      then (AUDIO_ERROR, 0)
      else
        let (code, count, fs) = decode_packets (o_packets ans) (o_frames ans) 0
        in if code \<noteq> 0 then (code, 0)
           else if \<not> o_drain ans then (AUDIO_ERROR, 0)
           else
             let (code, count, fs) = receive_audio fs count
             in if code \<noteq> 0 then (code, 0)
                else
                  let (code, count) = flush_resampler (o_flush ans) count
                  in if code \<noteq> 0 then (code, 0)
                     else if count = 0 then (AUDIO_ERROR, 0) else (0, count))"

section \<open>The buffer is never overrun\<close>

definition in_room :: "int \<times> int \<Rightarrow> bool" where
  "in_room = (\<lambda>(code, count).
     0 \<le> count \<and> count \<le> AUDIO_ROOM \<and> (code = 0 \<longrightarrow> count \<le> MAX_AUDIO_SAMPLES) \<and>
     code \<in> {0, AUDIO_ERROR, LENGTH_ERROR})"

lemma receive_audio_room:
  "0 \<le> count \<Longrightarrow> count \<le> MAX_AUDIO_SAMPLES \<Longrightarrow> receive_audio fs count = (code, count', rest) \<Longrightarrow> in_room (code, count')"
  by (induction fs count rule: receive_audio.induct)
    (auto simp: in_room_def AUDIO_ROOM_def swr_convert_def stt_consts Let_def split: if_splits)

lemma decode_packets_room:
  "0 \<le> count \<Longrightarrow> count \<le> MAX_AUDIO_SAMPLES \<Longrightarrow> decode_packets ps fs count = (code, count', rest) \<Longrightarrow> in_room (code, count')"
proof (induction ps fs count rule: decode_packets.induct)
  case (4 ps fs count)
  obtain c n fs' where r: "receive_audio fs count = (c, n, fs')" by (cases rule: prod_cases3)
  note room = receive_audio_room [OF 4(2,3) r]
  show ?case
  proof (cases "c = 0")
    case True
    then show ?thesis using 4 r room by (auto simp: in_room_def)
  next
    case False
    then show ?thesis using 4(4) r room by simp
  qed
qed (auto simp: in_room_def AUDIO_ROOM_def stt_consts)

lemma flush_resampler_room:
  "0 \<le> count \<Longrightarrow> count \<le> MAX_AUDIO_SAMPLES \<Longrightarrow> in_room (flush_resampler ps count)"
  by (induction ps count rule: flush_resampler.induct)
    (auto simp: in_room_def AUDIO_ROOM_def swr_convert_def stt_consts Let_def)

text \<open>A decoded file has between one sample and the most the recogniser accepts.\<close>

lemma decode_audio_bounds:
  assumes "decode_audio ans = (code, count)"
  shows "code = 0 \<and> 1 \<le> count \<and> count \<le> MAX_AUDIO_SAMPLES \<or> code \<in> {AUDIO_ERROR, LENGTH_ERROR} \<and> count = 0"
proof -
  obtain c1 n1 fs1 where p: "decode_packets (o_packets ans) (o_frames ans) 0 = (c1, n1, fs1)" by (cases rule: prod_cases3)
  have r1: "in_room (c1, n1)" by (rule decode_packets_room [OF _ _ p]) (simp_all add: stt_consts)
  obtain c2 n2 fs2 where q: "receive_audio fs1 n1 = (c2, n2, fs2)" by (cases rule: prod_cases3)
  have r2: "c1 = 0 \<Longrightarrow> in_room (c2, n2)" using receive_audio_room [OF _ _ q] r1 by (simp add: in_room_def)
  obtain c3 n3 where f: "flush_resampler (o_flush ans) n2 = (c3, n3)" by fastforce
  have r3: "c1 = 0 \<Longrightarrow> c2 = 0 \<Longrightarrow> in_room (c3, n3)"
    using flush_resampler_room [of n2 "o_flush ans"] r2 f by (simp add: in_room_def)
  show ?thesis using assms p q f r1 r2 r3
    by (auto simp: decode_audio_def in_room_def stt_consts split: if_splits)
qed

end
