(* ===== verification/Tts.thy ===== *)
theory Tts
  imports Speech_Models
begin

text \<open>
  The speech helper (\<open>app/tts.c\<close>): the choice of each chunk of text that is handed to the voice, the
  argument and input checks of \<open>main\<close>, and its generate-and-queue loop. The voice, SDL and the shared
  memory's writes are answers.
\<close>

section \<open>Chunks\<close>

definition CHUNK_BYTES :: nat where "CHUNK_BYTES = 240"
definition TTS_TEXT_LIMIT :: nat where "TTS_TEXT_LIMIT = 1024 * 1024"
definition TTS_HEADER_BYTES :: nat where "TTS_HEADER_BYTES = 3"

lemmas tts_consts = CHUNK_BYTES_def TTS_TEXT_LIMIT_def TTS_HEADER_BYTES_def

definition ascii_isspace :: "byte \<Rightarrow> bool" where
  "ascii_isspace b \<longleftrightarrow> b = 32 \<or> b = 9 \<or> b = 10 \<or> b = 12 \<or> b = 13"

text \<open>The ideographic full stop, exclamation mark and question mark, in UTF-8.\<close>

definition wide_stop :: "byte list \<Rightarrow> bool" where
  "wide_stop bs \<longleftrightarrow> bs = [0xE3, 0x80, 0x82] \<or> bs = [0xEF, 0xBC, 0x81] \<or> bs = [0xEF, 0xBC, 0x9F]"

definition narrow_stop :: "byte \<Rightarrow> bool" where
  "narrow_stop b \<longleftrightarrow> b = 46 \<or> b = 33 \<or> b = 63"

text \<open>The first loop, for the sentence that ends soonest.\<close>

function sentence_end :: "byte list \<Rightarrow> nat \<Rightarrow> nat option" where
  "sentence_end s i =
     (let n = length s in
      if i + 1 < n \<and> i < CHUNK_BYTES then
        (if i + 3 \<le> n \<and> i + 3 \<le> CHUNK_BYTES \<and> wide_stop (take 3 (drop i s)) then Some (i + 3)
         else if narrow_stop (s ! i) \<and> ascii_isspace (s ! (i + 1)) then Some (i + 1)
         else sentence_end s (i + 1))
      else None)"
  by pat_completeness auto
termination by (relation "measure (\<lambda>(s, i). CHUNK_BYTES - i)") auto

definition continuation :: "byte \<Rightarrow> bool" where
  "continuation b \<longleftrightarrow> b AND 0xC0 = 0x80"

text \<open>\<open>while ((text[n] & 0xc0) == 0x80) --n\<close>; the C text is followed by a NUL.\<close>

fun back_to_character :: "byte list \<Rightarrow> nat \<Rightarrow> nat" where
  "back_to_character s 0 = 0"
| "back_to_character s (Suc n) = (if continuation (s ! Suc n) then back_to_character s n else Suc n)"

fun back_to_space :: "byte list \<Rightarrow> nat \<Rightarrow> nat option" where
  "back_to_space s 0 = None"
| "back_to_space s (Suc i) = (if ascii_isspace (s ! i) then Some (Suc i) else back_to_space s i)"

definition chunk_length :: "byte list \<Rightarrow> nat" where
  "chunk_length s =
     (case sentence_end s 0 of
        Some k \<Rightarrow> k
      | None \<Rightarrow>
          if length s \<le> CHUNK_BYTES then length s
          else
            let n = back_to_character s CHUNK_BYTES
            in (case back_to_space s n of Some i \<Rightarrow> i | None \<Rightarrow> n))"

declare sentence_end.simps [simp del]

section \<open>Cuts of well-formed text\<close>

text \<open>A position of a text is a character boundary when no continuation byte stands there.\<close>

definition boundary :: "byte list \<Rightarrow> nat \<Rightarrow> bool" where
  "boundary s k \<longleftrightarrow> k \<le> length s \<and> (k < length s \<longrightarrow> \<not> continuation (s ! k))"

lemma continuation_nat: "a < 256 \<Longrightarrow> continuation (word_of_nat a) \<longleftrightarrow> 128 \<le> a \<and> a < 192"
proof -
  assume a: "a < 256"
  have "list_all (\<lambda>a. continuation (word_of_nat a) \<longleftrightarrow> 128 \<le> a \<and> a < 192) [0..<256]"
    unfolding continuation_def by code_simp
  then show ?thesis using a by (auto simp: list_all_iff)
qed

lemma encode_continuation:
  assumes "scalar_value c"
  shows "\<not> continuation (utf8_encode c ! 0) \<and> list_all continuation (tl (utf8_encode c))"
  using assms
proof (cases rule: utf8_encode_cases)
  case one
  then show ?thesis by (simp add: continuation_nat)
next
  case two
  have "c div 64 < 32" using two by simp
  then show ?thesis unfolding two(3) by (simp add: continuation_nat del: of_nat_add)
next
  case three
  have "c div 4096 < 16" using three by simp
  then show ?thesis unfolding three(3) by (simp add: continuation_nat del: of_nat_add)
next
  case four
  have "c div 262144 < 5" using four by simp
  then show ?thesis unfolding four(3) by (simp add: continuation_nat del: of_nat_add)
qed

text \<open>The length of a character is told by its first byte.\<close>

lemma encode_length:
  assumes "scalar_value c" "utf8_encode c ! 0 = b"
  shows "length (utf8_encode c) = (if unat b < 128 then 1 else if unat b < 224 then 2 else if unat b < 240 then 3 else 4)"
  using assms(1)
proof (cases rule: utf8_encode_cases)
  case one
  then show ?thesis using assms(2) by auto
next
  case two
  have "c div 64 < 32" using two by simp
  then have "unat b = 192 + c div 64" using two assms(2) unfolding two(3) by (auto simp del: of_nat_add)
  then show ?thesis using \<open>c div 64 < 32\<close> by (simp add: two(3))
next
  case three
  have "c div 4096 < 16" using three by simp
  then have "unat b = 224 + c div 4096" using three assms(2) unfolding three(3) by (auto simp del: of_nat_add)
  then show ?thesis using \<open>c div 4096 < 16\<close> by (simp add: three(3))
next
  case four
  have "c div 262144 < 5" using four by simp
  then have "unat b = 240 + c div 262144" using four assms(2) unfolding four(3) by (auto simp del: of_nat_add)
  then show ?thesis using \<open>c div 262144 < 5\<close> by (simp add: four(3))
qed

lemma nth_tl_all: "list_all P (tl xs) \<Longrightarrow> 0 < k \<Longrightarrow> k < length xs \<Longrightarrow> P (xs ! k)"
  by (cases xs; cases k) (auto simp: list_all_length)

lemma boundary_split:
  "list_all scalar_value cs \<Longrightarrow> boundary (utf8 cs) k \<Longrightarrow>
   \<exists>ds es. cs = ds @ es \<and> take k (utf8 cs) = utf8 ds \<and> drop k (utf8 cs) = utf8 es"
proof (induction cs arbitrary: k)
  case Nil
  then show ?case by simp
next
  case (Cons c cs)
  let ?e = "utf8_encode c"
  show ?case
  proof (cases "length ?e \<le> k")
    case True
    have "boundary (utf8 cs) (k - length ?e)" using Cons.prems(2) True by (auto simp: boundary_def nth_append)
    then obtain ds es where "cs = ds @ es" "take (k - length ?e) (utf8 cs) = utf8 ds" "drop (k - length ?e) (utf8 cs) = utf8 es"
      using Cons.IH [of "k - length ?e"] Cons.prems(1) by auto
    then show ?thesis using True by (intro exI [of _ "c # ds"] exI [of _ es]) simp
  next
    case False
    have "k = 0"
    proof (rule ccontr)
      assume "k \<noteq> 0"
      then have "continuation (?e ! k)"
        using nth_tl_all [of continuation ?e k] encode_continuation [of c] Cons.prems(1) False by simp
      then show False using Cons.prems(2) False by (auto simp: boundary_def nth_append)
    qed
    then show ?thesis by (intro exI [of _ "[]"] exI [of _ "c # cs"]) simp
  qed
qed

text \<open>The character at a boundary, and the boundary after it.\<close>

lemma boundary_start: "list_all scalar_value cs \<Longrightarrow> boundary (utf8 cs) 0"
  using encode_continuation by (cases cs) (auto simp: boundary_def nth_append)

lemma boundary_next:
  assumes "list_all scalar_value cs" "boundary (utf8 cs) k" "k < length (utf8 cs)"
  shows "boundary (utf8 cs) (k + (let b = utf8 cs ! k in
    if unat b < 128 then 1 else if unat b < 224 then 2 else if unat b < 240 then 3 else 4))"
proof -
  obtain ds es where d: "cs = ds @ es" "take k (utf8 cs) = utf8 ds" "drop k (utf8 cs) = utf8 es"
    using boundary_split [OF assms(1,2)] by blast
  obtain c fs where es: "es = c # fs" using d(3) assms(3) by (cases es) auto
  have c: "scalar_value c" "list_all scalar_value fs" using assms(1) d(1) es by auto
  have b: "utf8_encode c ! 0 = utf8 cs ! k"
    using arg_cong [OF d(3), of "\<lambda>xs. xs ! 0"] assms(3) by (simp add: es nth_append)
  define a where "a = take k (utf8 cs)"
  have whole: "utf8 cs = a @ utf8_encode c @ utf8 fs"
    unfolding a_def using d(3) es by (metis append_take_drop_id utf8_Cons)
  have "length a = k" using assms(3) by (simp add: a_def)
  then have "boundary (utf8 cs) (k + length (utf8_encode c))"
    using boundary_start [OF c(2)] unfolding whole by (auto simp: boundary_def nth_append)
  then show ?thesis using encode_length [OF c(1) b] by (simp add: Let_def)
qed

text \<open>The last boundary at or before a position is at most three bytes away.\<close>

lemma boundary_before:
  "list_all scalar_value cs \<Longrightarrow> k < length (utf8 cs) \<Longrightarrow> \<exists>j. boundary (utf8 cs) j \<and> j \<le> k \<and> k < j + 4"
proof (induction cs arbitrary: k)
  case Nil
  then show ?case by simp
next
  case (Cons c cs)
  let ?e = "utf8_encode c"
  have l: "length ?e \<le> 4" by (simp add: utf8_encode_def utf8_units_def)
  show ?case
  proof (cases "length ?e \<le> k")
    case True
    then have "k - length ?e < length (utf8 cs)" using Cons.prems(2) by simp
    then obtain j where j: "boundary (utf8 cs) j" "j \<le> k - length ?e" "k - length ?e < j + 4"
      using Cons.IH [of "k - length ?e"] Cons.prems(1) by auto
    have "boundary (utf8 (c # cs)) (j + length ?e)" using j(1) by (auto simp: boundary_def nth_append)
    then show ?thesis using j True by (intro exI [of _ "j + length ?e"]) auto
  next
    case False
    then show ?thesis using boundary_start [OF Cons.prems(1)] l by (intro exI [of _ 0]) auto
  qed
qed

section \<open>Every chunk is a piece of text\<close>

lemma sentence_end_cases:
  assumes "sentence_end s i = Some k"
  obtains j where "i \<le> j" "j + 1 < length s" "j < CHUNK_BYTES"
    "k = j + 3 \<and> j + 3 \<le> length s \<and> j + 3 \<le> CHUNK_BYTES \<and> wide_stop (take 3 (drop j s)) \<or>
     k = j + 1 \<and> narrow_stop (s ! j)"
  using assms
proof (induction s i rule: sentence_end.induct)
  case (1 s i)
  note found = 1(2)
  show ?case
  proof (cases "i + 1 < length s \<and> i < CHUNK_BYTES")
    case False
    then show ?thesis using 1(3) by (subst (asm) sentence_end.simps) (auto simp: Let_def split: if_splits)
  next
    case True
    consider "k = i + 3 \<and> i + 3 \<le> length s \<and> i + 3 \<le> CHUNK_BYTES \<and> wide_stop (take 3 (drop i s)) \<or> k = i + 1 \<and> narrow_stop (s ! i)"
      | "\<not> (i + 3 \<le> length s \<and> i + 3 \<le> CHUNK_BYTES \<and> wide_stop (take 3 (drop i s)))"
        "\<not> (narrow_stop (s ! i) \<and> ascii_isspace (s ! (i + 1)))" "sentence_end s (i + 1) = Some k"
      using 1(3) True by (subst (asm) sentence_end.simps) (auto simp: Let_def split: if_splits)
    then show ?thesis
    proof cases
      case 1
      then show ?thesis using True found [of i] by auto
    next
      case 2
      show ?thesis
      proof (rule "1.IH" [OF refl True 2(1,2) _ 2(3)])
        fix j
        assume "i + 1 \<le> j" "j + 1 < length s" "j < CHUNK_BYTES"
          "k = j + 3 \<and> j + 3 \<le> length s \<and> j + 3 \<le> CHUNK_BYTES \<and> wide_stop (take 3 (drop j s)) \<or>
           k = j + 1 \<and> narrow_stop (s ! j)"
        then show thesis by (intro found [of j]) simp_all
      qed
    qed
  qed
qed

lemma sentence_end_ok:
  assumes cs: "list_all scalar_value cs" and e: "sentence_end (utf8 cs) 0 = Some k"
  shows "0 < k \<and> k \<le> CHUNK_BYTES \<and> boundary (utf8 cs) k"
proof -
  obtain j where j: "j + 1 < length (utf8 cs)" "j < CHUNK_BYTES"
    and stop: "k = j + 3 \<and> j + 3 \<le> length (utf8 cs) \<and> j + 3 \<le> CHUNK_BYTES \<and> wide_stop (take 3 (drop j (utf8 cs))) \<or>
     k = j + 1 \<and> narrow_stop (utf8 cs ! j)"
    by (rule sentence_end_cases [OF e])
  have first: "utf8 cs ! j = 0xE3 \<or> utf8 cs ! j = 0xEF" if "wide_stop (take 3 (drop j (utf8 cs)))"
  proof -
    have "take 3 (drop j (utf8 cs)) ! 0 = 0xE3 \<or> take 3 (drop j (utf8 cs)) ! 0 = 0xEF"
      using that unfolding wide_stop_def by (elim disjE) (simp_all only: nth_Cons_0, simp_all)
    then show ?thesis using j by simp
  qed
  have b: "\<not> continuation (utf8 cs ! j) \<and> k = j + (let b = utf8 cs ! j in
      if unat b < 128 then 1 else if unat b < 224 then 2 else if unat b < 240 then 3 else 4)"
    using stop
  proof (elim disjE conjE)
    assume "wide_stop (take 3 (drop j (utf8 cs)))" "k = j + 3"
    then show ?thesis using first by (auto simp: continuation_def Let_def)
  next
    assume "narrow_stop (utf8 cs ! j)" "k = j + 1"
    then show ?thesis by (auto simp: narrow_stop_def continuation_def Let_def)
  qed
  then have "boundary (utf8 cs) j" using j by (simp add: boundary_def)
  from boundary_next [OF cs this] b j have "boundary (utf8 cs) k" by simp
  then show ?thesis using stop j by auto
qed

lemma back_to_character_ok:
  "boundary s j \<Longrightarrow> j \<le> k \<Longrightarrow> k < length s \<Longrightarrow>
   j \<le> back_to_character s k \<and> back_to_character s k \<le> k \<and> boundary s (back_to_character s k)"
proof (induction k)
  case 0
  then show ?case by simp
next
  case (Suc k)
  show ?case
  proof (cases "continuation (s ! Suc k)")
    case True
    then have "j \<noteq> Suc k" using Suc.prems by (auto simp: boundary_def)
    then show ?thesis using True Suc by simp
  next
    case False
    then show ?thesis using Suc.prems by (simp add: boundary_def)
  qed
qed

lemma back_to_space_ok:
  "back_to_space s n = Some i \<Longrightarrow> 0 < i \<and> i \<le> n \<and> ascii_isspace (s ! (i - 1))"
  by (induction n) (auto split: if_splits)

text \<open>A chunk is never empty, never longer than the bound, and never splits a character.\<close>

lemma chunk_length_ok:
  assumes cs: "list_all scalar_value cs" and ne: "utf8 cs \<noteq> []"
  shows "0 < chunk_length (utf8 cs) \<and> chunk_length (utf8 cs) \<le> CHUNK_BYTES \<and>
    boundary (utf8 cs) (chunk_length (utf8 cs))"
proof (cases "sentence_end (utf8 cs) 0")
  case (Some k)
  then show ?thesis using sentence_end_ok [OF cs Some] by (simp add: chunk_length_def)
next
  case None
  show ?thesis
  proof (cases "length (utf8 cs) \<le> CHUNK_BYTES")
    case True
    then show ?thesis using None ne by (simp add: chunk_length_def boundary_def)
  next
    case False
    then obtain j where j: "boundary (utf8 cs) j" "j \<le> CHUNK_BYTES" "CHUNK_BYTES < j + 4"
      using boundary_before [OF cs, of CHUNK_BYTES] by auto
    let ?n = "back_to_character (utf8 cs) CHUNK_BYTES"
    have n: "j \<le> ?n" "?n \<le> CHUNK_BYTES" "boundary (utf8 cs) ?n"
      using back_to_character_ok [OF j(1,2)] False by simp_all
    show ?thesis
    proof (cases "back_to_space (utf8 cs) ?n")
      case None
      then show ?thesis using \<open>sentence_end (utf8 cs) 0 = None\<close> False n j
        by (simp add: chunk_length_def Let_def CHUNK_BYTES_def)
    next
      case (Some i)
      note i = back_to_space_ok [OF Some]
      then have lt: "i - 1 < length (utf8 cs)" using n False by linarith
      have sp: "\<not> continuation (utf8 cs ! (i - 1))" "unat (utf8 cs ! (i - 1)) < 128"
        using i by (auto simp: ascii_isspace_def continuation_def)
      then have "boundary (utf8 cs) (i - 1)" using lt by (simp add: boundary_def)
      from boundary_next [OF cs this lt] sp have "boundary (utf8 cs) (i - 1 + 1)" by (simp add: Let_def)
      then show ?thesis using i n Some False \<open>sentence_end (utf8 cs) 0 = None\<close>
        by (simp add: chunk_length_def Let_def)
    qed
  qed
qed

section \<open>Speaking\<close>

text \<open>What one chunk meets: the bytes queued before it, the generated audio (samples and rate; None for
  none), whether it could be queued, and what the queue length is then seen to be, time after time.\<close>

record speak_answer =
  k_queued :: int
  k_audio :: "(int \<times> int) option"
  k_put :: bool
  k_pending :: "int list"

text \<open>Waiting while the queue is longer than the bound; without further answers it has drained to it.\<close>

fun wait_queue :: "int list \<Rightarrow> int \<Rightarrow> int" where
  "wait_queue [] bound = bound"
| "wait_queue (p # ps) bound = (if p > bound then wait_queue ps bound else p)"

definition GENERATE_ERROR :: int where "GENERATE_ERROR = 2"
definition TTS_AUDIO_ERROR :: int where "TTS_AUDIO_ERROR = 3"
definition TTS_DOWNLOAD_ERROR :: int where "TTS_DOWNLOAD_ERROR = 1"

text \<open>
  The loop over the text: the result, the chunks that were given to the voice and the status bytes that
  were published. None means that the fuel did not suffice.
\<close>

fun speak :: "nat \<Rightarrow> int \<Rightarrow> speak_answer list \<Rightarrow> byte list \<Rightarrow> (int \<times> byte list list \<times> byte list) option" where
  "speak 0 freq as s = None"
| "speak (Suc fuel) freq as s =
     (let s = dropWhile ascii_isspace s in
      if s = [] then Some (0, [], [])
      else
        let n = chunk_length s;
            a = (case as of [] \<Rightarrow> \<lparr>k_queued = 0, k_audio = None, k_put = False, k_pending = []\<rparr> | a # as \<Rightarrow> a);
            chunk = take n s;
            begin_status = (if k_queued a = 0 then [71] else [])
        in (case k_audio a of
              None \<Rightarrow> Some (GENERATE_ERROR, [chunk], begin_status)
            | Some (samples, rate) \<Rightarrow>
                if \<not> (rate = freq \<and> samples > 0 \<and> k_put a) then Some (TTS_AUDIO_ERROR, [chunk], begin_status)
                else
                  let pending = wait_queue (k_pending a) (samples * 4)
                  in if pending < 0 then Some (TTS_AUDIO_ERROR, [chunk], begin_status @ [80])
                     else
                       (case speak fuel freq (drop 1 as) (drop n s) of
                          None \<Rightarrow> None
                        | Some (result, chunks, states) \<Rightarrow>
                            Some (result, chunk # chunks, begin_status @ [80] @ states))))"

text \<open>The chunks are consecutive pieces of the text, with white space left out between them.\<close>

fun said :: "byte list list \<Rightarrow> byte list \<Rightarrow> byte list \<Rightarrow> bool" where
  "said [] s rest = (s = rest)"
| "said (c # cs) s rest = (\<exists>w r. s = w @ c @ r \<and> list_all ascii_isspace w \<and> said cs r rest)"

definition good_chunk :: "byte list \<Rightarrow> bool" where
  "good_chunk c \<longleftrightarrow> c \<noteq> [] \<and> length c \<le> CHUNK_BYTES \<and> (\<exists>cs. list_all scalar_value cs \<and> c = utf8 cs)"

lemma dropWhile_text:
  assumes "list_all scalar_value cs"
  shows "\<exists>ds. list_all scalar_value ds \<and> dropWhile ascii_isspace (utf8 cs) = utf8 ds"
  using assms
proof (induction cs)
  case Nil
  show ?case by (rule exI [of _ "[]"]) simp
next
  case (Cons c cs)
  show ?case
  proof (cases "ascii_isspace (utf8_encode c ! 0)")
    case True
    then have "unat (utf8_encode c ! 0) < 128" by (auto simp: ascii_isspace_def)
    then have "length (utf8_encode c) = 1" using encode_length [of c] Cons.prems by simp
    then obtain b where "utf8_encode c = [b]" by (auto simp: length_Suc_conv)
    then show ?thesis using True Cons by simp
  next
    case False
    obtain b r where "utf8_encode c = b # r" by (cases "utf8_encode c") simp_all
    then have "dropWhile ascii_isspace (utf8 (c # cs)) = utf8 (c # cs)" using False by simp
    then show ?thesis using Cons.prems by blast
  qed
qed

text \<open>As many rounds as the text has bytes are enough: every round consumes at least one.\<close>

lemma speak_terminates:
  "list_all scalar_value cs \<Longrightarrow> length (utf8 cs) < fuel \<Longrightarrow> speak fuel freq as (utf8 cs) \<noteq> None"
proof (induction fuel arbitrary: as cs)
  case 0
  then show ?case by simp
next
  case (Suc fuel)
  obtain ds where ds: "list_all scalar_value ds" "dropWhile ascii_isspace (utf8 cs) = utf8 ds"
    using dropWhile_text [OF Suc.prems(1)] by blast
  show ?case
  proof (cases "utf8 ds = []")
    case True
    then show ?thesis using ds by simp
  next
    case False
    let ?n = "chunk_length (utf8 ds)"
    note n = chunk_length_ok [OF ds(1) False]
    obtain xs es where x: "ds = xs @ es" "drop ?n (utf8 ds) = utf8 es"
      using boundary_split [OF ds(1)] n by blast
    have "length (utf8 ds) \<le> length (utf8 cs)"
      unfolding ds(2) [symmetric] by (rule length_dropWhile_le)
    moreover have "length (utf8 es) < length (utf8 ds)" unfolding x(2) [symmetric] using n False by simp
    ultimately have "speak fuel freq (drop 1 as) (utf8 es) \<noteq> None"
      using Suc.IH [of es] Suc.prems(2) ds(1) x(1) by simp
    then obtain r where "speak fuel freq (drop 1 as) (utf8 es) = Some r" by blast
    then show ?thesis using False ds(2) x(2) by (simp add: Let_def split: option.splits prod.splits)
  qed
qed

lemma speak_text:
  "list_all scalar_value cs \<Longrightarrow> speak fuel freq as (utf8 cs) = Some (result, chunks, states) \<Longrightarrow>
   list_all good_chunk chunks \<and> (\<exists>rest. said chunks (utf8 cs) rest \<and> (result = 0 \<longrightarrow> list_all ascii_isspace rest)) \<and>
   result \<in> {0, GENERATE_ERROR, TTS_AUDIO_ERROR}"
proof (induction fuel arbitrary: as cs chunks states)
  case 0
  then show ?case by simp
next
  case (Suc fuel)
  obtain ds where ds: "list_all scalar_value ds" "dropWhile ascii_isspace (utf8 cs) = utf8 ds"
    using dropWhile_text [OF Suc.prems(1)] by blast
  define w where "w = takeWhile ascii_isspace (utf8 cs)"
  have w: "utf8 cs = w @ utf8 ds" "list_all ascii_isspace w"
    using takeWhile_dropWhile_id [of ascii_isspace "utf8 cs"] ds(2)
    by (auto simp: w_def list_all_iff dest: set_takeWhileD)
  show ?case
  proof (cases "utf8 ds = []")
    case True
    then show ?thesis using Suc.prems(2) ds w by auto
  next
    case False
    let ?n = "chunk_length (utf8 ds)"
    note n = chunk_length_ok [OF ds(1) False]
    obtain xs es where x: "ds = xs @ es" "take ?n (utf8 ds) = utf8 xs" "drop ?n (utf8 ds) = utf8 es"
      using boundary_split [OF ds(1)] n by blast
    have xs: "list_all scalar_value xs" "list_all scalar_value es" using ds(1) x(1) by simp_all
    have "take ?n (utf8 ds) \<noteq> []" "length (take ?n (utf8 ds)) \<le> CHUNK_BYTES" using n False by (auto simp: min_def)
    then have good: "good_chunk (utf8 xs)" using xs(1) unfolding good_chunk_def x(2) by auto
    have split: "utf8 ds = utf8 xs @ utf8 es" using append_take_drop_id [of ?n "utf8 ds"] unfolding x(2,3) by simp
    have one: "said [utf8 xs] (utf8 cs) (utf8 es)" using w split by auto
    consider "chunks = [utf8 xs]" "result = GENERATE_ERROR \<or> result = TTS_AUDIO_ERROR"
      | cs' states' where "chunks = utf8 xs # cs'" "speak fuel freq (drop 1 as) (utf8 es) = Some (result, cs', states')"
      using Suc.prems(2) ds(2) False x(2,3)
      by (auto simp: Let_def split: option.splits prod.splits if_splits)
    then show ?thesis
    proof cases
      case 1
      then show ?thesis using good one by (auto simp: GENERATE_ERROR_def TTS_AUDIO_ERROR_def)
    next
      case (2 cs' states')
      from Suc.IH [OF xs(2) 2(2)] obtain rest where r: "said cs' (utf8 es) rest"
        "result = 0 \<longrightarrow> list_all ascii_isspace rest" "list_all good_chunk cs'" "result \<in> {0, GENERATE_ERROR, TTS_AUDIO_ERROR}"
        by blast
      have "said chunks (utf8 cs) rest" using r(1) w split 2(1) by auto
      then show ?thesis using r good 2(1) by auto
    qed
  qed
qed

section \<open>\<open>main\<close>\<close>

record tts_env =
  y_guard :: bool
  y_silence :: bool
  y_ipc :: "byte list option"
  y_curl :: bool
  y_mkdir :: bool
  y_lock :: bool
  y_ensure :: "ensure_answers list"
  y_load :: bool
  y_sdl :: bool
  y_freq :: int
  y_speak :: "speak_answer list"
  y_drain :: "int list"

record tts_args =
  z_cache :: cstring
  z_voice :: cstring
  z_language :: cstring
  z_size :: nat

definition tts_known :: "string list \<Rightarrow> cstring \<Rightarrow> bool" where
  "tts_known known a = list_ex (\<lambda>v. a = ascii v) known"

text \<open>\<open>g_utf8_validate\<close> is \<open>proxy_scan\<close>, as in the dictation helper.\<close>

definition tts_text :: "tts_env \<Rightarrow> tts_args \<Rightarrow> byte list option" where
  "tts_text env args =
     (case wn_ipc_read (y_ipc env) (z_size args - TTS_HEADER_BYTES) TTS_HEADER_BYTES of
        None \<Rightarrow> None
      | Some t \<Rightarrow> if 0 \<in> set t \<or> \<not> proxy_scan t then None else Some t)"

text \<open>The exit code, the chunks that were spoken and the cache; None if the loop does not end.\<close>

definition tts_main ::
  "(byte list \<Rightarrow> byte list) \<Rightarrow> nat \<Rightarrow> tts_env \<Rightarrow> tts_args \<Rightarrow> (cstring \<Rightarrow> byte list option) \<Rightarrow>
   (int \<times> byte list list \<times> (cstring \<Rightarrow> byte list option)) option" where
  "tts_main sha256 argc env args fs =
     (if argc \<noteq> 7 \<or> \<not> y_guard env \<or> \<not> y_silence env then Some (GENERATE_ERROR, [], fs)
      else if z_size args \<le> TTS_HEADER_BYTES \<or> z_size args > TTS_TEXT_LIMIT + TTS_HEADER_BYTES \<or>
              y_ipc env = None \<or> length (the (y_ipc env)) \<noteq> z_size args
      then Some (GENERATE_ERROR, [], fs)
      else if \<not> tts_known tts_languages (z_language args) \<or> \<not> tts_known tts_voices (z_voice args)
      then Some (GENERATE_ERROR, [], fs)
      else
        (case tts_text env args of
           None \<Rightarrow> Some (GENERATE_ERROR, [], fs)
         | Some t \<Rightarrow>
             if \<not> y_curl env \<or> \<not> y_mkdir env \<or> \<not> y_lock env then Some (TTS_DOWNLOAD_ERROR, [], fs)
             else
               let (ok, fs, updates) = ensure_models sha256 (y_ensure env) (z_cache args) 0 tts_models fs
               in if \<not> ok then Some (TTS_DOWNLOAD_ERROR, [], fs)
                  else if \<not> y_load env then Some (GENERATE_ERROR, [], fs)
                  else if \<not> y_sdl env then Some (TTS_AUDIO_ERROR, [], fs)
                  else
                    (case speak (Suc (length t)) (y_freq env) (y_speak env) t of
                       None \<Rightarrow> None
                     | Some (result, chunks, states) \<Rightarrow>
                         let drained = wait_queue (y_drain env) 0
                         in Some (if result = 0 \<and> drained < 0 then TTS_AUDIO_ERROR else result, chunks, fs))))"


end
