(* ===== verification/Spec2Isabelle.thy ===== *)
theory Spec2Isabelle
  imports Archive_Helper Tool_Dialog Sandbox_Policy Ws_Query Update_Session Location Fbx_Helper Speech_Decode Tts
begin

text \<open>
  The C core of whitenoise-linux.

  \<^bold>\<open>The program.\<close> The messenger's interface is written in Odin; everything that must be confined, that reads
  untrusted data or that talks to the desktop is C under \<open>app/\<close>. The main process prepares a sandbox
  (\<open>main_sandbox.c\<close>) and gives up its authority before it touches the network. What it may no longer do is done
  by processes it started earlier or is allowed to start: a broker that launches the decoder and helper
  programs (\<open>helper_broker.c\<close>), a broker that runs the desktop's tools (\<open>tool_broker.c\<close>), and one-shot helpers
  for pictures, pages, archives, models, speech, dictation and the location. The client side of the decoders is
  \<open>decoder_ipc.c\<close>, which speaks a small binary protocol over a socket pair; the speech helpers share memory with
  the application (\<open>helper_ipc.c\<close>). Two libraries run inside the main process: the websocket client
  (\<open>ws_shim.c\<close>) and the client of the AppImage updater (\<open>appimage_update_client.c\<close>).

  \<^bold>\<open>Theories and sources.\<close> Definitions keep the names of the C functions; a record field carries a prefix of its
  struct, and a loop or a phase of a long function is a definition of its own, named after what it does.
  \<^item> \<open>Prelude\<close>: machine types, buffers, the interfaces. \<open>Wire\<close>: \<open>decoder_ipc.h\<close>.
  \<^item> Decoder transport (\<open>decoder_ipc.c\<close>): \<open>Decoder_Reply\<close> (the reply state machine), \<open>Decoder_Transfer\<close> (the
    transfer loop), \<open>Decoder_Process\<close> (descriptors and the child process), \<open>Decoder_Client\<close> (the public calls
    and the model session).
  \<^item> Its peers: \<open>Image_Helpers\<close> (\<open>image.c\<close>, \<open>pdf.c\<close>), \<open>Archive_Helper\<close> (\<open>archive.c\<close>), \<open>Fbx_Writer\<close> and
    \<open>Fbx_Helper\<close> (\<open>fbx_helper.c\<close>, \<open>fbx_shim.h\<close>).
  \<^item> Helper broker (\<open>helper_broker.c\<close>): \<open>Frames\<close>, \<open>Helper_Request\<close> (what it authorises), \<open>Broker_Channel\<close> (how
    descriptors travel), \<open>Broker_Io\<close> (transfers), \<open>Helper_Serve\<close> (one job), \<open>Helper_Launcher\<close> (the launcher, its
    start and stop, the proxy).
  \<^item> Tool broker (\<open>tool_broker.c\<close>): \<open>Tool_Request\<close>, \<open>Tool_Broker\<close>, \<open>Tool_Dialog\<close>.
  \<^item> Main sandbox (\<open>main_sandbox.c\<close>): \<open>Sandbox_Trust\<close> (paths and trusted routes), \<open>Sandbox_Rules\<close> (the rule
    table), \<open>Sandbox_Config\<close> (user directories, the bus address, the display), \<open>Sandbox_Authority\<close> (the private
    home), \<open>Sandbox_Prepare\<close>, \<open>Sandbox_Policy\<close> (the calls that enter it); \<open>Sandbox_Sample\<close> is a concrete desktop.
  \<^item> Websocket client (\<open>ws_shim.c\<close>): \<open>Ws_Frames\<close>, \<open>Ws_Query\<close>. Proxy settings (\<open>proxy_credentials.h\<close>,
    \<open>network_proxy.h\<close>): \<open>Utf8\<close>, \<open>Network_Proxy\<close>.
  \<^item> AppImage updater (\<open>appimage_update_policy.h\<close>, \<open>appimage_update_directory.h\<close>, \<open>appimage_update_client.c\<close>):
    \<open>Update_Policy\<close>, \<open>Update_Stage\<close> (the workspace), \<open>Update_Client\<close> (the two threads), \<open>Update_Threads\<close>,
    \<open>Update_Descriptors\<close> and \<open>Update_Session\<close> (what holds under every interleaving).
  \<^item> Speech: \<open>Helper_Ipc\<close> (\<open>helper_ipc.c\<close>), \<open>Model_Download\<close> (\<open>speech_download.h\<close>), \<open>Speech_Models\<close>
    (\<open>stt_models.h\<close>, \<open>tts_models.h\<close>), \<open>Speech_Decode\<close> (\<open>speech_decode.h\<close>), \<open>Stt\<close> (\<open>stt.c\<close>), \<open>Tts\<close> (\<open>tts.c\<close>).
  \<^item> \<open>Location\<close>: \<open>location.c\<close>.

  \<^bold>\<open>State and effects.\<close> A struct is a record, an enum a datatype; a machine integer whose width matters is a word,
  an \<open>int\<close> that is range-checked before use is an \<open>int\<close>, and bytes are 8-bit words. System and library calls are
  answers: a function takes the list or record of what the kernel or the library replies and returns its
  result together with the trace of its effects, so that a theorem quantifies over everything the outside may
  do. Where the order of events is not the program's (the updater's threads, the writers of the shared word,
  the callbacks of the location helper), the model is a step relation or a schedule of atomic steps.

  \<^bold>\<open>What the lemmas show.\<close>
  \<^item> Transport: a success means a whole request, exactly one valid reply and a reaped helper; every buffer slice
    is in bounds; the loop ends by its deadline and a cooperating helper is served; replies of a session are
    never confused; descriptors and children are released exactly once.
  \<^item> Helpers: what \<open>pdf.c\<close>, \<open>archive.c\<close> and \<open>fbx_helper.c\<close> print is what the client's parser accepts; a listing
    parses back to the archive's regular files.
  \<^item> Brokers: packing and parsing a request are inverse; only frozen executables and installed tools run, with
    the arguments and the environment their kind allows; descriptors travel unharmed and none leaks; output is
    bounded and arrives complete.
  \<^item> Sandbox: a path found trusted is resolved by the kernel through inodes only root controls; the prepared
    rules are well formed and their writable and trusted trees are apart; a confined tool runs only itself;
    authority files are copied completely or not at all, and the cleanup is complete or reports an error.
  \<^item> Network: a message in any fragments is received as it was sent, a query stays within its buffer, the
    credential check accepts exactly well-formed UTF-8.
  \<^item> Updater: the version comparison is the order of releases; under every interleaving the helper process is
    reaped once and handed over only when announced and confirmed, and stopping ends and leaves nothing behind.
  \<^item> Speech and location: the shared word is linearizable, the committed transcript is never torn, the spoken
    chunks are the text, only verified models are loaded, coordinates are printed only with permission.

  \<^bold>\<open>Interfaces.\<close> Five locales of \<open>Prelude\<close> state what several components rely on: \<open>codec\<close> (fixed-width fields;
  the wire integers and the three request and response structs), \<open>item_codec\<close> (delimited items; the packed
  argument strings), \<open>chunk_sink\<close> (a consumer to which the splitting into chunks is invisible; libcurl's write
  callback), \<open>exact_reader\<close> (whole reads; the brokers, standard input, the websocket) and \<open>guarded_machine\<close> (steps
  that fail or keep an invariant; the transfer loop, the freezing of helpers and tools, the rule table, the bus
  address). Each is interpreted on the code's own definitions, in the theory that provides them.

  \<^bold>\<open>Bounds and fuel.\<close> Loops over the answers of the outside recurse on the list of answers and yield None when it
  runs out before the code returns; the liveness theorems show that they do return. The doubling loop of the
  archive helper has fuel 32, which takes any non-zero 32-bit capacity past every limit. The speech loop has
  one unit more than the text has bytes, since every chunk is non-empty (property C27 includes that it ends).
  The walk along symbolic links recurses on the 40 expansions the code allows and the length of the path. The
  limits 128 for jobs and for rules, 100 MiB for recorded audio, 240 bytes for a chunk and the others are
  those of the code. Stopping the updater takes at most 13 steps of its worker.

  \<^bold>\<open>Not modelled.\<close> The Odin interface and decoders, the C++ and Objective-C programs, and the Windows, Apple and
  OpenBSD variants of the C code. \<open>fbx_shim.c\<close>, \<open>webview.c\<close>, \<open>font.c\<close> and \<open>timestamp.c\<close> are glue to the model,
  browser, font and time zone libraries; the results of \<open>fbx_shim.c\<close> are a parameter of \<open>Fbx_Helper\<close>. Signal
  set-up and resource limits of the brokers' processes are not modelled, nor are libcurl's options other than
  the proxy and the addresses, debug output, and the configuration records of the speech engines. Allocation
  failure is an answer where the code handles it. Bytes in shared memory are ordered as the code's release and
  acquire operations order them: the interleavings are those of atomic steps.
\<close>

end
